(* ===== verification/Chuck_Prelude.thy ===== *)
theory Chuck_Prelude
  imports Main "HOL-Library.Word"
begin

text \<open>
  Shared vocabulary of the development.

  \<^item> Names for the C integer types: unsigned types are machine words, so that every
    increment and cast wraps the way the compiled code wraps. The signed counters of the
    firmware are mathematical integers; their components prove the bounds that make signed
    overflow impossible.
  \<^item> \<open>run_out\<close> and \<open>run_state\<close>: a C function with static variables is a step
    function from the statics and the call's inputs to a result and the new statics. These
    two run such a function over a sequence of calls.
  \<^item> The interface locales that several components share: \<open>input_machine\<close> (an
    invariant of the statics), \<open>press_counter\<close> and \<open>debounce\<close> (a counter that turns a
    sampled level into an event), \<open>tick_timer\<close> (a counter that reports the end of a
    fixed number of calls).
\<close>

unbundle bit_operations_syntax

type_synonym u8 = "8 word"
type_synonym u16 = "16 word"
type_synonym u32 = "32 word"
type_synonym u64 = "64 word"

named_theorems stepping "equations that run a step function over a list of calls"
named_theorems inv_intro "preservation of a component's invariant by one of its operations"

subsection \<open>Arithmetic of C\<close>

text \<open>C's integer division truncates towards zero.\<close>

definition c_div :: "int \<Rightarrow> int \<Rightarrow> int" where
  "c_div a b = sgn a * sgn b * (\<bar>a\<bar> div \<bar>b\<bar>)"

lemma c_div_nonneg: "0 \<le> a \<Longrightarrow> 0 < b \<Longrightarrow> c_div a b = a div b"
  by (cases "a = 0") (auto simp: c_div_def)

lemma c_div_neg: "a < 0 \<Longrightarrow> 0 < b \<Longrightarrow> c_div a b = - ((- a) div b)"
  by (auto simp: c_div_def)

text \<open>Truncation never leaves a symmetric interval around zero.\<close>

lemma c_div_bound:
  assumes "0 < b" and "\<bar>a\<bar> \<le> b * m"
  shows "\<bar>c_div a b\<bar> \<le> m"
proof -
  have "\<bar>a\<bar> div b \<le> m"
    using zdiv_mono1 [OF assms(2,1)] assms(1) by simp
  moreover have "0 \<le> \<bar>a\<bar> div b"
    using assms(1) by (simp add: pos_imp_zdiv_nonneg_iff)
  ultimately show ?thesis
    using assms(1) by (cases "0 \<le> a") (auto simp: c_div_nonneg c_div_neg)
qed

text \<open>The ranges of the signed types.\<close>

definition int16 :: "int \<Rightarrow> bool" where "int16 v \<longleftrightarrow> - 32768 \<le> v \<and> v \<le> 32767"
definition int32 :: "int \<Rightarrow> bool" where "int32 v \<longleftrightarrow> - 2147483648 \<le> v \<and> v \<le> 2147483647"

lemma sint_of_int32 [simp]: "int32 v \<Longrightarrow> sint (word_of_int v :: u32) = v"
  by (simp add: int32_def signed_of_int signed_take_bit_int_eq_self)

subsection \<open>Results of fallible code\<close>

text \<open>
  What C leaves to the platform when it goes wrong: a failed \<open>assert\<close>, the abort of
  \<open>ESP_ERROR_CHECK\<close>, an access through a null pointer or outside an object, a division
  by zero. Error codes that the C itself returns are values of the component instead.
\<close>

datatype c_error = Assert_failed | Error_check_failed | Null_dereference | Out_of_bounds | Division_by_zero

type_synonym 'a result = "c_error + 'a"

definition bind_result :: "'a result \<Rightarrow> ('a \<Rightarrow> 'b result) \<Rightarrow> 'b result" where
  "bind_result m f = (case m of Inl e \<Rightarrow> Inl e | Inr x \<Rightarrow> f x)"

lemma bind_result_simps [simp]: "bind_result (Inl e) f = Inl e" "bind_result (Inr x) f = f x"
  by (simp_all add: bind_result_def)

lemma bind_result_assoc:
  "bind_result (bind_result m f) g = bind_result m (\<lambda>x. bind_result (f x) g)"
  by (cases m) simp_all

lemma bind_result_Inr [simp]: "bind_result m Inr = m"
  by (cases m) simp_all

lemma bind_result_eq_Inr: "bind_result m f = Inr y \<longleftrightarrow> (\<exists>x. m = Inr x \<and> f x = Inr y)"
  by (cases m) simp_all

subsection \<open>Words\<close>

lemma unat_range: "unat (w :: 'a::len word) < 2 ^ LENGTH('a)"
  by (rule unsigned_less)

lemma unat_Suc_below:
  fixes w :: "'a::len word"
  assumes "unat w < n" and "n < 2 ^ LENGTH('a)"
  shows "unat (w + 1) = unat w + 1"
  using assms by (simp add: unat_word_ariths)

lemma word_eq_iff_unat_numeral:
  fixes w :: "'a::len word"
  assumes "n < 2 ^ LENGTH('a)"
  shows "w = of_nat n \<longleftrightarrow> unat w = n"
  using assms by (simp add: word_unat_eq_iff unat_of_nat)

subsection \<open>Lists\<close>

lemma split_three: "xs = take a xs @ take b (drop a xs) @ drop (a + b) xs"
  by (metis add.commute append_take_drop_id drop_drop)

subsection \<open>Running a step function\<close>

primrec run_state :: "('s \<Rightarrow> 'i \<Rightarrow> 'o \<times> 's) \<Rightarrow> 's \<Rightarrow> 'i list \<Rightarrow> 's" where
  "run_state f s [] = s"
| "run_state f s (i # is) = run_state f (snd (f s i)) is"

primrec run_out :: "('s \<Rightarrow> 'i \<Rightarrow> 'o \<times> 's) \<Rightarrow> 's \<Rightarrow> 'i list \<Rightarrow> 'o list" where
  "run_out f s [] = []"
| "run_out f s (i # is) = fst (f s i) # run_out f (snd (f s i)) is"

lemma length_run_out [simp]: "length (run_out f s is) = length is"
  by (induction "is" arbitrary: s) auto

lemma run_state_append [simp]:
  "run_state f s (is @ js) = run_state f (run_state f s is) js"
  by (induction "is" arbitrary: s) auto

lemma run_out_append [simp]:
  "run_out f s (is @ js) = run_out f s is @ run_out f (run_state f s is) js"
  by (induction "is" arbitrary: s) auto

lemma run_state_replicate_Suc:
  "run_state f s (replicate (Suc n) i) = snd (f (run_state f s (replicate n i)) i)"
  by (induction n arbitrary: s) auto

lemma run_out_replicate_Suc:
  "run_out f s (replicate (Suc n) i) =
     run_out f s (replicate n i) @ [fst (f (run_state f s (replicate n i)) i)]"
  by (induction n arbitrary: s) auto

declare run_state.simps [stepping] run_out.simps [stepping]

text \<open>A property of single results that every step has, every result of a run has.\<close>

lemma run_out_all:
  assumes "\<And>s i. P s \<Longrightarrow> P (snd (f s i))" and "\<And>s i. P s \<Longrightarrow> Q (fst (f s i))" and "P s"
  shows "list_all Q (run_out f s is)"
  using assms(3) by (induction "is" arbitrary: s) (auto simp: assms(1,2))

subsection \<open>Machines with an invariant\<close>

locale input_machine =
  fixes step :: "'s \<Rightarrow> 'i \<Rightarrow> 'o \<times> 's"
    and inv :: "'s \<Rightarrow> bool"
  assumes inv_step: "inv s \<Longrightarrow> inv (snd (step s i))"
begin

lemma inv_run: "inv s \<Longrightarrow> inv (run_state step s is)"
  by (induction "is" arbitrary: s) (auto intro: inv_step)

lemma inv_outputs:
  assumes "inv s" and "\<And>s i. inv s \<Longrightarrow> Q (fst (step s i))"
  shows "list_all Q (run_out step s is)"
  by (rule run_out_all [where P = inv]) (use assms in \<open>auto intro: inv_step\<close>)

end

subsection \<open>Debouncing\<close>

text \<open>
  A sampled input is turned into an event by a counter: while the input is held (and the
  rest of the state is \<open>ready\<close> for this counter) the counter goes up by one per sample,
  and the sample taken at count \<open>lim\<close> reports the event and marks the counter as
  \<open>spent\<close>.
\<close>

locale press_counter =
  fixes step :: "'s \<Rightarrow> 'i \<Rightarrow> 'o \<times> 's"
    and ready :: "'s \<Rightarrow> bool"
    and cnt :: "'s \<Rightarrow> int"
    and held :: "'i \<Rightarrow> bool"
    and quiet :: 'o
    and ev :: 'o
    and lim :: nat
    and spent :: int
  assumes count_up: "held i \<Longrightarrow> ready s \<Longrightarrow> 0 \<le> cnt s \<Longrightarrow> cnt s < int lim \<Longrightarrow>
      fst (step s i) = quiet \<and> cnt (snd (step s i)) = cnt s + 1 \<and> ready (snd (step s i))"
    and fire: "held i \<Longrightarrow> ready s \<Longrightarrow> cnt s = int lim \<Longrightarrow>
      fst (step s i) = ev \<and> cnt (snd (step s i)) = spent"
begin

text \<open>Fewer samples than the threshold report nothing and only count.\<close>

lemma below_threshold:
  assumes "\<forall>i \<in> set is. held i" and "ready s" and "0 \<le> cnt s"
    and "cnt s + int (length is) \<le> int lim"
  shows "run_out step s is = replicate (length is) quiet \<and>
         cnt (run_state step s is) = cnt s + int (length is) \<and> ready (run_state step s is)"
  using assms
proof (induction "is" arbitrary: s)
  case Nil
  then show ?case by simp
next
  case (Cons i "is")
  have one: "fst (step s i) = quiet" "cnt (snd (step s i)) = cnt s + 1" "ready (snd (step s i))"
    using count_up [of i s] Cons.prems by auto
  have "run_out step (snd (step s i)) is = replicate (length is) quiet \<and>
      cnt (run_state step (snd (step s i)) is) = cnt (snd (step s i)) + int (length is) \<and>
      ready (run_state step (snd (step s i)) is)"
    by (rule Cons.IH) (use Cons.prems one in auto)
  with one show ?case by simp
qed

text \<open>
  The sample after \<open>lim\<close> held ones, counted from a fresh counter, is the event; it is
  taken in a ready state whose counter stands at the threshold.
\<close>

lemma reaches_event:
  assumes "\<forall>i \<in> set is. held i" and "ready s" and "cnt s = 0" and "length is = Suc lim"
  shows "run_out step s is = replicate lim quiet @ [ev]"
    and "cnt (run_state step s is) = spent"
    and "\<exists>s' i. ready s' \<and> cnt s' = int lim \<and> held i \<and> run_state step s is = snd (step s' i)"
proof -
  obtain ys y where is_eq: "is = ys @ [y]" and len: "length ys = lim"
    using assms(4) by (metis length_Suc_conv_rev)
  have ys: "run_out step s ys = replicate lim quiet" "cnt (run_state step s ys) = int lim"
      "ready (run_state step s ys)"
    using below_threshold [of ys s] assms len is_eq by auto
  have y: "held y" using assms(1) is_eq by simp
  note ev = fire [OF y ys(3,2)]
  show "run_out step s is = replicate lim quiet @ [ev]" "cnt (run_state step s is) = spent"
    using ev ys is_eq by simp_all
  show "\<exists>s' i. ready s' \<and> cnt s' = int lim \<and> held i \<and> run_state step s is = snd (step s' i)"
    using ys y is_eq by auto
qed

end

text \<open>
  In most uses the counter stays spent as long as the input is held, so one press is one
  event, however long it lasts.
\<close>

locale debounce = press_counter +
  assumes fire_ready: "held i \<Longrightarrow> ready s \<Longrightarrow> cnt s = int lim \<Longrightarrow> ready (snd (step s i))"
    and latched: "held i \<Longrightarrow> ready s \<Longrightarrow> cnt s = spent \<Longrightarrow>
      fst (step s i) = quiet \<and> cnt (snd (step s i)) = spent \<and> ready (snd (step s i))"
begin

lemma stays_latched:
  assumes "\<forall>i \<in> set is. held i" and "ready s" and "cnt s = spent"
  shows "run_out step s is = replicate (length is) quiet \<and> cnt (run_state step s is) = spent"
  using assms
proof (induction "is" arbitrary: s)
  case Nil
  then show ?case by simp
next
  case (Cons i "is")
  then show ?case using latched [of i s] by simp
qed

lemma one_event_per_press:
  assumes "\<forall>i \<in> set is. held i" and "ready s" and "cnt s = 0" and "lim < length is"
  shows "run_out step s is = replicate lim quiet @ ev # replicate (length is - Suc lim) quiet"
proof -
  define ys where "ys = take (Suc lim) is"
  have held: "\<forall>i \<in> set ys. held i" "\<forall>i \<in> set (drop (Suc lim) is). held i"
    using assms(1) by (auto simp: ys_def dest: in_set_takeD in_set_dropD)
  have "length ys = Suc lim" using assms(4) by (simp add: ys_def)
  note a = reaches_event [OF held(1) assms(2,3) this]
  have "ready (run_state step s ys)" using a(3) fire_ready by auto
  then have b: "run_out step (run_state step s ys) (drop (Suc lim) is) =
      replicate (length is - Suc lim) quiet"
    using stays_latched [OF held(2)] a(2) by simp
  have "run_out step s is = run_out step s (ys @ drop (Suc lim) is)"
    by (simp add: ys_def)
  also have "\<dots> = replicate lim quiet @ ev # replicate (length is - Suc lim) quiet"
    using a(1) b by (simp only: run_out_append) simp
  finally show ?thesis .
qed

end

subsection \<open>Timers\<close>

text \<open>
  A timer function is called once per tick with its static counter; \<open>period - 1\<close> calls
  answer ``not yet'' and the next one answers ``done'' and clears the counter.
\<close>

locale tick_timer =
  fixes step :: "u16 \<Rightarrow> ('c \<times> bool) \<times> u16"
    and period :: nat
  assumes period_pos: "0 < period"
    and ticking: "unat t + 1 < period \<Longrightarrow>
      \<not> snd (fst (step t)) \<and> unat (snd (step t)) = unat t + 1"
    and elapsed: "unat t + 1 = period \<Longrightarrow>
      snd (fst (step t)) \<and> snd (step t) = 0"
begin

text \<open>The counter's value is the number of calls since it was last zero.\<close>

lemma tick_at:
  "n < period \<Longrightarrow> unat (of_nat n :: u16) = n"
  "n + 1 < period \<Longrightarrow> \<not> snd (fst (step (of_nat n))) \<and> snd (step (of_nat n)) = of_nat (Suc n)"
proof -
  show val: "n < period \<Longrightarrow> unat (of_nat n :: u16) = n" for n
  proof (induction n)
    case 0
    then show ?case by simp
  next
    case (Suc n)
    then have n: "unat (of_nat n :: u16) = n" by simp
    then have "unat (snd (step (of_nat n))) = n + 1"
      using ticking [of "of_nat n"] Suc.prems by simp
    then have "n + 1 < 65536" using unat_range [of "snd (step (of_nat n))"] by simp
    then show ?case by (simp add: unat_of_nat del: of_nat_Suc)
  qed
  assume n: "n + 1 < period"
  have "unat (snd (step (of_nat n))) = Suc n"
    using ticking [of "of_nat n"] val [of n] n by simp
  then have "snd (step (of_nat n)) = of_nat (Suc n)"
    using val [of "Suc n"] n by (simp add: word_unat_eq_iff del: of_nat_Suc)
  then show "\<not> snd (fst (step (of_nat n))) \<and> snd (step (of_nat n)) = of_nat (Suc n)"
    using ticking [of "of_nat n"] val [of n] n by simp
qed

lemma done_at:
  "n + 1 = period \<Longrightarrow> snd (fst (step (of_nat n))) \<and> snd (step (of_nat n)) = 0"
  using elapsed [of "of_nat n"] tick_at(1) [of n] by simp

end

end
