(* ===== verification/Firmware_Defs.thy ===== *)
theory Firmware_Defs
  imports Chuck_Prelude
begin

text \<open>
  The numeric constants the controller firmware shares through its headers under
  \<open>firmware/main/lib\<close>: stick directions (\<open>ps2_controller.h\<close>), buttons
  (\<open>button_controllers.h\<close>), results of the code recogniser (\<open>konami.h\<close>), controller
  modes (\<open>modes.h\<close>), LED levels and pins (\<open>led_controller.h\<close>) and the packet and
  command identifiers (\<open>udp_controller.h\<close>). They are abbreviations, so a proof sees the
  numbers the preprocessor would substitute.
\<close>

subsection \<open>ps2\_controller.h\<close>

abbreviation (input) CENTER :: u8 where "CENTER \<equiv> 0x00"
abbreviation (input) UP :: u8 where "UP \<equiv> 0x11"
abbreviation (input) DOWN :: u8 where "DOWN \<equiv> 0x12"
abbreviation (input) LEFT :: u8 where "LEFT \<equiv> 0x13"
abbreviation (input) RIGHT :: u8 where "RIGHT \<equiv> 0x14"

subsection \<open>button\_controllers.h\<close>

abbreviation (input) PS2_B :: u8 where "PS2_B \<equiv> 0x01"
abbreviation (input) PS2_LONG :: u8 where "PS2_LONG \<equiv> 0x41"
abbreviation (input) B1 :: u8 where "B1 \<equiv> 0x02"
abbreviation (input) B2 :: u8 where "B2 \<equiv> 0x03"
abbreviation (input) B12 :: u8 where "B12 \<equiv> 0x04"

abbreviation (input) PS2_PIN :: nat where "PS2_PIN \<equiv> 32"
abbreviation (input) B1_PIN :: nat where "B1_PIN \<equiv> 26"
abbreviation (input) B2_PIN :: nat where "B2_PIN \<equiv> 27"

subsection \<open>konami.h\<close>

abbreviation (input) KONAMI_COMPLETE :: u8 where "KONAMI_COMPLETE \<equiv> 0x31"
abbreviation (input) REV_KONAMI_COMPLETE :: u8 where "REV_KONAMI_COMPLETE \<equiv> 0x32"
abbreviation (input) KONAMI_SEMICOMPLETE :: u8 where "KONAMI_SEMICOMPLETE \<equiv> 0x33"

subsection \<open>modes.h\<close>

abbreviation (input) CHASE_MODE :: u8 where "CHASE_MODE \<equiv> 0"
abbreviation (input) IDLE_MODE :: u8 where "IDLE_MODE \<equiv> 1"
abbreviation (input) LIGHT_SELECTION_MODE :: u8 where "LIGHT_SELECTION_MODE \<equiv> 2"
abbreviation (input) CONTROL_SELECTION_MODE :: u8 where "CONTROL_SELECTION_MODE \<equiv> 3"
abbreviation (input) COLOR_WHEEL_MODE :: u8 where "COLOR_WHEEL_MODE \<equiv> 4"
abbreviation (input) DMX_MODE :: u8 where "DMX_MODE \<equiv> 5"
abbreviation (input) PRESET_MODE :: u8 where "PRESET_MODE \<equiv> 6"
abbreviation (input) PARTY_MODE :: u8 where "PARTY_MODE \<equiv> 7"
abbreviation (input) SCARY_MODE :: u8 where "SCARY_MODE \<equiv> 8"

subsection \<open>led\_controller.h\<close>

abbreviation (input) HIGH :: u8 where "HIGH \<equiv> 1"
abbreviation (input) LOW :: u8 where "LOW \<equiv> 0"
abbreviation (input) RED_PIN :: nat where "RED_PIN \<equiv> 14"
abbreviation (input) GREEN_PIN :: nat where "GREEN_PIN \<equiv> 12"
abbreviation (input) BLUE_PIN :: nat where "BLUE_PIN \<equiv> 13"

subsection \<open>udp\_controller.h\<close>

abbreviation (input) DATA_PACKET_ID :: u8 where "DATA_PACKET_ID \<equiv> 0x33"
abbreviation (input) COMMAND_PACKET_ID :: u8 where "COMMAND_PACKET_ID \<equiv> 0x36"
abbreviation (input) POLL_PACKET_ID :: u8 where "POLL_PACKET_ID \<equiv> 0x87"
abbreviation (input) POLL_REPLY_PACKET_ID :: u8 where "POLL_REPLY_PACKET_ID \<equiv> 0x1E"
abbreviation (input) HARD_RESET_COMMAND :: u8 where "HARD_RESET_COMMAND \<equiv> 0x99"
abbreviation (input) SOFT_RESET_COMMAND :: u8 where "SOFT_RESET_COMMAND \<equiv> 0x39"
abbreviation (input) USER_ACTION_DATA :: u8 where "USER_ACTION_DATA \<equiv> 0x13"
abbreviation (input) JOYSTICK_DATA :: u8 where "JOYSTICK_DATA \<equiv> 0x23"
abbreviation (input) GYRO_DATA :: u8 where "GYRO_DATA \<equiv> 0x33"

end
