(* ===== verification/Konami.thy ===== *)
theory Konami
  imports Firmware_Defs
begin

text \<open>
  \<open>firmware/main/konami.c\<close>: the recogniser of the two hidden button sequences. The
  three globals are a record; \<open>clear_konami\<close>, \<open>konami_tick\<close> and \<open>check_konami\<close>
  follow the C branch by branch, with the byte-wide state counters kept at their width.

  The abstract specification is a matcher over two code tables (\<open>spec_step\<close>):
  \<open>check_konami_refines\<close> shows the twenty-two comparisons of the source implement it.
  From it follow which sequences complete a code, that nothing else does, and the timeout.
\<close>

record konami =
  konami_state :: u8
  reverse_konami_state :: u8
  konami_tick_count :: u32

definition konami_init :: konami where
  "konami_init = \<lparr>konami_state = 0, reverse_konami_state = 0, konami_tick_count = 0\<rparr>"

definition clear_konami :: "konami \<Rightarrow> konami" where
  "clear_konami k = k\<lparr>konami_state := 0, reverse_konami_state := 0, konami_tick_count := 0\<rparr>"

abbreviation (input) KONAMI_TIMEOUT :: u32 where "KONAMI_TIMEOUT \<equiv> 300000"

definition konami_tick :: "konami \<Rightarrow> konami" where
  "konami_tick k =
     (if konami_tick_count k = 0 then k
      else (let old = konami_tick_count k;
                k' = k\<lparr>konami_tick_count := old + 1\<rparr>
            in if old > KONAMI_TIMEOUT then clear_konami k' else k'))"

text \<open>The two statements that most branches share.\<close>

definition konami_advance :: "konami \<Rightarrow> konami" where
  "konami_advance k = k\<lparr>konami_state := konami_state k + 1, konami_tick_count := 1\<rparr>"

definition reverse_advance :: "konami \<Rightarrow> konami" where
  "reverse_advance k =
     k\<lparr>reverse_konami_state := reverse_konami_state k + 1, konami_tick_count := 1\<rparr>"

definition check_konami :: "konami \<Rightarrow> u8 \<Rightarrow> u8 \<Rightarrow> u8 \<times> konami" where
  "check_konami k direction button =
     (if direction = 0 \<and> button = 0 then (0, k)
      else if direction = UP \<and> konami_state k = 0 \<and> reverse_konami_state k = 0 then (0, k\<lparr>konami_state := 1, konami_tick_count := 1\<rparr>)
      else if direction = UP \<and> konami_state k = 1 then (0, konami_advance k)
      else if direction = DOWN \<and> konami_state k = 2 then (0, konami_advance k)
      else if direction = DOWN \<and> konami_state k = 3 then (0, konami_advance k)
      else if direction = LEFT \<and> konami_state k = 4 then (0, konami_advance k)
      else if direction = RIGHT \<and> konami_state k = 5 then (0, konami_advance k)
      else if direction = LEFT \<and> konami_state k = 6 then (0, konami_advance k)
      else if direction = RIGHT \<and> konami_state k = 7 then (KONAMI_SEMICOMPLETE, konami_advance k)
      else if button = B2 \<and> konami_state k = 8 then (KONAMI_SEMICOMPLETE, konami_advance k)
      else if button = B1 \<and> konami_state k = 9 then (KONAMI_SEMICOMPLETE, konami_advance k)
      else if button = PS2_B \<and> konami_state k = 10 then (KONAMI_COMPLETE, clear_konami k)
      \<comment> \<open>reverse Konami\<close>
      else if direction = DOWN \<and> konami_state k = 0 \<and> reverse_konami_state k = 0 then (0, k\<lparr>reverse_konami_state := 1, konami_tick_count := 1\<rparr>)
      else if direction = DOWN \<and> reverse_konami_state k = 1 then (0, reverse_advance k)
      else if direction = UP \<and> reverse_konami_state k = 2 then (0, reverse_advance k)
      else if direction = UP \<and> reverse_konami_state k = 3 then (0, reverse_advance k)
      else if direction = RIGHT \<and> reverse_konami_state k = 4 then (0, reverse_advance k)
      else if direction = LEFT \<and> reverse_konami_state k = 5 then (0, reverse_advance k)
      else if direction = RIGHT \<and> reverse_konami_state k = 6 then (0, reverse_advance k)
      else if direction = LEFT \<and> reverse_konami_state k = 7 then (KONAMI_SEMICOMPLETE, reverse_advance k)
      else if button = PS2_B \<and> reverse_konami_state k = 8 then (KONAMI_SEMICOMPLETE, reverse_advance k)
      else if button = B1 \<and> reverse_konami_state k = 9 then (KONAMI_SEMICOMPLETE, reverse_advance k)
      else if button = B2 \<and> reverse_konami_state k = 10 then (REV_KONAMI_COMPLETE, clear_konami k)
      else (0, clear_konami k))"

subsection \<open>Specification: a matcher over two code tables\<close>

datatype pattern = Dir u8 | Btn u8

fun matches :: "pattern \<Rightarrow> u8 \<times> u8 \<Rightarrow> bool" where
  "matches (Dir d) e = (fst e = d)"
| "matches (Btn b) e = (snd e = b)"

definition konami_code :: "pattern list" where
  "konami_code = [Dir UP, Dir UP, Dir DOWN, Dir DOWN, Dir LEFT, Dir RIGHT, Dir LEFT, Dir RIGHT,
                  Btn B2, Btn B1, Btn PS2_B]"

definition reverse_code :: "pattern list" where
  "reverse_code = [Dir DOWN, Dir DOWN, Dir UP, Dir UP, Dir RIGHT, Dir LEFT, Dir RIGHT, Dir LEFT,
                   Btn PS2_B, Btn B1, Btn B2]"

text \<open>How far into which code the player is.\<close>

datatype progress = Idle | Fwd nat | Rev nat

definition is_event :: "u8 \<times> u8 \<Rightarrow> bool" where
  "is_event e \<longleftrightarrow> fst e \<noteq> 0 \<or> snd e \<noteq> 0"

text \<open>Seven matches stay silent, the next three hold the event back, the last completes.\<close>

definition answer :: "u8 \<Rightarrow> nat \<Rightarrow> u8" where
  "answer done n = (if n = 10 then done else if 7 \<le> n then KONAMI_SEMICOMPLETE else 0)"

definition advance_in :: "pattern list \<Rightarrow> (nat \<Rightarrow> progress) \<Rightarrow> u8 \<Rightarrow> nat \<Rightarrow> u8 \<times> u8 \<Rightarrow> u8 \<times> progress"
  where
  "advance_in code mk done n e =
     (if matches (code ! n) e then (answer done n, if n = 10 then Idle else mk (Suc n))
      else (0, Idle))"

fun spec_step :: "progress \<Rightarrow> u8 \<times> u8 \<Rightarrow> u8 \<times> progress" where
  "spec_step p e =
     (if \<not> is_event e then (0, p)
      else case p of
        Fwd n \<Rightarrow> advance_in konami_code Fwd KONAMI_COMPLETE n e
      | Rev n \<Rightarrow> advance_in reverse_code Rev REV_KONAMI_COMPLETE n e
      | Idle \<Rightarrow> (if matches (konami_code ! 0) e then (0, Fwd 1)
                 else if matches (reverse_code ! 0) e then (0, Rev 1) else (0, Idle)))"

fun progress_of :: "konami \<Rightarrow> progress" where
  "progress_of k =
     (if konami_state k \<noteq> 0 then Fwd (unat (konami_state k))
      else if reverse_konami_state k \<noteq> 0 then Rev (unat (reverse_konami_state k)) else Idle)"

text \<open>At most one of the two counters runs, and neither passes ten.\<close>

definition konami_inv :: "konami \<Rightarrow> bool" where
  "konami_inv k \<longleftrightarrow> konami_state k \<le> 10 \<and> reverse_konami_state k \<le> 10 \<and>
     (konami_state k = 0 \<or> reverse_konami_state k = 0)"

declare spec_step.simps [simp del] progress_of.simps [simp del]

subsection \<open>The source implements the matcher\<close>

lemma u8_le_10_cases:
  assumes "(w :: u8) \<le> 10"
  shows "w \<in> {0, 1, 2, 3, 4, 5, 6, 7, 8, 9, 10}"
proof -
  have "unat w \<le> 10" using assms by (simp add: word_le_nat_alt)
  then have "unat w \<in> {0, 1, 2, 3, 4, 5, 6, 7, 8, 9, 10}"
    unfolding insert_iff empty_iff by arith
  then show ?thesis by (auto simp: word_unat_eq_iff)
qed

lemmas konami_defs =
  check_konami_def konami_advance_def reverse_advance_def clear_konami_def
  spec_step.simps progress_of.simps advance_in_def answer_def is_event_def
  konami_code_def reverse_code_def konami_inv_def

text \<open>The reachable control states, one disjunct each.\<close>

lemma konami_inv_cases:
  assumes "konami_inv k"
  shows "konami_state k = 0 \<and> reverse_konami_state k \<in> {0, 1, 2, 3, 4, 5, 6, 7, 8, 9, 10} \<or>
         reverse_konami_state k = 0 \<and> konami_state k \<in> {1, 2, 3, 4, 5, 6, 7, 8, 9, 10}"
  using assms u8_le_10_cases [of "konami_state k"] u8_le_10_cases [of "reverse_konami_state k"]
  unfolding konami_inv_def by blast

lemma check_konami_refines:
  assumes "konami_inv k"
  shows "spec_step (progress_of k) (d, b) =
         (fst (check_konami k d b), progress_of (snd (check_konami k d b)))"
  using konami_inv_cases [OF assms] unfolding insert_iff empty_iff
  by (elim disjE conjE; simp add: konami_defs)

lemma check_konami_inv [inv_intro]:
  assumes "konami_inv k"
  shows "konami_inv (snd (check_konami k d b))"
  using konami_inv_cases [OF assms] assms unfolding insert_iff empty_iff
  by (elim disjE conjE; simp add: konami_defs)

lemma konami_tick_inv [inv_intro]: "konami_inv k \<Longrightarrow> konami_inv (konami_tick k)"
  by (auto simp: konami_tick_def Let_def clear_konami_def konami_inv_def)

subsection \<open>Runs\<close>

text \<open>
  The main loop calls \<open>konami_tick\<close> once per debounce tick and, in idle mode,
  \<open>check_konami\<close> once per iteration.
\<close>

datatype konami_input = Tick | Check u8 u8

fun konami_step :: "konami \<Rightarrow> konami_input \<Rightarrow> u8 \<times> konami" where
  "konami_step k Tick = (0, konami_tick k)"
| "konami_step k (Check d b) = check_konami k d b"

interpretation km: input_machine konami_step konami_inv
  by unfold_locales (metis check_konami_inv konami_input.exhaust konami_step.simps konami_tick_inv
      snd_conv)

text \<open>The events of an input sequence, and what it means that they end with a code.\<close>

primrec events_of :: "konami_input \<Rightarrow> (u8 \<times> u8) list" where
  "events_of Tick = []"
| "events_of (Check d b) = (if is_event (d, b) then [(d, b)] else [])"

definition ends_with :: "pattern list \<Rightarrow> (u8 \<times> u8) list \<Rightarrow> bool" where
  "ends_with ps es \<longleftrightarrow> length ps \<le> length es \<and>
     list_all2 matches ps (drop (length es - length ps) es)"

lemma ends_with_Nil [simp]: "ends_with [] es"
  by (simp add: ends_with_def)

lemma ends_with_snoc [simp]:
  "ends_with (ps @ [p]) (es @ [e]) \<longleftrightarrow> ends_with ps es \<and> matches p e"
  by (auto simp: ends_with_def list_all2_append)

definition tracks :: "progress \<Rightarrow> (u8 \<times> u8) list \<Rightarrow> bool" where
  "tracks p es = (case p of Idle \<Rightarrow> True
     | Fwd n \<Rightarrow> n \<le> 10 \<and> ends_with (take n konami_code) es
     | Rev n \<Rightarrow> n \<le> 10 \<and> ends_with (take n reverse_code) es)"

lemma take_snoc_code: "n < length ps \<Longrightarrow> take (Suc n) ps = take n ps @ [ps ! n]"
  by (rule take_Suc_conv_app_nth)

lemma code_lengths [simp]: "length konami_code = 11" "length reverse_code = 11"
  by (simp_all add: konami_code_def reverse_code_def)

lemma ends_with_extend:
  assumes "n < length code" and "ends_with (take n code) es" and "matches (code ! n) e"
  shows "ends_with (take (Suc n) code) (es @ [e])"
  using assms by (simp add: take_snoc_code)

lemma ends_with_whole:
  assumes "length code = 11" and "ends_with (take 10 code) es" and "matches (code ! 10) e"
  shows "ends_with code (es @ [e])"
  using ends_with_extend [of 10 code es e] assms by simp

lemma tracks_spec_step:
  assumes "tracks p es" and "is_event e"
  shows "tracks (snd (spec_step p e)) (es @ [e])"
    and "fst (spec_step p e) = KONAMI_COMPLETE \<Longrightarrow> ends_with konami_code (es @ [e])"
    and "fst (spec_step p e) = REV_KONAMI_COMPLETE \<Longrightarrow> ends_with reverse_code (es @ [e])"
  using assms ends_with_extend [of _ konami_code es e] ends_with_extend [of _ reverse_code es e]
    ends_with_whole [of konami_code es e] ends_with_whole [of reverse_code es e]
  by (auto simp: tracks_def spec_step.simps advance_in_def answer_def Suc_le_eq le_less
        split: progress.splits if_splits)

lemma spec_step_no_event: "\<not> is_event e \<Longrightarrow> spec_step p e = (0, p)"
  by (simp add: spec_step.simps)

lemma progress_of_tick: "progress_of (konami_tick k) \<in> {progress_of k, Idle}"
  by (auto simp: konami_tick_def Let_def clear_konami_def progress_of.simps)

text \<open>One call keeps the history: what was counted is what was entered.\<close>

lemma konami_step_tracks:
  assumes "konami_inv k" and "tracks (progress_of k) es"
  shows "tracks (progress_of (snd (konami_step k i))) (es @ events_of i)"
    and "fst (konami_step k i) = KONAMI_COMPLETE \<Longrightarrow> ends_with konami_code (es @ events_of i)"
    and "fst (konami_step k i) = REV_KONAMI_COMPLETE \<Longrightarrow> ends_with reverse_code (es @ events_of i)"
proof -
  have "tracks (progress_of (snd (konami_step k i))) (es @ events_of i) \<and>
    (fst (konami_step k i) = KONAMI_COMPLETE \<longrightarrow> ends_with konami_code (es @ events_of i)) \<and>
    (fst (konami_step k i) = REV_KONAMI_COMPLETE \<longrightarrow> ends_with reverse_code (es @ events_of i))"
  proof (cases i)
    case Tick
    then show ?thesis
      using assms(2) progress_of_tick [of k] by (auto simp: tracks_def)
  next
    case (Check d b)
    show ?thesis
    proof (cases "is_event (d, b)")
      case True
      then show ?thesis
        using tracks_spec_step [OF assms(2) True] check_konami_refines [OF assms(1), of d b] Check
        by simp
    next
      case False
      then show ?thesis
        using assms(2) check_konami_refines [OF assms(1), of d b] Check
        by (simp add: spec_step_no_event)
    qed
  qed
  then show "tracks (progress_of (snd (konami_step k i))) (es @ events_of i)"
    and "fst (konami_step k i) = KONAMI_COMPLETE \<Longrightarrow> ends_with konami_code (es @ events_of i)"
    and "fst (konami_step k i) = REV_KONAMI_COMPLETE \<Longrightarrow> ends_with reverse_code (es @ events_of i)"
    by blast+
qed

lemma konami_run_tracks:
  assumes "konami_inv k" and "tracks (progress_of k) es"
  shows "tracks (progress_of (run_state konami_step k is)) (es @ concat (map events_of is))"
  using assms
proof (induction "is" arbitrary: k es)
  case Nil
  then show ?case by simp
next
  case (Cons i "is")
  show ?case
    using Cons.IH [OF km.inv_step [OF Cons.prems(1)] konami_step_tracks(1) [OF Cons.prems]] by simp
qed

lemma konami_init_inv [simp]: "konami_inv konami_init"
  by (simp add: konami_inv_def konami_init_def)

lemma konami_init_tracks [simp]: "tracks (progress_of konami_init) []"
  by (simp add: tracks_def progress_of.simps konami_init_def)

subsection \<open>Timeout\<close>

text \<open>
  The counter is armed at one by every match; the tick that finds it above the limit
  clears the recogniser. Until then ticks change nothing but the counter.
\<close>

definition set_ticks :: "konami \<Rightarrow> u32 \<Rightarrow> konami" where
  "set_ticks k t = k\<lparr>konami_tick_count := t\<rparr>"

lemma konami_tick_armed:
  assumes "konami_tick_count k = of_nat (Suc n)" and "n < 300000"
  shows "konami_tick k = set_ticks k (of_nat (Suc (Suc n)))"
proof -
  have "unat (of_nat (Suc n) :: u32) = Suc n"
    using assms(2) by (simp add: unat_of_nat del: of_nat_Suc)
  then have "konami_tick_count k \<noteq> 0" "\<not> konami_tick_count k > KONAMI_TIMEOUT"
    using assms by (auto simp: word_less_nat_alt simp del: of_nat_Suc)
  then show ?thesis
    by (simp add: konami_tick_def set_ticks_def Let_def assms(1) add.commute)
qed

lemma konami_ticks_armed:
  assumes "konami_tick_count k = 1" and "n \<le> 300000"
  shows "run_state konami_step k (replicate n Tick) = set_ticks k (of_nat (Suc n))"
  using assms(2)
proof (induction n)
  case 0
  then show ?case using assms(1) by (simp add: set_ticks_def)
next
  case (Suc n)
  have "run_state konami_step k (replicate (Suc n) Tick) =
      konami_tick (run_state konami_step k (replicate n Tick))"
    by (simp add: run_state_replicate_Suc del: replicate.simps)
  also have "\<dots> = konami_tick (set_ticks k (of_nat (Suc n)))"
    using Suc by simp
  also have "\<dots> = set_ticks (set_ticks k (of_nat (Suc n))) (of_nat (Suc (Suc n)))"
    by (rule konami_tick_armed) (use Suc.prems in \<open>auto simp: set_ticks_def\<close>)
  finally show ?case by (simp add: set_ticks_def del: of_nat_Suc)
qed

lemma konami_times_out:
  assumes "konami_tick_count k = 1"
  shows "run_state konami_step k (replicate 300001 Tick) = clear_konami k"
proof -
  have "run_state konami_step k (replicate (Suc 300000) Tick) =
      konami_tick (run_state konami_step k (replicate 300000 Tick))"
    by (simp only: run_state_replicate_Suc konami_step.simps snd_conv)
  also have "\<dots> = konami_tick (set_ticks k 300001)"
    using konami_ticks_armed [OF assms, of 300000] by simp
  also have "\<dots> = clear_konami k"
    by (simp add: konami_tick_def set_ticks_def clear_konami_def)
  finally show ?thesis by simp
qed

lemma konami_ticks_idle:
  assumes "konami_tick_count k = 0"
  shows "run_state konami_step k (replicate n Tick) = k"
  using assms by (induction n) (auto simp: konami_tick_def)

lemma konami_gap_progress:
  assumes "konami_tick_count k \<in> {0, 1}" and "n \<le> 300000"
  shows "progress_of (run_state konami_step k (replicate n Tick)) = progress_of k"
  using assms konami_ticks_idle [of k n] konami_ticks_armed [of k n]
  by (auto simp: set_ticks_def progress_of.simps)

subsection \<open>Entering a code\<close>

text \<open>Every entry of a code, preceded by a pause of so many debounce ticks.\<close>

fun gapped :: "nat list \<Rightarrow> (u8 \<times> u8) list \<Rightarrow> konami_input list" where
  "gapped (g # gs) (e # es) = replicate g Tick @ Check (fst e) (snd e) # gapped gs es"
| "gapped _ _ = []"

definition started :: "(nat \<Rightarrow> progress) \<Rightarrow> nat \<Rightarrow> progress" where
  "started mk n = (if n = 0 then Idle else mk n)"

lemma code_event: "matches p e \<Longrightarrow> p \<in> set konami_code \<union> set reverse_code \<Longrightarrow> is_event e"
  by (cases p) (auto simp: konami_code_def reverse_code_def is_event_def)

lemma spec_step_next:
  assumes "n \<le> 10"
  shows "matches (konami_code ! n) e \<Longrightarrow> spec_step (started Fwd n) e =
           (answer KONAMI_COMPLETE n, if n = 10 then Idle else Fwd (Suc n))"
    and "matches (reverse_code ! n) e \<Longrightarrow> spec_step (started Rev n) e =
           (answer REV_KONAMI_COMPLETE n, if n = 10 then Idle else Rev (Suc n))"
proof -
  have mem: "konami_code ! n \<in> set konami_code" "reverse_code ! n \<in> set reverse_code"
    using assms by (auto intro: nth_mem)
  show "matches (konami_code ! n) e \<Longrightarrow> spec_step (started Fwd n) e =
      (answer KONAMI_COMPLETE n, if n = 10 then Idle else Fwd (Suc n))"
    using code_event [of "konami_code ! n" e] mem
    by (cases "n = 0") (auto simp: spec_step.simps started_def advance_in_def answer_def)
  show "matches (reverse_code ! n) e \<Longrightarrow> spec_step (started Rev n) e =
      (answer REV_KONAMI_COMPLETE n, if n = 10 then Idle else Rev (Suc n))"
    using code_event [of "reverse_code ! n" e] mem
    by (cases "n = 0") (auto simp: spec_step.simps started_def advance_in_def answer_def
        konami_code_def reverse_code_def)
qed

text \<open>After every call that is an event the tick counter is cleared or armed afresh.\<close>

lemma check_konami_ticks:
  assumes "is_event (d, b)"
  shows "konami_tick_count (snd (check_konami k d b)) \<in> {0, 1}"
  using assms by (auto simp: check_konami_def is_event_def konami_advance_def reverse_advance_def
      clear_konami_def)

definition code_spec :: "pattern list \<Rightarrow> (nat \<Rightarrow> progress) \<Rightarrow> u8 \<Rightarrow> bool" where
  "code_spec code mk done \<longleftrightarrow> code = konami_code \<and> mk = Fwd \<and> done = KONAMI_COMPLETE \<or>
     code = reverse_code \<and> mk = Rev \<and> done = REV_KONAMI_COMPLETE"

lemma code_spec_length [simp]: "code_spec code mk done \<Longrightarrow> length code = 11"
  by (auto simp: code_spec_def)

text \<open>One entry of a code after a pause.\<close>

lemma code_entry:
  assumes code: "code_spec code mk done" and inv: "konami_inv k"
    and ticks: "konami_tick_count k \<in> {0, 1}" and p: "progress_of k = started mk n"
    and n: "n \<le> 10" and m: "matches (code ! n) e" and g: "g \<le> 300000"
  defines "k' \<equiv> run_state konami_step k (replicate g Tick)"
  defines "r \<equiv> check_konami k' (fst e) (snd e)"
  shows "fst r = answer done n \<and> progress_of (snd r) = (if n = 10 then Idle else mk (Suc n)) \<and>
         konami_inv (snd r) \<and> konami_tick_count (snd r) \<in> {0, 1}"
proof -
  have inv': "konami_inv k'" unfolding k'_def by (rule km.inv_run [OF inv])
  have p': "progress_of k' = started mk n"
    unfolding k'_def using konami_gap_progress [OF ticks g] p by simp
  have ev: "is_event (fst e, snd e)"
    using code_event [OF m] code n by (auto simp: code_spec_def)
  have "spec_step (progress_of k') e = (answer done n, if n = 10 then Idle else mk (Suc n))"
    using spec_step_next [OF n, of e] m code p' by (auto simp: code_spec_def)
  then show ?thesis
    using check_konami_refines [OF inv', of "fst e" "snd e"] check_konami_inv [OF inv']
      check_konami_ticks [OF ev, of k'] unfolding r_def by simp
qed

lemma gapped_run:
  assumes code: "code_spec code mk done"
    and "konami_inv k" and "konami_tick_count k \<in> {0, 1}"
    and "progress_of k = started mk n" and "n \<le> 10"
    and "list_all2 matches (drop n code) es" and "length gs = length es"
    and "\<forall>g \<in> set gs. g \<le> 300000"
  shows "last (run_out konami_step k (gapped gs es)) = done \<and>
         progress_of (run_state konami_step k (gapped gs es)) = Idle"
  using assms(2-8)
proof (induction es arbitrary: gs k n)
  case Nil
  then show ?case using code_spec_length [OF code] by simp
next
  case (Cons e es)
  note len = code_spec_length [OF code]
  obtain g gs' where gs: "gs = g # gs'" using Cons.prems by (cases gs) auto
  have "drop n code = code ! n # drop (Suc n) code"
    using Cons.prems(4) len by (simp add: Cons_nth_drop_Suc)
  then have m: "matches (code ! n) e" and rest: "list_all2 matches (drop (Suc n) code) es"
    using Cons.prems(5) by auto
  define k' where
    "k' = snd (check_konami (run_state konami_step k (replicate g Tick)) (fst e) (snd e))"
  have entry: "fst (check_konami (run_state konami_step k (replicate g Tick)) (fst e) (snd e)) =
        answer done n" "progress_of k' = (if n = 10 then Idle else mk (Suc n))"
      "konami_inv k'" "konami_tick_count k' \<in> {0, 1}"
    using code_entry [OF code Cons.prems(1-4) m, of g] Cons.prems(7) gs by (simp_all add: k'_def)
  have unfold: "run_out konami_step k (gapped gs (e # es)) =
      run_out konami_step k (replicate g Tick) @ answer done n # run_out konami_step k' (gapped gs' es)"
      "run_state konami_step k (gapped gs (e # es)) = run_state konami_step k' (gapped gs' es)"
    using entry(1) by (simp_all add: gs k'_def)
  show ?case
  proof (cases "n = 10")
    case True
    then have "es = []" using rest len by simp
    then show ?thesis using True unfold entry(2) by (simp add: answer_def)
  next
    case False
    have "es \<noteq> []" using rest False Cons.prems(4) len by auto
    then have "gapped gs' es \<noteq> []"
      using Cons.prems(6) gs by (cases gs'; cases es) auto
    moreover have "last (run_out konami_step k' (gapped gs' es)) = done \<and>
        progress_of (run_state konami_step k' (gapped gs' es)) = Idle"
      by (rule Cons.IH [where n = "Suc n"])
        (use entry False rest Cons.prems gs in \<open>auto simp: started_def\<close>)
    ultimately show ?thesis
      using unfold by (metis last.simps last_append length_0_conv length_run_out list.distinct(1))
  qed
qed

subsection \<open>Properties\<close>

text \<open>
  C14: The recogniser never reports a completed code by accident. In any sequence of
  calls from power-up, with timeouts in between, a result of \<open>KONAMI_COMPLETE\<close>
  means that the last eleven button events were exactly the Konami code, and
  \<open>REV_KONAMI_COMPLETE\<close> that they were the reverse code.
\<close>

theorem konami_complete_only_by_code:
  assumes "fst (konami_step (run_state konami_step konami_init is) i) = r"
    and "r = KONAMI_COMPLETE \<or> r = REV_KONAMI_COMPLETE"
  shows "ends_with (if r = KONAMI_COMPLETE then konami_code else reverse_code)
           (concat (map events_of (is @ [i])))"
proof -
  have "konami_inv (run_state konami_step konami_init is)"
    by (rule km.inv_run [OF konami_init_inv])
  moreover have "tracks (progress_of (run_state konami_step konami_init is))
      (concat (map events_of is))"
    using konami_run_tracks [OF konami_init_inv konami_init_tracks, of "is"] by simp
  ultimately show ?thesis
    using konami_step_tracks(2,3) assms by auto
qed

theorem konami_complete_only_by_code_witness:
  "let is = [Check UP 0, Check UP 0, Check DOWN 0, Tick, Check DOWN 0, Check LEFT 0, Check RIGHT 0,
             Check LEFT 0, Check 0 0, Check RIGHT 0, Check 0 B2, Check 0 B1]
   in fst (konami_step (run_state konami_step konami_init is) (Check 0 PS2_B)) = KONAMI_COMPLETE \<and>
      ends_with konami_code (concat (map events_of (is @ [Check 0 PS2_B])))"
proof -
  define xs where "xs = [Check UP 0, Check UP 0, Check DOWN 0, Tick, Check DOWN 0, Check LEFT 0,
     Check RIGHT 0, Check LEFT 0, Check 0 0, Check RIGHT 0, Check 0 B2, Check 0 B1]"
  have r: "fst (konami_step (run_state konami_step konami_init xs) (Check 0 PS2_B)) = KONAMI_COMPLETE"
    by (simp add: xs_def konami_init_def check_konami_def konami_advance_def konami_tick_def)
  show ?thesis
    using r konami_complete_only_by_code [OF r] unfolding xs_def Let_def by simp
qed

text \<open>
  C13: \<open>check_konami\<close> implements the two-table matcher: over any sequence of calls, from
  any state satisfying the invariant, it answers what the matcher answers and its two byte
  counters stand for the matcher's position.
\<close>

theorem konami_refines_matcher:
  assumes "konami_inv k"
  shows "run_out (\<lambda>k e. check_konami k (fst e) (snd e)) k es = run_out spec_step (progress_of k) es \<and>
         progress_of (run_state (\<lambda>k e. check_konami k (fst e) (snd e)) k es) =
           run_state spec_step (progress_of k) es"
  using assms
proof (induction es arbitrary: k)
  case Nil
  then show ?case by simp
next
  case (Cons e es)
  show ?case
    using Cons.IH [OF check_konami_inv [OF Cons.prems, of "fst e" "snd e"]]
      check_konami_refines [OF Cons.prems, of "fst e" "snd e"] by simp
qed

theorem konami_refines_matcher_witness:
  "run_out (\<lambda>k e. check_konami k (fst e) (snd e)) konami_init [(UP, 0), (UP, 0), (UP, 0), (DOWN, 0)] =
   run_out spec_step Idle [(UP, 0), (UP, 0), (UP, 0), (DOWN, 0)]"
proof -
  have "progress_of konami_init = Idle" by (simp add: progress_of.simps konami_init_def)
  then show ?thesis
    using konami_refines_matcher [OF konami_init_inv] by metis
qed

text \<open>
  C15: Entering a code always completes it. From any idle recogniser, the eleven entries of
  either code, each up to 300000 debounce ticks after the one before, end in that code's
  completion result and leave the recogniser idle again.
\<close>

theorem konami_code_completes:
  assumes "code_spec code mk done"
    and "konami_inv k" and "progress_of k = Idle" and "konami_tick_count k = 0"
    and "list_all2 matches code es"
    and "length gs = 11" and "\<forall>g \<in> set gs. g \<le> 300000"
  shows "last (run_out konami_step k (gapped gs es)) = done \<and>
         progress_of (run_state konami_step k (gapped gs es)) = Idle"
proof -
  have "length es = 11"
    using assms(1,5) by (auto dest: list_all2_lengthD)
  then show ?thesis
    by (intro gapped_run [OF assms(1), where n = 0]) (use assms in \<open>auto simp: started_def\<close>)
qed

theorem konami_code_completes_witness:
  "last (run_out konami_step konami_init (gapped (replicate 11 300000)
      [(DOWN, 0), (DOWN, 0), (UP, 0), (UP, 0), (RIGHT, 0), (LEFT, 0), (RIGHT, 0), (LEFT, 0),
       (0, PS2_B), (0, B1), (0, B2)])) = REV_KONAMI_COMPLETE"
proof -
  have "code_spec reverse_code Rev REV_KONAMI_COMPLETE" by (simp add: code_spec_def)
  moreover have "list_all2 matches reverse_code
      [(DOWN, 0), (DOWN, 0), (UP, 0), (UP, 0), (RIGHT, 0), (LEFT, 0), (RIGHT, 0), (LEFT, 0),
       (0, PS2_B), (0, B1), (0, B2)]"
    by (simp add: reverse_code_def)
  moreover have "progress_of konami_init = Idle" "konami_tick_count konami_init = 0"
    by (simp_all add: progress_of.simps konami_init_def)
  ultimately show ?thesis
    using konami_code_completes [of reverse_code Rev REV_KONAMI_COMPLETE konami_init _
        "replicate 11 300000"] by (metis (no_types, lifting) konami_init_inv length_replicate order_refl set_replicate_conv_if singletonD empty_iff)
qed

text \<open>
  A half-entered code is forgotten after exactly 300001 debounce ticks without a
  matching event: up to 300000 ticks the progress is kept, and the next one clears it.
\<close>

theorem konami_timeout:
  assumes "konami_tick_count k = 1"
  shows "run_state konami_step k (replicate 300001 Tick) = clear_konami k \<and>
         (\<forall>n \<le> 300000. progress_of (run_state konami_step k (replicate n Tick)) = progress_of k)"
  using konami_times_out [OF assms] konami_gap_progress [of k] assms by simp

theorem konami_timeout_witness:
  "let k = snd (check_konami konami_init UP 0)
   in progress_of (run_state konami_step k (replicate 300000 Tick)) = Fwd 1 \<and>
      run_state konami_step k (replicate 300001 Tick) = konami_init"
proof -
  define k where "k = snd (check_konami konami_init UP 0)"
  have k: "k = \<lparr>konami_state = 1, reverse_konami_state = 0, konami_tick_count = 1\<rparr>"
    by (simp add: k_def check_konami_def konami_init_def)
  then have "konami_tick_count k = 1" by simp
  from konami_timeout [OF this] show ?thesis
    unfolding Let_def k_def [symmetric]
    by (simp add: k clear_konami_def konami_init_def progress_of.simps)
qed

end
