(* ===== verification/Esp_Calls.thy ===== *)
theory Esp_Calls
  imports Firmware_Defs
begin

text \<open>
  The firmware runs on the ESP-IDF, FreeRTOS and lwIP libraries, which are not part of the
  repository. The model records the calls it makes into them, with their arguments, in the
  order the C makes them; what a call answers is an input of the function that makes it.
  Nothing is assumed about what a call does, except where a property names it.

  \<open>pin_levels\<close> reads a trace of calls as the levels last written to the output pins.
\<close>

record spi_transaction =
  spi_length :: nat
  spi_rxlength :: nat
  spi_tx :: "u8 option"
  spi_cmd :: u8

record gpio_config_t =
  gpio_output :: bool
  pin_bit_mask :: u64
  pull_down_en :: bool
  pull_up_en :: bool

record timer_config_t =
  alarm_en :: bool
  auto_reload :: bool
  count_up :: bool
  divider :: u32
  intr_level :: bool
  counter_en :: bool

datatype gpio_call =
    Gpio_config gpio_config_t
  | Gpio_set_level nat u8
  | Adc1_config_width_12Bit
  | Adc1_config_channel_atten_11db nat

datatype spi_call =
    Spi_bus_initialize nat nat nat
  | Spi_bus_add_device nat nat
  | Heap_caps_malloc_dma nat
  | Spi_device_transmit spi_transaction

datatype net_call =
    Udp_new
  | Udp_bind u16
  | Udp_recv
  | Pbuf_alloc nat
  | Pbuf_free
  | Udp_connect u32 u16
  | Udp_send "u8 list"
  | Udp_disconnect

datatype wifi_call =
    Tcpip_adapter_init
  | XEventGroupCreate
  | XEventGroupSetBits nat
  | XEventGroupClearBits nat
  | XEventGroupWaitBits nat
  | Esp_event_loop_init
  | Esp_wifi_init
  | Esp_wifi_set_storage_ram
  | Esp_wifi_set_mode_sta
  | Esp_wifi_set_config string string
  | Esp_wifi_start
  | Esp_wifi_connect

datatype timer_call =
    Timer_init timer_config_t
  | Timer_pause
  | Timer_set_counter_value u64
  | Timer_set_alarm_value u64
  | Timer_enable_intr
  | Timer_isr_register
  | Timer_start

datatype esp_call =
    Gpio gpio_call
  | Spi spi_call
  | Net net_call
  | Wifi wifi_call
  | Timer timer_call
  | Nvs_flash_init
  | Esp_restart

subsection \<open>Reading a trace\<close>

fun pin_level :: "(nat \<Rightarrow> u8) \<Rightarrow> esp_call \<Rightarrow> nat \<Rightarrow> u8" where
  "pin_level p (Gpio (Gpio_set_level n l)) = p(n := l)"
| "pin_level p _ = p"

definition pin_levels :: "(nat \<Rightarrow> u8) \<Rightarrow> esp_call list \<Rightarrow> nat \<Rightarrow> u8" where
  "pin_levels p cs = foldl pin_level p cs"

lemma pin_levels_Nil [simp]: "pin_levels p [] = p"
  by (simp add: pin_levels_def)

lemma pin_levels_Cons [simp]: "pin_levels p (c # cs) = pin_levels (pin_level p c) cs"
  by (simp add: pin_levels_def)

lemma pin_levels_append [simp]: "pin_levels p (cs @ ds) = pin_levels (pin_levels p cs) ds"
  by (simp add: pin_levels_def)

text \<open>The colour a trace leaves on the three LED pins.\<close>

definition rgb :: "(nat \<Rightarrow> u8) \<Rightarrow> u8 \<times> u8 \<times> u8" where
  "rgb p = (p RED_PIN, p GREEN_PIN, p BLUE_PIN)"

text \<open>The payloads a trace hands to the network.\<close>

definition sent :: "esp_call list \<Rightarrow> u8 list list" where
  "sent cs = concat (map (\<lambda>c. case c of Net (Udp_send d) \<Rightarrow> [d] | _ \<Rightarrow> []) cs)"

lemma sent_simps [simp]:
  "sent [] = []" "sent (cs @ ds) = sent cs @ sent ds"
  "sent (c # cs) = (case c of Net (Udp_send d) \<Rightarrow> [d] | _ \<Rightarrow> []) @ sent cs"
  by (simp_all add: sent_def)

end
