(* ===== verification/Button_Controllers.thy ===== *)
theory Button_Controllers
  imports Esp_Calls
begin

text \<open>
  \<open>firmware/main/button_controllers.c\<close>: \<open>read_button\<close>, the debouncer of the two face
  buttons and the stick's push button. Its five static counters are a record. The levels
  that \<open>gpio_get_level\<close> answers are the inputs of a call, one per read of the source
  (buttons one and two are read twice), so that a level may change inside a call.
\<close>

definition init_button_controllers :: "esp_call list" where
  "init_button_controllers =
     [Gpio (Gpio_config \<lparr>gpio_output = False, pin_bit_mask = push_bit 32 1 OR push_bit 26 1 OR push_bit 27 1,
        pull_down_en = False, pull_up_en = True\<rparr>)]"

record button_statics =
  ps2_count :: int
  b1_count :: int
  b2_count :: int
  b12_count :: int
  ps2_long_count :: int

definition button_init :: button_statics where
  "button_init = \<lparr>ps2_count = 0, b1_count = 0, b2_count = 0, b12_count = 0, ps2_long_count = 0\<rparr>"

text \<open>The answers of \<open>gpio_get_level\<close>, in the order of the calls; a pressed button is low.\<close>

record button_levels =
  b1_with_b2 :: int
  b2_with_b1 :: int
  b1_level :: int
  b2_level :: int
  ps2_level :: int

abbreviation (input) DEBOUNCE_COUNT :: int where "DEBOUNCE_COUNT \<equiv> 3"
abbreviation (input) LONG_HOLD_COUNT :: int where "LONG_HOLD_COUNT \<equiv> 300"

text \<open>The stick button's branch: first press, then the long hold.\<close>

definition read_ps2_button :: "button_statics \<Rightarrow> int \<Rightarrow> u8 \<times> button_statics" where
  "read_ps2_button s level =
     (if level = 0 then
        (if ps2_count s = -1 then
           (if ps2_long_count s = -2 then (0, s)
            else if ps2_long_count s > LONG_HOLD_COUNT then (PS2_LONG, s\<lparr>ps2_long_count := -2\<rparr>)
            else (0, s\<lparr>ps2_long_count := ps2_long_count s + 1\<rparr>))
         else if ps2_count s > DEBOUNCE_COUNT then (PS2_B, s\<lparr>ps2_count := -1\<rparr>)
         else (0, s\<lparr>ps2_count := ps2_count s + 1\<rparr>))
      else (0, s\<lparr>ps2_count := 0, ps2_long_count := 0\<rparr>))"

definition read_button :: "button_statics \<Rightarrow> button_levels \<Rightarrow> u8 \<times> button_statics" where
  "read_button s g =
     (if b1_with_b2 g = 0 \<and> b2_with_b1 g = 0 then
        (if b12_count s = -1 then (0, s)
         else (let s = s\<lparr>b12_count := b12_count s + 1\<rparr>
               in if b12_count s > DEBOUNCE_COUNT then (B12, s\<lparr>b12_count := -1\<rparr>) else (0, s)))
      else (let s = s\<lparr>b12_count := 0\<rparr> in
        if b1_level g = 0 then
          (if b1_count s = -1 then (0, s)
           else if b1_count s > DEBOUNCE_COUNT then (B1, s\<lparr>b1_count := -1\<rparr>)
           else (0, s\<lparr>b1_count := b1_count s + 1\<rparr>))
        else (let s = s\<lparr>b1_count := 0\<rparr> in
          if b2_level g = 0 then
            (if b2_count s = -1 then (0, s)
             else if b2_count s > DEBOUNCE_COUNT then (B2, s\<lparr>b2_count := -1\<rparr>)
             else (0, s\<lparr>b2_count := b2_count s + 1\<rparr>))
          else read_ps2_button (s\<lparr>b2_count := 0\<rparr>) (ps2_level g))))"

subsection \<open>Invariant: the counters stay small\<close>

definition button_inv :: "button_statics \<Rightarrow> bool" where
  "button_inv s \<longleftrightarrow> -1 \<le> ps2_count s \<and> ps2_count s \<le> 4 \<and> -1 \<le> b1_count s \<and> b1_count s \<le> 4 \<and>
     -1 \<le> b2_count s \<and> b2_count s \<le> 4 \<and> -1 \<le> b12_count s \<and> b12_count s \<le> 3 \<and>
     -2 \<le> ps2_long_count s \<and> ps2_long_count s \<le> 301"

lemma button_init_inv [simp]: "button_inv button_init"
  by (simp add: button_inv_def button_init_def)

lemma read_button_inv [inv_intro]: "button_inv s \<Longrightarrow> button_inv (snd (read_button s g))"
  by (auto simp: read_button_def read_ps2_button_def button_inv_def Let_def)

interpretation bm: input_machine read_button button_inv
  by unfold_locales (rule read_button_inv)

text \<open>What a call can answer.\<close>

lemma read_button_answers:
  "fst (read_button s g) \<in> {0, B12, B1, B2, PS2_B, PS2_LONG}"
  by (simp add: read_button_def read_ps2_button_def Let_def)

subsection \<open>Which button is held\<close>

definition both_held :: "button_levels \<Rightarrow> bool" where
  "both_held g \<longleftrightarrow> b1_with_b2 g = 0 \<and> b2_with_b1 g = 0"

definition b1_held :: "button_levels \<Rightarrow> bool" where
  "b1_held g \<longleftrightarrow> \<not> both_held g \<and> b1_level g = 0"

definition b2_held :: "button_levels \<Rightarrow> bool" where
  "b2_held g \<longleftrightarrow> \<not> both_held g \<and> b1_level g \<noteq> 0 \<and> b2_level g = 0"

definition ps2_held :: "button_levels \<Rightarrow> bool" where
  "ps2_held g \<longleftrightarrow> \<not> both_held g \<and> b1_level g \<noteq> 0 \<and> b2_level g \<noteq> 0 \<and> ps2_level g = 0"

definition released :: "button_levels \<Rightarrow> bool" where
  "released g \<longleftrightarrow> \<not> both_held g \<and> b1_level g \<noteq> 0 \<and> b2_level g \<noteq> 0 \<and> ps2_level g \<noteq> 0"

lemmas held_defs = both_held_def b1_held_def b2_held_def ps2_held_def released_def
lemmas button_defs = read_button_def read_ps2_button_def Let_def held_defs

lemma released_resets:
  "released g \<Longrightarrow> read_button s g = (0, button_init)"
  by (auto simp: button_defs button_init_def)

text \<open>The debouncing contract for each of the four counters.\<close>

interpretation b12: debounce read_button "\<lambda>_. True" b12_count both_held 0 B12 3 "-1"
  by unfold_locales (auto simp: button_defs)

interpretation b1: debounce read_button "\<lambda>_. True" b1_count b1_held 0 B1 4 "-1"
  by unfold_locales (auto simp: button_defs)

interpretation b2: debounce read_button "\<lambda>_. True" b2_count b2_held 0 B2 4 "-1"
  by unfold_locales (auto simp: button_defs)

text \<open>
  The stick button has two counters: the press counter runs first, with the long-hold
  counter untouched, and once it is spent the long-hold counter runs with its own
  threshold.
\<close>

definition ps2_fresh :: "button_statics \<Rightarrow> bool" where
  "ps2_fresh s \<longleftrightarrow> 0 \<le> ps2_count s \<and> ps2_long_count s = 0"

definition ps2_spent :: "button_statics \<Rightarrow> bool" where
  "ps2_spent s \<longleftrightarrow> ps2_count s = -1"

interpretation ps2: press_counter read_button "\<lambda>_. True" ps2_count ps2_held 0 PS2_B 4 "-1"
  by unfold_locales (auto simp: button_defs)

interpretation ps2_long: debounce read_button ps2_spent ps2_long_count ps2_held 0 PS2_LONG 301 "-2"
  by unfold_locales (auto simp: button_defs ps2_spent_def)

text \<open>The press counter leaves the long-hold counter alone until it is spent.\<close>

lemma ps2_counting_keeps_long:
  assumes "\<forall>g \<in> set gs. ps2_held g" and "0 \<le> ps2_count s" and "ps2_count s + int (length gs) \<le> 5"
  shows "ps2_long_count (run_state read_button s gs) = ps2_long_count s"
  using assms
proof (induction gs arbitrary: s)
  case Nil
  then show ?case by simp
next
  case (Cons g gs)
  have one: "ps2_long_count (snd (read_button s g)) = ps2_long_count s"
      "ps2_count (snd (read_button s g)) = (if ps2_count s > 3 then -1 else ps2_count s + 1)"
    using Cons.prems by (auto simp: button_defs)
  show ?case
  proof (cases "ps2_count s > 3")
    case True
    then have "gs = []" using Cons.prems by (cases gs) auto
    then show ?thesis using one by simp
  next
    case False
    then have "ps2_long_count (run_state read_button (snd (read_button s g)) gs) =
        ps2_long_count (snd (read_button s g))"
      by (intro Cons.IH) (use Cons.prems one in auto)
    then show ?thesis using one by simp
  qed
qed

subsection \<open>Properties\<close>

text \<open>
  The counters of \<open>read_button\<close> never leave a range of a few hundred values,
  whatever the pins do, so none of its signed increments can overflow; and every answer is
  one of the five button codes or zero.
\<close>

theorem read_button_bounded:
  "button_inv (run_state read_button button_init gs) \<and>
   list_all (\<lambda>r. r \<in> {0, B12, B1, B2, PS2_B, PS2_LONG}) (run_out read_button button_init gs)"
proof (intro conjI)
  show "button_inv (run_state read_button button_init gs)"
    by (rule bm.inv_run [OF button_init_inv])
  show "list_all (\<lambda>r. r \<in> {0, B12, B1, B2, PS2_B, PS2_LONG}) (run_out read_button button_init gs)"
    by (rule bm.inv_outputs [OF button_init_inv]) (rule read_button_answers)
qed

definition face_button :: "(button_levels \<Rightarrow> bool) \<Rightarrow> u8 \<Rightarrow> nat \<Rightarrow> bool" where
  "face_button held ev n \<longleftrightarrow> held = b1_held \<and> ev = B1 \<and> n = 4 \<or> held = b2_held \<and> ev = B2 \<and> n = 4 \<or>
     held = both_held \<and> ev = B12 \<and> n = 3"

text \<open>
  One press, one event. After a sample with all buttons released, holding button one
  or button two reports it exactly once, at the fifth sample, and holding both reports the
  pair exactly once, at the fourth; nothing more is reported however long the hold lasts.
\<close>

theorem face_button_reported_once:
  assumes "face_button held ev n" and "released g" and "\<forall>h \<in> set gs. held h" and "n < length gs"
  shows "run_out read_button s (g # gs) =
           0 # replicate n 0 @ ev # replicate (length gs - Suc n) 0"
proof -
  have "run_out read_button button_init gs = replicate n 0 @ ev # replicate (length gs - Suc n) 0"
    using assms b1.one_event_per_press [of gs button_init] b2.one_event_per_press [of gs button_init]
      b12.one_event_per_press [of gs button_init]
    by (auto simp: face_button_def button_init_def)
  then show ?thesis
    by (simp add: released_resets [OF assms(2)])
qed

theorem face_button_reported_once_witness:
  "let up = \<lparr>b1_with_b2 = 1, b2_with_b1 = 1, b1_level = 1, b2_level = 1, ps2_level = 1\<rparr>;
       b1 = \<lparr>b1_with_b2 = 0, b2_with_b1 = 1, b1_level = 0, b2_level = 1, ps2_level = 1\<rparr>
   in run_out read_button button_init (up # replicate 100 b1) =
        0 # replicate 4 0 @ B1 # replicate 95 0"
  using face_button_reported_once
    [where held = b1_held and ev = B1 and n = 4 and s = button_init
     and g = "\<lparr>b1_with_b2 = 1, b2_with_b1 = 1, b1_level = 1, b2_level = 1, ps2_level = 1\<rparr>"
     and gs = "replicate 100 \<lparr>b1_with_b2 = 0, b2_with_b1 = 1, b1_level = 0, b2_level = 1, ps2_level = 1\<rparr>"]
  by (simp add: face_button_def held_defs Let_def)

text \<open>
  Press and long hold of the stick button. Held from a released state it reports a
  press at the fifth sample and a long hold at the 307th, and nothing else.
\<close>

theorem stick_button_press_then_long:
  assumes "\<forall>g \<in> set gs. ps2_held g" and "307 \<le> length gs"
  shows "run_out read_button button_init gs =
           replicate 4 0 @ PS2_B # replicate 301 0 @ PS2_LONG # replicate (length gs - 307) 0"
proof -
  define hs where "hs = drop 5 gs"
  have held: "\<forall>g \<in> set (take 5 gs). ps2_held g" "\<forall>g \<in> set hs. ps2_held g"
    using assms(1) by (auto simp: hs_def dest: in_set_takeD in_set_dropD)
  have len: "length (take 5 gs) = Suc 4" "length hs = length gs - 5"
    using assms(2) by (auto simp: hs_def)
  let ?s = "run_state read_button button_init (take 5 gs)"
  have press: "run_out read_button button_init (take 5 gs) = replicate 4 0 @ [PS2_B]"
      "ps2_spent ?s"
    using ps2.reaches_event [OF held(1) _ _ len(1), of button_init]
    by (auto simp: button_init_def ps2_spent_def)
  have "ps2_long_count ?s = 0"
    using ps2_counting_keeps_long [OF held(1), of button_init] len
    by (simp add: button_init_def)
  then have "run_out read_button ?s hs = replicate 301 0 @ PS2_LONG # replicate (length hs - 302) 0"
    using ps2_long.one_event_per_press [OF held(2) press(2)] len assms(2) by simp
  then have "run_out read_button button_init (take 5 gs @ hs) =
      (replicate 4 0 @ [PS2_B]) @ replicate 301 0 @ PS2_LONG # replicate (length gs - 307) 0"
    using press(1) len by (simp only: run_out_append) simp
  then show ?thesis by (simp add: hs_def)
qed

theorem stick_button_press_then_long_witness:
  "run_out read_button button_init (replicate 400
      \<lparr>b1_with_b2 = 1, b2_with_b1 = 1, b1_level = 1, b2_level = 1, ps2_level = 0\<rparr>) =
   replicate 4 0 @ PS2_B # replicate 301 0 @ PS2_LONG # replicate 93 0"
  using stick_button_press_then_long [of "replicate 400
      \<lparr>b1_with_b2 = 1, b2_with_b1 = 1, b1_level = 1, b2_level = 1, ps2_level = 0\<rparr>"]
  by (simp add: held_defs)

end
