(* ===== verification/Ps2_Controller.thy ===== *)
theory Ps2_Controller
  imports Esp_Calls Complex_Main
begin

text \<open>
  \<open>firmware/main/ps2_controller.c\<close>: \<open>read_direction\<close> classifies a sample of the two
  axis converters and debounces it into a direction event; \<open>read_xy\<close> returns the raw
  sample. The answers of \<open>adc1_get_raw\<close> are the inputs of a call.

  The C compares converted samples with thresholds computed in \<open>double\<close>. The model
  computes the thresholds exactly, as rationals; \<open>threshold_robust\<close> shows that for whole
  samples every threshold in the unit interval around the exact one decides the same way,
  which covers the rounding of the compiled constants.
\<close>

abbreviation (input) X_ADC :: nat where "X_ADC \<equiv> 7"
abbreviation (input) Y_ADC :: nat where "Y_ADC \<equiv> 6"

definition init_ps2_controller :: "esp_call list" where
  "init_ps2_controller =
     [Gpio Adc1_config_width_12Bit, Gpio (Adc1_config_channel_atten_11db Y_ADC),
      Gpio (Adc1_config_channel_atten_11db X_ADC)]"

record stick_statics =
  left_count :: int
  right_count :: int
  up_count :: int
  up_long_count :: int
  down_count :: int
  down_long_count :: int
  accel :: int

definition stick_init :: stick_statics where
  "stick_init = \<lparr>left_count = 0, right_count = 0, up_count = 0, up_long_count = 0,
     down_count = 0, down_long_count = 0, accel = 0\<rparr>"

definition ERROR_TOLERANCE :: rat where "ERROR_TOLERANCE = 9 / 10"

abbreviation (input) X_RIGHT :: rat where "X_RIGHT \<equiv> 4095"
abbreviation (input) Y_UP :: rat where "Y_UP \<equiv> 4095"
abbreviation (input) X_CENTER :: rat where "X_CENTER \<equiv> 1920"
abbreviation (input) Y_CENTER :: rat where "Y_CENTER \<equiv> 1750"
abbreviation (input) DEBOUNCE_COUNT :: int where "DEBOUNCE_COUNT \<equiv> 3"
abbreviation (input) LONG_HOLD_COUNT :: int where "LONG_HOLD_COUNT \<equiv> 300"
abbreviation (input) FAST_RATE_TICK :: int where "FAST_RATE_TICK \<equiv> 30"

subsection \<open>Classification of a sample\<close>

definition x_direction :: "int \<Rightarrow> u8" where
  "x_direction x =
     (if of_int x < (1 - ERROR_TOLERANCE) * X_CENTER then LEFT
      else if of_int x > ERROR_TOLERANCE * X_RIGHT then RIGHT else 0)"

definition y_direction :: "int \<Rightarrow> u8" where
  "y_direction y =
     (if of_int y < (1 - ERROR_TOLERANCE) * Y_CENTER then DOWN
      else if of_int y > ERROR_TOLERANCE * Y_UP then UP else 0)"

subsection \<open>One vertical direction, with repetition\<close>

text \<open>
  The branches for a stick pushed up and for one pushed down are the same text over
  different counters: \<open>(count, long_count)\<close> and the continuous-read flag give the answer
  and the new counters.
\<close>

definition vertical_hold :: "u8 \<Rightarrow> u8 \<Rightarrow> int \<Rightarrow> int \<Rightarrow> u8 \<times> int \<times> int" where
  "vertical_hold dir cont count long =
     (if (count = -1 \<or> count = -2) \<and> cont = 0 then (CENTER, count, long)
      else if count = -2 \<and> cont \<noteq> 0 then
        (if long > FAST_RATE_TICK then (dir, count, 0) else (CENTER, count, long + 1))
      else if count = -1 \<and> cont \<noteq> 0 then
        (if long > LONG_HOLD_COUNT then (CENTER, -2, 0) else (CENTER, count, long + 1))
      else if count > DEBOUNCE_COUNT then (dir, -1, long)
      else (CENTER, count + 1, long))"

definition reset_counts :: "stick_statics \<Rightarrow> stick_statics" where
  "reset_counts s = s\<lparr>left_count := 0, right_count := 0, up_count := 0, up_long_count := 0,
     down_count := 0, down_long_count := 0, accel := 0\<rparr>"

text \<open>The stick is mounted upside down, so every branch reports the opposite direction.\<close>

definition read_direction :: "stick_statics \<Rightarrow> u8 \<times> int \<times> int \<Rightarrow> u8 \<times> stick_statics" where
  "read_direction s = (\<lambda>(continuous_read_enable, x, y).
     let x_dir = x_direction x; y_dir = y_direction y in
     if x_dir = 0 \<and> y_dir = 0 then (CENTER, reset_counts s)
     else if x_dir = LEFT \<and> y_dir = CENTER then
       (if left_count s = -1 then (CENTER, s)
        else if left_count s > DEBOUNCE_COUNT then (RIGHT, s\<lparr>left_count := -1\<rparr>)
        else (CENTER, s\<lparr>left_count := left_count s + 1\<rparr>))
     else if x_dir = RIGHT \<and> y_dir = CENTER then
       (if right_count s = -1 then (CENTER, s)
        else if right_count s > DEBOUNCE_COUNT then (LEFT, s\<lparr>right_count := -1\<rparr>)
        else (CENTER, s\<lparr>right_count := right_count s + 1\<rparr>))
     else if x_dir = CENTER \<and> y_dir = UP then
       (case vertical_hold DOWN continuous_read_enable (up_count s) (up_long_count s) of
          (r, c, l) \<Rightarrow> (r, s\<lparr>up_count := c, up_long_count := l\<rparr>))
     else if x_dir = CENTER \<and> y_dir = DOWN then
       (case vertical_hold UP continuous_read_enable (down_count s) (down_long_count s) of
          (r, c, l) \<Rightarrow> (r, s\<lparr>down_count := c, down_long_count := l\<rparr>))
     else (CENTER, reset_counts s))"

definition read_xy :: "int \<times> int \<Rightarrow> int list" where
  "read_xy = (\<lambda>(x, y). [x, y])"

subsection \<open>Thresholds on whole samples\<close>

lemma threshold_robust:
  fixes t :: rat
  shows "of_int n - 1 < t \<Longrightarrow> t \<le> of_int n \<Longrightarrow> of_int x < t \<longleftrightarrow> x < n"
    and "of_int n - 1 \<le> t \<Longrightarrow> t < of_int n \<Longrightarrow> of_int x > t \<longleftrightarrow> x \<ge> n"
  by linarith+

lemma x_direction_eq: "x_direction x = (if x < 192 then LEFT else if x \<ge> 3686 then RIGHT else 0)"
  unfolding x_direction_def ERROR_TOLERANCE_def
  using threshold_robust(1) [of 192 "(1 - 9 / 10) * 1920" x]
    threshold_robust(2) [of 3686 "9 / 10 * 4095" x] by simp

lemma y_direction_eq: "y_direction y = (if y < 175 then DOWN else if y \<ge> 3686 then UP else 0)"
  unfolding y_direction_def ERROR_TOLERANCE_def
  using threshold_robust(1) [of 175 "(1 - 9 / 10) * 1750" y]
    threshold_robust(2) [of 3686 "9 / 10 * 4095" y] by simp

lemmas stick_defs = read_direction_def vertical_hold_def reset_counts_def x_direction_eq
  y_direction_eq Let_def

subsection \<open>Invariant: the counters stay small\<close>

definition stick_inv :: "stick_statics \<Rightarrow> bool" where
  "stick_inv s \<longleftrightarrow> -1 \<le> left_count s \<and> left_count s \<le> 4 \<and> -1 \<le> right_count s \<and> right_count s \<le> 4 \<and>
     -2 \<le> up_count s \<and> up_count s \<le> 4 \<and> 0 \<le> up_long_count s \<and> up_long_count s \<le> 301 \<and>
     -2 \<le> down_count s \<and> down_count s \<le> 4 \<and> 0 \<le> down_long_count s \<and> down_long_count s \<le> 301"

lemma stick_init_inv [simp]: "stick_inv stick_init"
  by (simp add: stick_inv_def stick_init_def)

lemma vertical_hold_inv:
  assumes "vertical_hold d c n l = (r, n', l')" and "-2 \<le> n" and "n \<le> 4" and "0 \<le> l" and "l \<le> 301"
  shows "-2 \<le> n' \<and> n' \<le> 4 \<and> 0 \<le> l' \<and> l' \<le> 301"
  using assms by (auto simp: vertical_hold_def split: if_splits)

lemma read_direction_inv [inv_intro]: "stick_inv s \<Longrightarrow> stick_inv (snd (read_direction s i))"
  by (auto simp: stick_inv_def read_direction_def reset_counts_def Let_def
      dest!: vertical_hold_inv split: prod.splits)

interpretation sm: input_machine read_direction stick_inv
  by unfold_locales (rule read_direction_inv)

lemma vertical_hold_answers: "fst (vertical_hold d c n l) = CENTER \<or> fst (vertical_hold d c n l) = d"
  by (simp add: vertical_hold_def)

lemma read_direction_answers: "fst (read_direction s i) \<in> {CENTER, UP, DOWN, LEFT, RIGHT}"
  using vertical_hold_answers [of DOWN "fst i" "up_count s" "up_long_count s"]
    vertical_hold_answers [of UP "fst i" "down_count s" "down_long_count s"]
  by (cases i) (auto simp: read_direction_def Let_def prod.case_eq_if)

subsection \<open>Stick positions\<close>

definition pushed_left :: "u8 \<times> int \<times> int \<Rightarrow> bool" where
  "pushed_left = (\<lambda>(c, x, y). x_direction x = LEFT \<and> y_direction y = CENTER)"

definition pushed_right :: "u8 \<times> int \<times> int \<Rightarrow> bool" where
  "pushed_right = (\<lambda>(c, x, y). x_direction x = RIGHT \<and> y_direction y = CENTER)"

definition pushed_up :: "u8 \<times> int \<times> int \<Rightarrow> bool" where
  "pushed_up = (\<lambda>(c, x, y). x_direction x = CENTER \<and> y_direction y = UP)"

definition pushed_down :: "u8 \<times> int \<times> int \<Rightarrow> bool" where
  "pushed_down = (\<lambda>(c, x, y). x_direction x = CENTER \<and> y_direction y = DOWN)"

definition at_rest :: "u8 \<times> int \<times> int \<Rightarrow> bool" where
  "at_rest = (\<lambda>(c, x, y). x_direction x = CENTER \<and> y_direction y = CENTER)"

lemmas position_defs = pushed_left_def pushed_right_def pushed_up_def pushed_down_def at_rest_def

lemma at_rest_resets: "at_rest i \<Longrightarrow> read_direction s i = (CENTER, reset_counts s)"
  by (auto simp: read_direction_def at_rest_def Let_def)

interpretation sl: debounce read_direction "\<lambda>_. True" left_count pushed_left CENTER RIGHT 4 "-1"
  by unfold_locales (auto simp: read_direction_def pushed_left_def Let_def)

interpretation sr: debounce read_direction "\<lambda>_. True" right_count pushed_right CENTER LEFT 4 "-1"
  by unfold_locales (auto simp: read_direction_def pushed_right_def Let_def)

text \<open>A vertical push runs the two counters of its direction and nothing else.\<close>

definition hold_step :: "u8 \<Rightarrow> int \<times> int \<Rightarrow> u8 \<Rightarrow> u8 \<times> int \<times> int" where
  "hold_step d = (\<lambda>(n, l) c. vertical_hold d c n l)"

lemma up_hold_run:
  assumes "\<forall>i \<in> set is. pushed_up i"
  shows "run_out read_direction s is =
         run_out (hold_step DOWN) (up_count s, up_long_count s) (map fst is)"
  using assms
  by (induction "is" arbitrary: s)
    (auto simp: read_direction_def pushed_up_def hold_step_def Let_def split: prod.splits)

lemma down_hold_run:
  assumes "\<forall>i \<in> set is. pushed_down i"
  shows "run_out read_direction s is =
         run_out (hold_step UP) (down_count s, down_long_count s) (map fst is)"
  using assms
  by (induction "is" arbitrary: s)
    (auto simp: read_direction_def pushed_down_def hold_step_def Let_def split: prod.splits)

text \<open>
  Without continuous reading a vertical push is debounced like the others. With it, the
  first event is followed by a long pause and then by events at a steady rate: three
  counters in turn.
\<close>

interpretation single: debounce "hold_step d" "\<lambda>s. True" fst "\<lambda>c. c = 0" CENTER d 4 "-1" for d
  by unfold_locales (auto simp: hold_step_def vertical_hold_def)

interpretation press: press_counter "hold_step d" "\<lambda>s. snd s = 0" fst "\<lambda>c. c \<noteq> 0" CENTER d 4 "-1" for d
  by unfold_locales (auto simp: hold_step_def vertical_hold_def)

interpretation pause: press_counter "hold_step d" "\<lambda>s. fst s = -1" snd "\<lambda>c. c \<noteq> 0" CENTER CENTER 301 0 for d
  by unfold_locales (auto simp: hold_step_def vertical_hold_def)

interpretation repeat: press_counter "hold_step d" "\<lambda>s. fst s = -2" snd "\<lambda>c. c \<noteq> 0" CENTER d 31 0 for d
  by unfold_locales (auto simp: hold_step_def vertical_hold_def)

lemma press_phase:
  assumes "\<forall>c \<in> set cs. c \<noteq> 0" and "length cs = 5"
  shows "run_out (hold_step d) (0, 0) cs = replicate 4 CENTER @ [d]"
    and "run_state (hold_step d) (0, 0) cs = (-1, 0)"
  using press.reaches_event(1,3) [of cs "(0, 0)" d] assms
  by (auto simp: hold_step_def vertical_hold_def)

lemma pause_phase:
  assumes "\<forall>c \<in> set cs. c \<noteq> 0" and "length cs = 302"
  shows "run_out (hold_step d) (-1, 0) cs = replicate 302 CENTER"
    and "run_state (hold_step d) (-1, 0) cs = (-2, 0)"
proof -
  have "run_out (hold_step d) (-1, 0) cs = replicate 301 CENTER @ [CENTER]"
    using pause.reaches_event(1) [of cs "(-1, 0)" d] assms by simp
  also have "\<dots> = replicate (Suc 301) CENTER"
    by (simp only: replicate_Suc replicate_append_same)
  finally show "run_out (hold_step d) (-1, 0) cs = replicate 302 CENTER" by simp
  show "run_state (hold_step d) (-1, 0) cs = (-2, 0)"
    using pause.reaches_event(3) [of cs "(-1, 0)" d] assms
    by (auto simp: hold_step_def vertical_hold_def)
qed

lemma repeat_phase:
  assumes "\<forall>c \<in> set cs. c \<noteq> 0" and "length cs = 32 * k"
  shows "run_out (hold_step d) (-2, 0) cs = concat (replicate k (replicate 31 CENTER @ [d]))"
  using assms
proof (induction k arbitrary: cs)
  case 0
  then show ?case by simp
next
  case (Suc k)
  have split: "cs = take 32 cs @ drop 32 cs" by simp
  have t: "\<forall>c \<in> set (take 32 cs). c \<noteq> 0" "length (take 32 cs) = Suc 31"
    and r: "\<forall>c \<in> set (drop 32 cs). c \<noteq> 0" "length (drop 32 cs) = 32 * k"
    using Suc.prems by (auto dest: in_set_takeD in_set_dropD)
  have a: "run_out (hold_step d) (-2, 0) (take 32 cs) = replicate 31 CENTER @ [d]"
      "run_state (hold_step d) (-2, 0) (take 32 cs) = (-2, 0)"
    using repeat.reaches_event(1,3) [OF t(1) _ _ t(2), of "(-2, 0)" d]
    by (auto simp: hold_step_def vertical_hold_def)
  have "run_out (hold_step d) (-2, 0) (take 32 cs @ drop 32 cs) =
      (replicate 31 CENTER @ [d]) @ concat (replicate k (replicate 31 CENTER @ [d]))"
    by (simp only: run_out_append a Suc.IH [OF r])
  then show ?case by simp
qed

subsection \<open>Properties\<close>

text \<open>
  The seven static counters of \<open>read_direction\<close> stay within a few hundred values for
  every sequence of converter readings, so no signed increment overflows, and every answer
  is one of the five direction codes.
\<close>

theorem read_direction_bounded:
  "stick_inv (run_state read_direction stick_init xs) \<and>
   list_all (\<lambda>r. r \<in> {CENTER, UP, DOWN, LEFT, RIGHT}) (run_out read_direction stick_init xs)"
proof (intro conjI)
  show "stick_inv (run_state read_direction stick_init xs)"
    by (rule sm.inv_run [OF stick_init_inv])
  show "list_all (\<lambda>r. r \<in> {CENTER, UP, DOWN, LEFT, RIGHT}) (run_out read_direction stick_init xs)"
    by (rule sm.inv_outputs [OF stick_init_inv]) (rule read_direction_answers)
qed

definition single_push :: "(u8 \<times> int \<times> int \<Rightarrow> bool) \<Rightarrow> u8 \<Rightarrow> bool" where
  "single_push held ev \<longleftrightarrow> held = pushed_left \<and> ev = RIGHT \<or> held = pushed_right \<and> ev = LEFT \<or>
     held = (\<lambda>i. pushed_up i \<and> fst i = 0) \<and> ev = DOWN \<or>
     held = (\<lambda>i. pushed_down i \<and> fst i = 0) \<and> ev = UP"

text \<open>
  One push, one event, in the opposite direction. After a sample at rest, a stick held
  in one of the four directions (for the vertical ones: while continuous reading is off) is
  reported exactly once, at the fifth sample, as the direction opposite to the raw reading,
  because the stick is mounted upside down.
\<close>

theorem stick_push_reported_once:
  assumes "single_push held ev" and "at_rest i" and "\<forall>j \<in> set xs. held j" and "4 < length xs"
  shows "run_out read_direction s (i # xs) =
           CENTER # replicate 4 CENTER @ ev # replicate (length xs - 5) CENTER"
proof -
  let ?s = "reset_counts s"
  have zero: "left_count ?s = 0" "right_count ?s = 0" "up_count ?s = 0" "down_count ?s = 0"
    by (simp_all add: reset_counts_def)
  have v: "run_out (hold_step d) (0, l) (map fst xs) =
      replicate 4 CENTER @ d # replicate (length xs - 5) CENTER"
    if "\<forall>j \<in> set xs. fst j = 0" for d l
    using single.one_event_per_press [of "map fst xs" "(0, l)" d] that assms(4) by auto
  have "run_out read_direction ?s xs =
      replicate 4 CENTER @ ev # replicate (length xs - 5) CENTER"
    using assms(1,3,4) sl.one_event_per_press [of xs ?s] sr.one_event_per_press [of xs ?s]
      up_hold_run [of xs ?s] down_hold_run [of xs ?s] v zero
    by (auto simp: single_push_def)
  then show ?thesis by (simp add: at_rest_resets [OF assms(2)])
qed

theorem stick_push_reported_once_witness:
  "run_out read_direction stick_init ((0, 2000, 2000) # replicate 50 (0, 2000, 4095)) =
     CENTER # replicate 4 CENTER @ DOWN # replicate 45 CENTER"
  using stick_push_reported_once [where held = "\<lambda>i. pushed_up i \<and> fst i = 0" and ev = DOWN
      and i = "(0, 2000, 2000)" and xs = "replicate 50 (0, 2000, 4095)" and s = stick_init]
  by (simp add: single_push_def position_defs x_direction_eq y_direction_eq)

text \<open>
  C34: Auto-repeat. With continuous reading on, a stick held up or down from rest reports
  its first event at the fifth sample, is silent for the next 302, and from then on reports
  one event in every 32 samples.
\<close>

theorem stick_auto_repeat:
  assumes "held = pushed_up \<and> d = DOWN \<or> held = pushed_down \<and> d = UP"
    and "at_rest i" and "\<forall>j \<in> set xs. held j \<and> fst j \<noteq> 0" and "length xs = 307 + 32 * k"
  shows "run_out read_direction s (i # xs) = CENTER # replicate 4 CENTER @ d # replicate 302 CENTER @
           concat (replicate k (replicate 31 CENTER @ [d]))"
proof -
  define cs where "cs = map fst xs"
  have cs: "\<forall>c \<in> set cs. c \<noteq> 0" "length cs = 307 + 32 * k"
    using assms(3,4) by (auto simp: cs_def)
  have split: "cs = take 5 cs @ take 302 (drop 5 cs) @ drop 307 cs"
    using split_three [of cs 5 302] by simp
  have parts: "\<forall>c \<in> set (take 5 cs). c \<noteq> 0" "length (take 5 cs) = 5"
      "\<forall>c \<in> set (take 302 (drop 5 cs)). c \<noteq> 0" "length (take 302 (drop 5 cs)) = 302"
      "\<forall>c \<in> set (drop 307 cs). c \<noteq> 0" "length (drop 307 cs) = 32 * k"
    using cs by (auto dest: in_set_takeD in_set_dropD)
  have "run_out (hold_step d) (0, 0) (take 5 cs @ take 302 (drop 5 cs) @ drop 307 cs) =
      (replicate 4 CENTER @ [d]) @ replicate 302 CENTER @ concat (replicate k (replicate 31 CENTER @ [d]))"
    by (simp only: run_out_append press_phase [OF parts(1,2)] pause_phase [OF parts(3,4)]
        repeat_phase [OF parts(5,6)])
  then have hold: "run_out (hold_step d) (0, 0) cs =
      replicate 4 CENTER @ d # replicate 302 CENTER @ concat (replicate k (replicate 31 CENTER @ [d]))"
    using split by simp
  have "run_out read_direction (reset_counts s) xs = run_out (hold_step d) (0, 0) cs"
    using assms(1,3) up_hold_run [of xs "reset_counts s"] down_hold_run [of xs "reset_counts s"]
    by (auto simp: reset_counts_def cs_def)
  with hold show ?thesis by (simp add: at_rest_resets [OF assms(2)])
qed

theorem stick_auto_repeat_witness:
  "run_out read_direction stick_init ((1, 2000, 2000) # replicate 371 (1, 2000, 0)) =
     CENTER # replicate 4 CENTER @ UP # replicate 302 CENTER @
       concat (replicate 2 (replicate 31 CENTER @ [UP]))"
  using stick_auto_repeat [where held = pushed_down and d = UP and i = "(1, 2000, 2000)"
      and xs = "replicate 371 (1, 2000, 0)" and k = 2 and s = stick_init]
  by (simp add: position_defs x_direction_eq y_direction_eq)

end
