(* ===== verification/Motion_Controllers.thy ===== *)
theory Motion_Controllers
  imports Esp_Calls
begin

text \<open>
  \<open>firmware/main/motion_controllers.c\<close>: the gyroscope and accelerometer behind the SPI
  bus. The SPI driver is a parameter \<open>xfer\<close> of the register functions: it takes a
  transaction and the state of the bus and answers whether it succeeded and the byte it
  received, if any. A failed \<open>assert\<close> and a null buffer are error values.

  \<open>get_movement_magnitude\<close> keeps the last thirteen samples of each axis in a ring; the
  lemmas show that the ring holds exactly that window, so the result is the distance of a
  sample from the moving average of the thirteen before it, and that no intermediate
  value of the sums leaves the range of a 32 bit \<open>int\<close>.
\<close>

subsection \<open>Registers behind the bus\<close>

abbreviation (input) AVE_SAMPLE :: nat where "AVE_SAMPLE \<equiv> 13"
abbreviation (input) WRITE :: u8 where "WRITE \<equiv> 0x00"
abbreviation (input) READ :: u8 where "READ \<equiv> 0x80"
abbreviation (input) CTRL_REG8 :: u8 where "CTRL_REG8 \<equiv> 0x22"
abbreviation (input) REBOOT_MOTION :: u8 where "REBOOT_MOTION \<equiv> 0x05"

type_synonym 'd spi_xfer = "spi_transaction \<Rightarrow> 'd \<Rightarrow> (bool \<times> u8 option) \<times> 'd"

text \<open>The two DMA buffers, \<open>None\<close> for a null pointer, by their first byte, and the bus.\<close>

record 'd motion_hw =
  tx_buffer :: "u8 option"
  rx_buffer :: "u8 option"
  bus :: 'd

definition transmit_assert :: "'d spi_xfer \<Rightarrow> spi_transaction \<Rightarrow> 'd motion_hw \<Rightarrow> (u8 option \<times> 'd motion_hw) result" where
  "transmit_assert xfer t h = (case xfer t (bus h) of ((ok, rx), d) \<Rightarrow>
     if ok then Inr (rx, h\<lparr>bus := d\<rparr>) else Inl Assert_failed)"

definition write_motion_reg :: "'d spi_xfer \<Rightarrow> u8 \<Rightarrow> u8 \<Rightarrow> 'd motion_hw \<Rightarrow> 'd motion_hw result" where
  "write_motion_reg xfer reg val h = (case tx_buffer h of
     None \<Rightarrow> Inl Null_dereference
   | Some _ \<Rightarrow> bind_result
       (transmit_assert xfer \<lparr>spi_length = 8, spi_rxlength = 0, spi_tx = Some val, spi_cmd = WRITE OR reg\<rparr>
          (h\<lparr>tx_buffer := Some val\<rparr>))
       (\<lambda>(_, h'). Inr h'))"

definition restart_motion_device :: "'d spi_xfer \<Rightarrow> 'd motion_hw \<Rightarrow> 'd motion_hw result" where
  "restart_motion_device xfer h = (case tx_buffer h of
     None \<Rightarrow> Inl Null_dereference
   | Some _ \<Rightarrow> bind_result
       (transmit_assert xfer
          \<lparr>spi_length = 16, spi_rxlength = 0, spi_tx = Some REBOOT_MOTION, spi_cmd = WRITE OR CTRL_REG8\<rparr>
          (h\<lparr>tx_buffer := Some REBOOT_MOTION\<rparr>))
       (\<lambda>(_, h'). Inr h'))"

text \<open>The receive buffer is cleared first, so a transfer that delivers nothing reads 0.\<close>

definition read_motion_reg :: "'d spi_xfer \<Rightarrow> u8 \<Rightarrow> 'd motion_hw \<Rightarrow> (u8 \<times> 'd motion_hw) result" where
  "read_motion_reg xfer reg h = (case rx_buffer h of
     None \<Rightarrow> Inl Null_dereference
   | Some _ \<Rightarrow> bind_result
       (transmit_assert xfer \<lparr>spi_length = 8, spi_rxlength = 8, spi_tx = None, spi_cmd = 0x80 OR reg\<rparr> h)
       (\<lambda>(rx, h'). let b = (case rx of None \<Rightarrow> 0 | Some v \<Rightarrow> v) in Inr (b, h'\<lparr>rx_buffer := Some b\<rparr>)))"

text \<open>
  Initialisation: the answers of the bus set-up and the two allocations are inputs; then
  the three control registers are written.
\<close>

definition init_motion_controllers ::
    "'d spi_xfer \<Rightarrow> bool \<Rightarrow> bool \<Rightarrow> bool \<Rightarrow> bool \<Rightarrow> 'd \<Rightarrow> 'd motion_hw result" where
  "init_motion_controllers xfer bus_ok dev_ok tx_ok rx_ok d =
     (if \<not> bus_ok then Inl Assert_failed
      else if \<not> dev_ok then Inl Assert_failed
      else
        let h = \<lparr>tx_buffer = (if tx_ok then Some 0 else None), rx_buffer = (if rx_ok then Some 0 else None), bus = d\<rparr>
        in bind_result (write_motion_reg xfer 0x10 0xA0 h)
             (\<lambda>h. bind_result (write_motion_reg xfer 0x17 0x64 h)
               (\<lambda>h. write_motion_reg xfer 0x58 0x10 h)))"

subsection \<open>The moving average\<close>

record motion_statics =
  x_ave :: "int list"
  y_ave :: "int list"
  z_ave :: "int list"
  ave_count :: int

definition motion_init :: motion_statics where
  "motion_init = \<lparr>x_ave = replicate AVE_SAMPLE 0, y_ave = replicate AVE_SAMPLE 0,
     z_ave = replicate AVE_SAMPLE 0, ave_count = - 1\<rparr>"

definition get_average :: "int list \<Rightarrow> int" where
  "get_average buf = c_div (foldl (\<lambda>ave i. ave + buf ! i) 0 [0..<AVE_SAMPLE]) (int AVE_SAMPLE)"

definition magnitude :: "int \<Rightarrow> int" where
  "magnitude m = (if m < 0 then - 1 * m else m)"

definition get_movement_magnitude :: "int \<Rightarrow> int \<Rightarrow> int \<Rightarrow> motion_statics \<Rightarrow> int \<times> motion_statics" where
  "get_movement_magnitude x y z s =
     (let x_mag = get_average (x_ave s) - x;
          y_mag = get_average (y_ave s) - y;
          z_mag = get_average (z_ave s) - z;
          movement_magnitude = 0 + magnitude x_mag + magnitude y_mag + magnitude z_mag;
          count = (if ave_count s + 1 \<ge> int AVE_SAMPLE then 0 else ave_count s + 1)
      in (movement_magnitude,
          s\<lparr>x_ave := (x_ave s)[nat count := x], y_ave := (y_ave s)[nat count := y],
            z_ave := (z_ave s)[nat count := z], ave_count := count\<rparr>))"

text \<open>Two register bytes as a signed sample: \<open>(int16_t) (lo | hi << 8)\<close>.\<close>

definition sample_of :: "u8 \<Rightarrow> u8 \<Rightarrow> int" where
  "sample_of lo hi = sint ((ucast lo OR push_bit 8 (ucast hi)) :: u16)"

definition read_axis :: "'d spi_xfer \<Rightarrow> u8 \<Rightarrow> u8 \<Rightarrow> 'd motion_hw \<Rightarrow> (int \<times> 'd motion_hw) result" where
  "read_axis xfer l r h =
     bind_result (read_motion_reg xfer l h) (\<lambda>(lo, h).
       bind_result (read_motion_reg xfer r h) (\<lambda>(hi, h). Inr (sample_of lo hi, h)))"

definition read_motion ::
    "'d spi_xfer \<Rightarrow> 'd motion_hw \<Rightarrow> motion_statics \<Rightarrow> (int \<times> 'd motion_hw \<times> motion_statics) result" where
  "read_motion xfer h s =
     bind_result (read_axis xfer 0x28 0x29 h) (\<lambda>(x, h).
       bind_result (read_axis xfer 0x2A 0x2B h) (\<lambda>(y, h).
         bind_result (read_axis xfer 0x2C 0x2D h) (\<lambda>(z, h).
           case get_movement_magnitude x y z s of (m, s') \<Rightarrow> Inr (m, h, s'))))"

subsection \<open>The ring is the window of the last thirteen samples\<close>

text \<open>
  Specification: the window of a history is its last thirteen samples, with zeros for
  samples that were never taken; a sample is compared with the truncated average of it.
\<close>

definition window :: "int list \<Rightarrow> int list" where
  "window hist = drop (length hist) (replicate AVE_SAMPLE 0 @ hist)"

definition mean :: "int list \<Rightarrow> int" where
  "mean xs = c_div (sum_list xs) (int (length xs))"

definition deviation :: "int list \<Rightarrow> int \<Rightarrow> int" where
  "deviation hist x = \<bar>mean (window hist) - x\<bar>"

lemma length_window [simp]: "length (window hist) = AVE_SAMPLE"
  by (simp add: window_def)

lemma window_snoc: "window (hist @ [x]) = tl (window hist) @ [x]"
proof -
  have "window (hist @ [x]) = drop (Suc (length hist)) ((replicate 13 0 @ hist) @ [x])"
    by (simp only: window_def length_append append_assoc) simp
  also have "\<dots> = drop (Suc (length hist)) (replicate 13 0 @ hist) @ [x]"
    by (simp only: drop_append) simp
  finally show ?thesis
    by (simp only: window_def drop_Suc tl_drop)
qed

text \<open>A ring buffer read from the slot after \<open>count\<close> on, in the order of arrival.\<close>

definition ring_view :: "int list \<Rightarrow> int \<Rightarrow> int list" where
  "ring_view buf c = rotate (nat (c + 1)) buf"

definition ring_next :: "int \<Rightarrow> int" where
  "ring_next c = (if c + 1 \<ge> int AVE_SAMPLE then 0 else c + 1)"

lemma rotate_update:
  assumes "n < length xs"
  shows "rotate (Suc n) (xs[n := x]) = tl (rotate n xs) @ [x]"
proof -
  have split: "xs = take n xs @ xs ! n # drop (Suc n) xs"
    using assms by (rule id_take_nth_drop)
  have "rotate n xs = (xs ! n # drop (Suc n) xs) @ take n xs"
    using assms rotate_append [of "take n xs" "xs ! n # drop (Suc n) xs"] split
    by (metis length_take less_imp_le min.absorb2)
  moreover have "rotate (Suc n) (xs[n := x]) = drop (Suc n) xs @ take n xs @ [x]"
    using assms rotate_append [of "take n xs @ [x]" "drop (Suc n) xs"]
    by (simp add: upd_conv_take_nth_drop)
  ultimately show ?thesis by simp
qed

lemma ring_next_range: "- 1 \<le> c \<Longrightarrow> c < 13 \<Longrightarrow> 0 \<le> ring_next c \<and> ring_next c < 13"
  by (simp add: ring_next_def)

lemma ring_view_update:
  assumes "length buf = AVE_SAMPLE" "- 1 \<le> c" "c < 13"
  shows "ring_view (buf[nat (ring_next c) := x]) (ring_next c) = tl (ring_view buf c) @ [x]"
proof -
  have "rotate (nat (ring_next c)) buf = rotate (nat (c + 1)) buf"
    using assms rotate_id [of 13 buf] by (cases "c = 12") (auto simp: ring_next_def)
  moreover have "nat (ring_next c + 1) = Suc (nat (ring_next c))"
    using ring_next_range [OF assms(2,3)] by arith
  ultimately show ?thesis
    using rotate_update [of "nat (ring_next c)" buf x] ring_next_range [OF assms(2,3)] assms(1)
    by (auto simp: ring_view_def)
qed

lemma foldl_nth_sum: "foldl (\<lambda>a i. a + xs ! i) a [0..<n] = (a :: int) + sum_list (map ((!) xs) [0..<n])"
  by (induction n) simp_all

lemma get_average_mean: "length buf = AVE_SAMPLE \<Longrightarrow> get_average buf = mean buf"
  using map_nth [of buf] by (simp only: get_average_def mean_def foldl_nth_sum) simp

lemma sum_list_rotate: "sum_list (rotate n xs) = (sum_list xs :: int)"
proof (induction n)
  case (Suc n)
  have "sum_list (rotate1 ys) = sum_list ys" for ys :: "int list" by (cases ys) simp_all
  then show ?case using Suc by simp
qed simp

lemma mean_ring_view: "mean (ring_view buf c) = mean buf"
  by (simp add: mean_def ring_view_def sum_list_rotate)

text \<open>The state after a history, as a relation between the rings and the three histories.\<close>

definition motion_abs :: "(int \<times> int \<times> int) list \<Rightarrow> motion_statics \<Rightarrow> bool" where
  "motion_abs hist s \<longleftrightarrow>
     - 1 \<le> ave_count s \<and> ave_count s < 13 \<and>
     length (x_ave s) = 13 \<and> length (y_ave s) = 13 \<and> length (z_ave s) = 13 \<and>
     ring_view (x_ave s) (ave_count s) = window (map fst hist) \<and>
     ring_view (y_ave s) (ave_count s) = window (map (fst \<circ> snd) hist) \<and>
     ring_view (z_ave s) (ave_count s) = window (map (snd \<circ> snd) hist)"

lemma motion_abs_init: "motion_abs [] motion_init"
  by (simp add: motion_abs_def motion_init_def ring_view_def window_def)

lemma magnitude_abs: "magnitude m = \<bar>m\<bar>"
  by (simp add: magnitude_def)

lemma get_movement_magnitude_ring_next:
  "get_movement_magnitude x y z s =
     (\<bar>get_average (x_ave s) - x\<bar> + \<bar>get_average (y_ave s) - y\<bar> + \<bar>get_average (z_ave s) - z\<bar>,
      s\<lparr>x_ave := (x_ave s)[nat (ring_next (ave_count s)) := x],
        y_ave := (y_ave s)[nat (ring_next (ave_count s)) := y],
        z_ave := (z_ave s)[nat (ring_next (ave_count s)) := z],
        ave_count := ring_next (ave_count s)\<rparr>)"
  by (simp add: get_movement_magnitude_def Let_def magnitude_abs ring_next_def)

lemma get_movement_magnitude_refines:
  assumes "motion_abs hist s"
  shows "fst (get_movement_magnitude x y z s) =
      deviation (map fst hist) x + deviation (map (fst \<circ> snd) hist) y + deviation (map (snd \<circ> snd) hist) z"
    and "motion_abs (hist @ [(x, y, z)]) (snd (get_movement_magnitude x y z s))"
proof -
  have avg: "get_average buf = mean (window h)"
    if "length buf = 13" "ring_view buf (ave_count s) = window h" for buf h
    using that mean_ring_view [of buf "ave_count s"] by (simp add: get_average_mean)
  show "fst (get_movement_magnitude x y z s) =
      deviation (map fst hist) x + deviation (map (fst \<circ> snd) hist) y + deviation (map (snd \<circ> snd) hist) z"
    using assms by (simp add: get_movement_magnitude_ring_next deviation_def motion_abs_def avg)
  show "motion_abs (hist @ [(x, y, z)]) (snd (get_movement_magnitude x y z s))"
    using assms ring_next_range [of "ave_count s"]
    by (simp add: motion_abs_def get_movement_magnitude_ring_next ring_view_update window_snoc)
qed

definition movement_step :: "motion_statics \<Rightarrow> int \<times> int \<times> int \<Rightarrow> int \<times> motion_statics" where
  "movement_step s v = (case v of (x, y, z) \<Rightarrow> get_movement_magnitude x y z s)"

lemma motion_abs_run: "motion_abs hist (run_state movement_step motion_init hist)"
proof (induction hist rule: rev_induct)
  case Nil
  then show ?case by (simp add: motion_abs_init)
next
  case (snoc v hist)
  then show ?case
    using get_movement_magnitude_refines(2) [OF snoc] by (cases v) (simp add: movement_step_def)
qed

subsection \<open>Bounds\<close>

lemma sum_list_int16:
  assumes "\<forall>x \<in> set xs. int16 x"
  shows "- 32768 * int (length xs) \<le> sum_list xs \<and> sum_list xs \<le> 32767 * int (length xs)"
  using assms by (induction xs) (auto simp: int16_def)

lemma int16_mean:
  assumes "\<forall>x \<in> set xs. int16 x" "length xs = AVE_SAMPLE"
  shows "int16 (mean xs)"
proof -
  have "- (32768 * 13) \<le> sum_list xs" "sum_list xs \<le> 32767 * 13"
    using sum_list_int16 [OF assms(1)] assms(2) by simp_all
  then show ?thesis
    using assms(2) by (cases "0 \<le> sum_list xs") (auto simp: mean_def int16_def c_div_nonneg c_div_neg)
qed

lemma set_window: "set (window hist) \<subseteq> insert 0 (set hist)"
  using set_drop_subset [of "length hist" "replicate 13 0 @ hist"] by (auto simp: window_def)

lemma int16_window: "\<forall>x \<in> set hist. int16 x \<Longrightarrow> \<forall>x \<in> set (window hist). int16 x"
  using set_window by (fastforce simp: int16_def)

lemma deviation_bound:
  assumes "\<forall>x \<in> set hist. int16 x" "int16 x"
  shows "0 \<le> deviation hist x \<and> deviation hist x \<le> 65535"
  using int16_mean [OF int16_window [OF assms(1)]] assms(2) by (auto simp: deviation_def int16_def)

lemma partial_sum_int32:
  assumes "\<forall>x \<in> set buf. int16 x" "length buf = AVE_SAMPLE" "n \<le> AVE_SAMPLE"
  shows "int32 (foldl (\<lambda>ave i. ave + buf ! i) 0 [0..<n])"
proof -
  have take: "map ((!) buf) [0..<n] = take n buf"
    using assms(2,3) by (intro nth_equalityI) simp_all
  have "\<forall>x \<in> set (take n buf). int16 x"
    using assms(1) by (meson in_set_takeD)
  from sum_list_int16 [OF this]
  have "- 32768 * int n \<le> sum_list (take n buf) \<and> sum_list (take n buf) \<le> 32767 * int n"
    using assms(2,3) by simp
  then have "- 2147483648 \<le> sum_list (take n buf)" "sum_list (take n buf) \<le> 2147483647"
    using assms(3) by linarith+
  then show ?thesis
    unfolding foldl_nth_sum take int32_def by simp
qed

subsection \<open>Samples from register bytes\<close>

definition low_byte :: "int \<Rightarrow> u8" where "low_byte v = word_of_int v"
definition high_byte :: "int \<Rightarrow> u8" where "high_byte v = word_of_int (drop_bit 8 v)"

lemma sample_of_bytes:
  assumes "int16 v"
  shows "sample_of (low_byte v) (high_byte v) = v"
proof -
  have "(ucast (low_byte v) OR push_bit 8 (ucast (high_byte v)) :: u16) = word_of_int v"
    by (rule bit_word_eqI)
       (auto simp: low_byte_def high_byte_def bit_simps not_less)
  then show ?thesis
    using assms by (simp add: sample_of_def int16_def signed_of_int signed_take_bit_int_eq_self)
qed

text \<open>
  What the controller relies on of the motion sensor: a read transaction of a register
  succeeds and delivers its byte. Register \<open>r\<close> is read by the command \<open>0x80 | r\<close>.
\<close>

definition read_transaction :: "u8 \<Rightarrow> spi_transaction" where
  "read_transaction r = \<lparr>spi_length = 8, spi_rxlength = 8, spi_tx = None, spi_cmd = READ OR r\<rparr>"

definition sensor_holds :: "'d spi_xfer \<Rightarrow> 'd \<Rightarrow> u8 \<Rightarrow> u8 \<Rightarrow> bool" where
  "sensor_holds xfer d r v \<longleftrightarrow> xfer (read_transaction r) d = ((True, Some v), d)"

lemma read_motion_reg_holds:
  assumes "sensor_holds xfer (bus h) r v" "rx_buffer h \<noteq> None"
  shows "read_motion_reg xfer r h = Inr (v, h\<lparr>rx_buffer := Some v\<rparr>)"
  using assms by (auto simp: sensor_holds_def read_motion_reg_def transmit_assert_def read_transaction_def Let_def)

definition axis_holds :: "'d spi_xfer \<Rightarrow> 'd \<Rightarrow> u8 \<Rightarrow> u8 \<Rightarrow> int \<Rightarrow> bool" where
  "axis_holds xfer d l r v \<longleftrightarrow> int16 v \<and> sensor_holds xfer d l (low_byte v) \<and> sensor_holds xfer d r (high_byte v)"

lemma read_axis_holds:
  assumes "axis_holds xfer (bus h) l r v" "rx_buffer h \<noteq> None"
  shows "read_axis xfer l r h = Inr (v, h\<lparr>rx_buffer := Some (high_byte v)\<rparr>)"
proof -
  have "read_motion_reg xfer l h = Inr (low_byte v, h\<lparr>rx_buffer := Some (low_byte v)\<rparr>)"
    "read_motion_reg xfer r (h\<lparr>rx_buffer := Some (low_byte v)\<rparr>) = Inr (high_byte v, h\<lparr>rx_buffer := Some (high_byte v)\<rparr>)"
    using assms read_motion_reg_holds [of xfer "h\<lparr>rx_buffer := Some (low_byte v)\<rparr>" r "high_byte v"]
    by (simp_all add: axis_holds_def read_motion_reg_holds)
  then show ?thesis
    using assms(1) by (simp add: read_axis_def axis_holds_def sample_of_bytes)
qed

lemma read_motion_reg_fails:
  assumes "\<And>t. \<not> fst (fst (xfer t (bus h)))" "rx_buffer h \<noteq> None"
  shows "read_motion_reg xfer r h = Inl Assert_failed"
proof -
  have "transmit_assert xfer t h = Inl Assert_failed" for t
    using assms(1) [of t] by (auto simp: transmit_assert_def split: prod.splits)
  then show ?thesis using assms(2) by (auto simp: read_motion_reg_def)
qed

subsection \<open>Properties\<close>

text \<open>
  C35: The ring buffers implement a moving window. After any history of samples, the
  result for a new sample is the sum over the axes of its distance from the truncated
  average of the thirteen samples before it, counting zeros for samples not yet taken.
\<close>

theorem movement_is_deviation_from_window:
  "fst (get_movement_magnitude x y z (run_state movement_step motion_init hist)) =
     deviation (map fst hist) x + deviation (map (fst \<circ> snd) hist) y + deviation (map (snd \<circ> snd) hist) z"
  by (rule get_movement_magnitude_refines(1) [OF motion_abs_run])

text \<open>
  C36: No signed overflow. With samples of sixteen bits, as \<open>read_motion\<close> delivers them,
  every partial sum of the three averages stays in the range of a 32 bit \<open>int\<close>, and
  the movement magnitude lies between 0 and 196605.
\<close>

theorem movement_in_range:
  assumes "\<forall>(x, y, z) \<in> set hist. int16 x \<and> int16 y \<and> int16 z" "int16 x" "int16 y" "int16 z" "n \<le> AVE_SAMPLE"
  defines "s \<equiv> run_state movement_step motion_init hist"
  shows "(\<forall>buf \<in> {x_ave s, y_ave s, z_ave s}. int32 (foldl (\<lambda>ave i. ave + buf ! i) 0 [0..<n])) \<and>
    0 \<le> fst (get_movement_magnitude x y z s) \<and> fst (get_movement_magnitude x y z s) \<le> 196605"
proof -
  have abs: "motion_abs hist s" unfolding s_def by (rule motion_abs_run)
  have hist: "\<forall>v \<in> set (map fst hist). int16 v" "\<forall>v \<in> set (map (fst \<circ> snd) hist). int16 v"
      "\<forall>v \<in> set (map (snd \<circ> snd) hist). int16 v"
    using assms(1) by auto
  have buf: "\<forall>v \<in> set buf. int16 v" if "ring_view buf (ave_count s) = window h" "\<forall>v \<in> set h. int16 v" for buf h
    using int16_window [OF that(2)] by (simp flip: that(1) add: ring_view_def)
  have "int32 (foldl (\<lambda>ave i. ave + buf ! i) 0 [0..<n])" if "buf \<in> {x_ave s, y_ave s, z_ave s}" for buf
  proof (rule partial_sum_int32 [OF _ _ assms(5)])
    show "\<forall>v \<in> set buf. int16 v" "length buf = 13"
      using that abs hist buf unfolding motion_abs_def by blast+
  qed
  moreover have "0 \<le> fst (get_movement_magnitude x y z s) \<and> fst (get_movement_magnitude x y z s) \<le> 196605"
    using deviation_bound [OF hist(1) assms(2)] deviation_bound [OF hist(2) assms(3)]
      deviation_bound [OF hist(3) assms(4)] get_movement_magnitude_refines(1) [OF abs, of x y z] by linarith
  ultimately show ?thesis by blast
qed

theorem movement_in_range_witness:
  "let s = run_state movement_step motion_init [(32767, - 32768, 5)] in
     int32 (foldl (\<lambda>ave i. ave + y_ave s ! i) 0 [0..<13]) \<and> fst (get_movement_magnitude (- 32768) 1 2 s) \<le> 196605"
  using movement_in_range [of "[(32767, - 32768, 5)]" "- 32768" 1 2 13] by (simp add: int16_def Let_def)

text \<open>A sensor at rest except for the two axes of the example below.\<close>

definition sensor_regs :: "u8 \<Rightarrow> u8" where
  "sensor_regs r = (if r = 0xA9 then 0x80 else if r = 0xAA then 0xFF else if r = 0xAB then 0xFF else 0)"

text \<open>
  The six output registers are decoded as signed samples, low byte first: when the
  sensor holds \<open>x\<close>, \<open>y\<close> and \<open>z\<close> in two's complement, \<open>read_motion\<close> returns the
  movement magnitude of exactly these values; when the bus refuses the transfer, it fails
  with the assertion and no sample is taken.
\<close>

theorem read_motion_decodes_registers:
  assumes "rx_buffer h \<noteq> None"
  shows "(axis_holds xfer (bus h) 0x28 0x29 x \<and> axis_holds xfer (bus h) 0x2A 0x2B y \<and>
      axis_holds xfer (bus h) 0x2C 0x2D z \<longrightarrow>
      read_motion xfer h s =
        Inr (fst (get_movement_magnitude x y z s), h\<lparr>rx_buffer := Some (high_byte z)\<rparr>,
             snd (get_movement_magnitude x y z s))) \<and>
    ((\<forall>t. \<not> fst (fst (xfer t (bus h)))) \<longrightarrow> read_motion xfer h s = Inl Assert_failed)"
proof (intro conjI impI)
  assume ax: "axis_holds xfer (bus h) 0x28 0x29 x \<and> axis_holds xfer (bus h) 0x2A 0x2B y \<and>
      axis_holds xfer (bus h) 0x2C 0x2D z"
  have "read_axis xfer 0x28 0x29 h = Inr (x, h\<lparr>rx_buffer := Some (high_byte x)\<rparr>)"
    using ax assms by (blast intro: read_axis_holds)
  moreover have "read_axis xfer 0x2A 0x2B (h\<lparr>rx_buffer := Some v\<rparr>) = Inr (y, h\<lparr>rx_buffer := Some (high_byte y)\<rparr>)" for v
    using ax read_axis_holds [of xfer "h\<lparr>rx_buffer := Some v\<rparr>" "0x2A" "0x2B" y] by simp
  moreover have "read_axis xfer 0x2C 0x2D (h\<lparr>rx_buffer := Some v\<rparr>) = Inr (z, h\<lparr>rx_buffer := Some (high_byte z)\<rparr>)" for v
    using ax read_axis_holds [of xfer "h\<lparr>rx_buffer := Some v\<rparr>" "0x2C" "0x2D" z] by simp
  ultimately show "read_motion xfer h s =
      Inr (fst (get_movement_magnitude x y z s), h\<lparr>rx_buffer := Some (high_byte z)\<rparr>,
           snd (get_movement_magnitude x y z s))"
    by (simp add: read_motion_def split: prod.splits)
next
  assume "\<forall>t. \<not> fst (fst (xfer t (bus h)))"
  then show "read_motion xfer h s = Inl Assert_failed"
    using assms by (simp add: read_motion_def read_axis_def read_motion_reg_fails)
qed

theorem read_motion_decodes_registers_witness:
  "read_motion (\<lambda>t d. ((True, Some (sensor_regs (spi_cmd t))), d)) \<lparr>tx_buffer = Some 0, rx_buffer = Some 0, bus = ()\<rparr>
     motion_init =
   Inr (32769, \<lparr>tx_buffer = Some 0, rx_buffer = Some 0, bus = ()\<rparr>,
     snd (get_movement_magnitude (- 32768) (- 1) 0 motion_init))"
proof -
  have "fst (get_movement_magnitude (- 32768) (- 1) 0 motion_init) = 32769"
    by code_simp
  then show ?thesis
    using read_motion_decodes_registers [of "\<lparr>tx_buffer = Some 0, rx_buffer = Some 0, bus = ()\<rparr>"
      "\<lambda>t d. ((True, Some (sensor_regs (spi_cmd t))), d)" "- 32768" "- 1" 0 motion_init]
    by (simp add: axis_holds_def sensor_holds_def read_transaction_def sensor_regs_def low_byte_def high_byte_def int16_def)
qed

end
