(* ===== verification/Packets.thy ===== *)
theory Packets
  imports Esp_Calls
begin

text \<open>
  The packed structures of \<open>firmware/main/lib/udp_controller.h\<close> and the bytes they
  occupy. The firmware runs on a little-endian core, so the memory of a packed structure
  is the concatenation of its fields, multi-byte fields low byte first.

  The interface \<open>wire_format\<close> says what a sender and a receiver of a structure need of
  such a layout: a fixed size, and that reading the fields at their offsets recovers them,
  whatever follows in the buffer. The three outgoing layouts are interpretations of it.
\<close>

subsection \<open>Layouts\<close>

locale wire_format =
  fixes enc :: "'a \<Rightarrow> u8 list" and dec :: "u8 list \<Rightarrow> 'a" and wf :: "'a \<Rightarrow> bool" and bytes :: nat
  assumes length_enc: "wf x \<Longrightarrow> length (enc x) = bytes"
    and dec_enc: "wf x \<Longrightarrow> dec (enc x @ rest) = x"
begin

lemma enc_inj: "wf x \<Longrightarrow> wf y \<Longrightarrow> enc x = enc y \<Longrightarrow> x = y"
  using dec_enc [of x "[]"] dec_enc [of y "[]"] by simp

lemma enc_unique_parse:
  assumes "wf x" "wf y" "enc x @ r = enc y @ r'"
  shows "x = y \<and> r = r'"
  using assms length_enc dec_enc by (metis append_eq_append_conv)

lemma dec_drop:
  assumes "wf x" "length pre = n"
  shows "dec (drop n (pre @ enc x @ rest)) = x"
  using assms dec_enc by simp

end

definition le32 :: "u32 \<Rightarrow> u8 list" where
  "le32 w = [ucast w, ucast (drop_bit 8 w), ucast (drop_bit 16 w), ucast (drop_bit 24 w)]"

definition of_le32 :: "u8 list \<Rightarrow> u32" where
  "of_le32 bs = push_bit 24 (ucast (bs ! 3)) OR push_bit 16 (ucast (bs ! 2)) OR
     push_bit 8 (ucast (bs ! 1)) OR ucast (bs ! 0)"

lemma length_le32 [simp]: "length (le32 w) = 4"
  by (simp add: le32_def)

lemma of_le32_le32 [simp]: "of_le32 (le32 w @ rest) = w"
proof (rule bit_word_eqI)
  fix n :: nat
  assume "n < LENGTH(32)"
  then consider "n < 8" | "8 \<le> n" "n < 16" | "16 \<le> n" "n < 24" | "24 \<le> n" "n < 32" by fastforce
  then show "bit (of_le32 (le32 w @ rest)) n = bit w n"
    by cases (auto simp: of_le32_def le32_def bit_simps)
qed

interpretation le32: wire_format le32 of_le32 "\<lambda>_. True" 4
  by unfold_locales simp_all

subsection \<open>The packed structures\<close>

record packetHeader =
  hdr_id :: "u8 list"
  packet_type :: u8
  hdr_mode :: u8

record dataPacket =
  data_header :: packetHeader
  data_type :: u8
  user_action :: u8
  joystick_0 :: u32
  joystick_1 :: u32
  gyro :: u32

record pollReplyPacket =
  reply_header :: packetHeader
  battery_level :: u32
  error_code :: u8
  message_length :: u8
  message_ptr :: u32

definition header_bytes :: "packetHeader \<Rightarrow> u8 list" where
  "header_bytes h = hdr_id h @ [packet_type h, hdr_mode h]"

definition header_of :: "u8 list \<Rightarrow> packetHeader" where
  "header_of bs = \<lparr>hdr_id = take 8 bs, packet_type = bs ! 8, hdr_mode = bs ! 9\<rparr>"

definition header_wf :: "packetHeader \<Rightarrow> bool" where
  "header_wf h \<longleftrightarrow> length (hdr_id h) = 8"

definition data_bytes :: "dataPacket \<Rightarrow> u8 list" where
  "data_bytes d = header_bytes (data_header d) @ [data_type d, user_action d] @
     le32 (joystick_0 d) @ le32 (joystick_1 d) @ le32 (gyro d)"

definition data_of :: "u8 list \<Rightarrow> dataPacket" where
  "data_of bs = \<lparr>data_header = header_of bs, data_type = bs ! 10, user_action = bs ! 11,
     joystick_0 = of_le32 (drop 12 bs), joystick_1 = of_le32 (drop 16 bs), gyro = of_le32 (drop 20 bs)\<rparr>"

definition reply_bytes :: "pollReplyPacket \<Rightarrow> u8 list" where
  "reply_bytes r = header_bytes (reply_header r) @ le32 (battery_level r) @
     [error_code r, message_length r] @ le32 (message_ptr r)"

definition reply_of :: "u8 list \<Rightarrow> pollReplyPacket" where
  "reply_of bs = \<lparr>reply_header = header_of bs, battery_level = of_le32 (drop 10 bs),
     error_code = bs ! 14, message_length = bs ! 15, message_ptr = of_le32 (drop 16 bs)\<rparr>"

lemma length_header_bytes [simp]: "header_wf h \<Longrightarrow> length (header_bytes h) = 10"
  by (simp add: header_bytes_def header_wf_def)

lemma header_of_header_bytes [simp]: "header_wf h \<Longrightarrow> header_of (header_bytes h @ rest) = h"
  by (simp add: header_bytes_def header_of_def header_wf_def nth_append)

lemma nth_after: "length pre = n \<Longrightarrow> n \<le> i \<Longrightarrow> (pre @ post) ! i = post ! (i - n)"
  by (simp add: nth_append)

lemma drop_after: "length pre = n \<Longrightarrow> n \<le> i \<Longrightarrow> drop i (pre @ post) = drop (i - n) post"
  by simp

lemmas after = nth_after [OF length_header_bytes] drop_after [OF length_header_bytes]
  nth_after [OF length_le32] drop_after [OF length_le32]

interpretation header: wire_format header_bytes header_of header_wf 10
  by unfold_locales simp_all

interpretation data: wire_format data_bytes data_of "\<lambda>d. header_wf (data_header d)" 24
  by unfold_locales (simp_all add: data_bytes_def data_of_def after)

interpretation reply: wire_format reply_bytes reply_of "\<lambda>r. header_wf (reply_header r)" 20
  by unfold_locales (simp_all add: reply_bytes_def reply_of_def after)

end
