(* ===== verification/Led_Controller.thy ===== *)
theory Led_Controller
  imports Esp_Calls
begin

text \<open>
  \<open>firmware/main/led_controller.c\<close>: the status LED. \<open>set_leds\<close> shows a mode as a colour;
  \<open>pre_connect_animation\<close> is called once per debounce tick until a base station polls and
  blinks a fixed Morse text. Its static state and the static tick counters of the five
  element functions are a record; the calls to \<open>gpio_set_level\<close> are the results.

  The element functions meet the timer interface \<open>tick_timer\<close> with the periods
  114, 340, 115, 341 and 793; the animation is their concatenation, twenty elements long.
\<close>

subsection \<open>Setting the LED\<close>

definition init_led_controller :: "esp_call list" where
  "init_led_controller =
     [Gpio (Gpio_config \<lparr>gpio_output = True, pin_bit_mask = push_bit 14 1 OR push_bit 12 1 OR push_bit 13 1,
        pull_down_en = False, pull_up_en = False\<rparr>),
      Gpio (Gpio_set_level RED_PIN HIGH), Gpio (Gpio_set_level GREEN_PIN HIGH), Gpio (Gpio_set_level BLUE_PIN HIGH)]"

definition set_red :: "u8 \<Rightarrow> esp_call list" where
  "set_red level = [Gpio (Gpio_set_level RED_PIN level)]"

definition set_green :: "u8 \<Rightarrow> esp_call list" where
  "set_green level = [Gpio (Gpio_set_level GREEN_PIN level)]"

definition set_blue :: "u8 \<Rightarrow> esp_call list" where
  "set_blue level = [Gpio (Gpio_set_level BLUE_PIN level)]"

definition three_pins :: "u8 \<Rightarrow> u8 \<Rightarrow> u8 \<Rightarrow> esp_call list" where
  "three_pins r g b = [Gpio (Gpio_set_level RED_PIN r), Gpio (Gpio_set_level GREEN_PIN g), Gpio (Gpio_set_level BLUE_PIN b)]"

definition set_leds :: "u8 \<Rightarrow> esp_call list" where
  "set_leds mode =
     (if mode = CHASE_MODE then three_pins LOW LOW HIGH
      else if mode = IDLE_MODE then three_pins LOW HIGH LOW
      else if mode = LIGHT_SELECTION_MODE then three_pins LOW HIGH HIGH
      else if mode = CONTROL_SELECTION_MODE then three_pins HIGH LOW LOW
      else if mode = COLOR_WHEEL_MODE then three_pins HIGH LOW HIGH
      else if mode = DMX_MODE then three_pins HIGH HIGH LOW
      else if mode = PRESET_MODE then three_pins HIGH HIGH HIGH
      else if mode = PARTY_MODE then three_pins LOW LOW LOW
      else if mode = SCARY_MODE then three_pins LOW LOW LOW
      else [])"

subsection \<open>The five element functions\<close>

abbreviation (input) TIMER_UNIT :: u16 where "TIMER_UNIT \<equiv> 113"

definition dot :: "u16 \<Rightarrow> (esp_call list \<times> bool) \<times> u16" where
  "dot tick =
     (let tick' = tick + 1 in
      if tick = 0 then ((three_pins HIGH HIGH HIGH, False), tick')
      else if tick' > TIMER_UNIT then ((three_pins LOW LOW LOW, True), 0)
      else (([], False), tick'))"

definition dash :: "u16 \<Rightarrow> (esp_call list \<times> bool) \<times> u16" where
  "dash tick =
     (let tick' = tick + 1 in
      if tick = 0 then ((three_pins HIGH HIGH HIGH, False), tick')
      else if tick' > TIMER_UNIT * 3 then ((three_pins LOW LOW LOW, True), 0)
      else (([], False), tick'))"

definition sub_letter_break :: "u16 \<Rightarrow> (esp_call list \<times> bool) \<times> u16" where
  "sub_letter_break tick = (if tick > TIMER_UNIT then (([], True), 0) else (([], False), tick + 1))"

definition letter_break :: "u16 \<Rightarrow> (esp_call list \<times> bool) \<times> u16" where
  "letter_break tick = (if tick > TIMER_UNIT * 3 then (([], True), 0) else (([], False), tick + 1))"

definition word_break :: "u16 \<Rightarrow> (esp_call list \<times> bool) \<times> u16" where
  "word_break tick = (if tick > TIMER_UNIT * 7 then (([], True), 0) else (([], False), tick + 1))"

lemma u16_less_iff: "(w :: u16) < v \<longleftrightarrow> unat w < unat v"
  by (rule word_less_nat_alt)

lemma u16_Suc: "unat t + 1 < 65536 \<Longrightarrow> unat (t + 1 :: u16) = unat t + 1"
  by (simp add: unat_word_ariths)

interpretation dot: tick_timer dot 114
  by unfold_locales (auto simp: dot_def Let_def u16_less_iff u16_Suc word_unat_eq_iff)

interpretation dash: tick_timer dash 340
  by unfold_locales (auto simp: dash_def Let_def u16_less_iff u16_Suc word_unat_eq_iff)

interpretation sub_letter: tick_timer sub_letter_break 115
  by unfold_locales (auto simp: sub_letter_break_def u16_less_iff u16_Suc)

interpretation letter: tick_timer letter_break 341
  by unfold_locales (auto simp: letter_break_def u16_less_iff u16_Suc)

interpretation word: tick_timer word_break 793
  by unfold_locales (auto simp: word_break_def u16_less_iff u16_Suc)

subsection \<open>The animation\<close>

record led_statics =
  anim_state :: u8
  dot_tick :: u16
  dash_tick :: u16
  sub_letter_tick :: u16
  letter_tick :: u16
  word_tick :: u16

definition led_init :: led_statics where
  "led_init = \<lparr>anim_state = 0, dot_tick = 0, dash_tick = 0, sub_letter_tick = 0, letter_tick = 0,
     word_tick = 0\<rparr>"

text \<open>One \<open>case\<close> of the switch: call the element function, move on when it is done.\<close>

definition anim_dot :: "led_statics \<Rightarrow> u8 \<Rightarrow> esp_call list \<times> led_statics" where
  "anim_dot s nxt = (case dot (dot_tick s) of ((cs, fin), t) \<Rightarrow>
     (cs, s\<lparr>anim_state := if fin then nxt else anim_state s, dot_tick := t\<rparr>))"

definition anim_dash :: "led_statics \<Rightarrow> u8 \<Rightarrow> esp_call list \<times> led_statics" where
  "anim_dash s nxt = (case dash (dash_tick s) of ((cs, fin), t) \<Rightarrow>
     (cs, s\<lparr>anim_state := if fin then nxt else anim_state s, dash_tick := t\<rparr>))"

definition anim_sub_letter :: "led_statics \<Rightarrow> u8 \<Rightarrow> esp_call list \<times> led_statics" where
  "anim_sub_letter s nxt = (case sub_letter_break (sub_letter_tick s) of ((cs, fin), t) \<Rightarrow>
     (cs, s\<lparr>anim_state := if fin then nxt else anim_state s, sub_letter_tick := t\<rparr>))"

definition anim_letter :: "led_statics \<Rightarrow> u8 \<Rightarrow> esp_call list \<times> led_statics" where
  "anim_letter s nxt = (case letter_break (letter_tick s) of ((cs, fin), t) \<Rightarrow>
     (cs, s\<lparr>anim_state := if fin then nxt else anim_state s, letter_tick := t\<rparr>))"

definition anim_word :: "led_statics \<Rightarrow> u8 \<Rightarrow> esp_call list \<times> led_statics" where
  "anim_word s nxt = (case word_break (word_tick s) of ((cs, fin), t) \<Rightarrow>
     (cs, s\<lparr>anim_state := if fin then nxt else anim_state s, word_tick := t\<rparr>))"

definition pre_connect_animation :: "led_statics \<Rightarrow> esp_call list \<times> led_statics" where
  "pre_connect_animation s =
     (let state = anim_state s in
      if state = 0 then anim_dash s (state + 1)
      else if state = 1 then anim_sub_letter s (state + 1)
      else if state = 2 then anim_dot s (state + 1)
      else if state = 3 then anim_sub_letter s (state + 1)
      else if state = 4 then anim_dot s (state + 1)
      else if state = 5 then anim_sub_letter s (state + 1)
      else if state = 6 then anim_dot s (state + 1)
      else if state = 7 then anim_letter s (state + 1)
      else if state = 8 then anim_dot s (state + 1)
      else if state = 9 then anim_letter s (state + 1)
      else if state = 10 then anim_dot s (state + 1)
      else if state = 11 then anim_letter s (state + 1)
      else if state = 12 then anim_dot s (state + 1)
      else if state = 13 then anim_sub_letter s (state + 1)
      else if state = 14 then anim_dash s (state + 1)
      else if state = 15 then anim_sub_letter s (state + 1)
      else if state = 16 then anim_dash s (state + 1)
      else if state = 17 then anim_sub_letter s (state + 1)
      else if state = 18 then anim_dot s (state + 1)
      else if state = 19 then anim_word s 0
      else ([], s))"

subsection \<open>The animation as a sequence of elements\<close>

datatype morse = Dot | Dash | Sub_letter | Letter | Word_gap

fun element :: "morse \<Rightarrow> u16 \<Rightarrow> (esp_call list \<times> bool) \<times> u16" where
  "element Dot = dot"
| "element Dash = dash"
| "element Sub_letter = sub_letter_break"
| "element Letter = letter_break"
| "element Word_gap = word_break"

fun period_of :: "morse \<Rightarrow> nat" where
  "period_of Dot = 114"
| "period_of Dash = 340"
| "period_of Sub_letter = 115"
| "period_of Letter = 341"
| "period_of Word_gap = 793"

fun tick_of :: "morse \<Rightarrow> led_statics \<Rightarrow> u16" where
  "tick_of Dot s = dot_tick s"
| "tick_of Dash s = dash_tick s"
| "tick_of Sub_letter s = sub_letter_tick s"
| "tick_of Letter s = letter_tick s"
| "tick_of Word_gap s = word_tick s"

fun set_tick :: "morse \<Rightarrow> u16 \<Rightarrow> led_statics \<Rightarrow> led_statics" where
  "set_tick Dot t s = s\<lparr>dot_tick := t\<rparr>"
| "set_tick Dash t s = s\<lparr>dash_tick := t\<rparr>"
| "set_tick Sub_letter t s = s\<lparr>sub_letter_tick := t\<rparr>"
| "set_tick Letter t s = s\<lparr>letter_tick := t\<rparr>"
| "set_tick Word_gap t s = s\<lparr>word_tick := t\<rparr>"

definition script :: "morse list" where
  "script = [Dash, Sub_letter, Dot, Sub_letter, Dot, Sub_letter, Dot, Letter, Dot, Letter,
    Dot, Letter, Dot, Sub_letter, Dash, Sub_letter, Dash, Sub_letter, Dot, Word_gap]"

lemma length_script [simp]: "length script = 20"
  by (simp add: script_def)

lemma element_timer: "tick_timer (element m) (period_of m)"
  using dot.tick_timer_axioms dash.tick_timer_axioms sub_letter.tick_timer_axioms
    letter.tick_timer_axioms word.tick_timer_axioms by (cases m) simp_all

definition anim_step :: "led_statics \<Rightarrow> unit \<Rightarrow> esp_call list \<times> led_statics" where
  "anim_step s u = pre_connect_animation s"

text \<open>At the start of the \<open>i\<close>-th element every tick counter is zero.\<close>

definition at :: "nat \<Rightarrow> led_statics" where
  "at i = led_init\<lparr>anim_state := of_nat i\<rparr>"

lemma nat_below_20_cases: "i < (20 :: nat) \<Longrightarrow>
    i \<in> {0, 1, 2, 3, 4, 5, 6, 7, 8, 9, 10, 11, 12, 13, 14, 15, 16, 17, 18, 19}"
  unfolding insert_iff empty_iff by arith

lemmas anim_defs = anim_dot_def anim_dash_def anim_sub_letter_def anim_letter_def anim_word_def

text \<open>The switch runs the element the script names.\<close>

lemma animation_in_script:
  assumes "i < 20" and "anim_state s = of_nat i"
  shows "pre_connect_animation s = (case element (script ! i) (tick_of (script ! i) s) of
     ((cs, fin), t) \<Rightarrow> (cs, (set_tick (script ! i) t s)
        \<lparr>anim_state := if fin then of_nat (if i = 19 then 0 else Suc i) else anim_state s\<rparr>))"
  using nat_below_20_cases [OF assms(1)] assms(2) unfolding insert_iff empty_iff
  by (elim disjE; simp add: pre_connect_animation_def script_def anim_defs split: prod.splits)

lemma set_tick_simps [simp]:
  "tick_of m (set_tick m t s) = t" "anim_state (set_tick m t s) = anim_state s"
  "set_tick m t (set_tick m u s) = set_tick m t s" "tick_of m (at i) = 0" "set_tick m 0 (at i) = at i"
  "(set_tick m t s)\<lparr>anim_state := x\<rparr> = set_tick m t (s\<lparr>anim_state := x\<rparr>)"
  by (cases m; simp add: at_def led_init_def)+

lemma at_simps [simp]: "anim_state (at i) = of_nat i" "(at i)\<lparr>anim_state := of_nat j\<rparr> = at j"
  by (simp_all add: at_def)

text \<open>What an element writes to the pins in its successive calls.\<close>

definition block :: "morse \<Rightarrow> esp_call list list" where
  "block m = map (\<lambda>k. fst (fst (element m (of_nat k)))) [0..<period_of m]"

lemma element_prefix:
  assumes "i < 20" and "n < period_of (script ! i)"
  shows "run_state anim_step (at i) (replicate n ()) = set_tick (script ! i) (of_nat n) (at i) \<and>
         run_out anim_step (at i) (replicate n ()) =
           map (\<lambda>k. fst (fst (element (script ! i) (of_nat k)))) [0..<n]"
  using assms(2)
proof (induction n)
  case 0
  show ?case by simp
next
  case (Suc n)
  let ?m = "script ! i"
  have t: "\<not> snd (fst (element ?m (of_nat n)))" "snd (element ?m (of_nat n)) = of_nat (Suc n)"
    using tick_timer.tick_at(2) [OF element_timer, of n ?m] Suc.prems by auto
  have "anim_step (set_tick ?m (of_nat n) (at i)) () =
      (fst (fst (element ?m (of_nat n))), set_tick ?m (of_nat (Suc n)) (at i))"
    using animation_in_script [OF assms(1), of "set_tick ?m (of_nat n) (at i)"] t
    by (simp add: anim_step_def prod.case_eq_if del: of_nat_Suc)
  then show ?case
    using Suc by (simp add: run_state_replicate_Suc run_out_replicate_Suc
        del: replicate.simps of_nat_Suc)
qed

text \<open>A whole element: its calls, and then the start of the next one.\<close>

lemma element_block:
  assumes "i < 20"
  shows "run_state anim_step (at i) (replicate (period_of (script ! i)) ()) =
           at (if i = 19 then 0 else Suc i)"
    and "run_out anim_step (at i) (replicate (period_of (script ! i)) ()) = block (script ! i)"
proof -
  let ?m = "script ! i"
  obtain n where n: "period_of ?m = Suc n" by (cases ?m) (auto simp: numeral_eq_Suc)
  have t: "snd (fst (element ?m (of_nat n)))" "snd (element ?m (of_nat n)) = 0"
    using tick_timer.done_at [OF element_timer, of n ?m] n by auto
  have pre: "run_state anim_step (at i) (replicate n ()) = set_tick ?m (of_nat n) (at i)"
    and out: "run_out anim_step (at i) (replicate n ()) =
      map (\<lambda>k. fst (fst (element ?m (of_nat k)))) [0..<n]"
    using element_prefix [OF assms, of n] n by auto
  have "anim_step (set_tick ?m (of_nat n) (at i)) () =
      (fst (fst (element ?m (of_nat n))), at (if i = 19 then 0 else Suc i))"
    using animation_in_script [OF assms, of "set_tick ?m (of_nat n) (at i)"] t
    by (simp add: anim_step_def prod.case_eq_if del: of_nat_Suc)
  then show "run_state anim_step (at i) (replicate (period_of ?m) ()) =
      at (if i = 19 then 0 else Suc i)"
    and "run_out anim_step (at i) (replicate (period_of ?m) ()) = block ?m"
    by (simp_all add: n run_state_replicate_Suc run_out_replicate_Suc pre out block_def
        del: replicate.simps)
qed

lemma elements_run:
  assumes "n \<le> 20"
  shows "run_state anim_step (at 0) (replicate (sum_list (map period_of (take n script))) ()) =
           at (if n = 20 then 0 else n) \<and>
         run_out anim_step (at 0) (replicate (sum_list (map period_of (take n script))) ()) =
           concat (map block (take n script))"
  using assms
proof (induction n)
  case 0
  show ?case by simp
next
  case (Suc n)
  have tk: "take (Suc n) script = take n script @ [script ! n]"
    using Suc.prems by (intro take_Suc_conv_app_nth) simp
  have "replicate (sum_list (map period_of (take (Suc n) script))) () =
      replicate (sum_list (map period_of (take n script))) () @ replicate (period_of (script ! n)) ()"
    by (simp add: tk replicate_add)
  moreover have "n < 20" "n \<noteq> 20" using Suc.prems by auto
  ultimately show ?case
    using Suc element_block [of n] by (simp add: tk)
qed

text \<open>The level the LED shows after each call of a run.\<close>

definition lamp_step :: "led_statics \<times> (nat \<Rightarrow> u8) \<Rightarrow> unit \<Rightarrow> (u8 \<times> u8 \<times> u8) \<times> led_statics \<times> (nat \<Rightarrow> u8)"
  where
  "lamp_step = (\<lambda>(s, p) u. case pre_connect_animation s of (cs, s') \<Rightarrow>
     (rgb (pin_levels p cs), s', pin_levels p cs))"

fun shown :: "(nat \<Rightarrow> u8) \<Rightarrow> esp_call list list \<Rightarrow> (u8 \<times> u8 \<times> u8) list" where
  "shown p [] = []"
| "shown p (cs # css) = rgb (pin_levels p cs) # shown (pin_levels p cs) css"

lemma lamp_run: "run_out lamp_step (s, p) us = shown p (run_out anim_step s us)"
  by (induction us arbitrary: s p)
    (auto simp: lamp_step_def anim_step_def split: prod.splits)

lemma shown_append: "shown p (xs @ ys) = shown p xs @ shown (pin_levels p (concat xs)) ys"
  by (induction xs arbitrary: p) auto

lemma shown_quiet: "shown p (replicate n []) = replicate n (rgb p)"
  by (induction n) auto

abbreviation (input) white :: "u8 \<times> u8 \<times> u8" where "white \<equiv> (HIGH, HIGH, HIGH)"
abbreviation (input) dark :: "u8 \<times> u8 \<times> u8" where "dark \<equiv> (LOW, LOW, LOW)"

text \<open>A mark switches the LED on in its first call and off in its last.\<close>

lemma mark_quiet:
  "0 < unat t \<Longrightarrow> unat t < 113 \<Longrightarrow> fst (fst (dot t)) = []"
  "0 < unat t \<Longrightarrow> unat t < 339 \<Longrightarrow> fst (fst (dash t)) = []"
  by (auto simp: dot_def dash_def Let_def u16_less_iff u16_Suc)

lemma block_shape:
  assumes "period_of m = Suc (Suc n)" and "\<And>k. k < n \<Longrightarrow> fst (fst (element m (of_nat (Suc k)))) = []"
  shows "block m = fst (fst (element m 0)) # replicate n [] @ [fst (fst (element m (of_nat (Suc n))))]"
proof -
  have "[0..<Suc (Suc n)] = 0 # map Suc [0..<n] @ [Suc n]"
    by (simp add: map_Suc_upt upt_conv_Cons)
  moreover have "map (\<lambda>k. fst (fst (element m (of_nat (Suc k))))) [0..<n] = replicate n []"
    by (rule replicate_eqI) (use assms(2) in auto)
  ultimately show ?thesis
    by (simp add: block_def assms(1) comp_def del: of_nat_Suc upt_Suc)
qed

lemma mark_block:
  "block Dot = three_pins HIGH HIGH HIGH # replicate 112 [] @ [three_pins LOW LOW LOW]"
  "block Dash = three_pins HIGH HIGH HIGH # replicate 338 [] @ [three_pins LOW LOW LOW]"
proof -
  have "fst (fst (element Dot (of_nat (Suc k)))) = []" if "k < 112" for k
    using that dot.tick_at(1) [of "Suc k"]
    by (simp add: mark_quiet del: of_nat_Suc)
  then show "block Dot = three_pins HIGH HIGH HIGH # replicate 112 [] @ [three_pins LOW LOW LOW]"
    using block_shape [of Dot 112] by (simp add: dot_def)
  have "fst (fst (element Dash (of_nat (Suc k)))) = []" if "k < 338" for k
    using that dash.tick_at(1) [of "Suc k"]
    by (simp add: mark_quiet del: of_nat_Suc)
  then show "block Dash = three_pins HIGH HIGH HIGH # replicate 338 [] @ [three_pins LOW LOW LOW]"
    using block_shape [of Dash 338] by (simp add: dash_def)
qed

lemma gap_block:
  assumes "m \<in> {Sub_letter, Letter, Word_gap}"
  shows "block m = replicate (period_of m) []"
  using assms by (auto simp: block_def sub_letter_break_def letter_break_def word_break_def
      intro!: replicate_eqI)

lemma shown_white: "rgb (pin_levels p (three_pins HIGH HIGH HIGH)) = white"
  and shown_dark: "rgb (pin_levels p (three_pins LOW LOW LOW)) = dark"
  by (simp_all add: rgb_def three_pins_def)

text \<open>What an element shows, call by call, given what was shown before it.\<close>

definition lamp_block :: "morse \<Rightarrow> (u8 \<times> u8 \<times> u8) list" where
  "lamp_block m = (case m of Dot \<Rightarrow> replicate 113 white @ [dark] | Dash \<Rightarrow> replicate 339 white @ [dark]
     | _ \<Rightarrow> replicate (period_of m) dark)"

lemma shown_mark:
  "shown p (three_pins HIGH HIGH HIGH # replicate n [] @ [three_pins LOW LOW LOW]) =
     replicate (Suc n) white @ [dark]"
  by (simp add: shown_append shown_quiet shown_white shown_dark)

lemma shown_block:
  assumes "m \<in> {Dot, Dash} \<or> rgb p = dark"
  shows "shown p (block m) = lamp_block m \<and> rgb (pin_levels p (concat (block m))) = dark"
  using assms shown_mark [of p 112] shown_mark [of p 338]
  by (cases m) (auto simp: mark_block gap_block lamp_block_def shown_quiet shown_dark concat_replicate_trivial)

lemma shown_blocks:
  "rgb p = dark \<Longrightarrow> shown p (concat (map block ms)) = concat (map lamp_block ms)"
proof (induction ms arbitrary: p)
  case Nil
  then show ?case by simp
next
  case (Cons m ms)
  then show ?case using shown_block [of m p] by (simp add: shown_append)
qed

lemma lamp_run_state: "fst (run_state lamp_step (s, p) us) = run_state anim_step s us"
  by (induction us arbitrary: s p) (auto simp: lamp_step_def anim_step_def split: prod.splits)

subsection \<open>Invariant\<close>

definition led_inv :: "led_statics \<Rightarrow> bool" where
  "led_inv s \<longleftrightarrow> anim_state s < 20 \<and> (\<forall>m \<in> {Dot, Dash, Sub_letter, Letter, Word_gap}.
     unat (tick_of m s) < period_of m)"

lemma led_init_inv [simp]: "led_inv led_init"
  by (simp add: led_inv_def led_init_def)

lemma element_tick_bound:
  assumes "unat t < period_of m"
  shows "unat (snd (element m t)) < period_of m"
proof (cases "unat t + 1 < period_of m")
  case True
  then show ?thesis using tick_timer.ticking [OF element_timer] by simp
next
  case False
  with assms have "unat t + 1 = period_of m" by simp
  then show ?thesis using tick_timer.elapsed [OF element_timer] assms by fastforce
qed

lemma tick_of_set_tick: "tick_of m' (set_tick m t s) = (if m' = m then t else tick_of m' s)"
  by (cases m; cases m') simp_all

lemma tick_of_anim_state [simp]: "tick_of m (s\<lparr>anim_state := x\<rparr>) = tick_of m s"
  by (cases m) simp_all

lemma pre_connect_animation_inv [inv_intro]:
  assumes "led_inv s"
  shows "led_inv (snd (pre_connect_animation s))"
proof -
  define i where "i = unat (anim_state s)"
  have i: "i < 20" "anim_state s = of_nat i"
    using assms by (auto simp: led_inv_def i_def word_less_nat_alt)
  have nxt: "(of_nat (if i = 19 then 0 else Suc i) :: u8) < 20"
    using i(1) by (auto simp: word_less_nat_alt unat_of_nat simp del: of_nat_Suc)
  let ?m = "script ! i"
  have mem: "?m \<in> {Dot, Dash, Sub_letter, Letter, Word_gap}" by (cases ?m) simp_all
  have "unat (snd (element ?m (tick_of ?m s))) < period_of ?m"
    using assms mem element_tick_bound unfolding led_inv_def by blast
  then show ?thesis
    using animation_in_script [OF i] assms nxt
    by (auto simp: led_inv_def prod.case_eq_if tick_of_set_tick)
qed

interpretation am: input_machine anim_step led_inv
  by unfold_locales (simp add: anim_step_def pre_connect_animation_inv)

subsection \<open>Properties\<close>

text \<open>The Morse text of a sequence of elements, in the notation of the log message of \<open>main.c\<close>.\<close>

fun morse_text :: "morse list \<Rightarrow> string" where
  "morse_text [] = []"
| "morse_text (Dot # ms) = CHR ''.'' # morse_text ms"
| "morse_text (Dash # ms) = CHR ''-'' # morse_text ms"
| "morse_text (Sub_letter # ms) = morse_text ms"
| "morse_text (Letter # ms) = CHR '' '' # morse_text ms"
| "morse_text (Word_gap # ms) = morse_text ms"

text \<open>
  The waiting animation is periodic and spells its text. Whatever the pins showed
  before, 4324 calls of \<open>pre_connect_animation\<close> from its initial state return to the
  initial state; what the LED shows call by call is twenty elements, dots of 113 calls and
  dashes of three times as many in white between dark gaps; and the text they spell is
  the one \<open>app_main\<close> logs at start-up, \<open>-... . . .--.\<close> (BEEP).
\<close>

theorem animation_spells_beep:
  "fst (run_state lamp_step (led_init, p) (replicate 4324 ())) = led_init \<and>
   run_out lamp_step (led_init, p) (replicate 4324 ()) = concat (map lamp_block script) \<and>
   morse_text script = ''-... . . .--.''"
proof (intro conjI)
  have total: "sum_list (map period_of script) = 4324"
    by (simp add: script_def)
  have init: "at 0 = led_init" by (simp add: at_def led_init_def)
  have run: "run_state anim_step led_init (replicate 4324 ()) = led_init"
      "run_out anim_step led_init (replicate 4324 ()) = concat (map block script)"
    using elements_run [of 20] total init by (simp_all add: init)
  show "fst (run_state lamp_step (led_init, p) (replicate 4324 ())) = led_init"
    by (simp only: lamp_run_state run)
  obtain ms where ms: "script = Dash # ms" by (simp add: script_def)
  show "run_out lamp_step (led_init, p) (replicate 4324 ()) = concat (map lamp_block script)"
    using shown_block [of Dash p] shown_blocks [of "pin_levels p (concat (block Dash))" ms]
    by (simp only: lamp_run run ms) (simp add: shown_append)
  show "morse_text script = ''-... . . .--.''" by (simp add: script_def)
qed

text \<open>
  The tick counters of the animation never reach the end of their sixteen bits and its
  state never leaves the twenty cases of the switch, however often it is called.
\<close>

theorem animation_bounded:
  "led_inv (run_state anim_step led_init us)"
  by (rule am.inv_run [OF led_init_inv])

text \<open>
  The mode is readable from the LED: for the seven modes below party mode
  \<open>set_leds\<close> leaves seven different colours, none of them dark; party and scary mode are
  dark; and a mode byte outside the table leaves the pins untouched.
\<close>

theorem set_leds_shows_mode:
  "(\<forall>m n. m < PARTY_MODE \<longrightarrow> n < PARTY_MODE \<longrightarrow>
      rgb (pin_levels p (set_leds m)) = rgb (pin_levels p (set_leds n)) \<longrightarrow> m = n) \<and>
   (\<forall>m < PARTY_MODE. rgb (pin_levels p (set_leds m)) \<noteq> dark) \<and>
   (\<forall>m \<in> {PARTY_MODE, SCARY_MODE}. rgb (pin_levels p (set_leds m)) = dark) \<and>
   (\<forall>m > SCARY_MODE. pin_levels p (set_leds m) = p)"
proof -
  have cases: "m \<in> {0, 1, 2, 3, 4, 5, 6}" if "m < (7 :: u8)" for m
  proof -
    have "unat m < 7" using that by (simp add: word_less_nat_alt)
    then have "unat m \<in> {0, 1, 2, 3, 4, 5, 6}" unfolding insert_iff empty_iff by arith
    then show ?thesis by (auto simp: word_unat_eq_iff)
  qed
  have colour: "rgb (pin_levels p (three_pins r g b)) = (r, g, b)" for r g b
    by (simp add: rgb_def three_pins_def)
  have inj: "m = n" if "m < 7" "n < 7"
      "rgb (pin_levels p (set_leds m)) = rgb (pin_levels p (set_leds n))" for m n
    using cases [OF that(1)] cases [OF that(2)] that(3) by (auto simp: set_leds_def colour)
  have lit: "rgb (pin_levels p (set_leds m)) \<noteq> dark" if "m < 7" for m
    using cases [OF that] by (auto simp: set_leds_def colour)
  have off: "rgb (pin_levels p (set_leds m)) = dark" if "m \<in> {7, 8}" for m
    using that by (auto simp: set_leds_def colour)
  have other: "pin_levels p (set_leds m) = p" if "m > 8" for m
    using that by (auto simp: set_leds_def)
  show ?thesis
    using inj lit off other by blast
qed

theorem set_leds_shows_mode_witness:
  "rgb (pin_levels (\<lambda>_. 0) (set_leds DMX_MODE)) \<noteq> rgb (pin_levels (\<lambda>_. 0) (set_leds IDLE_MODE))"
proof -
  have "(5 :: u8) < 7" "(1 :: u8) < 7" "(5 :: u8) \<noteq> 1" by simp_all
  then show ?thesis
    using conjunct1 [OF set_leds_shows_mode [of "\<lambda>_. 0"]] by blast
qed

end
