(* ===== verification/Modes.thy ===== *)
theory Modes
  imports Led_Controller
begin

text \<open>
  \<open>get_mode\<close> and \<open>set_mode\<close> of \<open>firmware/main/main.c\<close>, through which the network code
  and the main loop share the controller's mode, with the two globals they touch.
\<close>

record mode_state =
  MODE :: u8
  user_feedback_enable :: u8

definition mode_init :: mode_state where
  "mode_init = \<lparr>MODE = IDLE_MODE, user_feedback_enable = 0\<rparr>"

definition get_mode :: "mode_state \<Rightarrow> u8" where
  "get_mode ms = MODE ms"

definition set_mode :: "u8 \<Rightarrow> mode_state \<Rightarrow> esp_call list \<times> mode_state" where
  "set_mode mode ms = (set_leds mode, ms\<lparr>MODE := mode, user_feedback_enable := 0\<rparr>)"

lemma get_set_mode [simp]: "get_mode (snd (set_mode m ms)) = m"
  by (simp add: get_mode_def set_mode_def)

lemma set_mode_feedback_off [simp]: "user_feedback_enable (snd (set_mode m ms)) = 0"
  by (simp add: set_mode_def)

lemma fst_set_mode [simp]: "fst (set_mode m ms) = set_leds m"
  by (simp add: set_mode_def)

text \<open>Setting the mode writes output pins and nothing else.\<close>

definition quiet_call :: "esp_call \<Rightarrow> bool" where
  "quiet_call c \<longleftrightarrow> (case c of Gpio _ \<Rightarrow> True | _ \<Rightarrow> False)"

lemma set_leds_quiet: "list_all quiet_call (set_leds m)"
  by (simp add: set_leds_def three_pins_def quiet_call_def)

lemma quiet_sends_nothing: "list_all quiet_call cs \<Longrightarrow> sent cs = []"
  by (induction cs) (auto simp: quiet_call_def split: esp_call.splits)

lemma sent_set_leds [simp]: "sent (set_leds m) = []"
  by (rule quiet_sends_nothing [OF set_leds_quiet])

end
