(* ===== verification/Udp_Controller.thy ===== *)
theory Udp_Controller
  imports Packets Modes
begin

text \<open>
  \<open>firmware/main/udp_controller.c\<close>: the controller's side of the protocol. Its globals
  (the peer's address, the port and the two outgoing packets) are a record together with
  the mode state they read and write through \<open>get_mode\<close> and \<open>set_mode\<close>. The calls into
  lwIP are recorded; whether \<open>pbuf_alloc\<close> succeeds is an input. A read of the received
  payload past its end, which the C does not exclude, is the error \<open>Out_of_bounds\<close>.
\<close>

abbreviation (input) UDP_PORT :: u16 where "UDP_PORT \<equiv> 6454"

definition ID :: "u8 list" where
  "ID = [0x4A, 0x45, 0x10, 0x4D, 0x4B, 0x03, 0x43, 0x4B]"

record udp_state =
  DEST_IP :: "u32 option"
  PORT :: u16
  HEADER :: packetHeader
  DATA_PACKET :: dataPacket
  POLL_REPLY_PACKET :: pollReplyPacket
  modes :: mode_state

text \<open>Zero-initialised globals.\<close>

definition zero_header :: packetHeader where
  "zero_header = \<lparr>hdr_id = replicate 8 0, packet_type = 0, hdr_mode = 0\<rparr>"

definition udp_init :: udp_state where
  "udp_init = \<lparr>DEST_IP = None, PORT = 0, HEADER = zero_header,
     DATA_PACKET = \<lparr>data_header = zero_header, data_type = 0, user_action = 0, joystick_0 = 0, joystick_1 = 0, gyro = 0\<rparr>,
     POLL_REPLY_PACKET = \<lparr>reply_header = zero_header, battery_level = 0, error_code = 0, message_length = 0, message_ptr = 0\<rparr>,
     modes = mode_init\<rparr>"

definition init_udp_controller :: "udp_state \<Rightarrow> esp_call list \<times> udp_state" where
  "init_udp_controller s =
     (let h = (HEADER s)\<lparr>hdr_id := ID\<rparr> in
      ([Net Udp_new, Net (Udp_bind UDP_PORT), Net Udp_recv],
       s\<lparr>PORT := UDP_PORT, HEADER := h,
         DATA_PACKET := (DATA_PACKET s)\<lparr>data_header := h\<lparr>packet_type := 0x33\<rparr>\<rparr>,
         POLL_REPLY_PACKET := (POLL_REPLY_PACKET s)\<lparr>reply_header := h\<lparr>packet_type := POLL_REPLY_PACKET_ID\<rparr>\<rparr>\<rparr>))"

subsection \<open>Sending\<close>

text \<open>\<open>other_data[i]\<close>, through a pointer that may be null.\<close>

definition read_int :: "u32 list option \<Rightarrow> nat \<Rightarrow> u32 result" where
  "read_int p i = (case p of None \<Rightarrow> Inl Null_dereference
     | Some xs \<Rightarrow> if i < length xs then Inr (xs ! i) else Inl Out_of_bounds)"

definition fill_data :: "u8 \<Rightarrow> u8 \<Rightarrow> u32 list option \<Rightarrow> dataPacket \<Rightarrow> dataPacket result" where
  "fill_data dtype user_data other_data d =
     (if dtype = USER_ACTION_DATA then Inr (d\<lparr>user_action := user_data\<rparr>)
      else if dtype = JOYSTICK_DATA then
        bind_result (read_int other_data 0) (\<lambda>x.
          bind_result (read_int other_data 1) (\<lambda>y. Inr (d\<lparr>joystick_0 := x, joystick_1 := y\<rparr>)))
      else if dtype = GYRO_DATA then bind_result (read_int other_data 0) (\<lambda>g. Inr (d\<lparr>gyro := g\<rparr>))
      else Inr d)"

definition send_data_packet ::
    "bool \<Rightarrow> u8 \<Rightarrow> u8 \<Rightarrow> u32 list option \<Rightarrow> udp_state \<Rightarrow> (esp_call list \<times> udp_state) result" where
  "send_data_packet alloc_ok dtype user_data other_data s =
     (case DEST_IP s of
        None \<Rightarrow> Inr ([], s)
      | Some ip \<Rightarrow>
          let d = (DATA_PACKET s)\<lparr>data_header := (data_header (DATA_PACKET s))\<lparr>hdr_mode := get_mode (modes s)\<rparr>,
                                 data_type := dtype\<rparr> in
          bind_result (fill_data dtype user_data other_data d) (\<lambda>d.
            if \<not> alloc_ok then Inl Null_dereference
            else Inr ([Net (Pbuf_alloc 24), Net (Udp_connect ip (PORT s)), Net (Udp_send (data_bytes d)), Net Udp_disconnect],
                      s\<lparr>DATA_PACKET := d\<rparr>)))"

text \<open>
  \<open>battery\<close> is the bit pattern of the \<open>float\<close>; the message is copied only when its
  pointer is not null and its length not zero. A null message with a nonzero length leaves
  the tail of the buffer as \<open>pbuf_alloc\<close> returned it, the argument \<open>fresh\<close>.
\<close>

definition send_poll_reply_packet ::
    "bool \<Rightarrow> (nat \<Rightarrow> u8 list) \<Rightarrow> u8 \<Rightarrow> u32 \<Rightarrow> u8 \<Rightarrow> u8 list option \<Rightarrow> udp_state \<Rightarrow> (esp_call list \<times> udp_state) result" where
  "send_poll_reply_packet alloc_ok fresh mode battery msg_len msg s =
     (case DEST_IP s of
        None \<Rightarrow> Inr ([], s)
      | Some ip \<Rightarrow>
          let r = (POLL_REPLY_PACKET s)\<lparr>reply_header := (reply_header (POLL_REPLY_PACKET s))\<lparr>hdr_mode := get_mode (modes s)\<rparr>,
                    battery_level := battery, error_code := 0x69, message_length := msg_len\<rparr>;
              n = unat msg_len in
          if \<not> alloc_ok then Inl Null_dereference
          else bind_result
            (case msg of
               Some m \<Rightarrow> if n \<noteq> 0 then (if n \<le> length m then Inr (take n m) else Inl Out_of_bounds) else Inr []
             | None \<Rightarrow> Inr (fresh n))
            (\<lambda>tail. Inr ([Net (Pbuf_alloc (20 + n)), Net (Udp_connect ip (PORT s)),
                          Net (Udp_send (reply_bytes r @ tail)), Net Udp_disconnect],
                         s\<lparr>POLL_REPLY_PACKET := r\<rparr>)))"

definition controller_connected :: "udp_state \<Rightarrow> u8" where
  "controller_connected s = (if DEST_IP s = None then 0 else 3)"

subsection \<open>Receiving\<close>

definition read_byte :: "u8 list \<Rightarrow> nat \<Rightarrow> u8 result" where
  "read_byte payload i = (if i < length payload then Inr (payload ! i) else Inl Out_of_bounds)"

text \<open>The loop that compares the preamble: \<open>False\<close> is the jump to \<open>FREE_P\<close>.\<close>

function id_loop :: "u8 list \<Rightarrow> nat \<Rightarrow> bool result" where
  "id_loop payload i =
     (if i < length ID
      then bind_result (read_byte payload i) (\<lambda>b. if b \<noteq> ID ! i then Inr False else id_loop payload (i + 1))
      else Inr True)"
  by pat_completeness auto
termination by (relation "measure (\<lambda>(_, i). length ID - i)") auto

declare id_loop.simps [simp del]

text \<open>The bit pattern of the \<open>float\<close> nearest to 0.69, the battery level the reply carries.\<close>

abbreviation (input) BATTERY_0_69 :: u32 where "BATTERY_0_69 \<equiv> 0x3F30A3D7"

definition receive_command :: "u8 list \<Rightarrow> udp_state \<Rightarrow> (esp_call list \<times> udp_state) result" where
  "receive_command payload s =
     bind_result (read_byte payload 9) (\<lambda>mode.
       let (cs, ms) = set_mode mode (modes s); s' = s\<lparr>modes := ms\<rparr> in
       bind_result (read_byte payload 10) (\<lambda>command.
         if command = 0 then Inr (cs @ [Net Pbuf_free], s')
         else if command = HARD_RESET_COMMAND then Inr (cs @ [Esp_restart], s')
         else if command = SOFT_RESET_COMMAND then Inr (cs @ [Esp_restart], s')
         else Inr (cs @ [Net Pbuf_free], s')))"

definition receive_poll :: "bool \<Rightarrow> u8 list \<Rightarrow> u32 \<Rightarrow> udp_state \<Rightarrow> (esp_call list \<times> udp_state) result" where
  "receive_poll alloc_ok payload addr s =
     (let s = s\<lparr>DEST_IP := Some addr\<rparr> in
      bind_result (read_byte payload 9) (\<lambda>mode.
        let (cs, ms) = set_mode mode (modes s); s' = s\<lparr>modes := ms\<rparr> in
        bind_result (send_poll_reply_packet alloc_ok (\<lambda>n. replicate n 0) (get_mode ms) BATTERY_0_69 0 None s')
          (\<lambda>(ds, s''). Inr (cs @ ds @ [Net Pbuf_free], s''))))"

definition udp_recieve :: "bool \<Rightarrow> u8 list \<Rightarrow> u32 \<Rightarrow> udp_state \<Rightarrow> (esp_call list \<times> udp_state) result" where
  "udp_recieve alloc_ok payload addr s =
     bind_result (id_loop payload 0) (\<lambda>ok.
       if \<not> ok then Inr ([Net Pbuf_free], s)
       else bind_result (read_byte payload 8) (\<lambda>typ.
         if typ = COMMAND_PACKET_ID then receive_command payload s
         else if typ = POLL_PACKET_ID then receive_poll alloc_ok payload addr s
         else Inr ([Net Pbuf_free], s)))"

subsection \<open>Lemmas\<close>

lemma length_ID [simp]: "length ID = 8"
  by (simp add: ID_def)

lemma read_byte_in: "i < length payload \<Longrightarrow> read_byte payload i = Inr (payload ! i)"
  by (simp add: read_byte_def)

text \<open>The preamble loop decides whether the payload starts with \<open>ID\<close>.\<close>

lemma id_loop_from:
  assumes "i \<le> 8" "8 \<le> length payload"
  shows "id_loop payload i = Inr (take (8 - i) (drop i payload) = drop i ID)"
  using assms(1)
proof (induction "8 - i" arbitrary: i)
  case 0
  then show ?case by (subst id_loop.simps) simp
next
  case (Suc n)
  then have i: "i < 8" "n = 8 - (i + 1)" by simp_all
  have "take (8 - i) (drop i payload) = payload ! i # take (8 - (i + 1)) (drop (i + 1) payload)"
    using i assms(2) by (simp add: take_Suc_conv_app_nth Cons_nth_drop_Suc [symmetric] Suc_diff_Suc [symmetric] del: Suc_diff_Suc)
  moreover have "drop i ID = ID ! i # drop (i + 1) ID"
    using i by (simp add: Cons_nth_drop_Suc)
  ultimately show ?case
    using Suc.hyps(1) [OF i(2)] i assms(2) by (subst id_loop.simps) (simp add: read_byte_in)
qed

lemma id_loop_prefix: "8 \<le> length payload \<Longrightarrow> id_loop payload 0 = Inr (take 8 payload = ID)"
  using id_loop_from [of 0 payload] by simp

lemma id_loop_mismatch:
  assumes "j < length payload" "j < 8" "payload ! j \<noteq> ID ! j" "i \<le> j"
  shows "id_loop payload i = Inr False"
  using assms(4)
proof (induction "j - i" arbitrary: i)
  case 0
  then show ?case using assms by (subst id_loop.simps) (simp add: read_byte_in)
next
  case (Suc n)
  then have "id_loop payload (i + 1) = Inr False" by simp
  then show ?case using Suc assms by (subst id_loop.simps) (simp add: read_byte_in)
qed

lemma id_loop_short:
  assumes "payload = take n ID" "n < 8" "i \<le> n"
  shows "id_loop payload i = Inl Out_of_bounds"
  using assms(3)
proof (induction "n - i" arbitrary: i)
  case 0
  then show ?case using assms by (subst id_loop.simps) (simp add: read_byte_def)
next
  case (Suc m)
  then have "id_loop payload (i + 1) = Inl Out_of_bounds" by simp
  then show ?case using Suc assms by (subst id_loop.simps) (simp add: read_byte_def)
qed

text \<open>
  The invariant of the globals once \<open>init_udp_controller\<close> has run: both outgoing packets
  carry the preamble and their own type, and the port is set.
\<close>

definition udp_inv :: "udp_state \<Rightarrow> bool" where
  "udp_inv s \<longleftrightarrow> PORT s = UDP_PORT \<and>
     hdr_id (data_header (DATA_PACKET s)) = ID \<and> packet_type (data_header (DATA_PACKET s)) = DATA_PACKET_ID \<and>
     hdr_id (reply_header (POLL_REPLY_PACKET s)) = ID \<and>
     packet_type (reply_header (POLL_REPLY_PACKET s)) = POLL_REPLY_PACKET_ID"

lemma udp_inv_init: "udp_inv (snd (init_udp_controller s))"
  by (simp add: udp_inv_def init_udp_controller_def Let_def)

lemma fill_data_header: "fill_data t u oth d = Inr d' \<Longrightarrow> data_header d' = data_header d \<and> data_type d' = data_type d"
  by (auto simp: fill_data_def bind_result_eq_Inr split: if_splits)

lemma send_data_packet_inv [inv_intro]:
  "udp_inv s \<Longrightarrow> send_data_packet a t u oth s = Inr (cs, s') \<Longrightarrow> udp_inv s'"
  by (auto simp: send_data_packet_def udp_inv_def Let_def bind_result_eq_Inr
      dest!: fill_data_header split: option.splits if_splits)

lemma send_poll_reply_packet_inv [inv_intro]:
  "udp_inv s \<Longrightarrow> send_poll_reply_packet a f m b n msg s = Inr (cs, s') \<Longrightarrow> udp_inv s'"
  by (auto simp: send_poll_reply_packet_def udp_inv_def Let_def bind_result_eq_Inr split: option.splits if_splits)

lemma udp_inv_modes [simp]: "udp_inv (s\<lparr>modes := ms\<rparr>) = udp_inv s" "udp_inv (s\<lparr>DEST_IP := d\<rparr>) = udp_inv s"
  by (simp_all add: udp_inv_def)

lemma udp_recieve_inv [inv_intro]:
  assumes "udp_inv s" "udp_recieve a payload addr s = Inr (cs, s')"
  shows "udp_inv s'"
  using assms
  by (auto simp: udp_recieve_def receive_command_def receive_poll_def bind_result_eq_Inr Let_def set_mode_def
      split: if_splits dest!: send_poll_reply_packet_inv [rotated])

text \<open>Sending never changes the peer or the mode.\<close>

lemma send_data_packet_frame:
  "send_data_packet a t u oth s = Inr (cs, s') \<Longrightarrow> DEST_IP s' = DEST_IP s \<and> modes s' = modes s"
  by (auto simp: send_data_packet_def Let_def bind_result_eq_Inr split: option.splits if_splits)

lemma send_poll_reply_packet_frame:
  "send_poll_reply_packet a f m b n msg s = Inr (cs, s') \<Longrightarrow> DEST_IP s' = DEST_IP s \<and> modes s' = modes s"
  by (auto simp: send_poll_reply_packet_def Let_def bind_result_eq_Inr split: option.splits if_splits)

lemma data_packet_wf: "udp_inv s \<Longrightarrow> header_wf (data_header (DATA_PACKET s))"
  by (simp add: udp_inv_def header_wf_def)

text \<open>The pbufs a trace allocates: none of them is released by the calls that follow.\<close>

definition pbufs_taken :: "esp_call list \<Rightarrow> nat" where
  "pbufs_taken cs = length (filter (\<lambda>c. case c of Net (Pbuf_alloc _) \<Rightarrow> True | _ \<Rightarrow> False) cs)"

definition pbufs_freed :: "esp_call list \<Rightarrow> nat" where
  "pbufs_freed cs = count_list cs (Net Pbuf_free)"

subsection \<open>Properties\<close>

text \<open>
  A data packet is sent only to a base station that has polled. Without one the
  function does nothing; with one it sends, when the buffer can be allocated, exactly one
  datagram of 24 bytes, and the peer and the mode stay as they are.
\<close>

theorem send_data_packet_one_datagram:
  assumes "udp_inv s" "send_data_packet alloc_ok t u other s = Inr (cs, s')"
  shows "(DEST_IP s = None \<longrightarrow> cs = [] \<and> s' = s) \<and>
    (\<forall>ip. DEST_IP s = Some ip \<longrightarrow> (\<exists>d. sent cs = [d] \<and> length d = 24 \<and> Net (Udp_connect ip UDP_PORT) \<in> set cs)) \<and>
    DEST_IP s' = DEST_IP s \<and> modes s' = modes s"
proof -
  have size: "length (data_bytes d) = 24"
    if "fill_data t u other ((DATA_PACKET s)\<lparr>data_header := (data_header (DATA_PACKET s))\<lparr>hdr_mode := m\<rparr>, data_type := t\<rparr>) = Inr d"
    for d m
    using fill_data_header [OF that] data_packet_wf [OF assms(1)]
    by (intro data.length_enc) (simp add: header_wf_def)
  show ?thesis
    using assms send_data_packet_frame [OF assms(2)] size
    by (auto simp: send_data_packet_def Let_def bind_result_eq_Inr udp_inv_def split: option.splits if_splits)
qed

theorem send_data_packet_one_datagram_witness:
  "\<exists>cs s'. send_data_packet True USER_ACTION_DATA UP None
       ((snd (init_udp_controller udp_init))\<lparr>DEST_IP := Some 0x0A000001\<rparr>) = Inr (cs, s') \<and>
     (\<exists>d. sent cs = [d] \<and> length d = 24)"
proof -
  let ?s = "(snd (init_udp_controller udp_init))\<lparr>DEST_IP := Some 0x0A000001\<rparr>"
  have "udp_inv ?s" by (simp add: udp_inv_init)
  moreover obtain cs s' where run: "send_data_packet True USER_ACTION_DATA UP None ?s = Inr (cs, s')"
    by (simp add: send_data_packet_def fill_data_def Let_def)
  ultimately show ?thesis
    using send_data_packet_one_datagram [of ?s True USER_ACTION_DATA UP None cs s'] by auto
qed

text \<open>
  A datagram without the preamble is ignored: if one of its first eight bytes differs
  from \<open>ID\<close>, even in a datagram shorter than the preamble, the packet is freed and neither
  the mode, nor the peer, nor the LED, nor any outgoing packet changes.
\<close>

theorem foreign_datagram_ignored:
  assumes "j < 8" "j < length payload" "payload ! j \<noteq> ID ! j"
  shows "udp_recieve alloc_ok payload addr s = Inr ([Net Pbuf_free], s)"
  using id_loop_mismatch [OF assms(2,1,3)] by (simp add: udp_recieve_def)

theorem foreign_datagram_ignored_witness:
  "udp_recieve True [0x41, 0x72, 0x74] 0x0A000001 udp_init = Inr ([Net Pbuf_free], udp_init)"
  using foreign_datagram_ignored [of 0 "[0x41, 0x72, 0x74]" True "0x0A000001" udp_init] by (simp add: ID_def)

text \<open>
  The handler trusts the length of the datagram. A datagram that is a proper prefix of
  a command packet is read past its end: the preamble loop, the type, the mode or the
  command byte lies outside the payload. (A poll packet needs ten bytes, a command packet
  eleven; the handler looks at neither \<open>len\<close> nor \<open>tot_len\<close>.)
\<close>

theorem truncated_command_read_past_end:
  assumes "n < 11"
  shows "udp_recieve alloc_ok (take n (ID @ [COMMAND_PACKET_ID, mode, command])) addr s = Inl Out_of_bounds"
proof (cases "n < 8")
  case True
  then show ?thesis by (simp add: udp_recieve_def id_loop_short [of _ n 0])
next
  case False
  then have len: "8 \<le> length (take n (ID @ [COMMAND_PACKET_ID, mode, command]))" using assms by simp
  have "n = 8 \<or> n = 9 \<or> n = 10" using assms False by arith
  then show ?thesis
    using id_loop_prefix [OF len]
    by (elim disjE) (simp_all add: udp_recieve_def receive_command_def read_byte_def nth_append set_mode_def)
qed

theorem truncated_command_read_past_end_witness:
  "udp_recieve True [0x4A, 0x45] 0x0A000001 udp_init = Inl Out_of_bounds"
  using truncated_command_read_past_end [of 2 True 0 0 "0x0A000001" udp_init] by (simp add: ID_def)

end
