(* ===== verification/Timer_Controller.thy ===== *)
theory Timer_Controller
  imports Esp_Calls Complex_Main
begin

text \<open>
  \<open>firmware/main/timer_controller.c\<close>: the hardware timer that sets \<open>DEBOUNCE_TICK\<close>.
  The frequency of the timer's base clock comes from the ESP-IDF and is a parameter. The
  alarm value is computed in \<open>double\<close> and truncated by the conversion to \<open>uint64_t\<close>;
  the model computes it exactly, as a rational.
\<close>

abbreviation (input) TIMER_DIVIDER :: nat where "TIMER_DIVIDER \<equiv> 16000"
abbreviation (input) TIMER_MAG_MS :: nat where "TIMER_MAG_MS \<equiv> 1000"
abbreviation (input) DEBOUNCE_TIME :: nat where "DEBOUNCE_TIME \<equiv> 3"

definition TIMER_SCALE_MS :: "nat \<Rightarrow> nat" where
  "TIMER_SCALE_MS base_clk = base_clk div TIMER_DIVIDER div TIMER_MAG_MS"

definition TIMER_FINE_ADJ :: "nat \<Rightarrow> rat" where
  "TIMER_FINE_ADJ base_clk = 14 / 10 * of_nat (base_clk div TIMER_DIVIDER) / 1000000"

definition alarm_value :: "nat \<Rightarrow> int" where
  "alarm_value base_clk = \<lfloor>of_nat (DEBOUNCE_TIME * TIMER_SCALE_MS base_clk) - TIMER_FINE_ADJ base_clk\<rfloor>"

definition timer_config :: timer_config_t where
  "timer_config = \<lparr>alarm_en = True, auto_reload = True, count_up = True, divider = 16000, intr_level = True, counter_en = False\<rparr>"

text \<open>The calls of the initialisation; it also clears \<open>DEBOUNCE_TICK\<close>, the second component.\<close>

definition init_timer_controller :: "nat \<Rightarrow> esp_call list \<times> u8" where
  "init_timer_controller base_clk =
     ([Timer (Timer_init timer_config), Timer Timer_pause, Timer (Timer_set_counter_value 0),
       Timer (Timer_set_alarm_value (word_of_int (alarm_value base_clk))), Timer Timer_enable_intr,
       Timer Timer_isr_register, Timer Timer_start], 0)"

subsection \<open>The interrupt\<close>

record timer_group =
  int_st_timers :: u32
  timer_update :: bool
  timer_alarm_en :: bool

text \<open>Writing 1 to \<open>int_clr_timers.t0\<close> clears the status bit of timer 0.\<close>

definition timer_group0_isr :: "nat \<Rightarrow> timer_group \<Rightarrow> u8 \<Rightarrow> timer_group \<times> u8" where
  "timer_group0_isr timer_idx g debounce_tick =
     (if int_st_timers g AND push_bit timer_idx 1 \<noteq> 0 \<and> timer_idx = 0
      then (g\<lparr>timer_update := True, int_st_timers := int_st_timers g AND NOT 1, timer_alarm_en := True\<rparr>, 1)
      else (g, debounce_tick))"

lemma bit0_iff: "(w :: u32) AND 1 \<noteq> 0 \<longleftrightarrow> bit w 0"
  by (simp add: and_one_eq bit_0 odd_iff_mod_2_eq_one)

subsection \<open>Properties\<close>

text \<open>
  The debounce tick is one count short. The fine adjustment is a small fraction of a
  count, but its subtraction makes the difference fractional and the conversion to an
  integer drops a whole count: for every base clock of 16 MHz up to 11 GHz the alarm is
  one less than the counts of the three milliseconds it is meant to be.
\<close>

theorem alarm_one_count_short:
  assumes "16000000 \<le> base_clk" "base_clk \<le> 11000000000"
  shows "alarm_value base_clk = 3 * int (TIMER_SCALE_MS base_clk) - 1"
proof -
  have "1000 \<le> base_clk div 16000"
    using div_le_mono [OF assms(1), of 16000] by simp
  moreover have "base_clk div 16000 \<le> 687500"
    using div_le_mono [OF assms(2), of 16000] by simp
  ultimately have "0 < TIMER_FINE_ADJ base_clk" "TIMER_FINE_ADJ base_clk < 1"
    by (simp_all add: TIMER_FINE_ADJ_def)
  then show ?thesis
    unfolding alarm_value_def by (intro floor_unique) simp_all
qed

theorem alarm_one_count_short_witness:
  "alarm_value 80000000 = 14 \<and> TIMER_SCALE_MS 80000000 * DEBOUNCE_TIME = 15"
  using alarm_one_count_short [of 80000000] by (simp add: TIMER_SCALE_MS_def)

text \<open>
  The interrupt handler acknowledges exactly its own timer. It sets the tick and
  clears the status bit of timer 0 when that bit is pending, changes no other status bit,
  and does nothing when the bit is not pending or it is called for another timer.
\<close>

theorem isr_acknowledges_timer0:
  "timer_group0_isr idx g t =
     (if idx = 0 \<and> bit (int_st_timers g) 0
      then (g\<lparr>timer_update := True, int_st_timers := unset_bit 0 (int_st_timers g), timer_alarm_en := True\<rparr>, 1)
      else (g, t))"
proof -
  have "unset_bit 0 w = w AND NOT 1" for w :: u32
    by (simp add: unset_bit_eq_and_not)
  then show ?thesis
    using bit0_iff [of "int_st_timers g"] by (auto simp: timer_group0_isr_def)
qed

end
