(* ===== verification/Connection_Controller.thy ===== *)
theory Connection_Controller
  imports Esp_Calls
begin

text \<open>
  \<open>firmware/main/connection_controller.c\<close>: joining the wireless network. The events of
  the ESP-IDF event loop are a datatype with the constants the source names; logging is
  left out. The event group is read from the trace: \<open>CONNECTED_BIT\<close> is what the last
  call to set or clear it left.
\<close>

datatype system_event =
    SYSTEM_EVENT_STA_START
  | SYSTEM_EVENT_STA_GOT_IP
  | SYSTEM_EVENT_STA_DISCONNECTED u8
  | SYSTEM_EVENT_WIFI_READY
  | SYSTEM_EVENT_SCAN_DONE
  | SYSTEM_EVENT_STA_STOP
  | SYSTEM_EVENT_STA_CONNECTED
  | SYSTEM_EVENT_STA_AUTHMODE_CHANGE
  | SYSTEM_EVENT_STA_LOST_IP
  | SYSTEM_EVENT_STA_WPS_ER_SUCCESS
  | SYSTEM_EVENT_STA_WPS_ER_FAILED
  | SYSTEM_EVENT_STA_WPS_ER_TIMEOUT
  | SYSTEM_EVENT_STA_WPS_ER_PIN
  | SYSTEM_EVENT_AP_START
  | SYSTEM_EVENT_AP_STOP
  | SYSTEM_EVENT_AP_STACONNECTED
  | SYSTEM_EVENT_AP_PROBEREQRECVED
  | SYSTEM_EVENT_AP_STA_GOT_IP6
  | SYSTEM_EVENT_ETH_START
  | SYSTEM_EVENT_ETH_STOP
  | SYSTEM_EVENT_ETH_CONNECTED
  | SYSTEM_EVENT_ETH_DISCONNECTED
  | SYSTEM_EVENT_ETH_GOT_IP
  | SYSTEM_EVENT_MAX
  | SYSTEM_EVENT_OTHER int

abbreviation (input) CONNECTED_BIT :: nat where "CONNECTED_BIT \<equiv> 0"
abbreviation (input) AUTH_EXPIRE :: u8 where "AUTH_EXPIRE \<equiv> 2"
abbreviation (input) AUTH_FAIL :: u8 where "AUTH_FAIL \<equiv> 202"
abbreviation (input) NO_AP_FOUND :: u8 where "NO_AP_FOUND \<equiv> 201"

text \<open>The label \<open>RECON\<close>, to which every reason of a disconnection leads.\<close>

definition RECON :: "esp_call list" where
  "RECON = [Wifi Esp_wifi_connect, Wifi (XEventGroupClearBits CONNECTED_BIT)]"

definition disconnected :: "u8 \<Rightarrow> esp_call list" where
  "disconnected reason =
     (if reason = AUTH_EXPIRE then RECON
      else if reason = AUTH_FAIL then RECON
      else if reason = NO_AP_FOUND then RECON
      else RECON)"

fun connection_event_handler :: "system_event \<Rightarrow> esp_call list" where
  "connection_event_handler SYSTEM_EVENT_STA_START = [Wifi Esp_wifi_connect]"
| "connection_event_handler SYSTEM_EVENT_STA_GOT_IP = [Wifi (XEventGroupSetBits CONNECTED_BIT)]"
| "connection_event_handler (SYSTEM_EVENT_STA_DISCONNECTED reason) = disconnected reason"
| "connection_event_handler _ = []"

subsection \<open>The event group\<close>

fun event_bit :: "bool \<Rightarrow> esp_call \<Rightarrow> bool" where
  "event_bit b (Wifi (XEventGroupSetBits n)) = (n = CONNECTED_BIT \<or> b)"
| "event_bit b (Wifi (XEventGroupClearBits n)) = (n \<noteq> CONNECTED_BIT \<and> b)"
| "event_bit b (Wifi XEventGroupCreate) = False"
| "event_bit b _ = b"

definition connected_bit :: "esp_call list \<Rightarrow> bool" where
  "connected_bit cs = foldl event_bit False cs"

definition handle_events :: "system_event list \<Rightarrow> esp_call list" where
  "handle_events evs = concat (map connection_event_handler evs)"

subsection \<open>Start-up\<close>

definition SSID :: string where "SSID = ''The Super Sexys''"
definition PASS :: string where "PASS = ''7153048030''"

text \<open>
  A sequence of calls, each with whether its status is checked by \<open>ESP_ERROR_CHECK\<close>;
  \<open>ok\<close> answers the status. The first checked call that fails aborts the program.
\<close>

fun run_checked :: "(esp_call \<Rightarrow> bool) \<Rightarrow> (bool \<times> esp_call) list \<Rightarrow> esp_call list result" where
  "run_checked ok [] = Inr []"
| "run_checked ok ((checked, c) # cs) =
     (if checked \<and> \<not> ok c then Inl Error_check_failed
      else bind_result (run_checked ok cs) (\<lambda>ds. Inr (c # ds)))"

definition wifi_setup :: "(bool \<times> esp_call) list" where
  "wifi_setup =
     [(False, Wifi Tcpip_adapter_init), (False, Wifi XEventGroupCreate), (True, Wifi Esp_event_loop_init),
      (True, Wifi Esp_wifi_init), (True, Wifi Esp_wifi_set_storage_ram), (True, Wifi Esp_wifi_set_mode_sta),
      (True, Wifi (Esp_wifi_set_config SSID PASS)), (True, Wifi Esp_wifi_start),
      (False, Wifi (XEventGroupWaitBits CONNECTED_BIT))]"

text \<open>
  The initialisation ends by waiting, without a time limit, for the connected bit. Given
  the events handled while it waits, the result is \<open>None\<close> while it is still waiting.
\<close>

definition init_connection_controller ::
    "(esp_call \<Rightarrow> bool) \<Rightarrow> system_event list \<Rightarrow> esp_call list option result" where
  "init_connection_controller ok evs =
     bind_result (run_checked ok wifi_setup) (\<lambda>cs.
       let all = cs @ handle_events evs in
       Inr (if connected_bit all then Some all else None))"

subsection \<open>Lemmas\<close>

lemma disconnected_RECON [simp]: "disconnected r = RECON"
  by (simp add: disconnected_def)

text \<open>The last event that concerns the connection decides.\<close>

fun relevant :: "system_event \<Rightarrow> bool option" where
  "relevant SYSTEM_EVENT_STA_GOT_IP = Some True"
| "relevant (SYSTEM_EVENT_STA_DISCONNECTED _) = Some False"
| "relevant _ = None"

definition online :: "system_event list \<Rightarrow> bool" where
  "online evs = (List.map_filter relevant evs \<noteq> [] \<and> last (List.map_filter relevant evs))"

lemma handler_relevant:
  "foldl event_bit b (connection_event_handler e) = (case relevant e of None \<Rightarrow> b | Some v \<Rightarrow> v)"
  by (cases e) (simp_all add: RECON_def)

lemma map_filter_snoc:
  "List.map_filter f (xs @ [x]) = List.map_filter f xs @ (case f x of None \<Rightarrow> [] | Some y \<Rightarrow> [y])"
  by (induction xs) (auto simp: map_filter_simps split: option.splits)

lemma foldl_handle_events: "foldl event_bit False (handle_events evs) = online evs"
proof (induction evs rule: rev_induct)
  case Nil
  then show ?case by (simp add: handle_events_def online_def map_filter_simps)
next
  case (snoc e evs)
  then have "foldl event_bit False (handle_events (evs @ [e])) = (case relevant e of None \<Rightarrow> online evs | Some v \<Rightarrow> v)"
    by (simp add: handle_events_def handler_relevant)
  also have "\<dots> = online (evs @ [e])"
    by (auto simp: online_def map_filter_snoc split: option.splits)
  finally show ?case .
qed

lemma wifi_setup_run:
  assumes "\<And>c. (True, c) \<in> set wifi_setup \<Longrightarrow> ok c"
  shows "run_checked ok wifi_setup = Inr (map snd wifi_setup)"
proof -
  have "run_checked ok cs = Inr (map snd cs)" if "\<And>c. (True, c) \<in> set cs \<Longrightarrow> ok c" for cs
    using that by (induction cs) auto
  then show ?thesis using assms by blast
qed

lemma connected_bit_setup: "connected_bit (map snd wifi_setup @ handle_events evs) = online evs"
  by (simp add: connected_bit_def foldl_handle_events wifi_setup_def)

lemma count_connects:
  "count_list (handle_events evs) (Wifi Esp_wifi_connect) =
     length (filter (\<lambda>e. case e of SYSTEM_EVENT_STA_START \<Rightarrow> True | SYSTEM_EVENT_STA_DISCONNECTED _ \<Rightarrow> True | _ \<Rightarrow> False) evs)"
proof (induction evs)
  case (Cons e evs)
  then show ?case by (cases e) (simp_all add: handle_events_def RECON_def)
qed (simp add: handle_events_def)

subsection \<open>Properties\<close>

text \<open>
  The start-up waits exactly until the station is online. With the set-up calls
  succeeding, it returns for a sequence of events if and only if the last event among
  \<open>GOT_IP\<close> and \<open>DISCONNECTED\<close> is \<open>GOT_IP\<close>, and it has asked to connect once for the start
  and once for every disconnection, whatever its reason; if a checked call fails it aborts.
\<close>

theorem connection_waits_until_online:
  "(\<forall>c. (True, c) \<in> set wifi_setup \<longrightarrow> ok c) \<longrightarrow>
     ((\<exists>cs. init_connection_controller ok evs = Inr (Some cs)) \<longleftrightarrow> online evs) \<and>
     (\<forall>cs. init_connection_controller ok evs = Inr (Some cs) \<longrightarrow>
        count_list cs (Wifi Esp_wifi_connect) =
        length (filter (\<lambda>e. case e of SYSTEM_EVENT_STA_START \<Rightarrow> True | SYSTEM_EVENT_STA_DISCONNECTED _ \<Rightarrow> True | _ \<Rightarrow> False) evs))"
    (is "?ok \<longrightarrow> ?waits \<and> ?asks")
proof (intro impI)
  assume ?ok
  then have init: "init_connection_controller ok evs =
      Inr (if online evs then Some (map snd wifi_setup @ handle_events evs) else None)"
    by (simp add: init_connection_controller_def wifi_setup_run connected_bit_setup Let_def)
  moreover have "count_list (map snd wifi_setup) (Wifi Esp_wifi_connect) = 0"
    by (simp add: wifi_setup_def)
  ultimately show "?waits \<and> ?asks"
    by (simp add: count_connects)
qed

theorem connection_waits_until_online_witness:
  "\<exists>cs. init_connection_controller (\<lambda>_. True)
     [SYSTEM_EVENT_STA_START, SYSTEM_EVENT_STA_DISCONNECTED AUTH_FAIL, SYSTEM_EVENT_STA_GOT_IP] = Inr (Some cs) \<and>
     count_list cs (Wifi Esp_wifi_connect) = 2"
proof -
  let ?evs = "[SYSTEM_EVENT_STA_START, SYSTEM_EVENT_STA_DISCONNECTED AUTH_FAIL, SYSTEM_EVENT_STA_GOT_IP]"
  have "online ?evs" by (simp add: online_def map_filter_simps)
  then show ?thesis
    using connection_waits_until_online [of "\<lambda>_. True" ?evs] by auto
qed

end
