(* ===== verification/Main_Loop.thy ===== *)
theory Main_Loop
  imports Konami Button_Controllers Ps2_Controller Motion_Controllers Udp_Controller Timer_Controller
    Connection_Controller
begin

text \<open>
  \<open>firmware/main/main.c\<close>: the start-up sequence and the main loop, joining the components.
  All globals and the statics of the components are one record. An iteration of the loop
  has three phases: reading the inputs when a debounce tick is due, the switch over the
  mode, and reporting a user action. The timer interrupt and the network callback may run
  between any two phases; the step relation interleaves them in every order.

  The answers of the converters, pins and allocator during an iteration are a record of
  inputs. Logging is left out.
\<close>

subsection \<open>State\<close>

record 'd main_state =
  udp :: udp_state
  DEBOUNCE_TICK :: u8
  button_event :: u8
  direction_event :: u8
  joystick_data :: "int list"
  gyro_data :: int
  party_tick :: u8
  xy_tick :: u8
  gyro_tick :: u8
  user_feedback_tick :: u8
  party_sub_mode :: u8
  continuous_read_enable :: u8
  konami_statics :: konami
  button_counts :: button_statics
  stick_counts :: stick_statics
  led_counts :: led_statics
  motion_rings :: motion_statics
  motion_bus :: "'d motion_hw"

record loop_input =
  stick_sample :: "int \<times> int"
  levels :: button_levels
  xy_sample :: "int \<times> int"
  refresh_alloc :: bool
  action_alloc :: bool

abbreviation (input) XY_REFRESH_RATE :: u8 where "XY_REFRESH_RATE \<equiv> 30"
abbreviation (input) USER_FEEDBACK_RATE :: u8 where "USER_FEEDBACK_RATE \<equiv> 13"
abbreviation (input) PARTY_REFRESH_RATE :: u8 where "PARTY_REFRESH_RATE \<equiv> 10"
abbreviation (input) GYRO_REFRESH_RATE :: u8 where "GYRO_REFRESH_RATE \<equiv> 30"

type_synonym 's outcome = "(esp_call list \<times> 's) result"

definition seq :: "'s outcome \<Rightarrow> ('s \<Rightarrow> 't outcome) \<Rightarrow> 't outcome" where
  "seq m f = bind_result m (\<lambda>(cs, s). bind_result (f s) (\<lambda>(ds, t). Inr (cs @ ds, t)))"

lemma seq_Inr [simp]: "seq (Inr (cs, s)) f = bind_result (f s) (\<lambda>(ds, t). Inr (cs @ ds, t))"
  by (simp add: seq_def)

lemma seq_Inl [simp]: "seq (Inl e) f = Inl e"
  by (simp add: seq_def)

lemma seq_eq_Inr:
  "seq m f = Inr (cs, t) \<longleftrightarrow> (\<exists>cs1 s cs2. m = Inr (cs1, s) \<and> f s = Inr (cs2, t) \<and> cs = cs1 @ cs2)"
  by (cases m) (auto simp: bind_result_eq_Inr)

subsection \<open>Reading the inputs\<close>

definition poll_direction :: "loop_input \<Rightarrow> 'd main_state \<Rightarrow> 'd main_state" where
  "poll_direction inp s =
     (case read_direction (stick_counts s) (continuous_read_enable s, stick_sample inp) of (d, st) \<Rightarrow>
        s\<lparr>stick_counts := st,
          direction_event := if d \<in> {CENTER, LEFT, RIGHT, UP, DOWN} then d else direction_event s\<rparr>)"

definition poll_button :: "'d spi_xfer \<Rightarrow> loop_input \<Rightarrow> 'd main_state \<Rightarrow> 'd main_state result" where
  "poll_button xfer inp s =
     (case read_button (button_counts s) (levels inp) of (b, st) \<Rightarrow>
        let s = s\<lparr>button_counts := st,
                  button_event := if b \<in> {0, B1, B2, B12, PS2_B, PS2_LONG} then b else button_event s\<rparr> in
        if b = PS2_B
        then bind_result (read_motion_reg xfer 0x0F (motion_bus s)) (\<lambda>(_, h). Inr (s\<lparr>motion_bus := h\<rparr>))
        else Inr s)"

definition poll_phase :: "'d spi_xfer \<Rightarrow> loop_input \<Rightarrow> 'd main_state \<Rightarrow> 'd main_state outcome" where
  "poll_phase xfer inp s =
     (if DEBOUNCE_TICK s \<noteq> 0 then
        bind_result (poll_button xfer inp (poll_direction inp s)) (\<lambda>s.
          let (cs, l) = (if controller_connected (udp s) = 0 then pre_connect_animation (led_counts s)
                         else ([], led_counts s)) in
          Inr (cs, s\<lparr>led_counts := l, DEBOUNCE_TICK := 0, konami_statics := konami_tick (konami_statics s),
                     party_tick := party_tick s + 1, xy_tick := xy_tick s + 1, gyro_tick := gyro_tick s + 1,
                     user_feedback_tick := user_feedback_tick s + 1\<rparr>))
      else Inr ([], s))"

subsection \<open>The switch over the mode\<close>

text \<open>\<open>send_data_packet\<close> on the state of the loop.\<close>

definition send :: "bool \<Rightarrow> u8 \<Rightarrow> u8 \<Rightarrow> int list option \<Rightarrow> 'd main_state \<Rightarrow> 'd main_state outcome" where
  "send alloc_ok t u other s =
     bind_result (send_data_packet alloc_ok t u (map_option (map word_of_int) other) (udp s))
       (\<lambda>(cs, n). Inr (cs, s\<lparr>udp := n\<rparr>))"

definition set_feedback :: "u8 \<Rightarrow> 'd main_state \<Rightarrow> 'd main_state" where
  "set_feedback e s = s\<lparr>udp := (udp s)\<lparr>modes := (modes (udp s))\<lparr>user_feedback_enable := e\<rparr>\<rparr>\<rparr>"

text \<open>The feedback of chase and DMX mode; \<open>pin\<close> is \<open>set_red\<close> or \<open>set_blue\<close>.\<close>

definition feedback :: "(u8 \<Rightarrow> esp_call list) \<Rightarrow> 'd main_state \<Rightarrow> esp_call list \<times> 'd main_state" where
  "feedback pin s =
     (let (cs, s) = (if direction_event s \<noteq> 0 then (pin HIGH, (set_feedback 1 s)\<lparr>user_feedback_tick := 0\<rparr>) else ([], s)) in
      if user_feedback_enable (modes (udp s)) \<noteq> 0 then
        (if user_feedback_tick s > USER_FEEDBACK_RATE then (cs @ pin LOW, set_feedback 0 s) else (cs, s))
      else (cs, s))"

definition party_lights :: "'d main_state \<Rightarrow> esp_call list \<times> 'd main_state" where
  "party_lights s =
     (if party_tick s > PARTY_REFRESH_RATE then
        let m = party_sub_mode s;
            (cs, m') = (if m = 1 then (set_red HIGH @ set_green LOW @ set_blue LOW, m)
                        else if m = 2 then (set_red LOW @ set_green HIGH @ set_blue LOW, m)
                        else if m = 3 then (set_red LOW @ set_green LOW @ set_blue HIGH, m)
                        else if m = 4 then (set_red LOW @ set_green LOW @ set_blue LOW, 0)
                        else ([], 1))
        in (cs, s\<lparr>party_sub_mode := m' + 1, party_tick := 0\<rparr>)
      else ([], s))"

definition send_gyro :: "'d spi_xfer \<Rightarrow> loop_input \<Rightarrow> 'd main_state \<Rightarrow> 'd main_state outcome" where
  "send_gyro xfer inp s =
     (if gyro_tick s > GYRO_REFRESH_RATE then
        bind_result (read_motion xfer (motion_bus s) (motion_rings s)) (\<lambda>(g, h, r).
          bind_result (send (refresh_alloc inp) GYRO_DATA 0 (Some [g])
              (s\<lparr>gyro_data := g, motion_bus := h, motion_rings := r\<rparr>)) (\<lambda>(cs, s).
            Inr (cs, s\<lparr>gyro_tick := 0\<rparr>)))
      else Inr ([], s))"

definition send_stick :: "loop_input \<Rightarrow> 'd main_state \<Rightarrow> 'd main_state outcome" where
  "send_stick inp s =
     (if xy_tick s > XY_REFRESH_RATE then
        (let xy = read_xy (xy_sample inp) in
         bind_result (send (refresh_alloc inp) JOYSTICK_DATA 0 (Some xy) (s\<lparr>joystick_data := xy\<rparr>)) (\<lambda>(cs, s).
           Inr (cs, s\<lparr>xy_tick := 0\<rparr>)))
      else Inr ([], s))"

text \<open>Idle mode: the code recogniser. The flag is the jump to \<open>SKIP_USER_INPUT\<close>.\<close>

definition idle_mode :: "'d main_state \<Rightarrow> bool \<times> 'd main_state" where
  "idle_mode s =
     (case check_konami (konami_statics s) (direction_event s) (button_event s) of (r, k) \<Rightarrow>
        let s = s\<lparr>konami_statics := k\<rparr> in
        if r = KONAMI_SEMICOMPLETE then (True, s)
        else if r = KONAMI_COMPLETE then (False, s\<lparr>direction_event := KONAMI_COMPLETE\<rparr>)
        else if r = REV_KONAMI_COMPLETE then (False, s\<lparr>direction_event := REV_KONAMI_COMPLETE\<rparr>)
        else (False, s))"

definition mode_phase :: "'d spi_xfer \<Rightarrow> loop_input \<Rightarrow> 'd main_state \<Rightarrow> (bool \<times> 'd main_state) outcome" where
  "mode_phase xfer inp s =
     (let m = MODE (modes (udp s));
          on = s\<lparr>continuous_read_enable := 1\<rparr>; off = s\<lparr>continuous_read_enable := 0\<rparr>;
          go = (\<lambda>(cs, s). Inr (cs, False, s)) in
      if m = CHASE_MODE then go (feedback set_red on)
      else if m = IDLE_MODE then Inr ([], idle_mode off)
      else if m = LIGHT_SELECTION_MODE then go ([], off)
      else if m = CONTROL_SELECTION_MODE then go ([], off)
      else if m = COLOR_WHEEL_MODE then bind_result (send_stick inp off) go
      else if m = DMX_MODE then go (feedback set_blue on)
      else if m = PRESET_MODE then go ([], off)
      else if m = PARTY_MODE then seq (Inr (party_lights off)) (\<lambda>s. bind_result (send_gyro xfer inp s) go)
      else if m = SCARY_MODE then bind_result (send_gyro xfer inp off) go
      else go ([], s))"

subsection \<open>Reporting a user action\<close>

definition report_phase :: "loop_input \<Rightarrow> bool \<Rightarrow> 'd main_state \<Rightarrow> 'd main_state outcome" where
  "report_phase inp skip s =
     bind_result
       (if \<not> skip \<and> (direction_event s \<noteq> 0 \<or> button_event s \<noteq> 0)
        then send (action_alloc inp) USER_ACTION_DATA
               (if direction_event s \<noteq> 0 then direction_event s else button_event s) None s
        else Inr ([], s))
       (\<lambda>(cs, s). Inr (cs, s\<lparr>direction_event := 0, button_event := 0\<rparr>))"

text \<open>One iteration of \<open>while (1)\<close> that nothing interrupts.\<close>

definition loop_iteration :: "'d spi_xfer \<Rightarrow> loop_input \<Rightarrow> 'd main_state \<Rightarrow> 'd main_state outcome" where
  "loop_iteration xfer inp s =
     seq (poll_phase xfer inp s) (\<lambda>s. seq (mode_phase xfer inp s) (\<lambda>(skip, s). report_phase inp skip s))"

subsection \<open>Start-up\<close>

definition main_globals :: "'d motion_hw \<Rightarrow> 'd main_state" where
  "main_globals h = \<lparr>udp = udp_init, DEBOUNCE_TICK = 0, button_event = 0, direction_event = 0,
     joystick_data = [0, 0], gyro_data = 0, party_tick = 0, xy_tick = 0, gyro_tick = 0, user_feedback_tick = 0,
     party_sub_mode = 0, continuous_read_enable = 0, konami_statics = konami_init, button_counts = button_init,
     stick_counts = stick_init, led_counts = led_init, motion_rings = motion_init, motion_bus = h\<rparr>"

text \<open>
  The inputs of the start-up: the base clock, the answers of checked calls, the wireless
  events handled while it waits and the four answers of the motion set-up. The result is
  \<open>None\<close> while the connection is awaited.
\<close>

record 'd boot_input =
  boot_clk :: nat
  boot_ok :: "esp_call \<Rightarrow> bool"
  boot_events :: "system_event list"
  boot_motion :: "bool \<times> bool \<times> bool \<times> bool"
  boot_bus :: 'd

definition app_main_init :: "'d spi_xfer \<Rightarrow> 'd boot_input \<Rightarrow> (esp_call list \<times> 'd main_state) option result" where
  "app_main_init xfer b =
     bind_result (run_checked (boot_ok b) [(True, Nvs_flash_init)]) (\<lambda>nvs.
     bind_result (init_connection_controller (boot_ok b) (boot_events b)) (\<lambda>conn.
       case conn of
         None \<Rightarrow> Inr None
       | Some cs \<Rightarrow>
           let (ts, tick) = init_timer_controller (boot_clk b);
               (us, n) = init_udp_controller udp_init;
               (bus_ok, dev_ok, tx_ok, rx_ok) = boot_motion b in
           bind_result (init_motion_controllers xfer bus_ok dev_ok tx_ok rx_ok (boot_bus b)) (\<lambda>h.
             Inr (Some (init_led_controller @ nvs @ cs @ init_ps2_controller @ init_button_controllers @ ts @ us,
                        (main_globals h)\<lparr>udp := n, DEBOUNCE_TICK := tick\<rparr>)))))"

end
