(* ===== verification/Base_Station.thy ===== *)
theory Base_Station
  imports Udp_Controller
begin

text \<open>
  The base station's end of the protocol: \<open>WirelessCommand.parse\<close> and the datagram of
  \<open>HeartBeatThread\<close> under \<open>chuck_server/src/chuck\<close>. The properties join the two ends:
  what the controller sends is what the base station parses, and the heartbeat is what the
  controller answers. A received datagram lies at the start of a 1024 byte buffer whose
  rest is left over from earlier datagrams, so every statement allows arbitrary bytes
  after it.
\<close>

record wirelessCommand =
  packetType :: u8
  wmode :: u8
  dataType :: u8
  userActionData :: u8
  joystickData :: "(int \<times> int) option"
  gyroData :: int
  parsed :: bool

definition new_command :: wirelessCommand where
  "new_command = \<lparr>packetType = 0, wmode = 0, dataType = 0, userActionData = 0, joystickData = None, gyroData = 0, parsed = False\<rparr>"

text \<open>The preamble check is the controller's loop over the same eight bytes.\<close>

definition verifyPacket :: "u8 list \<Rightarrow> bool result" where
  "verifyPacket receiveData = id_loop receiveData 0"

text \<open>\<open>(b3 & 0xFF) << 24 | (b2 & 0xFF) << 16 | (b1 & 0xFF) << 8 | (b0 & 0xFF)\<close>\<close>

definition java_int :: "u8 \<Rightarrow> u8 \<Rightarrow> u8 \<Rightarrow> u8 \<Rightarrow> int" where
  "java_int b3 b2 b1 b0 = sint ((push_bit 24 (ucast b3) OR push_bit 16 (ucast b2) OR
     push_bit 8 (ucast b1) OR ucast b0) :: u32)"

definition read_java_int :: "u8 list \<Rightarrow> nat \<Rightarrow> int result" where
  "read_java_int receiveData i =
     bind_result (read_byte receiveData (i + 3)) (\<lambda>b3. bind_result (read_byte receiveData (i + 2)) (\<lambda>b2.
       bind_result (read_byte receiveData (i + 1)) (\<lambda>b1. bind_result (read_byte receiveData i) (\<lambda>b0.
         Inr (java_int b3 b2 b1 b0)))))"

definition parse_data :: "u8 list \<Rightarrow> wirelessCommand \<Rightarrow> (bool \<times> wirelessCommand) result" where
  "parse_data receiveData c =
     bind_result (read_byte receiveData 10) (\<lambda>dt.
       let c = c\<lparr>dataType := dt\<rparr> in
       if dt = USER_ACTION_DATA then
         bind_result (read_byte receiveData 11) (\<lambda>u. Inr (True, c\<lparr>userActionData := u, parsed := True\<rparr>))
       else if dt = JOYSTICK_DATA then
         bind_result (read_java_int receiveData 12) (\<lambda>x.
           bind_result (read_java_int receiveData 16) (\<lambda>y. Inr (True, c\<lparr>joystickData := Some (x, y), parsed := True\<rparr>)))
       else if dt = GYRO_DATA then
         bind_result (read_java_int receiveData 20) (\<lambda>g. Inr (True, c\<lparr>gyroData := g, parsed := True\<rparr>))
       else Inr (False, c\<lparr>parsed := False\<rparr>))"

definition parse :: "u8 list \<Rightarrow> wirelessCommand \<Rightarrow> (bool \<times> wirelessCommand) result" where
  "parse receiveData c =
     (if parsed c then Inr (True, c)
      else bind_result (verifyPacket receiveData) (\<lambda>ok.
        if \<not> ok then Inr (False, c)
        else bind_result (read_byte receiveData 8) (\<lambda>t. bind_result (read_byte receiveData 9) (\<lambda>m.
          let c = c\<lparr>packetType := t, wmode := m\<rparr> in
          if t = DATA_PACKET_ID then parse_data receiveData c
          else if t = POLL_REPLY_PACKET_ID then Inr (True, c\<lparr>parsed := True\<rparr>)
          else if t = POLL_PACKET_ID then Inr (True, c\<lparr>parsed := True\<rparr>)
          else Inr (False, c\<lparr>parsed := False\<rparr>)))))"

definition heartbeat :: "u8 \<Rightarrow> u8 list" where
  "heartbeat currentState = ID @ [POLL_PACKET_ID, currentState]"

subsection \<open>Lemmas\<close>

lemma read_java_int_le32:
  assumes "drop i buf = le32 w @ rest"
  shows "read_java_int buf i = Inr (sint w)"
proof -
  have len: "i + 4 \<le> length buf"
    using arg_cong [OF assms, of length] by simp
  have nth: "buf ! (i + k) = (le32 w @ rest) ! k" if "k < 4" for k
    using that len by (simp flip: assms)
  have "java_int (buf ! (i + 3)) (buf ! (i + 2)) (buf ! (i + 1)) (buf ! i) = sint (of_le32 (le32 w @ rest))"
    using nth [of 0] nth [of 1] nth [of 2] nth [of 3] by (simp add: java_int_def of_le32_def)
  then show ?thesis
    using len by (simp add: read_java_int_def read_byte_in)
qed

text \<open>The bytes of a data packet with the controller's preamble, read by the parser.\<close>

definition controller_packet :: "dataPacket \<Rightarrow> bool" where
  "controller_packet d \<longleftrightarrow> hdr_id (data_header d) = ID \<and> packet_type (data_header d) = DATA_PACKET_ID"

lemma controller_packet_bytes:
  assumes "controller_packet d"
  shows "data_bytes d @ rest = ID @ [DATA_PACKET_ID, hdr_mode (data_header d), data_type d, user_action d] @
    le32 (joystick_0 d) @ le32 (joystick_1 d) @ le32 (gyro d) @ rest"
  using assms by (simp add: controller_packet_def data_bytes_def header_bytes_def)

lemma parse_controller_packet:
  assumes "controller_packet d"
  shows "parse (data_bytes d @ rest) new_command =
    parse_data (data_bytes d @ rest) (new_command\<lparr>packetType := DATA_PACKET_ID, wmode := hdr_mode (data_header d)\<rparr>)"
proof -
  have "id_loop (data_bytes d @ rest) 0 = Inr True"
    using id_loop_prefix [of "data_bytes d @ rest"] by (simp add: controller_packet_bytes [OF assms])
  then show ?thesis
    by (simp add: parse_def verifyPacket_def new_command_def controller_packet_bytes [OF assms] read_byte_def
        nth_append)
qed

lemma parse_data_controller_packet:
  assumes "controller_packet d"
  shows "parse_data (data_bytes d @ rest) c =
    (let c = c\<lparr>dataType := data_type d\<rparr> in
     if data_type d = USER_ACTION_DATA then Inr (True, c\<lparr>userActionData := user_action d, parsed := True\<rparr>)
     else if data_type d = JOYSTICK_DATA then
       Inr (True, c\<lparr>joystickData := Some (sint (joystick_0 d), sint (joystick_1 d)), parsed := True\<rparr>)
     else if data_type d = GYRO_DATA then Inr (True, c\<lparr>gyroData := sint (gyro d), parsed := True\<rparr>)
     else Inr (False, c\<lparr>parsed := False\<rparr>))"
proof -
  let ?b = "data_bytes d @ rest"
  note bytes = controller_packet_bytes [OF assms, of rest]
  have "read_byte ?b 10 = Inr (data_type d)" "read_byte ?b 11 = Inr (user_action d)"
    by (simp_all add: bytes read_byte_def nth_append)
  moreover have "read_java_int ?b 12 = Inr (sint (joystick_0 d))" "read_java_int ?b 16 = Inr (sint (joystick_1 d))"
      "read_java_int ?b 20 = Inr (sint (gyro d))"
    by (rule read_java_int_le32, simp add: bytes)+
  ultimately show ?thesis
    by (simp add: parse_data_def Let_def)
qed

text \<open>The packet that \<open>send_data_packet\<close> hands to the network.\<close>

lemma send_data_packet_sends:
  assumes "udp_inv s" "DEST_IP s = Some ip"
    and "fill_data t u other ((DATA_PACKET s)\<lparr>data_header := (data_header (DATA_PACKET s))\<lparr>hdr_mode := MODE (modes s)\<rparr>,
           data_type := t\<rparr>) = Inr d"
  shows "\<exists>cs. send_data_packet True t u other s = Inr (cs, s\<lparr>DATA_PACKET := d\<rparr>) \<and> sent cs = [data_bytes d]"
    and "controller_packet d" "hdr_mode (data_header d) = MODE (modes s)" "data_type d = t"
  using assms fill_data_header [OF assms(3)]
  by (simp_all add: send_data_packet_def get_mode_def Let_def udp_inv_def controller_packet_def)

lemma send_then_parse:
  assumes "udp_inv s" "DEST_IP s = Some ip"
    and "fill_data t u other ((DATA_PACKET s)\<lparr>data_header := (data_header (DATA_PACKET s))\<lparr>hdr_mode := MODE (modes s)\<rparr>,
           data_type := t\<rparr>) = Inr d"
  shows "\<exists>cs s' b. send_data_packet True t u other s = Inr (cs, s') \<and> sent cs = [b] \<and>
    (\<forall>rest. parse (b @ rest) new_command =
       parse_data (data_bytes d @ rest) (new_command\<lparr>packetType := DATA_PACKET_ID, wmode := MODE (modes s)\<rparr>))"
  using send_data_packet_sends [OF assms] parse_controller_packet by metis

text \<open>The effect of a heartbeat on the controller, written out.\<close>

definition heartbeat_reply :: "u8 \<Rightarrow> udp_state \<Rightarrow> pollReplyPacket" where
  "heartbeat_reply m s = (POLL_REPLY_PACKET s)\<lparr>reply_header := (reply_header (POLL_REPLY_PACKET s))\<lparr>hdr_mode := m\<rparr>,
     battery_level := BATTERY_0_69, error_code := 0x69, message_length := 0\<rparr>"

definition heartbeat_state :: "u8 \<Rightarrow> u32 \<Rightarrow> udp_state \<Rightarrow> udp_state" where
  "heartbeat_state m addr s = s\<lparr>DEST_IP := Some addr, modes := (modes s)\<lparr>MODE := m, user_feedback_enable := 0\<rparr>,
     POLL_REPLY_PACKET := heartbeat_reply m s\<rparr>"

definition heartbeat_calls :: "u8 \<Rightarrow> u32 \<Rightarrow> udp_state \<Rightarrow> esp_call list" where
  "heartbeat_calls m addr s = set_leds m @
     [Net (Pbuf_alloc 20), Net (Udp_connect addr (PORT s)), Net (Udp_send (reply_bytes (heartbeat_reply m s))),
      Net Udp_disconnect, Net Pbuf_free]"

lemma udp_recieve_heartbeat:
  "udp_recieve True (heartbeat m) addr s = Inr (heartbeat_calls m addr s, heartbeat_state m addr s)"
proof -
  have "id_loop (heartbeat m) 0 = Inr True"
    using id_loop_prefix [of "heartbeat m"] by (simp add: heartbeat_def)
  then show ?thesis
    by (simp add: udp_recieve_def receive_poll_def read_byte_def heartbeat_def nth_append set_mode_def Let_def
        send_poll_reply_packet_def get_mode_def heartbeat_reply_def heartbeat_state_def heartbeat_calls_def)
qed

fun heartbeats :: "u8 \<Rightarrow> u32 \<Rightarrow> nat \<Rightarrow> udp_state \<Rightarrow> (esp_call list \<times> udp_state) result" where
  "heartbeats m addr 0 s = Inr ([], s)"
| "heartbeats m addr (Suc n) s = bind_result (udp_recieve True (heartbeat m) addr s)
     (\<lambda>(cs, s). bind_result (heartbeats m addr n s) (\<lambda>(ds, s). Inr (cs @ ds, s)))"

lemma pbufs_append [simp]:
  "pbufs_taken (cs @ ds) = pbufs_taken cs + pbufs_taken ds" "pbufs_freed (cs @ ds) = pbufs_freed cs + pbufs_freed ds"
  by (simp_all add: pbufs_taken_def pbufs_freed_def)

lemma pbufs_quiet:
  "list_all quiet_call cs \<Longrightarrow> pbufs_taken cs = 0 \<and> pbufs_freed cs = 0"
  by (induction cs) (auto simp: pbufs_taken_def pbufs_freed_def quiet_call_def split: esp_call.splits)

lemma pbufs_heartbeat: "pbufs_taken (heartbeat_calls m addr s) = 1" "pbufs_freed (heartbeat_calls m addr s) = 1"
  using pbufs_quiet [OF set_leds_quiet, of m]
  by (simp_all add: heartbeat_calls_def) (simp_all add: pbufs_taken_def pbufs_freed_def)

subsection \<open>Properties\<close>

text \<open>
  C7: What the controller sends is what the base station parses. A user action, a stick
  position and a gyroscope value, sent by a connected controller, arrive in the parsed
  command unchanged, signed values included, together with the controller's mode, whatever
  earlier datagrams left in the receive buffer and in the controller's packet.
\<close>

theorem data_packet_reaches_base_station:
  assumes "udp_inv s" "DEST_IP s = Some ip" "int32 x" "int32 y" "int32 g"
  defines "c \<equiv> new_command\<lparr>packetType := DATA_PACKET_ID, wmode := MODE (modes s), parsed := True\<rparr>"
  shows "(\<exists>cs s' b. send_data_packet True USER_ACTION_DATA u None s = Inr (cs, s') \<and> sent cs = [b] \<and>
      (\<forall>rest. parse (b @ rest) new_command = Inr (True, c\<lparr>dataType := USER_ACTION_DATA, userActionData := u\<rparr>))) \<and>
    (\<exists>cs s' b. send_data_packet True JOYSTICK_DATA 0 (Some [word_of_int x, word_of_int y]) s = Inr (cs, s') \<and> sent cs = [b] \<and>
      (\<forall>rest. parse (b @ rest) new_command = Inr (True, c\<lparr>dataType := JOYSTICK_DATA, joystickData := Some (x, y)\<rparr>))) \<and>
    (\<exists>cs s' b. send_data_packet True GYRO_DATA 0 (Some [word_of_int g]) s = Inr (cs, s') \<and> sent cs = [b] \<and>
      (\<forall>rest. parse (b @ rest) new_command = Inr (True, c\<lparr>dataType := GYRO_DATA, gyroData := g\<rparr>)))"
proof -
  let ?d = "\<lambda>t. (DATA_PACKET s)\<lparr>data_header := (data_header (DATA_PACKET s))\<lparr>hdr_mode := MODE (modes s)\<rparr>, data_type := t\<rparr>"
  have ctl: "controller_packet (?d t)" for t
    using assms(1) by (simp add: udp_inv_def controller_packet_def)
  then have ctl': "controller_packet ((?d t)\<lparr>user_action := u\<rparr>)" "controller_packet ((?d t)\<lparr>gyro := v\<rparr>)"
      "controller_packet ((?d t)\<lparr>joystick_0 := v, joystick_1 := w\<rparr>)" for t v w
    by (simp_all add: controller_packet_def)
  note send = send_then_parse [OF assms(1,2)]
  have "fill_data USER_ACTION_DATA u None (?d USER_ACTION_DATA) = Inr ((?d USER_ACTION_DATA)\<lparr>user_action := u\<rparr>)"
    by (simp add: fill_data_def)
  note user = send [OF this]
  have "fill_data JOYSTICK_DATA 0 (Some [word_of_int x, word_of_int y]) (?d JOYSTICK_DATA) =
      Inr ((?d JOYSTICK_DATA)\<lparr>joystick_0 := word_of_int x, joystick_1 := word_of_int y\<rparr>)"
    by (simp add: fill_data_def read_int_def)
  note stick = send [OF this]
  have "fill_data GYRO_DATA 0 (Some [word_of_int g]) (?d GYRO_DATA) = Inr ((?d GYRO_DATA)\<lparr>gyro := word_of_int g\<rparr>)"
    by (simp add: fill_data_def read_int_def)
  note gyro = send [OF this]
  show ?thesis
    using user stick gyro assms(3-5)
    by (simp add: parse_data_controller_packet [OF ctl'(1)] parse_data_controller_packet [OF ctl'(2)]
        parse_data_controller_packet [OF ctl'(3)] c_def new_command_def)
qed

theorem data_packet_reaches_base_station_witness:
  "\<exists>cs s' b. send_data_packet True GYRO_DATA 0 (Some [- 5])
       ((snd (init_udp_controller udp_init))\<lparr>DEST_IP := Some 0x0A000001\<rparr>) = Inr (cs, s') \<and> sent cs = [b] \<and>
     parse (b @ replicate 1000 7) new_command =
       Inr (True, new_command\<lparr>packetType := 0x33, wmode := 1, parsed := True, dataType := 0x33, gyroData := - 5\<rparr>)"
proof -
  let ?s = "(snd (init_udp_controller udp_init))\<lparr>DEST_IP := Some 0x0A000001\<rparr>"
  have s: "udp_inv ?s" "DEST_IP ?s = Some 0x0A000001" "MODE (modes ?s) = 1"
    by (simp_all add: udp_inv_init) (simp add: init_udp_controller_def udp_init_def mode_init_def Let_def)
  have "int32 0" "int32 (- 5)" by (simp_all add: int32_def)
  then show ?thesis
    using data_packet_reaches_base_station [OF s(1,2), of 0 0 "- 5" 0] s(3) by fastforce
qed

text \<open>
  C21: The heartbeat connects the controller. Whatever state the controller is in, the
  base station's heartbeat makes its sender the controller's peer, sets the mode it
  carries and shows it on the LED, and is answered by exactly one datagram of 20 bytes,
  which the base station parses as a poll reply with that mode.
\<close>

theorem heartbeat_connects:
  assumes "udp_inv s"
  shows "\<exists>cs s' b. udp_recieve True (heartbeat m) addr s = Inr (cs, s') \<and>
    DEST_IP s' = Some addr \<and> controller_connected s' \<noteq> 0 \<and> MODE (modes s') = m \<and>
    rgb (pin_levels p cs) = rgb (pin_levels p (set_leds m)) \<and>
    sent cs = [b] \<and> length b = 20 \<and>
    (\<forall>rest. parse (b @ rest) new_command =
       Inr (True, new_command\<lparr>packetType := POLL_REPLY_PACKET_ID, wmode := m, parsed := True\<rparr>))"
proof -
  define r where "r = heartbeat_reply m s"
  have run: "udp_recieve True (heartbeat m) addr s =
      Inr (heartbeat_calls m addr s, heartbeat_state m addr s)"
    by (rule udp_recieve_heartbeat)
  have wf: "header_wf (reply_header r)"
    using assms by (simp add: r_def heartbeat_reply_def udp_inv_def header_wf_def)
  have bytes: "reply_bytes r @ rest = ID @ [POLL_REPLY_PACKET_ID, m] @ le32 BATTERY_0_69 @ [0x69, 0] @ le32 (message_ptr r) @ rest" for rest
    using assms by (simp add: reply_bytes_def header_bytes_def r_def heartbeat_reply_def udp_inv_def)
  have "id_loop (reply_bytes r @ rest) 0 = Inr True" for rest
    using id_loop_prefix [of "reply_bytes r @ rest"] by (simp add: bytes)
  then have "parse (reply_bytes r @ rest) new_command =
      Inr (True, new_command\<lparr>packetType := POLL_REPLY_PACKET_ID, wmode := m, parsed := True\<rparr>)" for rest
    by (simp add: parse_def verifyPacket_def new_command_def bytes read_byte_def nth_append)
  then show ?thesis
    using run reply.length_enc [OF wf]
    by (simp add: heartbeat_state_def heartbeat_calls_def controller_connected_def rgb_def r_def)
qed

theorem heartbeat_connects_witness:
  "\<exists>cs s'. udp_recieve True (heartbeat DMX_MODE) 0x0A000001 (snd (init_udp_controller udp_init)) = Inr (cs, s') \<and>
     MODE (modes s') = DMX_MODE"
  using heartbeat_connects [OF udp_inv_init [of udp_init], of DMX_MODE "0x0A000001"] by blast

text \<open>
  Every answered heartbeat leaks a packet buffer. The controller allocates a buffer
  for its reply and frees the received one only; lwIP's \<open>udp_send\<close> leaves the buffer to
  its caller. So of the \<open>n\<close> received buffers and the ones it allocated itself, \<open>n\<close> are
  still held after \<open>n\<close> heartbeats.
\<close>

theorem heartbeats_leak:
  "\<exists>cs s'. heartbeats m addr n s = Inr (cs, s') \<and> n + pbufs_taken cs - pbufs_freed cs = n"
proof -
  have "\<exists>cs s'. heartbeats m addr n s = Inr (cs, s') \<and> pbufs_taken cs = n \<and> pbufs_freed cs = n"
  proof (induction n arbitrary: s)
    case 0
    then show ?case by (simp add: pbufs_taken_def pbufs_freed_def)
  next
    case (Suc n)
    from Suc [of "heartbeat_state m addr s"] show ?case
      by (auto simp: udp_recieve_heartbeat pbufs_heartbeat)
  qed
  then show ?thesis by auto
qed

end
