(* ===== verification/Main_System.thy ===== *)
theory Main_System
  imports Main_Loop Base_Station
begin

text \<open>
  The running controller as a transition system: the phases of the main loop, the timer
  interrupt, the network callback and the restart it may order, in every interleaving.
  The invariant of a reachable state collects the invariants of the components; the
  properties follow from it by rule induction.
\<close>

subsection \<open>The step relation\<close>

datatype phase = Poll | Dispatch | Report bool

datatype label = Timer_isr | Datagram | Restart | Polled bool | Dispatched | Reported

inductive step :: "'d spi_xfer \<Rightarrow> phase \<times> 'd main_state \<Rightarrow> label \<Rightarrow> esp_call list \<Rightarrow> phase \<times> 'd main_state \<Rightarrow> bool"
  for xfer :: "'d spi_xfer" where
  timer: "timer_group0_isr idx g (DEBOUNCE_TICK s) = (g', t) \<Longrightarrow>
    step xfer (ph, s) Timer_isr [] (ph, s\<lparr>DEBOUNCE_TICK := t\<rparr>)"
| datagram: "udp_recieve a payload addr (udp s) = Inr (cs, n) \<Longrightarrow> Esp_restart \<notin> set cs \<Longrightarrow>
    step xfer (ph, s) Datagram cs (ph, s\<lparr>udp := n\<rparr>)"
| restart: "udp_recieve a payload addr (udp s) = Inr (cs, n) \<Longrightarrow> Esp_restart \<in> set cs \<Longrightarrow>
    app_main_init xfer b = Inr (Some (ds, s')) \<Longrightarrow>
    step xfer (ph, s) Restart (cs @ ds) (Poll, s')"
| poll: "poll_phase xfer inp s = Inr (cs, s') \<Longrightarrow>
    step xfer (Poll, s) (Polled (DEBOUNCE_TICK s \<noteq> 0)) cs (Dispatch, s')"
| dispatch: "mode_phase xfer inp s = Inr (cs, skip, s') \<Longrightarrow>
    step xfer (Dispatch, s) Dispatched cs (Report skip, s')"
| report: "report_phase inp skip s = Inr (cs, s') \<Longrightarrow>
    step xfer (Report skip, s) Reported cs (Poll, s')"

inductive_cases step_Polled: "step xfer c (Polled t) cs c'"
inductive_cases step_Dispatched: "step xfer c Dispatched cs c'"
inductive_cases step_Reported: "step xfer c Reported cs c'"

inductive exec :: "'d spi_xfer \<Rightarrow> phase \<times> 'd main_state \<Rightarrow> (label \<times> esp_call list) list \<Rightarrow> phase \<times> 'd main_state \<Rightarrow> bool"
  for xfer :: "'d spi_xfer" where
  refl: "exec xfer c [] c"
| step: "step xfer c l cs c' \<Longrightarrow> exec xfer c' ls c'' \<Longrightarrow> exec xfer c ((l, cs) # ls) c''"

inductive_simps exec_Nil [simp]: "exec xfer c [] c'"
inductive_simps exec_Cons [simp]: "exec xfer c ((l, cs) # ls) c'"

lemma exec_append: "exec xfer c (ls @ ms) c'' \<longleftrightarrow> (\<exists>c'. exec xfer c ls c' \<and> exec xfer c' ms c'')"
proof (induction ls arbitrary: c)
  case (Cons x ls)
  then show ?case by (cases x) (auto simp only: append_Cons exec_Cons)
qed simp

text \<open>A state is reachable when a successful start-up can be followed by steps to it.\<close>

inductive reachable :: "'d spi_xfer \<Rightarrow> phase \<times> 'd main_state \<Rightarrow> bool" for xfer :: "'d spi_xfer" where
  boot: "app_main_init xfer b = Inr (Some (cs, s)) \<Longrightarrow> reachable xfer (Poll, s)"
| step: "reachable xfer c \<Longrightarrow> step xfer c l cs c' \<Longrightarrow> reachable xfer c'"

subsection \<open>The invariant\<close>

definition motion_inv :: "motion_statics \<Rightarrow> bool" where
  "motion_inv r \<longleftrightarrow> (\<exists>hist. motion_abs hist r)"

text \<open>The values of the event and flag bytes.\<close>

definition direction_ok :: "u8 \<Rightarrow> bool" where
  "direction_ok d \<longleftrightarrow> d \<in> {0, UP, DOWN, LEFT, RIGHT, KONAMI_COMPLETE, REV_KONAMI_COMPLETE}"

definition button_ok :: "u8 \<Rightarrow> bool" where
  "button_ok b \<longleftrightarrow> b \<in> {0, B1, B2, B12, PS2_B, PS2_LONG}"

definition flag_ok :: "u8 \<Rightarrow> bool" where
  "flag_ok f \<longleftrightarrow> f = 0 \<or> f = 1"

definition sub_mode_ok :: "u8 \<Rightarrow> bool" where
  "sub_mode_ok m \<longleftrightarrow> m \<in> {0, 1, 2, 3, 4}"

lemma byte_ok_simps [simp]:
  "direction_ok 0" "direction_ok KONAMI_COMPLETE" "direction_ok REV_KONAMI_COMPLETE" "button_ok 0"
  "flag_ok 0" "flag_ok 1" "sub_mode_ok 0" "sub_mode_ok 1" "sub_mode_ok 2"
  by (simp_all add: direction_ok_def button_ok_def flag_ok_def sub_mode_ok_def)

definition main_inv :: "'d main_state \<Rightarrow> bool" where
  "main_inv s \<longleftrightarrow> udp_inv (udp s) \<and> konami_inv (konami_statics s) \<and> button_inv (button_counts s) \<and>
     stick_inv (stick_counts s) \<and> led_inv (led_counts s) \<and> motion_inv (motion_rings s) \<and>
     sub_mode_ok (party_sub_mode s) \<and> flag_ok (continuous_read_enable s) \<and> flag_ok (DEBOUNCE_TICK s) \<and>
     direction_ok (direction_event s) \<and> button_ok (button_event s)"

lemma main_inv_boot:
  assumes "app_main_init xfer b = Inr (Some (cs, s))"
  shows "main_inv s"
proof -
  obtain h where s: "s = (main_globals h)\<lparr>udp := snd (init_udp_controller udp_init), DEBOUNCE_TICK := 0\<rparr>"
    using assms
    by (auto simp: app_main_init_def bind_result_eq_Inr Let_def init_timer_controller_def prod.case_eq_if
        split: option.splits)
  have "motion_inv motion_init"
    using motion_abs_init motion_inv_def by blast
  then show ?thesis
    by (simp add: s main_inv_def main_globals_def udp_inv_init)
qed

lemma poll_direction_inv [inv_intro]:
  assumes "main_inv s"
  shows "main_inv (poll_direction inp s)"
proof -
  have "direction_ok (if d \<in> {CENTER, LEFT, RIGHT, UP, DOWN} then d else e)" if "direction_ok e" for d e
    using that by (simp add: direction_ok_def)
  then show ?thesis
    using assms by (simp add: main_inv_def poll_direction_def prod.case_eq_if read_direction_inv)
qed

lemma poll_button_inv [inv_intro]:
  assumes "main_inv s" "poll_button xfer inp s = Inr s'"
  shows "main_inv s'"
proof -
  obtain b st where rb: "read_button (button_counts s) (levels inp) = (b, st)" by fastforce
  define e where "e = (if b \<in> {0, B1, B2, B12, PS2_B, PS2_LONG} then b else button_event s)"
  define t where "t = s\<lparr>button_counts := st, button_event := e\<rparr>"
  have "button_ok e"
    using assms(1) by (simp add: e_def button_ok_def main_inv_def)
  moreover have "button_inv st"
    using assms(1) read_button_inv [of "button_counts s" "levels inp"] by (simp add: rb main_inv_def)
  ultimately have "main_inv t"
    using assms(1) by (simp add: main_inv_def t_def)
  moreover have "poll_button xfer inp s =
      (if b = PS2_B then bind_result (read_motion_reg xfer 0x0F (motion_bus t)) (\<lambda>(_, h). Inr (t\<lparr>motion_bus := h\<rparr>))
       else Inr t)"
    by (cases "b = PS2_B") (simp_all add: poll_button_def rb Let_def t_def e_def)
  then have "s' = t \<or> (\<exists>h. s' = t\<lparr>motion_bus := h\<rparr>)"
    using assms(2) by (cases "read_motion_reg xfer 0x0F (motion_bus t)") (auto split: if_splits)
  ultimately show ?thesis
    by (auto simp: main_inv_def)
qed

lemma poll_phase_inv [inv_intro]:
  assumes "main_inv s" "poll_phase xfer inp s = Inr (cs, s')"
  shows "main_inv s'"
proof (cases "DEBOUNCE_TICK s = 0")
  case True
  then show ?thesis using assms by (simp add: poll_phase_def)
next
  case False
  then obtain t where t: "poll_button xfer inp (poll_direction inp s) = Inr t"
      and s': "s' = t\<lparr>led_counts := snd (if controller_connected (udp t) = 0 then pre_connect_animation (led_counts t)
                               else ([], led_counts t)),
        DEBOUNCE_TICK := 0, konami_statics := konami_tick (konami_statics t), party_tick := party_tick t + 1,
        xy_tick := xy_tick t + 1, gyro_tick := gyro_tick t + 1, user_feedback_tick := user_feedback_tick t + 1\<rparr>"
    using assms(2) by (auto simp: poll_phase_def bind_result_eq_Inr Let_def prod.case_eq_if)
  have "main_inv t"
    by (rule poll_button_inv [OF poll_direction_inv [OF assms(1)] t])
  then show ?thesis
    by (simp add: s' main_inv_def konami_tick_inv pre_connect_animation_inv)
qed

lemma send_inv [inv_intro]:
  assumes "main_inv s" "send a t u other s = Inr (cs, s')"
  shows "main_inv s'"
proof -
  obtain n where n: "send_data_packet a t u (map_option (map word_of_int) other) (udp s) = Inr (cs, n)"
      "s' = s\<lparr>udp := n\<rparr>"
    using assms(2) by (auto simp: send_def bind_result_eq_Inr)
  show ?thesis
    using assms(1) send_data_packet_inv [OF _ n(1)] by (simp add: n(2) main_inv_def)
qed

lemma read_motion_rings:
  assumes "motion_inv r" "read_motion xfer h r = Inr (g, h', r')"
  shows "motion_inv r'"
proof -
  obtain x y z where "r' = snd (get_movement_magnitude x y z r)"
    using assms(2) by (auto simp: read_motion_def bind_result_eq_Inr prod.case_eq_if)
  then show ?thesis
    using assms(1) get_movement_magnitude_refines(2) unfolding motion_inv_def by blast
qed

lemma send_gyro_inv [inv_intro]:
  assumes "main_inv s" "send_gyro xfer inp s = Inr (cs, s')"
  shows "main_inv s'"
proof (cases "gyro_tick s > GYRO_REFRESH_RATE")
  case True
  then obtain g h r t where run: "read_motion xfer (motion_bus s) (motion_rings s) = Inr (g, h, r)"
      "send (refresh_alloc inp) GYRO_DATA 0 (Some [g]) (s\<lparr>gyro_data := g, motion_bus := h, motion_rings := r\<rparr>) = Inr (cs, t)"
      "s' = t\<lparr>gyro_tick := 0\<rparr>"
    using assms(2) by (auto simp: send_gyro_def bind_result_eq_Inr)
  have "main_inv (s\<lparr>gyro_data := g, motion_bus := h, motion_rings := r\<rparr>)"
    using assms(1) read_motion_rings [OF _ run(1)] by (simp add: main_inv_def)
  from send_inv [OF this run(2)] show ?thesis by (simp add: run(3) main_inv_def)
next
  case False
  then show ?thesis using assms by (simp add: send_gyro_def)
qed

lemma send_stick_inv [inv_intro]:
  assumes "main_inv s" "send_stick inp s = Inr (cs, s')"
  shows "main_inv s'"
proof (cases "xy_tick s > XY_REFRESH_RATE")
  case True
  then obtain xy t where run: "send (refresh_alloc inp) JOYSTICK_DATA 0 (Some xy) (s\<lparr>joystick_data := xy\<rparr>) = Inr (cs, t)"
      "s' = t\<lparr>xy_tick := 0\<rparr>"
    using assms(2) by (auto simp: send_stick_def bind_result_eq_Inr Let_def)
  have "main_inv (s\<lparr>joystick_data := xy\<rparr>)"
    using assms(1) by (simp add: main_inv_def)
  from send_inv [OF this run(1)] show ?thesis by (simp add: run(2) main_inv_def)
next
  case False
  then show ?thesis using assms by (simp add: send_stick_def)
qed

lemma feedback_inv: "main_inv s \<Longrightarrow> main_inv (snd (feedback pin s))"
  by (simp add: feedback_def set_feedback_def main_inv_def Let_def prod.case_eq_if)

lemma party_lights_inv:
  assumes "main_inv s"
  shows "main_inv (snd (party_lights s))"
proof -
  have "sub_mode_ok (party_sub_mode (snd (party_lights s)))"
    using assms by (auto simp: party_lights_def main_inv_def Let_def sub_mode_ok_def)
  then show ?thesis
    using assms by (simp add: party_lights_def main_inv_def Let_def prod.case_eq_if)
qed

lemma idle_mode_inv: "main_inv s \<Longrightarrow> main_inv (snd (idle_mode s))"
  using check_konami_inv [of "konami_statics s" "direction_event s" "button_event s"]
  by (simp add: idle_mode_def main_inv_def Let_def prod.case_eq_if)

lemma main_inv_continuous [simp]:
  "main_inv s \<Longrightarrow> main_inv (s\<lparr>continuous_read_enable := 0\<rparr>)" "main_inv s \<Longrightarrow> main_inv (s\<lparr>continuous_read_enable := 1\<rparr>)"
  by (simp_all add: main_inv_def)

lemma mode_phase_inv [inv_intro]:
  assumes "main_inv s" "mode_phase xfer inp s = Inr (cs, skip, s')"
  shows "main_inv s'"
proof -
  let ?on = "s\<lparr>continuous_read_enable := 1\<rparr>" and ?off = "s\<lparr>continuous_read_enable := 0\<rparr>"
  have "s' = s \<or> s' = ?off \<or> s' = snd (feedback set_red ?on) \<or> s' = snd (feedback set_blue ?on) \<or>
      s' = snd (idle_mode ?off) \<or> (\<exists>ds. send_stick inp ?off = Inr (ds, s')) \<or>
      (\<exists>ds. send_gyro xfer inp ?off = Inr (ds, s')) \<or> (\<exists>ds. send_gyro xfer inp (snd (party_lights ?off)) = Inr (ds, s'))"
    using assms(2) unfolding mode_phase_def Let_def seq_def
    by (auto simp: bind_result_eq_Inr prod.case_eq_if split: if_splits)
  then show ?thesis
    using assms(1) feedback_inv [of ?on] idle_mode_inv [of ?off] party_lights_inv [of ?off] send_stick_inv send_gyro_inv
    by (metis main_inv_continuous)
qed

lemma report_phase_inv [inv_intro]:
  assumes "main_inv s" "report_phase inp skip s = Inr (cs, s')"
  shows "main_inv s'"
proof -
  obtain t where "t = s \<or> (\<exists>a u ds. send a USER_ACTION_DATA u None s = Inr (ds, t))"
      and s': "s' = t\<lparr>direction_event := 0, button_event := 0\<rparr>"
    using assms(2) by (auto simp: report_phase_def bind_result_eq_Inr split: if_splits)
  then have "main_inv t" using assms(1) send_inv by blast
  then show ?thesis by (simp add: s' main_inv_def)
qed

lemma step_inv:
  assumes "step xfer c l cs c'" "main_inv (snd c)"
  shows "main_inv (snd c')"
  using assms
proof (induction rule: step.induct)
  case (timer idx g s g' t ph)
  then show ?case by (auto simp: main_inv_def timer_group0_isr_def split: if_splits)
next
  case (datagram a payload addr s cs n ph)
  then show ?case using udp_recieve_inv [OF _ datagram.hyps(1)] by (simp add: main_inv_def)
next
  case (restart a payload addr s cs n b ds s' ph)
  then show ?case by (simp add: main_inv_boot)
qed (auto intro: inv_intro)

lemma reachable_inv: "reachable xfer c \<Longrightarrow> main_inv (snd c)"
  by (induction rule: reachable.induct) (auto simp: main_inv_boot intro: step_inv)

subsection \<open>What is sent\<close>

lemma send_sends:
  assumes "send a t u other s = Inr (cs, s')" "udp_inv (udp s)"
  shows "(DEST_IP (udp s) = None \<longrightarrow> sent cs = []) \<and> (\<forall>d \<in> set (sent cs). length d = 24 \<and> take 8 d = ID \<and> d ! 10 = t)"
proof -
  obtain n where n: "send_data_packet a t u (map_option (map word_of_int) other) (udp s) = Inr (cs, n)"
    using assms(1) by (auto simp: send_def bind_result_eq_Inr)
  show ?thesis
  proof (cases "DEST_IP (udp s)")
    case None
    then show ?thesis using n by (simp add: send_data_packet_def)
  next
    case (Some ip)
    then obtain d where d: "sent cs = [data_bytes d]" "hdr_id (data_header d) = ID" "data_type d = t"
      using n assms(2) fill_data_header
      by (fastforce simp: send_data_packet_def Let_def bind_result_eq_Inr udp_inv_def split: if_splits)
    then have "header_wf (data_header d)" by (simp add: header_wf_def)
    with data.length_enc [OF this] d Some show ?thesis
      by (simp add: data_bytes_def header_bytes_def nth_append)
  qed
qed

lemma element_quiet:
  "list_all quiet_call (fst (fst (dot t)))" "list_all quiet_call (fst (fst (dash t)))"
  "fst (fst (sub_letter_break t)) = []" "fst (fst (letter_break t)) = []" "fst (fst (word_break t)) = []"
  by (simp_all add: dot_def dash_def sub_letter_break_def letter_break_def word_break_def three_pins_def
      quiet_call_def Let_def)

lemma anim_quiet:
  "list_all quiet_call (fst (anim_dot s n))" "list_all quiet_call (fst (anim_dash s n))"
  "list_all quiet_call (fst (anim_sub_letter s n))" "list_all quiet_call (fst (anim_letter s n))"
  "list_all quiet_call (fst (anim_word s n))"
  by (simp_all add: anim_dot_def anim_dash_def anim_sub_letter_def anim_letter_def anim_word_def
      prod.case_eq_if element_quiet)

lemma pre_connect_animation_quiet: "list_all quiet_call (fst (pre_connect_animation s))"
  unfolding pre_connect_animation_def Let_def by (simp add: anim_quiet)

lemma set_pin_sent [simp]: "sent (set_red l) = []" "sent (set_green l) = []" "sent (set_blue l) = []"
  by (simp_all add: set_red_def set_green_def set_blue_def)

lemma poll_button_frame:
  assumes "poll_button xfer inp s = Inr s'"
  shows "gyro_tick s' = gyro_tick s \<and> xy_tick s' = xy_tick s \<and> udp s' = udp s"
  using assms
  by (cases "read_motion_reg xfer 0x0F (motion_bus s)")
     (auto simp: poll_button_def prod.case_eq_if Let_def split: if_splits)

lemma poll_phase_frame:
  assumes "poll_phase xfer inp s = Inr (cs, s')"
  shows "sent cs = []" "udp s' = udp s"
    "gyro_tick s' = gyro_tick s + (if DEBOUNCE_TICK s \<noteq> 0 then 1 else 0)"
proof -
  have "sent cs = [] \<and> udp s' = udp s \<and> gyro_tick s' = gyro_tick s + (if DEBOUNCE_TICK s \<noteq> 0 then 1 else 0)"
  proof (cases "DEBOUNCE_TICK s = 0")
    case False
    then obtain t where t: "poll_button xfer inp (poll_direction inp s) = Inr t"
        and cs: "cs = fst (if controller_connected (udp t) = 0 then pre_connect_animation (led_counts t) else ([], led_counts t))"
        and s': "gyro_tick s' = gyro_tick t + 1" "udp s' = udp t"
      using assms by (auto simp: poll_phase_def bind_result_eq_Inr Let_def prod.case_eq_if)
    have "gyro_tick t = gyro_tick s \<and> udp t = udp s"
      using poll_button_frame [OF t] by (simp add: poll_direction_def prod.case_eq_if)
    then show ?thesis
      using False s' quiet_sends_nothing [OF pre_connect_animation_quiet, of "led_counts t"] by (simp add: cs)
  qed (use assms in \<open>simp add: poll_phase_def\<close>)
  then show "sent cs = []" "udp s' = udp s"
    "gyro_tick s' = gyro_tick s + (if DEBOUNCE_TICK s \<noteq> 0 then 1 else 0)" by simp_all
qed

lemma send_frame:
  assumes "send a t u other s = Inr (cs, s')"
  shows "gyro_tick s' = gyro_tick s \<and> xy_tick s' = xy_tick s \<and> DEST_IP (udp s') = DEST_IP (udp s)"
  using assms by (auto simp: send_def bind_result_eq_Inr dest: send_data_packet_frame)

text \<open>A switch over the mode sends nothing, a stick packet or a gyroscope packet.\<close>

lemma send_stick_frame:
  assumes "send_stick inp s = Inr (cs, s')" "udp_inv (udp s)"
  shows "gyro_tick s' = gyro_tick s" "DEST_IP (udp s') = DEST_IP (udp s)"
    "DEST_IP (udp s) = None \<longrightarrow> sent cs = []"
    "\<forall>d \<in> set (sent cs). length d = 24 \<and> take 8 d = ID \<and> d ! 10 = JOYSTICK_DATA"
proof -
  consider "cs = []" "s' = s" | t xy where "send (refresh_alloc inp) JOYSTICK_DATA 0 (Some xy) (s\<lparr>joystick_data := xy\<rparr>) = Inr (cs, t)"
      "s' = t\<lparr>xy_tick := 0\<rparr>"
    using assms(1) by (auto simp: send_stick_def bind_result_eq_Inr Let_def split: if_splits)
  then have "gyro_tick s' = gyro_tick s \<and> DEST_IP (udp s') = DEST_IP (udp s) \<and> (DEST_IP (udp s) = None \<longrightarrow> sent cs = []) \<and>
    (\<forall>d \<in> set (sent cs). length d = 24 \<and> take 8 d = ID \<and> d ! 10 = JOYSTICK_DATA)"
  proof cases
    case 2
    then show ?thesis using send_frame [OF 2(1)] send_sends [OF 2(1)] assms(2) by simp
  qed simp
  then show "gyro_tick s' = gyro_tick s" "DEST_IP (udp s') = DEST_IP (udp s)" "DEST_IP (udp s) = None \<longrightarrow> sent cs = []"
    "\<forall>d \<in> set (sent cs). length d = 24 \<and> take 8 d = ID \<and> d ! 10 = JOYSTICK_DATA" by simp_all
qed

lemma send_gyro_frame:
  assumes "send_gyro xfer inp s = Inr (cs, s')" "udp_inv (udp s)"
  shows "gyro_tick s' = (if gyro_tick s > GYRO_REFRESH_RATE then 0 else gyro_tick s)"
    "DEST_IP (udp s') = DEST_IP (udp s)"
    "DEST_IP (udp s) = None \<or> gyro_tick s \<le> GYRO_REFRESH_RATE \<longrightarrow> sent cs = []"
    "\<forall>d \<in> set (sent cs). length d = 24 \<and> take 8 d = ID \<and> d ! 10 = GYRO_DATA"
proof -
  consider "cs = []" "s' = s" "gyro_tick s \<le> GYRO_REFRESH_RATE"
    | t g h r where "send (refresh_alloc inp) GYRO_DATA 0 (Some [g]) (s\<lparr>gyro_data := g, motion_bus := h, motion_rings := r\<rparr>) = Inr (cs, t)"
      "s' = t\<lparr>gyro_tick := 0\<rparr>" "gyro_tick s > GYRO_REFRESH_RATE"
    using assms(1) by (auto simp: send_gyro_def bind_result_eq_Inr not_less split: if_splits)
  then have "gyro_tick s' = (if gyro_tick s > GYRO_REFRESH_RATE then 0 else gyro_tick s) \<and> DEST_IP (udp s') = DEST_IP (udp s) \<and>
    (DEST_IP (udp s) = None \<or> gyro_tick s \<le> GYRO_REFRESH_RATE \<longrightarrow> sent cs = []) \<and>
    (\<forall>d \<in> set (sent cs). length d = 24 \<and> take 8 d = ID \<and> d ! 10 = GYRO_DATA)"
  proof cases
    case 1
    then show ?thesis by (simp add: leD)
  next
    case 2
    then show ?thesis using send_frame [OF 2(1)] send_sends [OF 2(1)] assms(2) by (auto simp: leD)
  qed
  then show "gyro_tick s' = (if gyro_tick s > GYRO_REFRESH_RATE then 0 else gyro_tick s)"
    "DEST_IP (udp s') = DEST_IP (udp s)"
    "DEST_IP (udp s) = None \<or> gyro_tick s \<le> GYRO_REFRESH_RATE \<longrightarrow> sent cs = []"
    "\<forall>d \<in> set (sent cs). length d = 24 \<and> take 8 d = ID \<and> d ! 10 = GYRO_DATA" by simp_all
qed

lemma quiet_modes:
  "sent (fst (feedback set_red s)) = []" "sent (fst (feedback set_blue s)) = []"
  "gyro_tick (snd (feedback pin s)) = gyro_tick s" "DEST_IP (udp (snd (feedback pin s))) = DEST_IP (udp s)"
  "gyro_tick (snd (idle_mode s)) = gyro_tick s" "udp (snd (idle_mode s)) = udp s"
  "sent (fst (party_lights s)) = []" "gyro_tick (snd (party_lights s)) = gyro_tick s" "udp (snd (party_lights s)) = udp s"
  by (simp_all add: feedback_def set_feedback_def idle_mode_def party_lights_def Let_def prod.case_eq_if)

definition data_packet_of :: "u8 \<Rightarrow> u8 list \<Rightarrow> bool" where
  "data_packet_of t d \<longleftrightarrow> length d = 24 \<and> take 8 d = ID \<and> d ! 10 = t"

lemma mode_phase_sends:
  assumes "mode_phase xfer inp s = Inr (cs, skip, s')" "udp_inv (udp s)"
  shows "DEST_IP (udp s') = DEST_IP (udp s) \<and> (DEST_IP (udp s) = None \<longrightarrow> sent cs = []) \<and>
    (\<forall>d \<in> set (sent cs). data_packet_of JOYSTICK_DATA d \<or> data_packet_of GYRO_DATA d) \<and>
    (gyro_tick s' = gyro_tick s \<or> gyro_tick s' = 0) \<and>
    ((\<exists>d \<in> set (sent cs). data_packet_of GYRO_DATA d) \<longrightarrow> gyro_tick s > GYRO_REFRESH_RATE \<and> gyro_tick s' = 0)"
proof -
  let ?on = "s\<lparr>continuous_read_enable := 1\<rparr>" and ?off = "s\<lparr>continuous_read_enable := 0\<rparr>"
  consider "sent cs = []" "gyro_tick s' = gyro_tick s" "DEST_IP (udp s') = DEST_IP (udp s)"
    | "send_stick inp ?off = Inr (cs, s')"
    | t ds where "send_gyro xfer inp t = Inr (ds, s')" "sent cs = sent ds" "gyro_tick t = gyro_tick s" "udp t = udp s"
  proof -
    have "cs = [] \<and> s' \<in> {s, ?off, snd (idle_mode ?off)} \<or>
        cs = fst (feedback set_red ?on) \<and> s' = snd (feedback set_red ?on) \<or>
        cs = fst (feedback set_blue ?on) \<and> s' = snd (feedback set_blue ?on) \<or>
        send_stick inp ?off = Inr (cs, s') \<or> send_gyro xfer inp ?off = Inr (cs, s') \<or>
        (\<exists>ds. send_gyro xfer inp (snd (party_lights ?off)) = Inr (ds, s') \<and> cs = fst (party_lights ?off) @ ds)"
      using assms(1) unfolding mode_phase_def Let_def seq_def
      by (auto simp: bind_result_eq_Inr prod.case_eq_if split: if_splits)
    then show thesis
      using that by (elim disjE) (auto simp: quiet_modes)
  qed
  then show ?thesis
  proof cases
    case 1
    then show ?thesis by simp
  next
    case 2
    from assms(2) have "udp_inv (udp ?off)" by simp
    from send_stick_frame [OF 2 this] show ?thesis by (simp add: data_packet_of_def)
  next
    case 3
    from assms(2) have "udp_inv (udp t)" by (simp add: 3(4))
    from send_gyro_frame [OF 3(1) this] show ?thesis
      by (auto simp: 3(2-4) data_packet_of_def not_less split: if_splits)
  qed
qed

lemma report_phase_sends:
  assumes "report_phase inp skip s = Inr (cs, s')" "udp_inv (udp s)"
  shows "DEST_IP (udp s') = DEST_IP (udp s) \<and> (DEST_IP (udp s) = None \<longrightarrow> sent cs = []) \<and>
    (\<forall>d \<in> set (sent cs). data_packet_of USER_ACTION_DATA d) \<and> gyro_tick s' = gyro_tick s"
proof -
  obtain t where "(t = s \<and> cs = []) \<or> (\<exists>a u. send a USER_ACTION_DATA u None s = Inr (cs, t))"
      and s': "s' = t\<lparr>direction_event := 0, button_event := 0\<rparr>"
    using assms(1) by (auto simp: report_phase_def bind_result_eq_Inr split: if_splits)
  then consider "t = s" "cs = []" | a u where "send a USER_ACTION_DATA u None s = Inr (cs, t)" by blast
  then show ?thesis
  proof cases
    case 2
    then show ?thesis
      using send_frame [OF 2] send_sends [OF 2 assms(2)] by (simp add: s' data_packet_of_def)
  qed (simp add: s')
qed

lemma receive_command_sends:
  assumes "receive_command payload n = Inr (cs, n')"
  shows "sent cs = [] \<and> DEST_IP n' = DEST_IP n"
  using assms by (auto simp: receive_command_def set_mode_def bind_result_eq_Inr Let_def split: if_splits)

lemma receive_poll_sends:
  assumes "receive_poll a payload addr n = Inr (cs, n')" "udp_inv n"
  shows "(\<forall>d \<in> set (sent cs). length d = 20 \<and> take 8 d = ID) \<and> DEST_IP n' \<noteq> None"
proof -
  have "length (reply_bytes r) = 20 \<and> take 8 (reply_bytes r) = ID" if "hdr_id (reply_header r) = ID" for r
    using that by (simp add: reply_bytes_def header_bytes_def)
  then show ?thesis
    using assms by (auto simp: receive_poll_def send_poll_reply_packet_def set_mode_def
        bind_result_eq_Inr Let_def udp_inv_def split: if_splits)
qed

lemma udp_recieve_sends:
  assumes "udp_recieve a payload addr n = Inr (cs, n')" "udp_inv n"
  shows "(sent cs = [] \<or> DEST_IP n' \<noteq> None) \<and> (\<forall>d \<in> set (sent cs). length d = 20 \<and> take 8 d = ID)"
proof -
  consider "cs = [Net Pbuf_free]" | "receive_command payload n = Inr (cs, n')" | "receive_poll a payload addr n = Inr (cs, n')"
    using assms(1) unfolding udp_recieve_def by (auto simp: bind_result_eq_Inr split: if_splits)
  then show ?thesis
    by cases (use receive_command_sends receive_poll_sends [OF _ assms(2)] in auto)
qed

lemma sent_filter: "sent cs = [] \<longleftrightarrow> (\<forall>d. Net (Udp_send d) \<notin> set cs)"
  by (induction cs) (auto split: esp_call.splits net_call.splits)

lemma run_checked_calls: "run_checked ok cs = Inr ds \<Longrightarrow> ds = map snd cs"
  by (induction cs arbitrary: ds) (auto simp: bind_result_eq_Inr split: if_splits)

lemma handle_events_wifi: "c \<in> set (handle_events evs) \<Longrightarrow> \<exists>w. c = Wifi w"
proof -
  have "c \<in> set (connection_event_handler e) \<Longrightarrow> \<exists>w. c = Wifi w" for e
    by (cases e) (auto simp: RECON_def)
  then show "c \<in> set (handle_events evs) \<Longrightarrow> \<exists>w. c = Wifi w"
    by (auto simp: handle_events_def)
qed

lemma app_main_init_sends:
  assumes "app_main_init xfer b = Inr (Some (cs, s))"
  shows "sent cs = []" "gyro_tick s = 0" "DEST_IP (udp s) = None"
proof -
  obtain nvs ws h where nvs: "run_checked (boot_ok b) [(True, Nvs_flash_init)] = Inr nvs"
      and ws: "init_connection_controller (boot_ok b) (boot_events b) = Inr (Some ws)"
      and cs: "cs = init_led_controller @ nvs @ ws @ init_ps2_controller @ init_button_controllers @
        fst (init_timer_controller (boot_clk b)) @ fst (init_udp_controller udp_init)"
      and s: "s = (main_globals h)\<lparr>udp := snd (init_udp_controller udp_init), DEBOUNCE_TICK := 0\<rparr>"
    using assms
    by (auto simp: app_main_init_def bind_result_eq_Inr Let_def init_timer_controller_def prod.case_eq_if
        split: option.splits)
  have "sent ws = []"
    using ws handle_events_wifi
    by (fastforce simp: init_connection_controller_def bind_result_eq_Inr Let_def sent_filter wifi_setup_def
        dest!: run_checked_calls split: if_splits)
  then show "sent cs = []" "gyro_tick s = 0" "DEST_IP (udp s) = None"
    using run_checked_calls [OF nvs]
    by (simp_all add: cs s init_led_controller_def init_ps2_controller_def init_button_controllers_def
        init_timer_controller_def init_udp_controller_def Let_def main_globals_def udp_init_def)
qed

lemma step_sends:
  assumes "step xfer c l cs c'" "main_inv (snd c)" "d \<in> set (sent cs)"
  shows "take 8 d = ID \<and> (DEST_IP (udp (snd c')) \<noteq> None \<or> l = Restart) \<and>
    (length d = 20 \<and> l \<in> {Datagram, Restart} \<or>
     data_packet_of USER_ACTION_DATA d \<and> l = Reported \<or>
     (data_packet_of JOYSTICK_DATA d \<or> data_packet_of GYRO_DATA d) \<and> l = Dispatched)"
  using assms
proof (induction rule: step.induct)
  case (datagram a payload addr s cs n ph)
  then show ?case using udp_recieve_sends [OF datagram(1)] by (auto simp: main_inv_def)
next
  case (restart a payload addr s cs n b ds s' ph)
  then show ?case using udp_recieve_sends [OF restart(1)] app_main_init_sends(1) [OF restart(3)] by (simp add: main_inv_def)
next
  case (poll inp s cs s')
  then show ?case using poll_phase_frame(1) [OF poll(1)] by simp
next
  case (dispatch inp s cs skip s')
  then show ?case using mode_phase_sends [OF dispatch(1)] by (auto simp: main_inv_def data_packet_of_def)
next
  case (report inp skip s cs s')
  then show ?case using report_phase_sends [OF report(1)] by (auto simp: main_inv_def data_packet_of_def)
qed simp

subsection \<open>The gyroscope's refresh rate\<close>

definition gyro_sent :: "esp_call list \<Rightarrow> bool" where
  "gyro_sent cs \<longleftrightarrow> (\<exists>d \<in> set (sent cs). data_packet_of GYRO_DATA d)"

definition ticks :: "(label \<times> esp_call list) list \<Rightarrow> nat" where
  "ticks ls = length (filter (\<lambda>(l, _). l = Polled True) ls)"

lemma ticks_simps [simp]:
  "ticks [] = 0" "ticks ((l, cs) # ls) = (if l = Polled True then 1 else 0) + ticks ls"
  by (simp_all add: ticks_def)

lemma step_gyro_tick:
  assumes "step xfer c l cs c'" "main_inv (snd c)"
  shows "unat (gyro_tick (snd c')) \<le> unat (gyro_tick (snd c)) + (if l = Polled True then 1 else 0)"
  using assms
proof (induction rule: step.induct)
  case (restart a payload addr s cs n b ds s' ph)
  then show ?case using app_main_init_sends(2) [OF restart(3)] by simp
next
  case (poll inp s cs s')
  have "unat (w + 1 :: u8) \<le> unat w + 1" for w
    by (simp add: unat_word_ariths)
  then show ?case using poll_phase_frame(3) [OF poll(1)] by simp
next
  case (dispatch inp s cs skip s')
  then show ?case using mode_phase_sends [OF dispatch(1)] by (auto simp: main_inv_def)
next
  case (report inp skip s cs s')
  then show ?case using report_phase_sends [OF report(1)] by (auto simp: main_inv_def)
qed simp_all

lemma step_gyro_sent:
  assumes "step xfer c l cs c'" "main_inv (snd c)" "gyro_sent cs"
  shows "unat (gyro_tick (snd c)) > 30 \<and> gyro_tick (snd c') = 0"
proof -
  obtain d where d: "d \<in> set (sent cs)" "data_packet_of GYRO_DATA d"
    using assms(3) by (auto simp: gyro_sent_def)
  then have "l = Dispatched"
    using step_sends [OF assms(1,2) d(1)] by (auto simp: data_packet_of_def)
  with assms(1) obtain inp s skip s' where c: "c = (Dispatch, s)" "c' = (Report skip, s')"
      and m: "mode_phase xfer inp s = Inr (cs, skip, s')"
    by (auto elim: step_Dispatched)
  have "udp_inv (udp s)" using assms(2) by (simp add: c main_inv_def)
  from mode_phase_sends [OF m this] have "gyro_tick s > GYRO_REFRESH_RATE \<and> gyro_tick s' = 0"
    using d by blast
  then show ?thesis by (simp add: c word_less_nat_alt)
qed

lemma exec_gyro_quiet:
  assumes "exec xfer c ls c'" "main_inv (snd c)" "unat (gyro_tick (snd c)) + ticks ls \<le> 30"
  shows "\<forall>(l, cs) \<in> set ls. \<not> gyro_sent cs"
  using assms
proof (induction rule: exec.induct)
  case (step c l cs c' ls c'')
  have "\<not> gyro_sent cs"
    using step_gyro_sent [OF step(1) step(4)] step(5) by auto
  moreover have "unat (gyro_tick (snd c')) + ticks ls \<le> 30"
    using step_gyro_tick [OF step(1) step(4)] step(5) by simp
  ultimately show ?case
    using step(3) step_inv [OF step(1) step(4)] by simp
qed simp

subsection \<open>An iteration cannot fail on working hardware\<close>

definition hardware_ok :: "'d spi_xfer \<Rightarrow> loop_input \<Rightarrow> 'd main_state \<Rightarrow> bool" where
  "hardware_ok xfer inp s \<longleftrightarrow> (\<forall>t d. fst (fst (xfer t d))) \<and> refresh_alloc inp \<and> action_alloc inp \<and>
     rx_buffer (motion_bus s) \<noteq> None"

lemma read_motion_reg_ok:
  assumes "\<forall>t d. fst (fst (xfer t d))" "rx_buffer h \<noteq> None"
  shows "\<exists>v h'. read_motion_reg xfer r h = Inr (v, h') \<and> rx_buffer h' \<noteq> None"
proof -
  let ?t = "\<lparr>spi_length = 8, spi_rxlength = 8, spi_tx = None, spi_cmd = 0x80 OR r\<rparr>"
  obtain rx h' where "transmit_assert xfer ?t h = Inr (rx, h')"
    using assms(1) by (auto simp: transmit_assert_def prod.case_eq_if)
  then show ?thesis
    using assms(2) by (auto simp: read_motion_reg_def Let_def)
qed

lemma read_axis_ok:
  assumes "\<forall>t d. fst (fst (xfer t d))" "rx_buffer h \<noteq> None"
  shows "\<exists>v h'. read_axis xfer l r h = Inr (v, h') \<and> rx_buffer h' \<noteq> None"
proof -
  obtain v h1 where 1: "read_motion_reg xfer l h = Inr (v, h1)" "rx_buffer h1 \<noteq> None"
    using read_motion_reg_ok [OF assms] by blast
  obtain w h2 where "read_motion_reg xfer r h1 = Inr (w, h2)" "rx_buffer h2 \<noteq> None"
    using read_motion_reg_ok [OF assms(1) 1(2)] by blast
  with 1 show ?thesis by (simp add: read_axis_def)
qed

lemma read_motion_ok:
  assumes "\<forall>t d. fst (fst (xfer t d))" "rx_buffer h \<noteq> None"
  shows "\<exists>g h' r'. read_motion xfer h r = Inr (g, h', r') \<and> rx_buffer h' \<noteq> None"
proof -
  obtain x h1 where x: "read_axis xfer 0x28 0x29 h = Inr (x, h1)" "rx_buffer h1 \<noteq> None"
    using read_axis_ok [OF assms] by blast
  obtain y h2 where y: "read_axis xfer 0x2A 0x2B h1 = Inr (y, h2)" "rx_buffer h2 \<noteq> None"
    using read_axis_ok [OF assms(1) x(2)] by blast
  obtain z h3 where z: "read_axis xfer 0x2C 0x2D h2 = Inr (z, h3)" "rx_buffer h3 \<noteq> None"
    using read_axis_ok [OF assms(1) y(2)] by blast
  show ?thesis
    using x(1) y(1) z by (simp add: read_motion_def prod.case_eq_if)
qed

lemma send_ok:
  assumes "t = USER_ACTION_DATA \<or> t = GYRO_DATA \<and> length xs \<ge> 1 \<or> t = JOYSTICK_DATA \<and> length xs \<ge> 2"
  shows "\<exists>cs s'. send True t u (if t = USER_ACTION_DATA then None else Some xs) s = Inr (cs, s') \<and> motion_bus s' = motion_bus s"
proof -
  have "\<exists>d'. fill_data t u (map_option (map word_of_int) (if t = USER_ACTION_DATA then None else Some xs)) d = Inr d'" for d
    using assms by (auto simp: fill_data_def read_int_def)
  then obtain d' where d': "fill_data t u (map_option (map word_of_int) (if t = USER_ACTION_DATA then None else Some xs))
      ((DATA_PACKET (udp s))\<lparr>data_header := (data_header (DATA_PACKET (udp s)))\<lparr>hdr_mode := get_mode (modes (udp s))\<rparr>,
        data_type := t\<rparr>) = Inr d'" by blast
  show ?thesis
  proof (cases "DEST_IP (udp s)")
    case None
    then show ?thesis by (simp add: send_def send_data_packet_def)
  next
    case (Some ip)
    then show ?thesis by (simp only: send_def send_data_packet_def Let_def option.case d') simp
  qed
qed

lemma send_gyro_ok:
  assumes "hardware_ok xfer inp s"
  shows "\<exists>cs s'. send_gyro xfer inp s = Inr (cs, s') \<and> rx_buffer (motion_bus s') \<noteq> None"
proof (cases "gyro_tick s > GYRO_REFRESH_RATE")
  case True
  obtain g h r where m: "read_motion xfer (motion_bus s) (motion_rings s) = Inr (g, h, r)" "rx_buffer h \<noteq> None"
    using assms read_motion_ok unfolding hardware_ok_def by blast
  obtain cs t where "send True GYRO_DATA 0 (Some [g]) (s\<lparr>gyro_data := g, motion_bus := h, motion_rings := r\<rparr>) = Inr (cs, t)"
      "motion_bus t = h"
    using send_ok [of GYRO_DATA "[g]" 0 "s\<lparr>gyro_data := g, motion_bus := h, motion_rings := r\<rparr>"] by auto
  then show ?thesis
    using True m assms by (simp add: send_gyro_def hardware_ok_def)
qed (use assms in \<open>simp add: send_gyro_def hardware_ok_def\<close>)

lemma send_stick_ok:
  assumes "hardware_ok xfer inp s"
  shows "\<exists>cs s'. send_stick inp s = Inr (cs, s') \<and> rx_buffer (motion_bus s') \<noteq> None"
proof (cases "xy_tick s > XY_REFRESH_RATE")
  case True
  define xy where "xy = read_xy (xy_sample inp)"
  have "length xy \<ge> 2" by (simp add: xy_def read_xy_def prod.case_eq_if)
  then obtain cs t where "send True JOYSTICK_DATA 0 (Some xy) (s\<lparr>joystick_data := xy\<rparr>) = Inr (cs, t)"
      "motion_bus t = motion_bus s"
    using send_ok [of JOYSTICK_DATA xy 0 "s\<lparr>joystick_data := xy\<rparr>"] by auto
  then show ?thesis
    using True assms by (simp add: send_stick_def hardware_ok_def xy_def Let_def)
qed (use assms in \<open>simp add: send_stick_def hardware_ok_def\<close>)

lemma poll_phase_ok:
  assumes "hardware_ok xfer inp s"
  shows "\<exists>cs s'. poll_phase xfer inp s = Inr (cs, s') \<and> hardware_ok xfer inp s'"
proof -
  have bus: "motion_bus (poll_direction inp s) = motion_bus s"
    by (simp add: poll_direction_def prod.case_eq_if)
  have "\<exists>t. poll_button xfer inp u = Inr t \<and> hardware_ok xfer inp t" if u: "motion_bus u = motion_bus s" for u
  proof -
    obtain v h where "read_motion_reg xfer 0x0F (motion_bus s) = Inr (v, h)" "rx_buffer h \<noteq> None"
      using assms read_motion_reg_ok unfolding hardware_ok_def by blast
    then show ?thesis
      using assms by (simp add: poll_button_def prod.case_eq_if Let_def u hardware_ok_def)
  qed
  from this [OF bus] show ?thesis
    using assms by (auto simp: poll_phase_def Let_def prod.case_eq_if hardware_ok_def)
qed

lemma mode_phase_ok:
  assumes "hardware_ok xfer inp s"
  shows "\<exists>cs skip s'. mode_phase xfer inp s = Inr (cs, skip, s') \<and> rx_buffer (motion_bus s') \<noteq> None"
proof -
  let ?off = "s\<lparr>continuous_read_enable := 0\<rparr>"
  have bus: "motion_bus (snd (feedback pin t)) = motion_bus t" "motion_bus (snd (idle_mode t)) = motion_bus t"
      "motion_bus (snd (party_lights t)) = motion_bus t" for pin t
    by (simp_all add: feedback_def set_feedback_def idle_mode_def party_lights_def Let_def prod.case_eq_if)
  obtain skip t where idle: "idle_mode ?off = (skip, t)" by fastforce
  have hw: "hardware_ok xfer inp ?off" "hardware_ok xfer inp (snd (party_lights ?off))"
    using assms by (simp_all add: hardware_ok_def bus)
  show ?thesis
    using send_gyro_ok [OF hw(1)] send_gyro_ok [OF hw(2)] send_stick_ok [OF hw(1)] assms idle bus(2) [of ?off]
    by (auto simp: mode_phase_def Let_def prod.case_eq_if bus hardware_ok_def seq_def)
qed

lemma report_phase_ok:
  assumes "action_alloc inp"
  shows "\<exists>cs s'. report_phase inp skip s = Inr (cs, s') \<and> motion_bus s' = motion_bus s"
proof -
  obtain cs t where "send True USER_ACTION_DATA (if direction_event s \<noteq> 0 then direction_event s else button_event s) None s = Inr (cs, t)"
      "motion_bus t = motion_bus s"
    using send_ok [of USER_ACTION_DATA "[]" "if direction_event s \<noteq> 0 then direction_event s else button_event s" s] by auto
  then show ?thesis using assms by (simp add: report_phase_def)
qed

lemma send_gyro_delivers:
  assumes "send_gyro xfer inp s = Inr (cs, s')" "gyro_tick s > GYRO_REFRESH_RATE" "DEST_IP (udp s) = Some ip" "udp_inv (udp s)"
  shows "gyro_sent cs"
proof -
  have "sent cs \<noteq> []"
    using assms(1-3) by (auto simp: send_gyro_def send_def send_data_packet_def bind_result_eq_Inr Let_def split: if_splits)
  then obtain d where "d \<in> set (sent cs)" by (meson last_in_set)
  then show ?thesis
    using send_gyro_frame(4) [OF assms(1,4)] by (auto simp: gyro_sent_def data_packet_of_def)
qed

subsection \<open>Reported user actions\<close>

definition user_actions :: "esp_call list \<Rightarrow> u8 list" where
  "user_actions cs = map (\<lambda>d. d ! 11) (filter (data_packet_of USER_ACTION_DATA) (sent cs))"

lemma user_actions_append [simp]: "user_actions (cs @ ds) = user_actions cs @ user_actions ds"
  by (simp add: user_actions_def)

lemma user_actions_none:
  "\<forall>d \<in> set (sent cs). data_packet_of JOYSTICK_DATA d \<or> data_packet_of GYRO_DATA d \<Longrightarrow> user_actions cs = []"
  by (auto simp: user_actions_def filter_empty_conv data_packet_of_def)

lemma send_user_action:
  assumes "DEST_IP (udp s) = Some ip" "udp_inv (udp s)"
  shows "\<exists>cs n. send True USER_ACTION_DATA u None s = Inr (cs, s\<lparr>udp := n\<rparr>) \<and> modes n = modes (udp s) \<and> user_actions cs = [u]"
proof -
  define d where "d = (DATA_PACKET (udp s))\<lparr>data_header := (data_header (DATA_PACKET (udp s)))\<lparr>hdr_mode := get_mode (modes (udp s))\<rparr>,
    data_type := USER_ACTION_DATA, user_action := u\<rparr>"
  have hdr: "hdr_id (data_header d) = ID" "data_type d = USER_ACTION_DATA" "user_action d = u"
    using assms(2) by (simp_all add: d_def udp_inv_def)
  then have "data_packet_of USER_ACTION_DATA (data_bytes d) \<and> data_bytes d ! 11 = u"
    by (simp add: data_packet_of_def data_bytes_def header_bytes_def nth_append)
  moreover have "send True USER_ACTION_DATA u None s =
      Inr ([Net (Pbuf_alloc 24), Net (Udp_connect ip (PORT (udp s))), Net (Udp_send (data_bytes d)), Net Udp_disconnect],
           s\<lparr>udp := (udp s)\<lparr>DATA_PACKET := d\<rparr>\<rparr>)"
    using assms(1) by (simp add: send_def send_data_packet_def fill_data_def Let_def d_def)
  ultimately show ?thesis
    by (simp add: user_actions_def) (rule exI [of _ "(udp s)\<lparr>DATA_PACKET := d\<rparr>"], simp)
qed

text \<open>What the switch over the mode leaves of the events: only the recogniser changes them.\<close>

definition code_result :: "'d main_state \<Rightarrow> u8" where
  "code_result s = (if MODE (modes (udp s)) = IDLE_MODE
     then fst (check_konami (konami_statics s) (direction_event s) (button_event s)) else 0)"

lemma send_events:
  "send a t u other s = Inr (cs, s') \<Longrightarrow> direction_event s' = direction_event s \<and> button_event s' = button_event s"
  by (auto simp: send_def bind_result_eq_Inr)

lemma send_stick_events:
  "send_stick inp s = Inr (cs, s') \<Longrightarrow> direction_event s' = direction_event s \<and> button_event s' = button_event s"
  by (auto simp: send_stick_def bind_result_eq_Inr Let_def dest!: send_events split: if_splits)

lemma send_gyro_events:
  "send_gyro xfer inp s = Inr (cs, s') \<Longrightarrow> direction_event s' = direction_event s \<and> button_event s' = button_event s"
  by (auto simp: send_gyro_def bind_result_eq_Inr dest!: send_events split: if_splits)

lemma mode_phase_events:
  assumes "mode_phase xfer inp s = Inr (cs, skip, s')"
  shows "button_event s' = button_event s" "skip \<longleftrightarrow> code_result s = KONAMI_SEMICOMPLETE"
    "direction_event s' =
       (if code_result s = KONAMI_COMPLETE \<or> code_result s = REV_KONAMI_COMPLETE then code_result s else direction_event s)"
proof -
  have ev: "direction_event (snd (feedback pin t)) = direction_event t" "button_event (snd (feedback pin t)) = button_event t"
      "direction_event (snd (party_lights t)) = direction_event t" "button_event (snd (party_lights t)) = button_event t" for pin t
    by (simp_all add: feedback_def set_feedback_def party_lights_def Let_def prod.case_eq_if)
  have "button_event s' = button_event s \<and> (skip \<longleftrightarrow> code_result s = KONAMI_SEMICOMPLETE) \<and> direction_event s' =
      (if code_result s = KONAMI_COMPLETE \<or> code_result s = REV_KONAMI_COMPLETE then code_result s else direction_event s)"
  proof (cases "MODE (modes (udp s)) = IDLE_MODE")
    case True
    then show ?thesis
      using assms by (auto simp: mode_phase_def idle_mode_def code_result_def Let_def prod.case_eq_if split: if_splits)
  next
    case False
    then show ?thesis
      using assms
      by (auto simp: mode_phase_def code_result_def Let_def prod.case_eq_if seq_def bind_result_eq_Inr ev
          dest!: send_stick_events send_gyro_events split: if_splits)
  qed
  then show "button_event s' = button_event s" "skip \<longleftrightarrow> code_result s = KONAMI_SEMICOMPLETE"
    "direction_event s' =
       (if code_result s = KONAMI_COMPLETE \<or> code_result s = REV_KONAMI_COMPLETE then code_result s else direction_event s)"
    by simp_all
qed

subsection \<open>A concrete controller\<close>

text \<open>
  A sensor that answers every transfer, a start-up in which everything succeeds, and the
  controller it leaves, connected to a base station that asks for scary mode.
\<close>

definition answering_sensor :: "unit spi_xfer" where
  "answering_sensor t d = ((True, Some 0), d)"

definition example_boot :: "unit boot_input" where
  "example_boot = \<lparr>boot_clk = 80000000, boot_ok = (\<lambda>_. True),
     boot_events = [SYSTEM_EVENT_STA_START, SYSTEM_EVENT_STA_GOT_IP], boot_motion = (True, True, True, True), boot_bus = ()\<rparr>"

definition booted :: "unit main_state" where
  "booted = (main_globals \<lparr>tx_buffer = Some 0x10, rx_buffer = Some 0, bus = ()\<rparr>)
     \<lparr>udp := snd (init_udp_controller udp_init), DEBOUNCE_TICK := 0\<rparr>"

definition example_input :: loop_input where
  "example_input = \<lparr>stick_sample = (1920, 1750),
     levels = \<lparr>b1_with_b2 = 1, b2_with_b1 = 1, b1_level = 1, b2_level = 1, ps2_level = 1\<rparr>,
     xy_sample = (1920, 1750), refresh_alloc = True, action_alloc = True\<rparr>"

lemma boots: "\<exists>cs. app_main_init answering_sensor example_boot = Inr (Some (cs, booted))"
proof -
  have "init_motion_controllers answering_sensor True True True True () =
      Inr \<lparr>tx_buffer = Some 0x10, rx_buffer = Some 0, bus = ()\<rparr>"
    by (simp add: init_motion_controllers_def write_motion_reg_def transmit_assert_def answering_sensor_def)
  moreover have "init_connection_controller (\<lambda>_. True) [SYSTEM_EVENT_STA_START, SYSTEM_EVENT_STA_GOT_IP] =
      Inr (Some (map snd wifi_setup @ handle_events [SYSTEM_EVENT_STA_START, SYSTEM_EVENT_STA_GOT_IP]))"
    by (simp add: init_connection_controller_def wifi_setup_run connected_bit_setup online_def map_filter_simps)
  ultimately show ?thesis
    by (simp add: app_main_init_def example_boot_def booted_def init_timer_controller_def prod.case_eq_if)
qed

lemma booted_reachable: "reachable answering_sensor (Poll, booted)"
  using boots by (auto intro: reachable.boot)

lemma heartbeat_step:
  "step xfer (ph, s) Datagram (heartbeat_calls m addr (udp s)) (ph, s\<lparr>udp := heartbeat_state m addr (udp s)\<rparr>)"
proof -
  have "Esp_restart \<notin> set (set_leds m)" using set_leds_quiet [of m] by (auto simp: list_all_iff quiet_call_def)
  then show ?thesis
    by (intro step.datagram [OF udp_recieve_heartbeat]) (simp add: heartbeat_calls_def)
qed

subsection \<open>Properties\<close>

text \<open>
  C1: The invariant of the controller. In every reachable state, under every interleaving
  of the loop with the timer interrupt, datagrams and restarts, the invariants of all
  components hold together: the recogniser, the debounce counters, the animation and the
  sample rings are in range, the outgoing packets carry their preamble and type, and the
  event and flag bytes hold one of their named values.
\<close>

theorem controller_invariant:
  assumes "reachable xfer (ph, s)"
  shows "main_inv s"
  using reachable_inv [OF assms] by simp

theorem controller_invariant_witness:
  "main_inv (booted\<lparr>udp := heartbeat_state PARTY_MODE 0x0A000001 (udp booted)\<rparr>)"
  by (rule controller_invariant [OF reachable.step [OF booted_reachable heartbeat_step]])

text \<open>
  C20: Every datagram the controller sends is well formed and has a receiver. Whatever a
  step of a reachable controller hands to the network starts with the preamble; it is a 20
  byte poll reply sent while a datagram is handled, a user action sent by the report phase,
  or a stick or gyroscope packet sent by the switch over the mode; and (a restart apart)
  a base station has polled.
\<close>

theorem every_datagram_well_formed:
  assumes "reachable xfer c" "step xfer c l cs c'" "d \<in> set (sent cs)"
  shows "take 8 d = ID \<and> (DEST_IP (udp (snd c')) \<noteq> None \<or> l = Restart) \<and>
    (length d = 20 \<and> l \<in> {Datagram, Restart} \<or>
     data_packet_of USER_ACTION_DATA d \<and> l = Reported \<or>
     (data_packet_of JOYSTICK_DATA d \<or> data_packet_of GYRO_DATA d) \<and> l = Dispatched)"
  by (rule step_sends [OF assms(2) reachable_inv [OF assms(1)] assms(3)])

theorem every_datagram_well_formed_witness:
  "\<exists>d. d \<in> set (sent (heartbeat_calls DMX_MODE 0x0A000001 (udp booted))) \<and> take 8 d = ID \<and> length d = 20"
proof -
  have "\<exists>d. d \<in> set (sent (heartbeat_calls DMX_MODE 0x0A000001 (udp booted)))"
    by (simp add: heartbeat_calls_def)
  then show ?thesis
    using every_datagram_well_formed [OF booted_reachable heartbeat_step] by blast
qed

text \<open>
  C22: The gyroscope is rate limited. From any state that satisfies the invariant of the
  controller: after a step that sent a gyroscope packet, no further one is sent before 31
  debounce ticks have been polled, whatever happens in between: mode changes in and out of
  party and scary mode, datagrams, restarts.
\<close>

theorem gyro_rate_limited:
  assumes "main_inv (snd c)" "exec xfer c ((l, cs) # ls) c'" "gyro_sent cs" "ticks ls \<le> 30"
  shows "\<forall>(l', ds) \<in> set ls. \<not> gyro_sent ds"
proof -
  obtain c1 where c1: "step xfer c l cs c1" "exec xfer c1 ls c'" using assms(2) by auto
  have "gyro_tick (snd c1) = 0" using step_gyro_sent [OF c1(1) assms(1,3)] by simp
  then show ?thesis
    using exec_gyro_quiet [OF c1(2) step_inv [OF c1(1) assms(1)]] assms(4) by simp
qed

theorem gyro_rate_limited_witness:
  "\<exists>s cs s'. exec answering_sensor (Dispatch, s)
     [(Dispatched, cs), (Datagram, heartbeat_calls PARTY_MODE 0x0A000001 (udp s'))]
     (Report False, s'\<lparr>udp := heartbeat_state PARTY_MODE 0x0A000001 (udp s')\<rparr>) \<and>
     gyro_sent cs \<and> \<not> gyro_sent (heartbeat_calls PARTY_MODE 0x0A000001 (udp s'))"
proof -
  define s where "s = booted\<lparr>gyro_tick := 31, udp := heartbeat_state SCARY_MODE 0x0A000001 (udp booted)\<rparr>"
  have mode: "MODE (modes (udp s)) = SCARY_MODE" "DEST_IP (udp s) = Some 0x0A000001" "gyro_tick s > GYRO_REFRESH_RATE"
    by (simp_all add: s_def heartbeat_state_def)
  have inv: "main_inv s"
    using reachable_inv [OF reachable.step [OF booted_reachable heartbeat_step [of _ _ _ SCARY_MODE "0x0A000001"]]]
    by (simp add: s_def main_inv_def)
  have "hardware_ok answering_sensor example_input (s\<lparr>continuous_read_enable := 0\<rparr>)"
    by (simp add: hardware_ok_def answering_sensor_def example_input_def s_def booted_def main_globals_def)
  then obtain cs s' where g: "send_gyro answering_sensor example_input (s\<lparr>continuous_read_enable := 0\<rparr>) = Inr (cs, s')"
    using send_gyro_ok by blast
  have sent: "gyro_sent cs"
    using send_gyro_delivers [OF g] mode inv by (simp add: main_inv_def)
  have "mode_phase answering_sensor example_input s = Inr (cs, False, s')"
    using g mode by (simp add: mode_phase_def Let_def)
  then have run: "exec answering_sensor (Dispatch, s)
     [(Dispatched, cs), (Datagram, heartbeat_calls PARTY_MODE 0x0A000001 (udp s'))]
     (Report False, s'\<lparr>udp := heartbeat_state PARTY_MODE 0x0A000001 (udp s')\<rparr>)"
    using heartbeat_step step.dispatch by (blast intro: exec.intros)
  have "\<not> gyro_sent (heartbeat_calls PARTY_MODE 0x0A000001 (udp s'))"
    using gyro_rate_limited [OF _ run sent] inv by simp
  with run sent show ?thesis by blast
qed

text \<open>
  C33: The loop cannot get stuck on working hardware. When the sensor answers, the receive
  buffer exists and packet buffers can be allocated, an iteration of the main loop, in any
  mode and with any stick, button and converter readings, runs to its end without a failed
  assertion and without an access through a null pointer or outside an array, and leaves
  no event pending.
\<close>

theorem loop_iteration_total:
  assumes "hardware_ok xfer inp s"
  shows "\<exists>cs s'. loop_iteration xfer inp s = Inr (cs, s') \<and> hardware_ok xfer inp s' \<and>
    direction_event s' = 0 \<and> button_event s' = 0"
proof -
  obtain cs1 s1 where 1: "poll_phase xfer inp s = Inr (cs1, s1)" "hardware_ok xfer inp s1"
    using poll_phase_ok [OF assms] by blast
  obtain cs2 skip s2 where 2: "mode_phase xfer inp s1 = Inr (cs2, skip, s2)" "rx_buffer (motion_bus s2) \<noteq> None"
    using mode_phase_ok [OF 1(2)] by blast
  obtain cs3 s3 where 3: "report_phase inp skip s2 = Inr (cs3, s3)" "motion_bus s3 = motion_bus s2"
    using report_phase_ok assms unfolding hardware_ok_def by blast
  have "direction_event s3 = 0 \<and> button_event s3 = 0"
    using 3(1) by (auto simp: report_phase_def bind_result_eq_Inr)
  then show ?thesis
    using 1(1) 2 3 assms by (simp add: loop_iteration_def hardware_ok_def)
qed

theorem loop_iteration_total_witness:
  "\<exists>cs s'. loop_iteration answering_sensor example_input booted = Inr (cs, s') \<and> direction_event s' = 0"
  using loop_iteration_total [of answering_sensor example_input booted]
  by (auto simp: hardware_ok_def answering_sensor_def example_input_def booted_def main_globals_def)

text \<open>
  C6: What the user does is reported, once, and completed codes replace the key that
  completed them. Once the inputs have been read, a connected controller reports in any mode
  the direction event if there is one and otherwise the button event, in exactly one user
  action; in idle mode a completed code is reported instead of its last key, and the key
  before it (which the recogniser holds back) is not reported at all.
\<close>

theorem user_action_reported:
  assumes "main_inv s" "hardware_ok xfer inp s" "DEST_IP (udp s) = Some ip"
  shows "\<exists>cs s'. seq (mode_phase xfer inp s) (\<lambda>(skip, s). report_phase inp skip s) = Inr (cs, s') \<and>
    direction_event s' = 0 \<and> button_event s' = 0 \<and>
    user_actions cs =
      (if code_result s = KONAMI_SEMICOMPLETE then []
       else if code_result s \<in> {KONAMI_COMPLETE, REV_KONAMI_COMPLETE} then [code_result s]
       else if direction_event s \<noteq> 0 then [direction_event s]
       else if button_event s \<noteq> 0 then [button_event s] else [])"
proof -
  have inv: "udp_inv (udp s)" using assms(1) by (simp add: main_inv_def)
  obtain cs skip t where m: "mode_phase xfer inp s = Inr (cs, skip, t)"
    using mode_phase_ok [OF assms(2)] by blast
  have t: "DEST_IP (udp t) = Some ip" "udp_inv (udp t)" "user_actions cs = []"
    using mode_phase_sends [OF m inv] mode_phase_inv [OF assms(1) m] assms(3)
    by (simp_all add: main_inv_def user_actions_none)
  obtain ds n where "send True USER_ACTION_DATA (if direction_event t \<noteq> 0 then direction_event t else button_event t) None t =
      Inr (ds, t\<lparr>udp := n\<rparr>)" "user_actions ds = [if direction_event t \<noteq> 0 then direction_event t else button_event t]"
    using send_user_action [OF t(1,2)] by blast
  moreover have "action_alloc inp" using assms(2) by (simp add: hardware_ok_def)
  ultimately have "\<exists>ds s'. report_phase inp skip t = Inr (ds, s') \<and> direction_event s' = 0 \<and> button_event s' = 0 \<and>
      user_actions ds = (if skip then [] else if direction_event t \<noteq> 0 then [direction_event t]
        else if button_event t \<noteq> 0 then [button_event t] else [])"
    by (auto simp: report_phase_def user_actions_def)
  then show ?thesis
    using m mode_phase_events [OF m] t(3) by auto
qed

theorem user_action_reported_witness:
  "\<exists>cs s'. seq (mode_phase answering_sensor example_input
       (booted\<lparr>udp := heartbeat_state DMX_MODE 0x0A000001 (udp booted), direction_event := UP\<rparr>))
     (\<lambda>(skip, s). report_phase example_input skip s) = Inr (cs, s') \<and> user_actions cs = [UP]"
proof -
  let ?s = "booted\<lparr>udp := heartbeat_state DMX_MODE 0x0A000001 (udp booted), direction_event := UP\<rparr>"
  have "main_inv ?s"
    using reachable_inv [OF reachable.step [OF booted_reachable heartbeat_step [of _ _ _ DMX_MODE "0x0A000001"]]]
    by (simp add: main_inv_def direction_ok_def)
  moreover have "hardware_ok answering_sensor example_input ?s"
    by (simp add: hardware_ok_def answering_sensor_def example_input_def booted_def main_globals_def)
  moreover have "DEST_IP (udp ?s) = Some 0x0A000001" "code_result ?s = 0"
    by (simp_all add: heartbeat_state_def code_result_def)
  ultimately show ?thesis
    using user_action_reported [of ?s answering_sensor example_input "0x0A000001"] by auto
qed

text \<open>A refresh of the party lights, due when more than ten ticks have passed.\<close>

definition party_refresh :: "'d main_state \<Rightarrow> unit \<Rightarrow> esp_call list \<times> 'd main_state" where
  "party_refresh s _ = party_lights (s\<lparr>party_tick := 11\<rparr>)"

definition colours :: "(nat \<Rightarrow> u8) \<Rightarrow> esp_call list list \<Rightarrow> (u8 \<times> u8 \<times> u8) list" where
  "colours p css = map (\<lambda>cs. rgb (pin_levels p cs)) css"

lemma party_cycle:
  assumes "party_sub_mode s = 1"
  shows "colours p (run_out party_refresh s [(), (), (), ()]) =
      [(HIGH, LOW, LOW), (LOW, HIGH, LOW), (LOW, LOW, HIGH), (LOW, LOW, LOW)]"
    "party_sub_mode (run_state party_refresh s [(), (), (), ()]) = 1"
  using assms
  by (simp_all add: party_refresh_def party_lights_def set_red_def set_green_def set_blue_def rgb_def colours_def)

text \<open>
  The party lights cycle. Entering party mode the first refresh writes no pin and the
  next three show green, blue and dark; from then on every four refreshes show red, green,
  blue and dark, for ever.
\<close>

theorem party_lights_cycle:
  assumes "party_sub_mode s = 0"
  defines "four \<equiv> replicate 4 ()"
  shows "colours p (run_out party_refresh s four) = [rgb p, (LOW, HIGH, LOW), (LOW, LOW, HIGH), (LOW, LOW, LOW)] \<and>
    colours p (run_out party_refresh (run_state party_refresh s four) (concat (replicate n four))) =
      concat (replicate n [(HIGH, LOW, LOW), (LOW, HIGH, LOW), (LOW, LOW, HIGH), (LOW, LOW, LOW)])"
proof -
  have four: "four = [(), (), (), ()]" by (simp add: four_def numeral_eq_Suc)
  have "colours p (run_out party_refresh t (concat (replicate n four))) =
      concat (replicate n [(HIGH, LOW, LOW), (LOW, HIGH, LOW), (LOW, LOW, HIGH), (LOW, LOW, LOW)])"
    if "party_sub_mode t = 1" for t
    using that
  proof (induction n arbitrary: t)
    case (Suc n)
    show ?case
      using party_cycle [OF Suc.prems] Suc.IH [OF party_cycle(2) [OF Suc.prems]]
      by (simp only: four colours_def replicate_Suc concat.simps run_out_append map_append)
  qed (simp add: colours_def)
  moreover have "party_sub_mode (run_state party_refresh s four) = 1"
    and "colours p (run_out party_refresh s four) = [rgb p, (LOW, HIGH, LOW), (LOW, LOW, HIGH), (LOW, LOW, LOW)]"
    using assms(1)
    by (simp_all add: four colours_def party_refresh_def party_lights_def set_red_def set_green_def set_blue_def rgb_def)
  ultimately show ?thesis by blast
qed

theorem party_lights_cycle_witness:
  "colours (\<lambda>_. 0) (run_out party_refresh booted (replicate 4 ())) =
     [(LOW, LOW, LOW), (LOW, HIGH, LOW), (LOW, LOW, HIGH), (LOW, LOW, LOW)]"
proof -
  have "party_sub_mode booted = 0" by (simp add: booted_def main_globals_def)
  from party_lights_cycle [OF this, of "\<lambda>_. 0" 0] show ?thesis by (simp add: rgb_def)
qed

end
