(* ===== verification/Hex_Text.thy ===== *)
theory Hex_Text
  imports Chuck_Prelude
begin

text \<open>
  The text formats that carry register values between the user programs and the kernel
  driver: \<open>sprintf\<close> with \<open>%08x\<close> and \<open>%i\<close>, \<open>strtoul\<close> with base 16, and the kernel's
  \<open>sscanf\<close> with \<open>%x\<close> and \<open>%d\<close>. A C string is a list of characters without the final
  NUL. The interface \<open>register_text\<close> is what both sides rely on: a value that has been
  printed is read back, whatever follows it.
\<close>

subsection \<open>Digits\<close>

definition hex_digit :: "nat \<Rightarrow> char" where
  "hex_digit n = ''0123456789abcdef'' ! n"

fun hex_val :: "char \<Rightarrow> nat option" where
  "hex_val c = (let n = of_char c :: nat in
     if 48 \<le> n \<and> n \<le> 57 then Some (n - 48)
     else if 97 \<le> n \<and> n \<le> 102 then Some (n - 87)
     else if 65 \<le> n \<and> n \<le> 70 then Some (n - 55)
     else None)"

declare hex_val.simps [simp del]

definition is_space :: "char \<Rightarrow> bool" where
  "is_space c \<longleftrightarrow> (of_char c :: nat) \<in> {9, 10, 11, 12, 13, 32}"

lemma less_16_cases:
  assumes "n < (16 :: nat)"
  shows "n \<in> {0, 1, 2, 3, 4, 5, 6, 7, 8, 9, 10, 11, 12, 13, 14, 15}"
  using assms unfolding insert_iff empty_iff by arith

lemma hex_val_digit: "n < 16 \<Longrightarrow> hex_val (hex_digit n) = Some n"
  using less_16_cases [of n] by (auto simp: hex_digit_def hex_val.simps)

lemma hex_digit_not_space: "n < 16 \<Longrightarrow> \<not> is_space (hex_digit n)"
  using less_16_cases [of n] by (auto simp: hex_digit_def is_space_def)

lemma hex_digit_not_x: "n < 16 \<Longrightarrow> hex_digit n \<noteq> CHR ''x'' \<and> hex_digit n \<noteq> CHR ''X'' \<and> hex_digit n \<noteq> CHR ''-'' \<and> hex_digit n \<noteq> CHR ''+'' \<and> hex_digit n \<noteq> CHR 0x00"
  using less_16_cases [of n] by (auto simp: hex_digit_def)

subsection \<open>Printing\<close>

definition nibble :: "u32 \<Rightarrow> nat \<Rightarrow> nat" where
  "nibble w i = unat (drop_bit (4 * i) w AND 0xF)"

definition sprintf_08x :: "u32 \<Rightarrow> string" where
  "sprintf_08x w = map (\<lambda>i. hex_digit (nibble w i)) [7, 6, 5, 4, 3, 2, 1, 0]"

lemma length_sprintf_08x [simp]: "length (sprintf_08x w) = 8"
  by (simp add: sprintf_08x_def)

lemma nibble_less: "nibble w i < 16"
proof -
  have "drop_bit (4 * i) w AND 0xF = take_bit 4 (drop_bit (4 * i) w)"
    by (simp add: take_bit_eq_mask mask_eq_exp_minus_1)
  then show ?thesis
    by (simp add: nibble_def unsigned_take_bit_eq take_bit_nat_less_exp [of 4, simplified])
qed

subsection \<open>Reading\<close>

fun hex_fold :: "u32 \<Rightarrow> string \<Rightarrow> u32" where
  "hex_fold acc [] = acc"
| "hex_fold acc (c # cs) = (case hex_val c of None \<Rightarrow> acc | Some v \<Rightarrow> hex_fold (acc * 16 + of_nat v) cs)"

text \<open>The prefix \<open>0x\<close> is skipped when a digit follows it.\<close>

fun skip_0x :: "string \<Rightarrow> string" where
  "skip_0x (a # b # c # cs) =
     (if a = CHR ''0'' \<and> (b = CHR ''x'' \<or> b = CHR ''X'') \<and> hex_val c \<noteq> None then c # cs else a # b # c # cs)"
| "skip_0x cs = cs"

text \<open>
  The kernel's \<open>sscanf\<close> with \<open>%x\<close>: \<open>None\<close> when no digit is found, and then the
  variable is not assigned. The digits are accumulated without an overflow check.
\<close>

definition sscanf_x :: "string \<Rightarrow> u32 option" where
  "sscanf_x s = (case dropWhile is_space s of
     [] \<Rightarrow> None
   | c # cs \<Rightarrow> if hex_val c = None then None else Some (hex_fold 0 (skip_0x (c # cs))))"

text \<open>
  \<open>strtoul\<close> with base 16: a sign negates, a value that does not fit gives the largest one.
\<close>

fun hex_nat :: "nat \<Rightarrow> string \<Rightarrow> nat" where
  "hex_nat acc [] = acc"
| "hex_nat acc (c # cs) = (case hex_val c of None \<Rightarrow> acc | Some v \<Rightarrow> hex_nat (acc * 16 + v) cs)"

definition saturate :: "nat \<Rightarrow> u32" where
  "saturate n = (if n < 2 ^ 32 then of_nat n else 0xFFFFFFFF)"

definition strtoul_16 :: "string \<Rightarrow> u32" where
  "strtoul_16 s = (case dropWhile is_space s of
     [] \<Rightarrow> 0
   | c # cs \<Rightarrow> if c = CHR ''-'' then (let n = hex_nat 0 (skip_0x cs) in if n < 2 ^ 32 then - of_nat n else 0xFFFFFFFF)
               else if c = CHR ''+'' then saturate (hex_nat 0 (skip_0x cs))
               else saturate (hex_nat 0 (skip_0x (c # cs))))"

subsection \<open>Round trips\<close>

lemma hex_nat_fold: "of_nat (hex_nat n s) = hex_fold (of_nat n) s"
  by (induction s arbitrary: n) (auto split: option.splits)

lemma of_nat_nibble: "(of_nat (nibble w i) :: u32) = take_bit 4 (drop_bit (4 * i) w)"
  by (simp add: nibble_def take_bit_eq_mask mask_eq_exp_minus_1)

lemma next_nibble: "drop_bit (4 * Suc i) w * 16 + of_nat (nibble w i) = drop_bit (4 * i) (w :: u32)"
proof -
  have "push_bit 4 (drop_bit 4 (drop_bit (4 * i) w)) + take_bit 4 (drop_bit (4 * i) w) = drop_bit (4 * i) w"
    by (rule bits_ident)
  then show ?thesis
    by (simp add: of_nat_nibble push_bit_eq_mult add.commute)
qed

lemma hex_fold_append:
  assumes "\<forall>c \<in> set s. hex_val c \<noteq> None"
  shows "hex_fold acc (s @ t) = hex_fold (hex_fold acc s) t"
  using assms by (induction s arbitrary: acc) auto

lemma hex_fold_nibbles:
  "k \<le> 8 \<Longrightarrow> hex_fold (drop_bit (4 * k) w) (map (\<lambda>i. hex_digit (nibble w i)) (rev [0..<k])) = w"
proof (induction k)
  case (Suc k)
  then show ?case
    using next_nibble [of k w] by (simp add: hex_val_digit nibble_less)
qed simp

lemma rev_upt_8: "[7, 6, 5, 4, 3, 2, 1, 0] = rev [0..<8::nat]"
  by (simp add: upt_conv_Cons)

lemma hex_fold_sprintf: "hex_fold 0 (sprintf_08x w) = w"
proof -
  have "drop_bit 32 w = 0" by (rule bit_word_eqI) (simp add: bit_simps)
  then show ?thesis
    using hex_fold_nibbles [of 8 w] by (simp only: sprintf_08x_def rev_upt_8) simp
qed

lemma sprintf_08x_digits: "\<forall>c \<in> set (sprintf_08x w). hex_val c \<noteq> None \<and> \<not> is_space c \<and> c \<noteq> CHR ''x'' \<and> c \<noteq> CHR ''X'' \<and> c \<noteq> CHR ''-'' \<and> c \<noteq> CHR ''+'' \<and> c \<noteq> CHR 0x00"
  using nibble_less [of w]
  by (simp add: sprintf_08x_def hex_val_digit hex_digit_not_space hex_digit_not_x)

lemma skip_0x_sprintf [simp]: "skip_0x (sprintf_08x w @ t) = sprintf_08x w @ t"
  using sprintf_08x_digits [of w] by (simp add: sprintf_08x_def)

lemma dropWhile_sprintf [simp]: "dropWhile is_space (sprintf_08x w @ t) = sprintf_08x w @ t"
  using sprintf_08x_digits [of w] by (simp add: sprintf_08x_def)

definition text_end :: "string \<Rightarrow> bool" where
  "text_end t \<longleftrightarrow> (case t of [] \<Rightarrow> True | c # _ \<Rightarrow> hex_val c = None)"

lemma hex_fold_end: "text_end t \<Longrightarrow> hex_fold acc t = acc"
  by (cases t) (auto simp: text_end_def)

lemma hex_fold_text: "text_end t \<Longrightarrow> hex_fold 0 (sprintf_08x w @ t) = w"
  using sprintf_08x_digits [of w] by (subst hex_fold_append) (auto simp: hex_fold_sprintf hex_fold_end)

lemma hex_nat_bound:
  "n < 16 ^ k \<Longrightarrow> length s \<le> j \<Longrightarrow> \<forall>c \<in> set s. hex_val c \<noteq> None \<Longrightarrow> hex_nat n s < 16 ^ (k + j)"
proof (induction s arbitrary: n k j)
  case Nil
  have "(16 :: nat) ^ k \<le> 16 ^ (k + j)" by (rule power_increasing) simp_all
  with Nil.prems(1) have "n < 16 ^ (k + j)" by (rule less_le_trans)
  then show ?case by simp
next
  case (Cons c s)
  then obtain v where v: "hex_val c = Some v" by auto
  then have "v < 16" by (auto simp: hex_val.simps Let_def split: if_splits)
  then have "n * 16 + v < 16 ^ (Suc k)" using Cons.prems(1) by simp
  moreover obtain i where "j = Suc i" using Cons.prems(2) by (cases j) auto
  ultimately show ?case using Cons.IH [of "n * 16 + v" "Suc k" i] Cons.prems v by simp
qed

lemma hex_nat_append_end:
  "\<forall>c \<in> set s. hex_val c \<noteq> None \<Longrightarrow> text_end t \<Longrightarrow> hex_nat n (s @ t) = hex_nat n s"
proof (induction s arbitrary: n)
  case Nil
  then show ?case by (cases t) (auto simp: text_end_def)
qed auto

lemma hex_nat_text:
  assumes "text_end t"
  shows "hex_nat 0 (sprintf_08x w @ t) = unat w"
proof -
  have digits: "\<forall>c \<in> set (sprintf_08x w). hex_val c \<noteq> None" using sprintf_08x_digits by blast
  have "hex_nat 0 (sprintf_08x w) < 2 ^ 32"
    using hex_nat_bound [OF _ _ digits, of 0 0 8] by simp
  then have "unat (of_nat (hex_nat 0 (sprintf_08x w)) :: u32) = hex_nat 0 (sprintf_08x w)"
    by (simp add: unat_of_nat)
  then have "hex_nat 0 (sprintf_08x w) = unat w"
    by (simp add: hex_nat_fold hex_fold_sprintf)
  then show ?thesis by (simp add: hex_nat_append_end [OF digits assms])
qed

text \<open>
  The contract of a text format for register values: what has been printed is read back,
  also when something that is not a digit follows (a line feed, the rest of a buffer).
\<close>

locale register_text =
  fixes print :: "u32 \<Rightarrow> string" and scan :: "string \<Rightarrow> u32 option"
  assumes scan_print: "text_end t \<Longrightarrow> scan (print v @ t) = Some v"
begin

lemma scan_print_line: "scan (print v @ [CHR 0x0A]) = Some v" "scan (print v) = Some v"
  using scan_print [of "[CHR 0x0A]" v] scan_print [of "[]" v] by (simp_all add: text_end_def hex_val.simps)

lemma print_inj: "print v = print w \<Longrightarrow> v = w"
  using scan_print_line(2) by (metis option.inject)

end

interpretation kernel_text: register_text sprintf_08x sscanf_x
proof
  fix t :: string and v :: u32
  assume t: "text_end t"
  obtain c cs where c: "sprintf_08x v = c # cs" by (simp add: sprintf_08x_def)
  have "hex_val c \<noteq> None" using sprintf_08x_digits [of v] c by simp
  then show "sscanf_x (sprintf_08x v @ t) = Some v"
    using hex_fold_text [OF t, of v] skip_0x_sprintf [of v t] dropWhile_sprintf [of v t]
    by (auto simp: sscanf_x_def c)
qed

interpretation user_text: register_text sprintf_08x "\<lambda>s. Some (strtoul_16 s)"
proof
  fix t :: string and v :: u32
  assume t: "text_end t"
  obtain c cs where c: "sprintf_08x v = c # cs" by (simp add: sprintf_08x_def)
  have "c \<noteq> CHR ''-''" "c \<noteq> CHR ''+''" using sprintf_08x_digits [of v] c by simp_all
  then have "strtoul_16 (sprintf_08x v @ t) = saturate (unat v)"
    using hex_nat_text [OF t, of v] skip_0x_sprintf [of v t] dropWhile_sprintf [of v t]
    by (auto simp: strtoul_16_def c)
  then show "Some (strtoul_16 (sprintf_08x v @ t)) = Some v"
    using unat_range [of v] by (simp add: saturate_def)
qed

subsection \<open>Decimal numbers\<close>

text \<open>\<open>%i\<close> of a process id, and the kernel's \<open>%d\<close>, which assigns nothing without a digit.\<close>

fun dec_val :: "char \<Rightarrow> nat option" where
  "dec_val c = (let n = of_char c :: nat in if 48 \<le> n \<and> n \<le> 57 then Some (n - 48) else None)"

declare dec_val.simps [simp del]

fun sprintf_nat :: "nat \<Rightarrow> string" where
  "sprintf_nat n = (if n < 10 then [hex_digit n] else sprintf_nat (n div 10) @ [hex_digit (n mod 10)])"

declare sprintf_nat.simps [simp del]

definition sprintf_i :: "int \<Rightarrow> string" where
  "sprintf_i i = (if i < 0 then CHR ''-'' # sprintf_nat (nat (- i)) else sprintf_nat (nat i))"

fun dec_fold :: "nat \<Rightarrow> string \<Rightarrow> nat" where
  "dec_fold acc [] = acc"
| "dec_fold acc (c # cs) = (case dec_val c of None \<Rightarrow> acc | Some v \<Rightarrow> dec_fold (acc * 10 + v) cs)"

definition sscanf_d :: "string \<Rightarrow> int option" where
  "sscanf_d s = (case dropWhile is_space s of
     [] \<Rightarrow> None
   | c # cs \<Rightarrow>
       if c = CHR ''-'' then
         (case cs of [] \<Rightarrow> None | d # _ \<Rightarrow> if dec_val d = None then None else Some (- int (dec_fold 0 cs)))
       else if dec_val c = None then None else Some (int (dec_fold 0 (c # cs))))"

lemma dec_val_digit: "n < 10 \<Longrightarrow> dec_val (hex_digit n) = Some n"
  using less_16_cases [of n] by (auto simp: hex_digit_def dec_val.simps)

lemma sprintf_nat_digits: "\<forall>c \<in> set (sprintf_nat n). dec_val c \<noteq> None \<and> \<not> is_space c \<and> c \<noteq> CHR ''-'' \<and> c \<noteq> CHR 0x00"
proof (induction n rule: sprintf_nat.induct)
  case (1 n)
  have "n mod 10 < 10" by simp
  then show ?case
    using 1 by (subst sprintf_nat.simps) (auto simp: dec_val_digit hex_digit_not_space hex_digit_not_x)
qed

lemma dec_fold_append:
  "\<forall>c \<in> set s. dec_val c \<noteq> None \<Longrightarrow> dec_fold acc (s @ t) = dec_fold (dec_fold acc s) t"
  by (induction s arbitrary: acc) auto

lemma dec_fold_sprintf: "dec_fold 0 (sprintf_nat n) = n"
proof (induction n rule: sprintf_nat.induct)
  case (1 n)
  show ?case
  proof (cases "n < 10")
    case True
    then show ?thesis by (subst sprintf_nat.simps) (simp add: dec_val_digit)
  next
    case False
    have "\<forall>c \<in> set (sprintf_nat (n div 10)). dec_val c \<noteq> None" using sprintf_nat_digits by blast
    with False 1 show ?thesis
      by (subst sprintf_nat.simps) (simp add: dec_fold_append dec_val_digit)
  qed
qed

lemma sprintf_nat_nonempty: "sprintf_nat n \<noteq> []"
  by (subst sprintf_nat.simps) simp

lemma sscanf_sprintf_i: "0 \<le> i \<Longrightarrow> sscanf_d (sprintf_i i) = Some i"
proof -
  assume "0 \<le> i"
  obtain c cs where c: "sprintf_nat (nat i) = c # cs"
    using sprintf_nat_nonempty by (meson list.exhaust)
  have "\<not> is_space c" "c \<noteq> CHR ''-''" "dec_val c \<noteq> None"
    using sprintf_nat_digits [of "nat i"] by (simp_all add: c)
  then show ?thesis
    using \<open>0 \<le> i\<close> dec_fold_sprintf [of "nat i"] by (auto simp: sprintf_i_def sscanf_d_def c)
qed

end
