(* ===== verification/Ece453_Device.thy ===== *)
theory Ece453_Device
  imports Chuck_Prelude
begin

text \<open>
  The register block of the base station's hardware, \<open>dmx_module/ece453.sv\<close>, with the
  channel memory of \<open>dmx_module/dmx512.sv\<close> that it writes. \<open>clock\<close> is one rising edge:
  it takes what the bus does in that cycle and the levels of the input pins. A register
  access of the processor is one cycle of the bus.

  \<open>mmio\<close> is the interface the driver relies on: which registers hold what is written to
  them. The register block is an interpretation of it.
\<close>

subsection \<open>Registers\<close>

abbreviation (input) DEV_ID_ADDR :: nat where "DEV_ID_ADDR \<equiv> 0"
abbreviation (input) CONTROL_ADDR :: nat where "CONTROL_ADDR \<equiv> 1"
abbreviation (input) STATUS_ADDR :: nat where "STATUS_ADDR \<equiv> 2"
abbreviation (input) IM_ADDR :: nat where "IM_ADDR \<equiv> 3"
abbreviation (input) IRQ_ADDR :: nat where "IRQ_ADDR \<equiv> 4"
abbreviation (input) GPIO_IN_ADDR :: nat where "GPIO_IN_ADDR \<equiv> 5"
abbreviation (input) GPIO_OUT_ADDR :: nat where "GPIO_OUT_ADDR \<equiv> 6"
abbreviation (input) DMX_ADDR_ADDR :: nat where "DMX_ADDR_ADDR \<equiv> 8"
abbreviation (input) DMX_DATA_ADDR :: nat where "DMX_DATA_ADDR \<equiv> 9"
abbreviation (input) DMX_SIZE_ADDR :: nat where "DMX_SIZE_ADDR \<equiv> 10"

datatype xfer_state = X_IDLE | X_TRANSMIT

record ece453 =
  dev_id_r :: u32
  control_r :: u32
  status_r :: u32
  im_r :: u32
  irq_r :: u32
  gpio_in_r :: u32
  gpio_out_r :: u32
  dmx_addr_r :: u32
  dmx_data_r :: u32
  dmx_size_r :: u32
  curr_state :: xfer_state
  DMX_data :: "u8 list"
  gpio_inputs :: u32

definition ece453_reset :: "u32 \<Rightarrow> ece453" where
  "ece453_reset pins = \<lparr>dev_id_r = 0xECE45300, control_r = 0, status_r = 0, im_r = 0, irq_r = 0, gpio_in_r = 0,
     gpio_out_r = 0, dmx_addr_r = 0, dmx_data_r = 0, dmx_size_r = 0, curr_state = X_IDLE,
     DMX_data = replicate 513 0, gpio_inputs = pins\<rparr>"

datatype bus = No_access | Bus_read nat | Bus_write nat u32

definition slave_readdata :: "nat \<Rightarrow> ece453 \<Rightarrow> u32" where
  "slave_readdata a r =
     (if a = DEV_ID_ADDR then dev_id_r r else if a = CONTROL_ADDR then control_r r
      else if a = STATUS_ADDR then status_r r else if a = IM_ADDR then im_r r
      else if a = IRQ_ADDR then irq_r r else if a = GPIO_IN_ADDR then gpio_in_r r
      else if a = GPIO_OUT_ADDR then gpio_out_r r else if a = DMX_ADDR_ADDR then dmx_addr_r r
      else if a = DMX_DATA_ADDR then dmx_data_r r else if a = DMX_SIZE_ADDR then dmx_size_r r
      else 0)"

text \<open>The value written to an address in this cycle, if any.\<close>

fun written :: "nat \<Rightarrow> bus \<Rightarrow> u32 option" where
  "written a (Bus_write b d) = (if a = b then Some d else None)"
| "written a _ = None"

definition reg_in :: "nat \<Rightarrow> bus \<Rightarrow> u32 \<Rightarrow> u32" where
  "reg_in a b old = (case written a b of Some d \<Rightarrow> d | None \<Rightarrow> old)"

subsection \<open>Combinational logic\<close>

definition irq_out :: "ece453 \<Rightarrow> bool" where
  "irq_out r \<longleftrightarrow> im_r r AND irq_r r \<noteq> 0"

definition dmx_busy :: "ece453 \<Rightarrow> bool" where
  "dmx_busy r \<longleftrightarrow> (case curr_state r of X_IDLE \<Rightarrow> bit (control_r r) 0 | X_TRANSMIT \<Rightarrow> True)"

definition next_state :: "ece453 \<Rightarrow> xfer_state" where
  "next_state r = (case curr_state r of X_IDLE \<Rightarrow> if bit (control_r r) 0 then X_TRANSMIT else X_IDLE | X_TRANSMIT \<Rightarrow> X_IDLE)"

definition irq_in :: "bus \<Rightarrow> ece453 \<Rightarrow> u32" where
  "irq_in b r =
     (let i = irq_r r OR (gpio_in_r r XOR gpio_inputs r);
          i = (if bit (status_r r) 0 \<and> \<not> dmx_busy r then i OR 1 else i);
          i = i AND im_r r
      in case written IRQ_ADDR b of Some d \<Rightarrow> irq_r r AND NOT d | None \<Rightarrow> i)"

text \<open>
  The write port of the channel memory: up to four bytes from a channel address of ten
  bits; an address of zero (the start code, or a byte past the last channel) writes nothing.
\<close>

definition channel_addr :: "nat \<Rightarrow> 3 word \<Rightarrow> 10 word \<Rightarrow> 10 word" where
  "channel_addr k sz addr =
     (if unat sz \<ge> k + 1 \<and> addr \<le> 0x200 - of_nat k then addr + of_nat k else 0)"

definition write_channel :: "10 word \<Rightarrow> u8 \<Rightarrow> u8 list \<Rightarrow> u8 list" where
  "write_channel a v mem = (if a \<noteq> 0 then mem[unat a := v] else mem)"

definition write_en :: "ece453 \<Rightarrow> bool" where
  "write_en r \<longleftrightarrow> dmx_addr_r r \<le> 512 \<and> dmx_addr_r r > 0 \<and> dmx_busy r"

definition write_size :: "ece453 \<Rightarrow> 3 word" where
  "write_size r = (if dmx_size_r r > 4 then 0 else ucast (dmx_size_r r))"

definition DMX_data_in :: "ece453 \<Rightarrow> u8 list" where
  "DMX_data_in r =
     (if write_en r then
        let addr = ucast (dmx_addr_r r); sz = write_size r; d = dmx_data_r r in
        write_channel (channel_addr 3 sz addr) (ucast (drop_bit 24 d))
          (write_channel (channel_addr 2 sz addr) (ucast (drop_bit 16 d))
            (write_channel (channel_addr 1 sz addr) (ucast (drop_bit 8 d))
              (write_channel (channel_addr 0 sz addr) (ucast d) (DMX_data r))))
      else DMX_data r)"

definition clock :: "bus \<Rightarrow> ece453 \<Rightarrow> ece453" where
  "clock b r = r\<lparr>
     control_r := reg_in CONTROL_ADDR b (control_r r AND NOT 1),
     status_r := (status_r r AND NOT 1) OR (if dmx_busy r then 1 else 0),
     im_r := reg_in IM_ADDR b (im_r r),
     irq_r := irq_in b r,
     gpio_in_r := gpio_inputs r,
     gpio_out_r := reg_in GPIO_OUT_ADDR b (gpio_out_r r),
     dmx_addr_r := reg_in DMX_ADDR_ADDR b (dmx_addr_r r),
     dmx_data_r := reg_in DMX_DATA_ADDR b (dmx_data_r r),
     dmx_size_r := reg_in DMX_SIZE_ADDR b (dmx_size_r r),
     curr_state := next_state r,
     DMX_data := DMX_data_in r\<rparr>"

subsection \<open>Accesses\<close>

definition ioread32 :: "nat \<Rightarrow> ece453 \<Rightarrow> u32 \<times> ece453" where
  "ioread32 a r = (slave_readdata a r, clock (Bus_read a) r)"

definition iowrite32 :: "nat \<Rightarrow> u32 \<Rightarrow> ece453 \<Rightarrow> ece453" where
  "iowrite32 a v r = clock (Bus_write a v) r"

text \<open>A cycle without access, with new levels on the input pins.\<close>

definition idle :: "u32 \<Rightarrow> ece453 \<Rightarrow> ece453" where
  "idle p r = clock No_access (r\<lparr>gpio_inputs := p\<rparr>)"

locale mmio =
  fixes rd :: "nat \<Rightarrow> 'd \<Rightarrow> u32 \<times> 'd" and wr :: "nat \<Rightarrow> u32 \<Rightarrow> 'd \<Rightarrow> 'd" and env :: "'e \<Rightarrow> 'd \<Rightarrow> 'd"
    and storage :: "nat set"
  assumes write_read: "a \<in> storage \<Longrightarrow> fst (rd a (wr a v d)) = v"
    and write_other: "a \<in> storage \<Longrightarrow> a \<noteq> b \<Longrightarrow> fst (rd a (wr b v d)) = fst (rd a d)"
    and read_keeps: "a \<in> storage \<Longrightarrow> fst (rd a (snd (rd b d))) = fst (rd a d)"
    and env_keeps: "a \<in> storage \<Longrightarrow> fst (rd a (env e d)) = fst (rd a d)"
begin

lemma env_run_keeps: "a \<in> storage \<Longrightarrow> fst (rd a (fold env es d)) = fst (rd a d)"
  by (induction es arbitrary: d) (simp_all add: env_keeps)

lemma write_survives: "a \<in> storage \<Longrightarrow> fst (rd a (fold env es (wr a v d))) = v"
  by (simp add: env_run_keeps write_read)

end

definition storage_regs :: "nat set" where
  "storage_regs = {IM_ADDR, GPIO_OUT_ADDR, DMX_ADDR_ADDR, DMX_DATA_ADDR, DMX_SIZE_ADDR}"

interpretation regs: mmio ioread32 iowrite32 idle storage_regs
  by unfold_locales
     (auto simp: storage_regs_def ioread32_def iowrite32_def idle_def slave_readdata_def clock_def reg_in_def)

subsection \<open>Lemmas\<close>

lemma clock_simps [simp]:
  "im_r (clock b r) = reg_in IM_ADDR b (im_r r)" "irq_r (clock b r) = irq_in b r"
  "gpio_inputs (clock b r) = gpio_inputs r" "gpio_in_r (clock b r) = gpio_inputs r"
  "control_r (clock b r) = reg_in CONTROL_ADDR b (control_r r AND NOT 1)"
  "dmx_addr_r (clock b r) = reg_in DMX_ADDR_ADDR b (dmx_addr_r r)"
  "dmx_data_r (clock b r) = reg_in DMX_DATA_ADDR b (dmx_data_r r)"
  "dmx_size_r (clock b r) = reg_in DMX_SIZE_ADDR b (dmx_size_r r)"
  "curr_state (clock b r) = next_state r" "DMX_data (clock b r) = DMX_data_in r"
  by (simp_all add: clock_def)

text \<open>The transfer logic does not look at the input pins.\<close>

lemma pins_dmx_busy [simp]: "dmx_busy (r\<lparr>gpio_inputs := p\<rparr>) = dmx_busy r"
  by (simp add: dmx_busy_def split: xfer_state.split)

lemma pins_next_state [simp]: "next_state (r\<lparr>gpio_inputs := p\<rparr>) = next_state r"
  by (simp add: next_state_def split: xfer_state.split)

lemma pins_DMX_data_in [simp]: "DMX_data_in (r\<lparr>gpio_inputs := p\<rparr>) = DMX_data_in r"
  by (simp add: DMX_data_in_def write_en_def write_size_def)

text \<open>With the mask clear, the interrupt line is low and stays low.\<close>

lemma masked_quiet: "im_r r = 0 \<Longrightarrow> \<not> irq_out r"
  by (simp add: irq_out_def)

lemma idle_im: "im_r (fold idle ps r) = im_r r"
  by (induction ps arbitrary: r) (simp_all add: idle_def reg_in_def)

lemma irq_in_edge:
  assumes "written IRQ_ADDR b = None" "bit (im_r r) n"
    and "bit (gpio_in_r r) n \<noteq> bit (gpio_inputs r) n \<or> bit (irq_r r) n"
  shows "bit (irq_in b r) n"
  using assms by (auto simp: irq_in_def Let_def bit_simps)

lemma irq_in_acknowledge: "irq_in (Bus_write IRQ_ADDR d) r = irq_r r AND NOT d"
  by (simp add: irq_in_def)

subsection \<open>Properties\<close>

text \<open>
  An edge on an input pin is never lost outside an acknowledge cycle. In any cycle
  that does not write the interrupt register, every unmasked pin whose level differs from
  the sampled one leaves its interrupt bit set, and unmasked pending bits stay set.
\<close>

theorem edge_sets_interrupt:
  assumes "written IRQ_ADDR b = None" "bit (im_r r) n"
    and "bit (gpio_in_r r) n \<noteq> bit (gpio_inputs r) n \<or> bit (irq_r r) n"
  shows "bit (irq_r (clock b r)) n"
  using irq_in_edge [OF assms] by simp

theorem edge_sets_interrupt_witness:
  "bit (irq_r (clock No_access ((ece453_reset 0x400)\<lparr>im_r := 0x400\<rparr>))) 10"
  by (rule edge_sets_interrupt) (simp_all add: ece453_reset_def bit_simps)

end
