(* ===== verification/Ece453_Driver.thy ===== *)
theory Ece453_Driver
  imports Hex_Text Ece453_Device
begin

text \<open>
  The kernel module \<open>kernel/ece453_driver.c\<close> and the user library
  \<open>apps/drivers/ece453.c\<close> on top of its sysfs files. The driver's accesses go through
  the two operations \<open>rd\<close> and \<open>wr\<close>, the arguments of the definitions; the properties put
  the register block there. The kernel services the module uses are recorded calls whose
  answers are inputs. A C string variable that a failed \<open>sscanf\<close> leaves unassigned is an
  argument, \<open>garbage\<close>.
\<close>

abbreviation (input) ECE453_DEV_ID_OFFSET :: nat where "ECE453_DEV_ID_OFFSET \<equiv> 0"
abbreviation (input) ECE453_CONTROL_OFFSET :: nat where "ECE453_CONTROL_OFFSET \<equiv> 1"
abbreviation (input) ECE453_STATUS_OFFSET :: nat where "ECE453_STATUS_OFFSET \<equiv> 2"
abbreviation (input) ECE453_IM_OFFSET :: nat where "ECE453_IM_OFFSET \<equiv> 3"
abbreviation (input) ECE453_IRQ_OFFSET :: nat where "ECE453_IRQ_OFFSET \<equiv> 4"
abbreviation (input) ECE453_GPIO_IN_OFFSET :: nat where "ECE453_GPIO_IN_OFFSET \<equiv> 5"
abbreviation (input) ECE453_GPIO_OUT_OFFSET :: nat where "ECE453_GPIO_OUT_OFFSET \<equiv> 6"
abbreviation (input) ECE453_DMX_ADDR_OFFSET :: nat where "ECE453_DMX_ADDR_OFFSET \<equiv> 8"
abbreviation (input) ECE453_DMX_DATA_OFFSET :: nat where "ECE453_DMX_DATA_OFFSET \<equiv> 9"
abbreviation (input) ECE453_DMX_SIZE_OFFSET :: nat where "ECE453_DMX_SIZE_OFFSET \<equiv> 10"

type_synonym 'd ioread = "nat \<Rightarrow> 'd \<Rightarrow> u32 \<times> 'd"
type_synonym 'd iowrite = "nat \<Rightarrow> u32 \<Rightarrow> 'd \<Rightarrow> 'd"

record 'd driver =
  hw :: 'd
  pid :: int

subsection \<open>Show functions\<close>

definition show_reg :: "'d ioread \<Rightarrow> nat \<Rightarrow> 'd driver \<Rightarrow> string \<times> 'd driver" where
  "show_reg rd off s = (case rd off (hw s) of (val, d) \<Rightarrow> (sprintf_08x val @ [CHR 0x0A], s\<lparr>hw := d\<rparr>))"

definition ece453_read_device_id :: "'d ioread \<Rightarrow> 'd driver \<Rightarrow> string \<times> 'd driver" where
  "ece453_read_device_id rd = show_reg rd ECE453_DEV_ID_OFFSET"

definition ece453_read_control :: "'d ioread \<Rightarrow> 'd driver \<Rightarrow> string \<times> 'd driver" where
  "ece453_read_control rd = show_reg rd ECE453_CONTROL_OFFSET"

definition ece453_read_status :: "'d ioread \<Rightarrow> 'd driver \<Rightarrow> string \<times> 'd driver" where
  "ece453_read_status rd = show_reg rd ECE453_STATUS_OFFSET"

definition ece453_read_im :: "'d ioread \<Rightarrow> 'd driver \<Rightarrow> string \<times> 'd driver" where
  "ece453_read_im rd = show_reg rd ECE453_IM_OFFSET"

definition ece453_read_irq :: "'d ioread \<Rightarrow> 'd driver \<Rightarrow> string \<times> 'd driver" where
  "ece453_read_irq rd = show_reg rd ECE453_IRQ_OFFSET"

definition ece453_read_gpio_in :: "'d ioread \<Rightarrow> 'd driver \<Rightarrow> string \<times> 'd driver" where
  "ece453_read_gpio_in rd = show_reg rd ECE453_GPIO_IN_OFFSET"

definition ece453_read_gpio_out :: "'d ioread \<Rightarrow> 'd driver \<Rightarrow> string \<times> 'd driver" where
  "ece453_read_gpio_out rd = show_reg rd ECE453_GPIO_OUT_OFFSET"

definition ece453_read_dmx_addr :: "'d ioread \<Rightarrow> 'd driver \<Rightarrow> string \<times> 'd driver" where
  "ece453_read_dmx_addr rd = show_reg rd ECE453_DMX_ADDR_OFFSET"

definition ece453_read_dmx_data :: "'d ioread \<Rightarrow> 'd driver \<Rightarrow> string \<times> 'd driver" where
  "ece453_read_dmx_data rd = show_reg rd ECE453_DMX_DATA_OFFSET"

definition ece453_read_dmx_size :: "'d ioread \<Rightarrow> 'd driver \<Rightarrow> string \<times> 'd driver" where
  "ece453_read_dmx_size rd = show_reg rd ECE453_DMX_SIZE_OFFSET"

subsection \<open>Store functions\<close>

definition store_reg :: "'d iowrite \<Rightarrow> nat \<Rightarrow> u32 \<Rightarrow> string \<Rightarrow> nat \<Rightarrow> 'd driver \<Rightarrow> nat \<times> 'd driver" where
  "store_reg wr off garbage buf cnt s =
     (let var = (case sscanf_x buf of None \<Rightarrow> garbage | Some v \<Rightarrow> v) in (cnt, s\<lparr>hw := wr off var (hw s)\<rparr>))"

definition ece453_write_control :: "'d iowrite \<Rightarrow> u32 \<Rightarrow> string \<Rightarrow> nat \<Rightarrow> 'd driver \<Rightarrow> nat \<times> 'd driver" where
  "ece453_write_control wr = store_reg wr ECE453_CONTROL_OFFSET"

definition ece453_write_im :: "'d iowrite \<Rightarrow> u32 \<Rightarrow> string \<Rightarrow> nat \<Rightarrow> 'd driver \<Rightarrow> nat \<times> 'd driver" where
  "ece453_write_im wr = store_reg wr ECE453_IM_OFFSET"

definition ece453_write_irq :: "'d iowrite \<Rightarrow> u32 \<Rightarrow> string \<Rightarrow> nat \<Rightarrow> 'd driver \<Rightarrow> nat \<times> 'd driver" where
  "ece453_write_irq wr = store_reg wr ECE453_IRQ_OFFSET"

definition ece453_write_gpio_out :: "'d iowrite \<Rightarrow> u32 \<Rightarrow> string \<Rightarrow> nat \<Rightarrow> 'd driver \<Rightarrow> nat \<times> 'd driver" where
  "ece453_write_gpio_out wr = store_reg wr ECE453_GPIO_OUT_OFFSET"

definition ece453_write_dmx_addr :: "'d iowrite \<Rightarrow> u32 \<Rightarrow> string \<Rightarrow> nat \<Rightarrow> 'd driver \<Rightarrow> nat \<times> 'd driver" where
  "ece453_write_dmx_addr wr = store_reg wr ECE453_DMX_ADDR_OFFSET"

definition ece453_write_dmx_data :: "'d iowrite \<Rightarrow> u32 \<Rightarrow> string \<Rightarrow> nat \<Rightarrow> 'd driver \<Rightarrow> nat \<times> 'd driver" where
  "ece453_write_dmx_data wr = store_reg wr ECE453_DMX_DATA_OFFSET"

definition ece453_write_dmx_size :: "'d iowrite \<Rightarrow> u32 \<Rightarrow> string \<Rightarrow> nat \<Rightarrow> 'd driver \<Rightarrow> nat \<times> 'd driver" where
  "ece453_write_dmx_size wr = store_reg wr ECE453_DMX_SIZE_OFFSET"

definition ece453_write_pid :: "string \<Rightarrow> nat \<Rightarrow> 'd driver \<Rightarrow> nat \<times> 'd driver" where
  "ece453_write_pid buf cnt s = (cnt, case sscanf_d buf of None \<Rightarrow> s | Some p \<Rightarrow> s\<lparr>pid := p\<rparr>)"

subsection \<open>The attribute files\<close>

record 'd kobj_attribute =
  attr_mode :: nat
  show_fn :: "('d driver \<Rightarrow> string \<times> 'd driver) option"
  store_fn :: "(u32 \<Rightarrow> string \<Rightarrow> nat \<Rightarrow> 'd driver \<Rightarrow> nat \<times> 'd driver) option"

definition attrs :: "'d ioread \<Rightarrow> 'd iowrite \<Rightarrow> (string \<times> 'd kobj_attribute) list" where
  "attrs rd wr =
     [(''device_id'', \<lparr>attr_mode = 292, show_fn = Some (ece453_read_device_id rd), store_fn = None\<rparr>),
      (''control'', \<lparr>attr_mode = 436, show_fn = Some (ece453_read_control rd), store_fn = Some (ece453_write_control wr)\<rparr>),
      (''status'', \<lparr>attr_mode = 292, show_fn = Some (ece453_read_status rd), store_fn = None\<rparr>),
      (''interrupt_mask'', \<lparr>attr_mode = 436, show_fn = Some (ece453_read_im rd), store_fn = Some (ece453_write_im wr)\<rparr>),
      (''irq'', \<lparr>attr_mode = 436, show_fn = Some (ece453_read_irq rd), store_fn = Some (ece453_write_irq wr)\<rparr>),
      (''gpio_in'', \<lparr>attr_mode = 292, show_fn = Some (ece453_read_gpio_in rd), store_fn = None\<rparr>),
      (''gpio_out'', \<lparr>attr_mode = 436, show_fn = Some (ece453_read_gpio_out rd), store_fn = Some (ece453_write_gpio_out wr)\<rparr>),
      (''dmx_addr'', \<lparr>attr_mode = 436, show_fn = Some (ece453_read_dmx_addr rd), store_fn = Some (ece453_write_dmx_addr wr)\<rparr>),
      (''dmx_data'', \<lparr>attr_mode = 436, show_fn = Some (ece453_read_dmx_data rd), store_fn = Some (ece453_write_dmx_data wr)\<rparr>),
      (''dmx_size'', \<lparr>attr_mode = 436, show_fn = Some (ece453_read_dmx_size rd), store_fn = Some (ece453_write_dmx_size wr)\<rparr>),
      (''pid'', \<lparr>attr_mode = 144, show_fn = None, store_fn = Some (\<lambda>_. ece453_write_pid)\<rparr>)]"

subsection \<open>The interrupt handler\<close>

abbreviation (input) SIG_TEST :: nat where "SIG_TEST \<equiv> 44"

text \<open>
  \<open>task\<close> answers whether a process with the stored id exists. The result is the signal
  that is sent, with the interrupts it reports.
\<close>

definition ece453_irq_handler ::
    "'d ioread \<Rightarrow> 'd iowrite \<Rightarrow> (int \<Rightarrow> bool) \<Rightarrow> 'd driver \<Rightarrow> (nat \<times> int \<times> u32) option \<times> 'd driver" where
  "ece453_irq_handler rd wr task s =
     (let (active_irqs, d) = rd ECE453_IRQ_OFFSET (hw s);
          d = wr ECE453_IRQ_OFFSET active_irqs d;
          s = s\<lparr>hw := d\<rparr>
      in (if task (pid s) then Some (SIG_TEST, pid s, active_irqs) else None, s))"

definition ece453_shutdown :: "'d iowrite \<Rightarrow> 'd driver \<Rightarrow> 'd driver" where
  "ece453_shutdown wr s = s\<lparr>hw := wr ECE453_IM_OFFSET 0 (wr ECE453_IRQ_OFFSET 0xFFFFFFFF (hw s))\<rparr>"

subsection \<open>Probing and removal\<close>

datatype kernel_call =
    Request_mem_region | Release_mem_region | Ioremap | Iounmap
  | Request_irq int | Free_irq int | Kobject_create | Kobject_put | Sysfs_create_group

record probe_answers =
  has_resource :: bool
  region_ok :: bool
  ioremap_ok :: bool
  irq_number :: int
  request_irq_ret :: int
  kobject_ok :: bool
  sysfs_ret :: int

abbreviation (input) ENXIO :: int where "ENXIO \<equiv> 6"
abbreviation (input) ENOMEM :: int where "ENOMEM \<equiv> 12"
abbreviation (input) ENODEV :: int where "ENODEV \<equiv> 19"

definition ece453_probe :: "probe_answers \<Rightarrow> int \<times> kernel_call list" where
  "ece453_probe a =
     (if \<not> has_resource a then (- ENODEV, [])
      else if \<not> region_ok a then (- ENXIO, [Request_mem_region])
      else if \<not> ioremap_ok a then (- ENOMEM, [Request_mem_region, Ioremap, Release_mem_region])
      else
        let irq = irq_number a; cs = [Request_mem_region, Ioremap] in
        if irq \<ge> 0 \<and> request_irq_ret a \<noteq> 0
        then (- 1, cs @ [Request_irq irq, Free_irq irq, Release_mem_region])
        else
          let cs = cs @ (if irq \<ge> 0 then [Request_irq irq] else []) in
          if \<not> kobject_ok a then (- ENOMEM, cs @ [Kobject_create])
          else if sysfs_ret a \<noteq> 0 then (- ENOMEM, cs @ [Kobject_create, Sysfs_create_group, Kobject_put])
          else (0, cs @ [Kobject_create, Sysfs_create_group]))"

definition ece453_remove :: "'d iowrite \<Rightarrow> int \<Rightarrow> 'd driver \<Rightarrow> int \<times> kernel_call list \<times> 'd driver" where
  "ece453_remove wr irq s = (0, [Iounmap, Release_mem_region, Kobject_put, Free_irq irq], ece453_shutdown wr s)"

subsection \<open>The user library\<close>

definition sysfs_dir :: string where "sysfs_dir = ''/sys/kernel/ece453/''"

definition lookup_attr :: "'d ioread \<Rightarrow> 'd iowrite \<Rightarrow> string \<Rightarrow> 'd kobj_attribute option" where
  "lookup_attr rd wr path =
     (if take (length sysfs_dir) path = sysfs_dir then map_of (attrs rd wr) (drop (length sysfs_dir) path) else None)"

text \<open>The bytes of a C string in a buffer: up to the first NUL.\<close>

definition c_string :: "string \<Rightarrow> string" where
  "c_string buf = takeWhile (\<lambda>c. c \<noteq> CHR 0x00) buf"

text \<open>\<open>None\<close> is a negative result of \<open>open\<close>, \<open>read\<close> or \<open>write\<close>.\<close>

definition sysfs_read :: "'d ioread \<Rightarrow> 'd iowrite \<Rightarrow> string \<Rightarrow> nat \<Rightarrow> 'd driver \<Rightarrow> string option \<times> 'd driver" where
  "sysfs_read rd wr path n s =
     (case Option.bind (lookup_attr rd wr path) show_fn of
        None \<Rightarrow> (None, s)
      | Some f \<Rightarrow> (case f s of (text, s') \<Rightarrow> (Some (take n text), s')))"

definition sysfs_write :: "'d ioread \<Rightarrow> 'd iowrite \<Rightarrow> u32 \<Rightarrow> string \<Rightarrow> string \<Rightarrow> 'd driver \<Rightarrow> nat option \<times> 'd driver" where
  "sysfs_write rd wr garbage path buf s =
     (case Option.bind (lookup_attr rd wr path) store_fn of
        None \<Rightarrow> (None, s)
      | Some f \<Rightarrow> (case f garbage (c_string buf) (length buf) s of (n, s') \<Rightarrow> (Some n, s')))"

text \<open>Results are C \<open>int\<close>s; the error result \<open>-1\<close> is the word with all bits set.\<close>

definition ece453_reg_read :: "'d ioread \<Rightarrow> 'd iowrite \<Rightarrow> string \<Rightarrow> 'd driver \<Rightarrow> u32 \<times> 'd driver" where
  "ece453_reg_read rd wr reg_name s =
     (case sysfs_read rd wr reg_name 8 s of
        (None, s') \<Rightarrow> (- 1, s')
      | (Some string_val, s') \<Rightarrow> (strtoul_16 (c_string string_val), s'))"

definition ece453_reg_write :: "'d ioread \<Rightarrow> 'd iowrite \<Rightarrow> u32 \<Rightarrow> string \<Rightarrow> u32 \<Rightarrow> 'd driver \<Rightarrow> u32 \<times> 'd driver" where
  "ece453_reg_write rd wr garbage reg_name value s =
     (case sysfs_write rd wr garbage reg_name (sprintf_08x value @ [CHR 0x00]) s of
        (None, s') \<Rightarrow> (- 1, s')
      | (Some _, s') \<Rightarrow> (0, s'))"

subsection \<open>Register files\<close>

text \<open>A file that shows and stores one register.\<close>

definition register_file :: "string \<Rightarrow> nat \<Rightarrow> bool" where
  "register_file name off \<longleftrightarrow> (name, off) \<in> set [(''control'', 1), (''interrupt_mask'', 3), (''irq'', 4), (''gpio_out'', 6),
     (''dmx_addr'', 8), (''dmx_data'', 9), (''dmx_size'', 10)]"

lemma lookup_file: "lookup_attr rd wr (sysfs_dir @ name) = map_of (attrs rd wr) name"
  by (simp add: lookup_attr_def)

lemma lookup_register_file:
  assumes "register_file name off"
  shows "Option.bind (lookup_attr rd wr (sysfs_dir @ name)) show_fn = Some (show_reg rd off)"
    and "Option.bind (lookup_attr rd wr (sysfs_dir @ name)) store_fn = Some (store_reg wr off)"
  using assms unfolding register_file_def lookup_file
  by (simp, elim disjE; simp add: attrs_def ece453_read_control_def ece453_read_im_def
      ece453_read_irq_def ece453_read_gpio_out_def ece453_read_dmx_addr_def ece453_read_dmx_data_def
      ece453_read_dmx_size_def ece453_write_control_def ece453_write_im_def ece453_write_irq_def
      ece453_write_gpio_out_def ece453_write_dmx_addr_def ece453_write_dmx_data_def ece453_write_dmx_size_def)+

lemma c_string_sprintf [simp]: "c_string (sprintf_08x v @ CHR 0x00 # t) = sprintf_08x v" "c_string (sprintf_08x v) = sprintf_08x v"
proof -
  have "\<forall>c \<in> set (sprintf_08x v). c \<noteq> CHR 0x00" using sprintf_08x_digits by blast
  then show "c_string (sprintf_08x v @ CHR 0x00 # t) = sprintf_08x v" "c_string (sprintf_08x v) = sprintf_08x v"
    by (simp_all add: c_string_def takeWhile_tail takeWhile_append2 cong: takeWhile_cong)
qed

lemma reg_write_stores:
  assumes "register_file name off"
  shows "ece453_reg_write rd wr garbage (sysfs_dir @ name) v s = (0, s\<lparr>hw := wr off v (hw s)\<rparr>)"
  by (simp add: ece453_reg_write_def sysfs_write_def lookup_register_file [OF assms] store_reg_def
      kernel_text.scan_print_line Let_def)

lemma reg_read_shows:
  assumes "register_file name off"
  shows "ece453_reg_read rd wr (sysfs_dir @ name) s = (fst (rd off (hw s)), s\<lparr>hw := snd (rd off (hw s))\<rparr>)"
  using user_text.scan_print_line(2)
  by (simp add: ece453_reg_read_def sysfs_read_def lookup_register_file [OF assms] show_reg_def prod.case_eq_if)

context mmio
begin

text \<open>A written register file reads back what was written, whatever the environment does.\<close>

lemma register_file_round_trip:
  assumes "register_file name off" "off \<in> storage"
    and "ece453_reg_write rd wr garbage (sysfs_dir @ name) v s = (r, s')"
  shows "r = 0 \<and> fst (ece453_reg_read rd wr (sysfs_dir @ name) (s'\<lparr>hw := fold env es (hw s')\<rparr>)) = v"
  using assms(3) by (auto simp: reg_write_stores [OF assms(1)] reg_read_shows [OF assms(1)] write_survives [OF assms(2)])

lemma register_file_keeps_others:
  assumes "register_file name off" "a \<in> storage" "a \<noteq> off"
    and "ece453_reg_write rd wr garbage (sysfs_dir @ name) v s = (r, s')"
  shows "fst (rd a (hw s')) = fst (rd a (hw s))"
  using assms(4) by (auto simp: reg_write_stores [OF assms(1)] write_other [OF assms(2,3)])

end

subsection \<open>Accounting for kernel resources\<close>

text \<open>
  How often a sequence of calls asks for, and gives back, the memory region, the mapping,
  the interrupt and the kobject. A request is counted whether or not it succeeds.
\<close>

definition acquired :: "kernel_call list \<Rightarrow> nat \<times> nat \<times> nat \<times> nat" where
  "acquired cs = (count_list cs Request_mem_region, count_list cs Ioremap,
     length (filter (\<lambda>c. case c of Request_irq _ \<Rightarrow> True | _ \<Rightarrow> False) cs), count_list cs Kobject_create)"

definition released :: "kernel_call list \<Rightarrow> nat \<times> nat \<times> nat \<times> nat" where
  "released cs = (count_list cs Release_mem_region, count_list cs Iounmap,
     length (filter (\<lambda>c. case c of Free_irq _ \<Rightarrow> True | _ \<Rightarrow> False) cs), count_list cs Kobject_put)"

subsection \<open>Properties\<close>

text \<open>
  A register written through the user library, the sysfs file and the driver reads
  back unchanged, for all 32 bit values and whatever the input pins do in between, for
  every register that holds its value in hardware (interrupt mask, outputs, and the three
  DMX registers); a write to one of these files changes no other.
\<close>

theorem user_register_round_trip:
  assumes "register_file name off" "off \<in> storage_regs"
    and "ece453_reg_write ioread32 iowrite32 garbage (sysfs_dir @ name) v s = (r, s')"
  shows "r = 0 \<and>
    fst (ece453_reg_read ioread32 iowrite32 (sysfs_dir @ name) (s'\<lparr>hw := fold idle ps (hw s')\<rparr>)) = v \<and>
    (\<forall>a \<in> storage_regs - {off}. fst (ioread32 a (hw s')) = fst (ioread32 a (hw s)))"
  using regs.register_file_round_trip [OF assms] regs.register_file_keeps_others [OF assms(1) _ _ assms(3)] by blast

theorem user_register_round_trip_witness:
  "\<exists>s'. ece453_reg_write ioread32 iowrite32 0 (sysfs_dir @ ''dmx_data'') 0xDEADBEEF \<lparr>hw = ece453_reset 0, pid = 0\<rparr> = (0, s') \<and>
     fst (ece453_reg_read ioread32 iowrite32 (sysfs_dir @ ''dmx_data'') (s'\<lparr>hw := fold idle [1, 2, 3] (hw s')\<rparr>)) = 0xDEADBEEF"
proof -
  obtain r s' where w: "ece453_reg_write ioread32 iowrite32 0 (sysfs_dir @ ''dmx_data'') 0xDEADBEEF
      \<lparr>hw = ece453_reset 0, pid = 0\<rparr> = (r, s')" by fastforce
  have "register_file ''dmx_data'' 9" "9 \<in> storage_regs" by (simp_all add: register_file_def storage_regs_def)
  from user_register_round_trip [OF this w, of "[1, 2, 3]"] w show ?thesis by blast
qed

text \<open>
  The interrupt handler reports and acknowledges the same set of interrupts. It signals
  the pending bits it read and clears exactly these; an unmasked pin that changes during
  the read cycle is pending afterwards, so it is not lost between the read and the
  acknowledgement.
\<close>

theorem irq_handler_acknowledges_what_it_reports:
  assumes "ece453_irq_handler ioread32 iowrite32 task s = (signal, s')" "task (pid s)"
  shows "signal = Some (SIG_TEST, pid s, irq_r (hw s)) \<and> pid s' = pid s \<and>
    (\<forall>n. bit (irq_r (hw s)) n \<longrightarrow> \<not> bit (irq_r (hw s')) n) \<and>
    (\<forall>n. \<not> bit (irq_r (hw s)) n \<and> bit (im_r (hw s)) n \<and> bit (gpio_in_r (hw s)) n \<noteq> bit (gpio_inputs (hw s)) n
         \<longrightarrow> bit (irq_r (hw s')) n)"
proof -
  have run: "signal = Some (SIG_TEST, pid s, irq_r (hw s))" "pid s' = pid s"
      "irq_r (hw s') = irq_in (Bus_read IRQ_ADDR) (hw s) AND NOT (irq_r (hw s))"
    using assms by (auto simp: ece453_irq_handler_def ioread32_def iowrite32_def slave_readdata_def irq_in_acknowledge)
  have "bit (irq_r (hw s')) n"
    if "\<not> bit (irq_r (hw s)) n" "bit (im_r (hw s)) n" "bit (gpio_in_r (hw s)) n \<noteq> bit (gpio_inputs (hw s)) n" for n
    using irq_in_edge [of "Bus_read IRQ_ADDR" "hw s" n] that bit_imp_le_length [OF that(2)]
    by (simp add: run(3) bit_and_iff bit_not_iff)
  then show ?thesis
    by (simp add: run bit_and_iff bit_not_iff)
qed

theorem irq_handler_acknowledges_what_it_reports_witness:
  "let d = (ece453_reset 0x800)\<lparr>im_r := 0xC00, irq_r := 0x400\<rparr>;
       r = ece453_irq_handler ioread32 iowrite32 (\<lambda>p. p = 7) \<lparr>hw = d, pid = 7\<rparr>
   in fst r = Some (SIG_TEST, 7, 0x400) \<and> bit (irq_r (hw (snd r))) 11"
proof -
  define d where "d = (ece453_reset 0x800)\<lparr>im_r := 0xC00, irq_r := 0x400\<rparr>"
  obtain g s' where h: "ece453_irq_handler ioread32 iowrite32 (\<lambda>p. p = 7) \<lparr>hw = d, pid = 7\<rparr> = (g, s')" by fastforce
  have "\<not> bit (irq_r d) 11" "bit (im_r d) 11" "bit (gpio_in_r d) 11 \<noteq> bit (gpio_inputs d) 11" "irq_r d = 0x400"
    by (simp_all add: d_def ece453_reset_def)
  then show ?thesis
    using irq_handler_acknowledges_what_it_reports [OF h] unfolding Let_def d_def [symmetric] by (simp add: h)
qed

text \<open>
  An edge in the acknowledge cycle is lost. A pin that changes in the very cycle in
  which the handler writes the interrupt register is sampled without setting its bit, and
  as long as the pin keeps its level no later cycle sets it: the interrupt never comes.
\<close>

theorem edge_in_acknowledge_cycle_lost:
  assumes "\<not> bit (irq_r r) n" "0 < n"
  shows "\<not> bit (irq_r ((idle (gpio_inputs r) ^^ k) (iowrite32 IRQ_ADDR d r))) n"
proof -
  have "\<not> bit (irq_r ((idle p ^^ k) q)) n \<and> gpio_in_r ((idle p ^^ k) q) = p"
    if "\<not> bit (irq_r q) n" "gpio_in_r q = p" for p q
  proof (induction k)
    case (Suc k)
    then show ?case using assms(2)
      by (auto simp: idle_def irq_in_def Let_def bit_simps)
  qed (simp add: that)
  then show ?thesis
    using assms(1) by (simp add: iowrite32_def irq_in_acknowledge bit_and_iff)
qed

theorem edge_in_acknowledge_cycle_lost_witness:
  "let r = (ece453_reset 0x800)\<lparr>im_r := 0xC00, irq_r := 0x400\<rparr>
   in bit (gpio_in_r r) 11 \<noteq> bit (gpio_inputs r) 11 \<and> bit (im_r r) 11 \<and>
      \<not> bit (irq_r ((idle 0x800 ^^ 1000) (iowrite32 IRQ_ADDR 0x400 r))) 11"
proof -
  define r where "r = (ece453_reset 0x800)\<lparr>im_r := 0xC00, irq_r := 0x400\<rparr>"
  have "\<not> bit (irq_r r) 11" "gpio_inputs r = 0x800" "bit (gpio_in_r r) 11 \<noteq> bit (gpio_inputs r) 11" "bit (im_r r) 11"
    by (simp_all add: r_def ece453_reset_def)
  then show ?thesis
    using edge_in_acknowledge_cycle_lost [of r 11 1000 "0x400"] unfolding Let_def r_def [symmetric] by simp
qed

text \<open>
  Shutting the driver down silences the device: whatever was pending, and whatever the
  input pins do for however long afterwards, the interrupt line stays low.
\<close>

theorem shutdown_silences:
  "\<not> irq_out (fold idle ps (hw (ece453_shutdown iowrite32 s)))"
  by (rule masked_quiet) (simp add: idle_im ece453_shutdown_def iowrite32_def reg_in_def)

text \<open>
  A successful probe and the removal are balanced: when the device has an interrupt,
  removal releases each resource that the probe acquired exactly once, and the interrupt it
  frees is the one that was requested.
\<close>

theorem probe_remove_balanced:
  assumes "ece453_probe a = (0, cs)" "0 \<le> irq_number a"
  shows "released (fst (snd (ece453_remove wr (irq_number a) s))) = acquired cs \<and> released cs = (0, 0, 0, 0) \<and>
    Request_irq (irq_number a) \<in> set cs"
  using assms
  by (auto simp: ece453_probe_def ece453_remove_def acquired_def released_def Let_def split: if_splits)

theorem probe_remove_balanced_witness:
  "\<exists>cs. ece453_probe \<lparr>has_resource = True, region_ok = True, ioremap_ok = True, irq_number = 72, request_irq_ret = 0,
      kobject_ok = True, sysfs_ret = 0\<rparr> = (0, cs) \<and> acquired cs = (1, 1, 1, 1) \<and>
     released (fst (snd (ece453_remove iowrite32 72 \<lparr>hw = ece453_reset 0, pid = 0\<rparr>))) = acquired cs"
proof -
  let ?a = "\<lparr>has_resource = True, region_ok = True, ioremap_ok = True, irq_number = 72, request_irq_ret = 0,
      kobject_ok = True, sysfs_ret = 0\<rparr>"
  obtain cs where p: "ece453_probe ?a = (0, cs)" by (simp add: ece453_probe_def)
  have "acquired cs = (1, 1, 1, 1)" using p by (auto simp: ece453_probe_def acquired_def)
  then show ?thesis
    using probe_remove_balanced [OF p, of iowrite32 "\<lparr>hw = ece453_reset 0, pid = 0\<rparr>"] p by simp
qed

text \<open>
  A probe that fails after mapping the device leaks. When the interrupt cannot be
  requested the mapping is kept and an interrupt that was never granted is freed; when the
  kobject or its files cannot be created, the memory region, the mapping and the interrupt
  are all kept. Only the three earliest failures release what they took.
\<close>

theorem failed_probe_leaks:
  assumes "ece453_probe a = (ret, cs)" "ret \<noteq> 0" "has_resource a" "region_ok a" "0 \<le> irq_number a"
  shows "(\<not> ioremap_ok a \<longrightarrow> acquired cs = (1, 1, 0, 0) \<and> released cs = (1, 0, 0, 0)) \<and>
    (ioremap_ok a \<and> request_irq_ret a \<noteq> 0 \<longrightarrow> acquired cs = (1, 1, 1, 0) \<and> released cs = (1, 0, 1, 0)) \<and>
    (ioremap_ok a \<and> request_irq_ret a = 0 \<longrightarrow> acquired cs = (1, 1, 1, 1) \<and>
       released cs = (0, 0, 0, if kobject_ok a then 1 else 0))"
  using assms
  by (auto simp: ece453_probe_def acquired_def released_def Let_def split: if_splits)

theorem failed_probe_leaks_witness:
  "\<exists>cs. ece453_probe \<lparr>has_resource = True, region_ok = True, ioremap_ok = True, irq_number = 72, request_irq_ret = 0,
      kobject_ok = False, sysfs_ret = 0\<rparr> = (- ENOMEM, cs) \<and> acquired cs = (1, 1, 1, 1) \<and> released cs = (0, 0, 0, 0)"
proof -
  let ?a = "\<lparr>has_resource = True, region_ok = True, ioremap_ok = True, irq_number = 72, request_irq_ret = 0,
      kobject_ok = False, sysfs_ret = 0\<rparr>"
  obtain cs where "ece453_probe ?a = (- ENOMEM, cs)" by (simp add: ece453_probe_def)
  then show ?thesis using failed_probe_leaks [of ?a "- ENOMEM" cs] by simp
qed

end
