(* ===== verification/Ece453_Apps.thy ===== *)
theory Ece453_Apps
  imports Ece453_Driver
begin

text \<open>
  The user programs of the base station under \<open>apps\<close> that drive the registers: the touch
  controller library \<open>drivers/at42qt2120.c\<close>, the two LED programs \<open>lab4/ws2812b.c\<close> and
  \<open>ws2812b/ws2812b.c\<close>, and \<open>dmx_test/dmx_test.c\<close>. They are written over the two functions
  of the user library, the arguments \<open>get\<close> and \<open>put\<close>; the interface \<open>output_register\<close>
  states what they rely on, and the library over the driver and the register block is its
  interpretation. The I2C bus is a parameter.
\<close>

datatype app_error = Aborted | Exited nat

type_synonym 's reg_get = "string \<Rightarrow> 's \<Rightarrow> u32 \<times> 's"
type_synonym 's reg_put = "string \<Rightarrow> u32 \<Rightarrow> 's \<Rightarrow> u32 \<times> 's"

abbreviation (input) CONTROL_REG :: string where "CONTROL_REG \<equiv> sysfs_dir @ ''control''"
abbreviation (input) GPIO_OUT_REG :: string where "GPIO_OUT_REG \<equiv> sysfs_dir @ ''gpio_out''"
abbreviation (input) IM_REG :: string where "IM_REG \<equiv> sysfs_dir @ ''interrupt_mask''"
abbreviation (input) DMX_ADDR :: string where "DMX_ADDR \<equiv> sysfs_dir @ ''dmx_addr''"
abbreviation (input) DMX_DATA :: string where "DMX_DATA \<equiv> sysfs_dir @ ''dmx_data''"
abbreviation (input) DMX_SIZE :: string where "DMX_SIZE \<equiv> sysfs_dir @ ''dmx_size''"
abbreviation (input) GPIO_OUT_CAP_SEN_RST_MASK :: u32 where "GPIO_OUT_CAP_SEN_RST_MASK \<equiv> 0x08000000"

subsection \<open>The touch controller\<close>

definition at42qt2120_assert_reset :: "'s reg_get \<Rightarrow> 's reg_put \<Rightarrow> 's \<Rightarrow> app_error + 's" where
  "at42qt2120_assert_reset get put s =
     (case get GPIO_OUT_REG s of (reg_val, s) \<Rightarrow>
        if reg_val = - 1 then Inl Aborted
        else case put GPIO_OUT_REG (reg_val AND NOT GPIO_OUT_CAP_SEN_RST_MASK) s of (r, s) \<Rightarrow>
          if r = - 1 then Inl Aborted else Inr s)"

definition at42qt2120_deassert_reset :: "'s reg_get \<Rightarrow> 's reg_put \<Rightarrow> 's \<Rightarrow> app_error + 's" where
  "at42qt2120_deassert_reset get put s =
     (case get GPIO_OUT_REG s of (reg_val, s) \<Rightarrow>
        if reg_val = - 1 then Inl Aborted
        else case put GPIO_OUT_REG (reg_val OR GPIO_OUT_CAP_SEN_RST_MASK) s of (r, s) \<Rightarrow>
          if r = - 1 then Inl Aborted else Inr s)"

definition at42qt2120_set_slave_address :: "bool \<Rightarrow> 's \<Rightarrow> app_error + 's" where
  "at42qt2120_set_slave_address ioctl_ok s = (if \<not> ioctl_ok then Inl (Exited 1) else Inr s)"

definition at42qt2120_open :: "'s reg_get \<Rightarrow> 's reg_put \<Rightarrow> bool \<Rightarrow> bool \<Rightarrow> 's \<Rightarrow> app_error + 's" where
  "at42qt2120_open get put open_ok ioctl_ok s =
     (if \<not> open_ok then Inl (Exited 1)
      else case at42qt2120_deassert_reset get put s of Inl e \<Rightarrow> Inl e | Inr s \<Rightarrow> at42qt2120_set_slave_address ioctl_ok s)"

definition at42qt2120_close :: "'s reg_get \<Rightarrow> 's reg_put \<Rightarrow> 's \<Rightarrow> app_error + 's" where
  "at42qt2120_close get put s = at42qt2120_assert_reset get put s"

text \<open>The bus answers a write with a status, a read with a status and a byte.\<close>

definition at42qt2120_write :: "(u8 list \<Rightarrow> 'i \<Rightarrow> int \<times> 'i) \<Rightarrow> u8 \<Rightarrow> u8 \<Rightarrow> 'i \<Rightarrow> app_error + 'i" where
  "at42qt2120_write i2c_write reg v i = (case i2c_write [reg, v] i of (status, i) \<Rightarrow> if status \<noteq> 2 then Inl Aborted else Inr i)"

definition at42qt2120_read ::
    "(u8 list \<Rightarrow> 'i \<Rightarrow> int \<times> 'i) \<Rightarrow> ('i \<Rightarrow> (int \<times> u8) \<times> 'i) \<Rightarrow> u8 \<Rightarrow> 'i \<Rightarrow> app_error + (u8 \<times> 'i)" where
  "at42qt2120_read i2c_write i2c_read reg i =
     (case i2c_write [reg] i of (status, i) \<Rightarrow>
        if status \<noteq> 1 then Inl Aborted
        else case i2c_read i of ((status, data), i) \<Rightarrow> if status \<noteq> 1 then Inl Aborted else Inr (data, i))"

subsection \<open>Setting channels from the command line\<close>

definition dmx_test :: "'s reg_put \<Rightarrow> int \<Rightarrow> int \<Rightarrow> 's \<Rightarrow> 's" where
  "dmx_test put address channel_value s =
     (let s = snd (put DMX_ADDR (word_of_int address) s);
          s = snd (put DMX_DATA (word_of_int channel_value) s);
          s = snd (put DMX_SIZE 1 s)
      in snd (put CONTROL_REG 1 s))"

subsection \<open>Registering for signals\<close>

text \<open>
  \<open>set_pid\<close> prints the process id into ten bytes; \<open>clear_pid\<close> writes an empty string.
\<close>

definition set_pid :: "(string \<Rightarrow> 's \<Rightarrow> nat option \<times> 's) \<Rightarrow> int \<Rightarrow> 's \<Rightarrow> (int \<times> 's) result" where
  "set_pid pid_write getpid s =
     (let buf = sprintf_i getpid in
      if length buf + 1 > 10 then Inl Out_of_bounds
      else case pid_write (buf @ [CHR 0x00]) s of (None, s) \<Rightarrow> Inr (- 1, s) | (Some _, s) \<Rightarrow> Inr (0, s))"

definition clear_pid :: "(string \<Rightarrow> 's \<Rightarrow> nat option \<times> 's) \<Rightarrow> 's \<Rightarrow> int \<times> 's" where
  "clear_pid pid_write s = (case pid_write [CHR 0x00] s of (None, s) \<Rightarrow> (- 1, s) | (Some _, s) \<Rightarrow> (0, s))"

subsection \<open>The colour chooser of lab 4\<close>

abbreviation (input) KEY0_BIT :: u32 where "KEY0_BIT \<equiv> 0x400"
abbreviation (input) KEY1_BIT :: u32 where "KEY1_BIT \<equiv> 0x800"

record lab4 =
  key0_press :: bool
  key0_reles :: bool
  key1_press :: bool
  key1_reles :: bool
  exit_press :: bool
  curr_color :: int

definition lab4_init :: lab4 where
  "lab4_init = \<lparr>key0_press = False, key0_reles = False, key1_press = False, key1_reles = False,
     exit_press = False, curr_color = 0\<rparr>"

text \<open>What the program does to the outside: register writes by name, and the pid file.\<close>

datatype app_call = Put string u32 | Set_pid | Clear_pid

definition led_writes :: "string list \<Rightarrow> u32 \<Rightarrow> app_call list" where
  "led_writes leds v = map (\<lambda>r. Put r v) leds @ [Put CONTROL_REG 1]"

definition lab4_cleanup :: "string list \<Rightarrow> app_call list" where
  "lab4_cleanup leds = led_writes leds 0 @ [Clear_pid, Put IM_REG 0]"

datatype app_signal = Sig_test u32 | Sig_int

definition lab4_receiveData :: "string list \<Rightarrow> u32 \<Rightarrow> lab4 \<Rightarrow> app_call list \<times> lab4" where
  "lab4_receiveData leds si_int s =
     (let s = (if si_int = KEY0_BIT then s\<lparr>key0_reles := key0_press s, key0_press := True\<rparr> else s);
          s = (if si_int = KEY1_BIT then s\<lparr>key1_reles := key1_press s, key1_press := True\<rparr> else s)
      in (if \<not> (key0_press s \<or> key1_press s) then lab4_cleanup leds else [], s))"

definition lab4_control_c_handler :: "string list \<Rightarrow> lab4 \<Rightarrow> app_call list \<times> lab4" where
  "lab4_control_c_handler leds s = (lab4_cleanup leds, s\<lparr>exit_press := True\<rparr>)"

fun lab4_signal :: "string list \<Rightarrow> app_signal \<Rightarrow> lab4 \<Rightarrow> app_call list \<times> lab4" where
  "lab4_signal leds (Sig_test i) s = lab4_receiveData leds i s"
| "lab4_signal leds Sig_int s = lab4_control_c_handler leds s"

definition colors :: "u32 list" where
  "colors = [0x000000, 0x000077, 0x007700, 0x770000, 0x003333, 0x330033, 0x333300, 0x202020]"

definition lab4_keys :: "lab4 \<Rightarrow> lab4" where
  "lab4_keys s =
     (if key0_reles s then
        s\<lparr>curr_color := (if curr_color s = 7 then 0 else curr_color s + 1), key0_press := False, key0_reles := False\<rparr>
      else if key1_reles s then
        s\<lparr>curr_color := (if curr_color s = 0 then 7 else curr_color s - 1), key1_press := False, key1_reles := False\<rparr>
      else s)"

text \<open>
  The loop, given the signals that end the successive \<open>pause\<close>s: each is handled while the
  program waits. Without a further signal the program waits for ever and the list of calls
  ends. \<open>colors[curr_color]\<close> outside the array is the error.
\<close>

fun lab4_loop :: "string list \<Rightarrow> app_signal list \<Rightarrow> lab4 \<Rightarrow> (app_call list \<times> lab4) result" where
  "lab4_loop leds sigs s =
     (if exit_press s then Inr (lab4_cleanup leds, s)
      else if \<not> (0 \<le> curr_color s \<and> curr_color s < int (length colors)) then Inl Out_of_bounds
      else
        let cs = led_writes leds (colors ! nat (curr_color s)) in
        case sigs of
          [] \<Rightarrow> Inr (cs, s)
        | sig # sigs \<Rightarrow>
            (case lab4_signal leds sig s of (ds, s) \<Rightarrow>
               bind_result (lab4_loop leds sigs (lab4_keys s)) (\<lambda>(es, s). Inr (cs @ ds @ es, s))))"

declare lab4_loop.simps [simp del]

definition lab4_main :: "string list \<Rightarrow> app_signal list \<Rightarrow> (app_call list \<times> lab4) result" where
  "lab4_main leds sigs =
     bind_result (lab4_loop leds sigs lab4_init) (\<lambda>(cs, s).
       Inr ([Clear_pid, Set_pid, Put IM_REG (KEY0_BIT OR KEY1_BIT)] @ cs, s))"

subsection \<open>The LED demonstration\<close>

text \<open>\<open>ws2812b/ws2812b.c\<close>: green until key 0 or an interrupt of the user ends the wait, then red.\<close>

definition ws_receiveData :: "u32 \<Rightarrow> bool \<Rightarrow> bool" where
  "ws_receiveData si_int busy = (if si_int = KEY0_BIT then False else busy)"

definition ws_control_c_handler :: "bool \<Rightarrow> app_call list \<times> bool" where
  "ws_control_c_handler busy = ([Clear_pid, Put IM_REG 0], False)"

fun ws_signal :: "app_signal \<Rightarrow> bool \<Rightarrow> app_call list \<times> bool" where
  "ws_signal (Sig_test i) busy = ([], ws_receiveData i busy)"
| "ws_signal Sig_int busy = ws_control_c_handler busy"

text \<open>\<open>None\<close> is a program that still waits when the signals are used up.\<close>

fun ws_wait :: "app_signal list \<Rightarrow> bool \<Rightarrow> app_call list option" where
  "ws_wait sigs busy =
     (if \<not> busy then Some []
      else case sigs of [] \<Rightarrow> None
        | sig # sigs \<Rightarrow> (case ws_signal sig busy of (cs, b) \<Rightarrow> map_option (\<lambda>ds. cs @ ds) (ws_wait sigs b)))"

declare ws_wait.simps [simp del]

definition ws_main :: "string list \<Rightarrow> app_signal list \<Rightarrow> app_call list option" where
  "ws_main leds sigs =
     map_option (\<lambda>cs. [Set_pid] @ led_writes leds 0x00FF00 @ [Put IM_REG KEY0_BIT] @ cs @
         [Clear_pid, Put IM_REG 0] @ led_writes leds 0xFF0000)
       (ws_wait sigs True)"

subsection \<open>What the programs rely on\<close>

text \<open>The output register, as the touch controller library sees it.\<close>

locale output_register =
  fixes get :: "'s reg_get" and put :: "'s reg_put" and outputs :: "'s \<Rightarrow> u32"
  assumes get_outputs: "fst (get GPIO_OUT_REG s) = outputs s" "outputs (snd (get GPIO_OUT_REG s)) = outputs s"
    and put_outputs: "fst (put GPIO_OUT_REG v s) = 0" "outputs (snd (put GPIO_OUT_REG v s)) = v"
begin

lemma deassert_reset:
  assumes "outputs s \<noteq> - 1"
  shows "\<exists>s'. at42qt2120_deassert_reset get put s = Inr s' \<and> outputs s' = outputs s OR GPIO_OUT_CAP_SEN_RST_MASK"
  using assms by (simp add: at42qt2120_deassert_reset_def prod.case_eq_if get_outputs put_outputs)

lemma assert_reset:
  assumes "outputs s \<noteq> - 1"
  shows "\<exists>s'. at42qt2120_assert_reset get put s = Inr s' \<and> outputs s' = outputs s AND NOT GPIO_OUT_CAP_SEN_RST_MASK"
  using assms by (simp add: at42qt2120_assert_reset_def prod.case_eq_if get_outputs put_outputs)

lemma all_ones_aborts:
  assumes "outputs s = - 1"
  shows "at42qt2120_assert_reset get put s = Inl Aborted" "at42qt2120_deassert_reset get put s = Inl Aborted"
  using assms by (simp_all add: at42qt2120_assert_reset_def at42qt2120_deassert_reset_def prod.case_eq_if get_outputs)

end

text \<open>The user library over the register block.\<close>

definition lib_get :: "ece453 driver reg_get" where
  "lib_get = ece453_reg_read ioread32 iowrite32"

definition lib_put :: "u32 \<Rightarrow> ece453 driver reg_put" where
  "lib_put garbage = ece453_reg_write ioread32 iowrite32 garbage"

definition lib_pid_write :: "string \<Rightarrow> ece453 driver \<Rightarrow> nat option \<times> ece453 driver" where
  "lib_pid_write buf = sysfs_write ioread32 iowrite32 0 (sysfs_dir @ ''pid'') buf"

lemma gpio_out_file: "register_file ''gpio_out'' 6"
  by (simp add: register_file_def)

interpretation out: output_register lib_get "lib_put garbage" "\<lambda>s. gpio_out_r (hw s)"
  by unfold_locales
     (simp_all add: lib_get_def lib_put_def reg_read_shows [OF gpio_out_file] reg_write_stores [OF gpio_out_file]
       ioread32_def iowrite32_def slave_readdata_def clock_def reg_in_def)

lemma lib_put_file:
  "register_file name off \<Longrightarrow> snd (lib_put garbage (sysfs_dir @ name) v s) = s\<lparr>hw := iowrite32 off v (hw s)\<rparr>"
  by (simp add: lib_put_def reg_write_stores)

lemma pid_write: "lib_pid_write buf s = (Some (length buf), snd (ece453_write_pid (c_string buf) (length buf) s))"
proof -
  have "Option.bind (lookup_attr ioread32 iowrite32 (sysfs_dir @ ''pid'')) store_fn = Some (\<lambda>_. ece453_write_pid)"
    by (simp add: lookup_file attrs_def)
  then show ?thesis
    by (simp add: lib_pid_write_def sysfs_write_def ece453_write_pid_def)
qed

subsection \<open>A channel write in hardware\<close>

definition settled :: "ece453 \<Rightarrow> bool" where
  "settled r \<longleftrightarrow> curr_state r = X_IDLE \<and> \<not> bit (control_r r) 0"

lemma clock_settled:
  assumes "settled r" "written CONTROL_ADDR b = None"
  shows "settled (clock b r)" "DMX_data (clock b r) = DMX_data r"
  using assms
  by (simp_all add: settled_def next_state_def DMX_data_in_def write_en_def dmx_busy_def reg_in_def bit_simps)

lemma idle_settled:
  assumes "settled r"
  shows "DMX_data (fold idle ps r) = DMX_data r"
  using assms
proof (induction ps arbitrary: r)
  case (Cons p ps)
  have "settled (r\<lparr>gpio_inputs := p\<rparr>)" using Cons.prems by (simp add: settled_def)
  from clock_settled [OF this, of No_access] Cons.IH show ?case by (simp add: idle_def)
qed simp

text \<open>A start command writes the selected byte in the two cycles that follow it.\<close>

definition loaded :: "nat \<Rightarrow> u8 \<Rightarrow> ece453 \<Rightarrow> bool" where
  "loaded a v r \<longleftrightarrow> dmx_addr_r r = of_nat a \<and> ucast (dmx_data_r r) = v \<and> dmx_size_r r = 1"

lemma write_one_channel:
  assumes "loaded a v r" "0 < a" "a \<le> 512" "dmx_busy r"
  shows "DMX_data_in r = (DMX_data r)[a := v]"
proof -
  have a: "unat (of_nat a :: u32) = a" "unat (of_nat a :: 10 word) = a"
    using assms(2,3) by (simp_all add: unat_of_nat)
  have "of_nat a \<le> (512 :: u32)" "(0 :: u32) < of_nat a" "of_nat a \<le> (512 :: 10 word)" "(of_nat a :: 10 word) \<noteq> 0"
    using assms(2,3) a by (simp_all add: word_le_nat_alt word_less_nat_alt word_unat_eq_iff)
  moreover have "(ucast (of_nat a :: u32) :: 10 word) = of_nat a"
    using a assms(3) by (simp add: word_unat_eq_iff unsigned_ucast_eq take_bit_nat_eq_self)
  ultimately show ?thesis
    using assms a
    by (simp add: DMX_data_in_def write_en_def write_size_def loaded_def channel_addr_def write_channel_def Let_def)
qed

text \<open>What a start does to the memory: the effect of one write cycle, twice.\<close>

definition channel_effect :: "int \<Rightarrow> int \<Rightarrow> u8 list \<Rightarrow> u8 list" where
  "channel_effect a v mem = (if 1 \<le> a \<and> a \<le> 512 then mem[nat a := word_of_int v] else mem)"

lemma write_en_range:
  assumes "int32 a" "dmx_addr_r r = word_of_int a" "dmx_busy r"
  shows "write_en r \<longleftrightarrow> 1 \<le> a \<and> a \<le> 512"
proof -
  have u: "uint (word_of_int a :: u32) = a mod 4294967296" by (simp add: unsigned_of_int take_bit_eq_mod)
  have iff: "write_en r \<longleftrightarrow> uint (word_of_int a :: u32) \<le> 512 \<and> 0 < uint (word_of_int a :: u32)"
    using assms(2,3) by (simp add: write_en_def word_le_def word_less_def)
  show ?thesis
  proof (cases "a < 0")
    case True
    have "a mod 4294967296 = (a + 4294967296) mod 4294967296" by simp
    also have "\<dots> = a + 4294967296"
      using True assms(1) by (intro mod_pos_pos_trivial) (auto simp: int32_def)
    finally show ?thesis
      using True assms(1) unfolding iff u by (auto simp: int32_def)
  next
    case False
    then have "a mod 4294967296 = a"
      using assms(1) by (intro mod_pos_pos_trivial) (auto simp: int32_def)
    then show ?thesis unfolding iff u by auto
  qed
qed

lemma start_effect:
  assumes "int32 a" "dmx_addr_r r = word_of_int a" "dmx_data_r r = word_of_int v" "dmx_size_r r = 1" "dmx_busy r"
  shows "DMX_data_in r = channel_effect a v (DMX_data r)"
proof (cases "1 \<le> a \<and> a \<le> 512")
  case True
  have "(ucast (word_of_int v :: u32) :: u8) = word_of_int v"
    by (rule bit_word_eqI) (simp add: bit_simps)
  then have "loaded (nat a) (word_of_int v) r"
    using assms True by (simp add: loaded_def)
  moreover have "0 < nat a" "nat a \<le> 512" using True by auto
  ultimately show ?thesis using write_one_channel True assms(5) by (simp add: channel_effect_def)
next
  case False
  then have "\<not> write_en r" using write_en_range [OF assms(1,2,5)] by simp
  with False show ?thesis by (auto simp: DMX_data_in_def channel_effect_def)
qed

lemma started_effect:
  assumes "int32 a" "dmx_addr_r r = word_of_int a" "dmx_data_r r = word_of_int v" "dmx_size_r r = 1"
    and "curr_state r = X_IDLE" "control_r r = 1"
  shows "DMX_data (fold idle (p # q # ps) r) = channel_effect a v (DMX_data r)"
proof -
  define r1 where "r1 = idle p r"
  have "dmx_busy r" using assms(5,6) by (simp add: dmx_busy_def)
  then have 1: "DMX_data r1 = channel_effect a v (DMX_data r)" "curr_state r1 = X_TRANSMIT" "control_r r1 = 0"
      "dmx_addr_r r1 = word_of_int a" "dmx_data_r r1 = word_of_int v" "dmx_size_r r1 = 1"
    using start_effect [OF assms(1-4)] assms(2-6)
    by (simp_all add: r1_def idle_def reg_in_def next_state_def)
  then have "dmx_busy r1" by (simp add: dmx_busy_def)
  from start_effect [OF assms(1) 1(4-6) this]
  have "DMX_data (idle q r1) = channel_effect a v (DMX_data r1)" by (simp add: idle_def)
  also have "\<dots> = channel_effect a v (DMX_data r)" by (simp add: 1(1) channel_effect_def)
  finally have 2: "DMX_data (idle q r1) = channel_effect a v (DMX_data r)" .
  have "settled (idle q r1)"
    using 1(2,3) by (simp add: settled_def idle_def next_state_def reg_in_def)
  from idle_settled [OF this] 2 show ?thesis by (simp add: r1_def)
qed

subsection \<open>The colour chooser stays inside its table\<close>

definition lab4_inv :: "lab4 \<Rightarrow> bool" where
  "lab4_inv s \<longleftrightarrow> 0 \<le> curr_color s \<and> curr_color s \<le> 7"

lemma lab4_signal_color: "curr_color (snd (lab4_signal leds sig s)) = curr_color s"
  by (cases sig) (simp_all add: lab4_receiveData_def lab4_control_c_handler_def Let_def)

lemma lab4_keys_inv: "lab4_inv s \<Longrightarrow> lab4_inv (lab4_keys s)"
  by (simp add: lab4_inv_def lab4_keys_def)

lemma length_colors [simp]: "length colors = 8"
  by (simp add: colors_def)

lemma lab4_loop_total: "lab4_inv s \<Longrightarrow> \<exists>cs s'. lab4_loop leds sigs s = Inr (cs, s') \<and> lab4_inv s'"
proof (induction sigs arbitrary: s)
  case Nil
  then show ?case by (subst lab4_loop.simps) (auto simp: lab4_inv_def Let_def)
next
  case (Cons sig sigs)
  obtain ds t where t: "lab4_signal leds sig s = (ds, t)" by fastforce
  have "lab4_inv t" using lab4_signal_color [of leds sig s] Cons.prems by (simp add: t lab4_inv_def)
  then obtain es s' where "lab4_loop leds sigs (lab4_keys t) = Inr (es, s')" "lab4_inv s'"
    using Cons.IH [OF lab4_keys_inv] by blast
  then show ?case
    using Cons.prems by (subst lab4_loop.simps) (simp add: lab4_inv_def Let_def t)
qed

text \<open>A key press and its release, each an interrupt of its own.\<close>

definition key_stroke :: "string list \<Rightarrow> u32 \<Rightarrow> lab4 \<Rightarrow> lab4" where
  "key_stroke leds k s = lab4_keys (snd (lab4_signal leds (Sig_test k) (lab4_keys (snd (lab4_signal leds (Sig_test k) s)))))"

lemma key_stroke_result:
  assumes "\<not> key0_press s" "\<not> key1_press s" "\<not> key0_reles s" "\<not> key1_reles s"
  shows "key_stroke leds KEY0_BIT s = s\<lparr>curr_color := if curr_color s = 7 then 0 else curr_color s + 1\<rparr>"
    "key_stroke leds KEY1_BIT s = s\<lparr>curr_color := if curr_color s = 0 then 7 else curr_color s - 1\<rparr>"
  using assms
  by (simp_all add: key_stroke_def lab4_receiveData_def lab4_keys_def Let_def)

subsection \<open>Properties\<close>

text \<open>
  Setting a channel from the command line reaches the hardware. With the transmitter
  settled, \<open>dmx_test\<close> with a channel from 1 to 512 leaves exactly that byte of the channel
  memory changed, to the low byte of the value, two clock cycles later and from then on;
  any other channel number changes nothing.
\<close>

lemma dmx_test_sets_channel:
  assumes "settled (hw s)" "int32 a" "2 \<le> length ps"
  shows "DMX_data (fold idle ps (hw (dmx_test (lib_put garbage) a v s))) =
    (if 1 \<le> a \<and> a \<le> 512 then (DMX_data (hw s))[nat a := word_of_int v] else DMX_data (hw s))"
proof -
  define r3 where "r3 = iowrite32 10 1 (iowrite32 9 (word_of_int v) (iowrite32 8 (word_of_int a) (hw s)))"
  define r4 where "r4 = iowrite32 1 1 r3"
  have files: "register_file ''dmx_addr'' 8" "register_file ''dmx_data'' 9" "register_file ''dmx_size'' 10"
      "register_file ''control'' 1" by (simp_all add: register_file_def)
  have hw: "hw (dmx_test (lib_put garbage) a v s) = r4"
    by (simp add: dmx_test_def Let_def lib_put_file [OF files(1)] lib_put_file [OF files(2)]
        lib_put_file [OF files(3)] lib_put_file [OF files(4)] r3_def r4_def)
  have step: "settled (iowrite32 o1 x r)" "DMX_data (iowrite32 o1 x r) = DMX_data r" if "settled r" "o1 \<noteq> 1" for r o1 x
    using clock_settled [OF that(1), of "Bus_write o1 x"] that(2) by (simp_all add: iowrite32_def)
  have r3: "settled r3" "DMX_data r3 = DMX_data (hw s)"
    unfolding r3_def using assms(1) by (simp_all add: step)
  have r4: "DMX_data r4 = DMX_data (hw s)" "curr_state r4 = X_IDLE" "control_r r4 = 1"
      "dmx_addr_r r4 = word_of_int a" "dmx_data_r r4 = word_of_int v" "dmx_size_r r4 = 1"
    using r3 by (simp_all add: r4_def iowrite32_def reg_in_def settled_def next_state_def DMX_data_in_def write_en_def
        dmx_busy_def) (simp_all add: r3_def iowrite32_def reg_in_def)
  obtain p q qs where "ps = p # q # qs"
    using assms(3) by (metis Suc_le_length_iff numeral_2_eq_2)
  then show ?thesis
    using started_effect [OF assms(2) r4(4,5,6,2,3)] by (simp only: hw r4(1) channel_effect_def)
qed

lemma dmx_test_example:
  "DMX_data (fold idle [0, 0, 7] (hw (dmx_test (lib_put 0) 5 300 \<lparr>hw = ece453_reset 0, pid = 0\<rparr>))) =
     (replicate 513 0)[5 := 44]"
proof -
  have "(word_of_int 300 :: u8) = 44" by (simp add: word_of_int_eq_iff)
  then show ?thesis
    using dmx_test_sets_channel [of "\<lparr>hw = ece453_reset 0, pid = 0\<rparr>" 5 "[0, 0, 7]" 0 300]
    by (simp only: settled_def int32_def ece453_reset_def) simp
qed

text \<open>
  The touch controller's reset line is driven without disturbing the other outputs:
  opening sets bit 27 of the output register, closing clears it, and every other bit keeps
  its value; but when all 32 outputs are set both abort, because the value read is the one
  that the library returns for an error.
\<close>

theorem reset_line_driven:
  "(gpio_out_r (hw s) \<noteq> - 1 \<longrightarrow>
     (\<exists>s'. at42qt2120_open lib_get (lib_put garbage) True True s = Inr s' \<and>
        gpio_out_r (hw s') = gpio_out_r (hw s) OR GPIO_OUT_CAP_SEN_RST_MASK) \<and>
     (\<exists>s'. at42qt2120_close lib_get (lib_put garbage) s = Inr s' \<and>
        gpio_out_r (hw s') = gpio_out_r (hw s) AND NOT GPIO_OUT_CAP_SEN_RST_MASK)) \<and>
   (gpio_out_r (hw s) = - 1 \<longrightarrow>
     at42qt2120_open lib_get (lib_put garbage) True True s = Inl Aborted \<and>
     at42qt2120_close lib_get (lib_put garbage) s = Inl Aborted)"
  using out.deassert_reset [of s garbage] out.assert_reset [of s garbage] out.all_ones_aborts [of s garbage]
  by (auto simp: at42qt2120_open_def at42qt2120_close_def at42qt2120_set_slave_address_def)

theorem reset_line_driven_witness:
  "\<exists>s'. at42qt2120_open lib_get (lib_put 0) True True \<lparr>hw = (ece453_reset 0)\<lparr>gpio_out_r := 0x3FF\<rparr>, pid = 0\<rparr> = Inr s' \<and>
     gpio_out_r (hw s') = 0x080003FF"
  using reset_line_driven [of "\<lparr>hw = (ece453_reset 0)\<lparr>gpio_out_r := 0x3FF\<rparr>, pid = 0\<rparr>" 0] by simp

text \<open>
  A program's process id can be registered with the driver but not cleared. \<open>set_pid\<close>
  makes the driver signal the program; \<open>clear_pid\<close> reports success, yet the empty string it
  writes matches no number, so the driver keeps the old id and goes on signalling it.
\<close>

theorem pid_registered_never_cleared:
  "(0 \<le> p \<and> p < 32768 \<longrightarrow> set_pid lib_pid_write p s = Inr (0, s\<lparr>pid := p\<rparr>)) \<and>
   clear_pid lib_pid_write s = (0, s)"
proof (intro conjI impI)
  have "sscanf_d [] = None" by (simp add: sscanf_d_def)
  then show "clear_pid lib_pid_write s = (0, s)"
    by (simp add: clear_pid_def pid_write c_string_def ece453_write_pid_def)
next
  assume p: "0 \<le> p \<and> p < 32768"
  have len: "length (sprintf_nat n) \<le> 5" if "n < 32768" for n
  proof -
    have "n div 10 div 10 div 10 div 10 < 10" using that by simp
    then show ?thesis
      by (subst sprintf_nat.simps, subst sprintf_nat.simps, subst sprintf_nat.simps, subst sprintf_nat.simps,
          subst sprintf_nat.simps) auto
  qed
  have "nat p < 32768" using p by auto
  from len [OF this] have "length (sprintf_i p) \<le> 5" using p by (simp add: sprintf_i_def)
  moreover have "c_string (sprintf_i p @ [CHR 0x00]) = sprintf_i p"
    using sprintf_nat_digits [of "nat p"] p by (auto simp: c_string_def sprintf_i_def takeWhile_tail takeWhile_eq_all_conv)
  moreover have "sscanf_d (sprintf_i p) = Some p" using p by (simp add: sscanf_sprintf_i)
  ultimately show "set_pid lib_pid_write p s = Inr (0, s\<lparr>pid := p\<rparr>)"
    by (simp add: set_pid_def pid_write ece453_write_pid_def Let_def)
qed

theorem pid_registered_never_cleared_witness:
  "set_pid lib_pid_write 1234 \<lparr>hw = ece453_reset 0, pid = 0\<rparr> = Inr (0, \<lparr>hw = ece453_reset 0, pid = 1234\<rparr>) \<and>
   pid (snd (clear_pid lib_pid_write \<lparr>hw = ece453_reset 0, pid = 1234\<rparr>)) = 1234"
  using pid_registered_never_cleared [of 1234 "\<lparr>hw = ece453_reset 0, pid = 0\<rparr>"]
    pid_registered_never_cleared [of 0 "\<lparr>hw = ece453_reset 0, pid = 1234\<rparr>"] by simp

text \<open>
  The colour chooser never reads outside its table and never gets stuck: for every
  sequence of signals the program runs without an error with a colour index from 0 to 7,
  and a stroke of key 0 or key 1 moves one colour forward or back, cyclically.
\<close>

theorem lab4_color_in_table:
  "(\<exists>cs s'. lab4_main leds sigs = Inr (cs, s') \<and> 0 \<le> curr_color s' \<and> curr_color s' \<le> 7) \<and>
   (0 \<le> c \<and> c \<le> 7 \<longrightarrow>
     curr_color (key_stroke leds KEY0_BIT (lab4_init\<lparr>curr_color := c\<rparr>)) = (c + 1) mod 8 \<and>
     curr_color (key_stroke leds KEY1_BIT (lab4_init\<lparr>curr_color := c\<rparr>)) = (c - 1) mod 8)"
proof (intro conjI impI)
  have "lab4_inv lab4_init" by (simp add: lab4_inv_def lab4_init_def)
  then show "\<exists>cs s'. lab4_main leds sigs = Inr (cs, s') \<and> 0 \<le> curr_color s' \<and> curr_color s' \<le> 7"
    using lab4_loop_total [of lab4_init leds sigs] by (auto simp: lab4_main_def lab4_inv_def)
next
  assume c: "0 \<le> c \<and> c \<le> 7"
  show "curr_color (key_stroke leds KEY0_BIT (lab4_init\<lparr>curr_color := c\<rparr>)) = (c + 1) mod 8"
    using c by (subst key_stroke_result) (auto simp: lab4_init_def)
  show "curr_color (key_stroke leds KEY1_BIT (lab4_init\<lparr>curr_color := c\<rparr>)) = (c - 1) mod 8"
    using c by (subst key_stroke_result) (auto simp: lab4_init_def)
qed

theorem lab4_color_in_table_witness:
  "curr_color (key_stroke [] KEY0_BIT (lab4_init\<lparr>curr_color := 7\<rparr>)) = 0"
  using lab4_color_in_table [of "[]" "[]" 7] by simp

text \<open>
  The LED demonstration ends exactly when it is told to: the program leaves its wait
  if and only if a signal for key 0 alone or an interrupt from the keyboard arrives.
\<close>

theorem ws_main_ends_when_told:
  "(ws_main leds sigs \<noteq> None) \<longleftrightarrow> Sig_test KEY0_BIT \<in> set sigs \<or> Sig_int \<in> set sigs"
proof -
  have "(ws_wait sigs True \<noteq> None) \<longleftrightarrow> Sig_test KEY0_BIT \<in> set sigs \<or> Sig_int \<in> set sigs"
  proof (induction sigs)
    case Nil
    then show ?case by (simp add: ws_wait.simps)
  next
    case (Cons sig sigs)
    have "ws_wait sigs False = Some []" by (simp add: ws_wait.simps)
    with Cons show ?case
      by (cases sig; subst ws_wait.simps) (auto simp: ws_receiveData_def ws_control_c_handler_def)
  qed
  then show ?thesis by (simp add: ws_main_def)
qed

end
