(* ===== verification/Board_Programs.thy ===== *)
theory Board_Programs
  imports Ece453_Apps
begin

text \<open>
  The test programs of the base station's board: the walking LED of \<open>apps/lab1/test_gpio.c\<close>,
  the LED and key test \<open>apps/gpio/test_gpio.c\<close>, the keypad test \<open>apps/keypad/test_keypad.c\<close>,
  the display test \<open>apps/ili9341/test_ili9341.c\<close>, and the packet counter
  \<open>firmware/main/testing_programs/udp_server.c\<close>.

  The programs poll. What happens between two polls is an argument, a list with one entry
  for each time the program looks; a program that still runs at the end of the list has the
  result \<open>None\<close>. \<open>gpio_board\<close> extends the interface of the output register with the input
  pins and the identification; the user library over the driver and the register block is
  its interpretation. The display library is not part of the repository: its calls are
  recorded.
\<close>

abbreviation (input) DEVICE_ID_REG :: string where "DEVICE_ID_REG \<equiv> sysfs_dir @ ''device_id''"
abbreviation (input) GPIO_IN_REG :: string where "GPIO_IN_REG \<equiv> sysfs_dir @ ''gpio_in''"
abbreviation (input) GPIO_OUT_LEDS_MASK :: u32 where "GPIO_OUT_LEDS_MASK \<equiv> 0x3FF"
abbreviation (input) GPIO_BUTTON0_MASK :: u32 where "GPIO_BUTTON0_MASK \<equiv> 0x400"
abbreviation (input) GPIO_BUTTON1_MASK :: u32 where "GPIO_BUTTON1_MASK \<equiv> 0x800"
abbreviation (input) GPIO_BUTTON2_MASK :: u32 where "GPIO_BUTTON2_MASK \<equiv> 0x1000"
abbreviation (input) LED0_MASK :: u32 where "LED0_MASK \<equiv> 1"

subsection \<open>The walking LED\<close>

definition lab1_start :: "'s reg_get \<Rightarrow> 's reg_put \<Rightarrow> 's \<Rightarrow> (int \<times> 's) + 's" where
  "lab1_start get put s =
     (case get DEVICE_ID_REG s of (status, s) \<Rightarrow>
        if status = - 1 then Inl (- 1, s)
        else case put GPIO_OUT_REG LED0_MASK s of (status, s) \<Rightarrow>
          if status = - 1 then Inl (- 1, s) else Inr s)"

text \<open>The keys are active low. The new position, if the LED moves.\<close>

definition lab1_move :: "u32 \<Rightarrow> int \<Rightarrow> int option" where
  "lab1_move button_vals curr_led =
     (if button_vals AND GPIO_BUTTON1_MASK = 0 then Some (if curr_led = 9 then 0 else curr_led + 1)
      else if button_vals AND GPIO_BUTTON0_MASK = 0 then Some (if curr_led = 0 then 9 else curr_led - 1)
      else None)"

fun lab1_loop :: "'s reg_get \<Rightarrow> 's reg_put \<Rightarrow> ('s \<Rightarrow> 's) list \<Rightarrow> int \<Rightarrow> 's \<Rightarrow> (int \<times> 's) option" where
  "lab1_loop get put [] curr_led s = None"
| "lab1_loop get put (sleep # ws) curr_led s =
     (case get GPIO_IN_REG (sleep s) of (button_vals, s) \<Rightarrow>
        if button_vals = - 1 then Some (- 1, s)
        else if button_vals AND GPIO_BUTTON2_MASK = 0 then Some (0, s)
        else case lab1_move button_vals curr_led of
          None \<Rightarrow> lab1_loop get put ws curr_led s
        | Some led \<Rightarrow>
            (case put GPIO_OUT_REG (push_bit (nat led) LED0_MASK) s of (status, s) \<Rightarrow>
               if status = - 1 then Some (- 1, s) else lab1_loop get put ws led s))"

definition lab1_finish :: "'s reg_put \<Rightarrow> int \<Rightarrow> 's \<Rightarrow> int \<times> 's" where
  "lab1_finish put status s = (case put GPIO_OUT_REG 0 s of (r, s) \<Rightarrow> (if r = - 1 then - 1 else status, s))"

definition lab1_main :: "'s reg_get \<Rightarrow> 's reg_put \<Rightarrow> ('s \<Rightarrow> 's) list \<Rightarrow> 's \<Rightarrow> (int \<times> 's) option" where
  "lab1_main get put ws s =
     (case lab1_start get put s of
        Inl r \<Rightarrow> Some r
      | Inr s \<Rightarrow> map_option (\<lambda>(status, s). lab1_finish put status s) (lab1_loop get put ws 0 s))"

subsection \<open>LEDs and key\<close>

fun gpio_wait :: "'s reg_get \<Rightarrow> ('s \<Rightarrow> 's) list \<Rightarrow> 's \<Rightarrow> 's option" where
  "gpio_wait get [] s = None"
| "gpio_wait get (w # ws) s =
     (case get GPIO_IN_REG (w s) of (v, s) \<Rightarrow> if v AND GPIO_BUTTON0_MASK \<noteq> 0 then gpio_wait get ws s else Some s)"

definition gpio_main :: "'s reg_get \<Rightarrow> 's reg_put \<Rightarrow> ('s \<Rightarrow> 's) list \<Rightarrow> 's \<Rightarrow> 's option" where
  "gpio_main get put ws s =
     (let s = snd (get DEVICE_ID_REG s); s = snd (put GPIO_OUT_REG GPIO_OUT_LEDS_MASK s) in gpio_wait get ws s)"

subsection \<open>The keypad\<close>

abbreviation (input) AT42QT2120_KEY_STATUS_LO_REG :: u8 where "AT42QT2120_KEY_STATUS_LO_REG \<equiv> 0x03"
abbreviation (input) AT42QT2120_KEY_STATUS_HI_REG :: u8 where "AT42QT2120_KEY_STATUS_HI_REG \<equiv> 0x04"

definition KEYPAD_LOOKUP :: "nat list" where
  "KEYPAD_LOOKUP = [5, 10, 11, 9, 0, 3, 8, 1, 4, 7, 2, 6]"

definition keypad_keys :: "u8 \<Rightarrow> u8 \<Rightarrow> u16" where
  "keypad_keys hi lo = push_bit 8 (ucast (0x0F AND hi)) OR ucast lo"

text \<open>
  Waiting for one electrode, and then for all of them in the order of the table. \<open>rd\<close> is
  \<open>at42qt2120_read\<close> on a bus.
\<close>

fun keypad_wait :: "nat \<Rightarrow> (u8 \<Rightarrow> 'i \<Rightarrow> app_error + (u8 \<times> 'i)) \<Rightarrow> nat \<Rightarrow> 'i \<Rightarrow> (app_error + 'i) option" where
  "keypad_wait 0 rd n i = None"
| "keypad_wait (Suc fuel) rd n i =
     (case rd AT42QT2120_KEY_STATUS_HI_REG i of
        Inl e \<Rightarrow> Some (Inl e)
      | Inr (hi, i) \<Rightarrow>
          (case rd AT42QT2120_KEY_STATUS_LO_REG i of
             Inl e \<Rightarrow> Some (Inl e)
           | Inr (lo, i) \<Rightarrow>
               if keypad_keys hi lo AND push_bit n 1 \<noteq> 0 then Some (Inr i) else keypad_wait fuel rd n i))"

fun keypad_loop :: "nat \<Rightarrow> (u8 \<Rightarrow> 'i \<Rightarrow> app_error + (u8 \<times> 'i)) \<Rightarrow> nat list \<Rightarrow> 'i \<Rightarrow> (app_error + 'i) option" where
  "keypad_loop fuel rd [] i = Some (Inr i)"
| "keypad_loop fuel rd (n # ns) i =
     (case keypad_wait fuel rd n i of
        None \<Rightarrow> None
      | Some (Inl e) \<Rightarrow> Some (Inl e)
      | Some (Inr i) \<Rightarrow> keypad_loop fuel rd ns i)"

definition keypad_main :: "'s reg_get \<Rightarrow> 's reg_put \<Rightarrow> bool \<Rightarrow> bool \<Rightarrow> nat \<Rightarrow> (u8 \<Rightarrow> 'i \<Rightarrow> app_error + (u8 \<times> 'i)) \<Rightarrow>
    's \<Rightarrow> 'i \<Rightarrow> (app_error + ('s \<times> 'i)) option" where
  "keypad_main get put open_ok ioctl_ok fuel rd s i =
     (case at42qt2120_open get put open_ok ioctl_ok s of
        Inl e \<Rightarrow> Some (Inl e)
      | Inr s \<Rightarrow>
          (case keypad_loop fuel rd KEYPAD_LOOKUP i of
             None \<Rightarrow> None
           | Some (Inl e) \<Rightarrow> Some (Inl e)
           | Some (Inr i) \<Rightarrow>
               (case at42qt2120_close get put s of Inl e \<Rightarrow> Some (Inl e) | Inr s \<Rightarrow> Some (Inr (s, i)))))"

subsection \<open>The display\<close>

text \<open>
  The options as \<open>getopt_long\<close> returns them, each with its argument. \<open>device\<close> is a
  parameter of the C function, so an assignment to it stays inside. The standard leaves
  \<open>atoi\<close> open outside the range of an \<open>int\<close>; here it is the value of the digits.
\<close>

record spi_opts =
  spi_mode :: u8
  spi_bits :: u8
  spi_speed :: u32
  spi_delay :: u16

definition atoi :: "string \<Rightarrow> int" where
  "atoi s = (case dropWhile is_space s of
     [] \<Rightarrow> 0
   | c # cs \<Rightarrow> if c = CHR ''-'' then - int (dec_fold 0 cs)
               else if c = CHR ''+'' then int (dec_fold 0 cs) else int (dec_fold 0 (c # cs)))"

fun parse_opts :: "(char \<times> string) list \<Rightarrow> string \<Rightarrow> spi_opts \<Rightarrow> app_error + spi_opts" where
  "parse_opts [] device p = Inr p"
| "parse_opts ((c, optarg) # opts) device p =
     (if c = CHR ''D'' then parse_opts opts optarg p
      else if c = CHR ''s'' then parse_opts opts device (p\<lparr>spi_speed := word_of_int (atoi optarg)\<rparr>)
      else if c = CHR ''d'' then parse_opts opts device (p\<lparr>spi_delay := word_of_int (atoi optarg)\<rparr>)
      else if c = CHR ''b'' then parse_opts opts device (p\<lparr>spi_bits := word_of_int (atoi optarg)\<rparr>)
      else if c = CHR ''l'' then parse_opts opts device (p\<lparr>spi_mode := spi_mode p OR 0x20\<rparr>)
      else if c = CHR ''H'' then parse_opts opts device (p\<lparr>spi_mode := spi_mode p OR 0x01\<rparr>)
      else if c = CHR ''O'' then parse_opts opts device (p\<lparr>spi_mode := spi_mode p OR 0x02\<rparr>)
      else if c = CHR ''L'' then parse_opts opts device (p\<lparr>spi_mode := spi_mode p OR 0x08\<rparr>)
      else if c = CHR ''C'' then parse_opts opts device (p\<lparr>spi_mode := spi_mode p OR 0x04\<rparr>)
      else if c = CHR ''3'' then parse_opts opts device (p\<lparr>spi_mode := spi_mode p OR 0x10\<rparr>)
      else if c = CHR ''N'' then parse_opts opts device (p\<lparr>spi_mode := spi_mode p OR 0x40\<rparr>)
      else if c = CHR ''R'' then parse_opts opts device (p\<lparr>spi_mode := spi_mode p OR 0x80\<rparr>)
      else Inl (Exited 1))"

datatype lcd_call = TM_ILI9341_Open string u8 u8 u32 u16 | TM_ILI9341_Puts u16 u16 string u32 u32 | TM_ILI9341_Close

abbreviation (input) ILI9341_COLOR_GREEN :: u32 where "ILI9341_COLOR_GREEN \<equiv> 0x07E0"
abbreviation (input) ILI9341_COLOR_BLACK :: u32 where "ILI9341_COLOR_BLACK \<equiv> 0"
abbreviation (input) SPI_DEVICE :: string where "SPI_DEVICE \<equiv> ''/dev/spidev32766.0''"

definition ili9341_main :: "(char \<times> string) list \<Rightarrow> app_error + lcd_call list" where
  "ili9341_main opts =
     (let device = SPI_DEVICE in
      case parse_opts opts device \<lparr>spi_mode = 3, spi_bits = 8, spi_speed = 5000000, spi_delay = 0\<rparr> of
        Inl e \<Rightarrow> Inl e
      | Inr p \<Rightarrow> Inr [TM_ILI9341_Open device (spi_mode p) (spi_bits p) (spi_speed p) (spi_delay p),
          TM_ILI9341_Puts 10 10 ''Hello ECE453'' ILI9341_COLOR_GREEN ILI9341_COLOR_BLACK, TM_ILI9341_Close])"

subsection \<open>Counting packets\<close>

text \<open>
  The results of the successive \<open>recvfrom\<close>s, \<open>None\<close> for an error. The outcome is what is
  printed and the exit status, \<open>None\<close> while the program waits for more.
\<close>

fun recv_loop :: "int \<Rightarrow> nat option list \<Rightarrow> int list \<times> nat option" where
  "recv_loop w [] = ([], None)"
| "recv_loop w (None # rs) = ([], Some 1)"
| "recv_loop w (Some recv_len # rs) = (case recv_loop (w + 1) rs of (out, ex) \<Rightarrow> (w # out, ex))"

definition udp_server_main :: "bool \<Rightarrow> bool \<Rightarrow> nat option list \<Rightarrow> int list \<times> nat option" where
  "udp_server_main socket_ok bind_ok rs =
     (if \<not> socket_ok then ([], Some 1) else if \<not> bind_ok then ([], Some 1) else recv_loop 0 rs)"

subsection \<open>The walking LED walks\<close>

text \<open>The reference: a position on a ring of ten, moved by one for each look that sees a key down.\<close>

definition led_step :: "int \<Rightarrow> u32 \<Rightarrow> int" where
  "led_step n v = (if \<not> bit v 11 then (n + 1) mod 10 else if \<not> bit v 10 then (n - 1) mod 10 else n)"

definition led_after :: "u32 list \<Rightarrow> int" where
  "led_after vs = foldl led_step 0 vs"

text \<open>A look that neither fails nor ends the program.\<close>

definition goes_on_with :: "u32 \<Rightarrow> bool" where
  "goes_on_with v \<longleftrightarrow> bit v 12 \<and> v \<noteq> - 1"

lemma mask_bit_clear: "v AND push_bit n 1 = 0 \<longleftrightarrow> \<not> bit v n" if "n < LENGTH('a)" for v :: "'a :: len word"
  by (rule iffI; (rule bit_word_eqI)?) (use that in \<open>auto simp: bit_simps dest: arg_cong [of _ _ "\<lambda>w. bit w n"]\<close>)

lemma button_masks:
  "v AND GPIO_BUTTON0_MASK = 0 \<longleftrightarrow> \<not> bit v 10" "v AND GPIO_BUTTON1_MASK = 0 \<longleftrightarrow> \<not> bit v 11"
  "v AND GPIO_BUTTON2_MASK = 0 \<longleftrightarrow> \<not> bit v 12" for v :: u32
  using mask_bit_clear [of 10 v] mask_bit_clear [of 11 v] mask_bit_clear [of 12 v] by (simp_all add: push_bit_eq_mult)

lemma lab1_move_step:
  assumes "0 \<le> n" "n < 10"
  shows "lab1_move v n = (if bit v 11 \<and> bit v 10 then None else Some (led_step n v))"
proof -
  have "n = 0 \<or> n = 1 \<or> n = 2 \<or> n = 3 \<or> n = 4 \<or> n = 5 \<or> n = 6 \<or> n = 7 \<or> n = 8 \<or> n = 9" using assms by arith
  then show ?thesis by (auto simp: lab1_move_def led_step_def button_masks)
qed

lemma led_step_range: "0 \<le> n \<Longrightarrow> n < 10 \<Longrightarrow> 0 \<le> led_step n v \<and> led_step n v < 10"
  by (simp add: led_step_def)

subsection \<open>What the programs rely on\<close>

locale gpio_board = output_register get put outputs
  for get :: "'s reg_get" and put :: "'s reg_put" and outputs :: "'s \<Rightarrow> u32" +
  fixes ident :: "'s \<Rightarrow> u32" and pause :: "'e \<Rightarrow> 's \<Rightarrow> 's" and levels :: "'e \<Rightarrow> u32" and pauses :: "'e \<Rightarrow> bool"
  assumes get_ident: "fst (get DEVICE_ID_REG s) = ident s" "outputs (snd (get DEVICE_ID_REG s)) = outputs s"
    and get_inputs: "pauses e \<Longrightarrow> fst (get GPIO_IN_REG (pause e s)) = levels e"
    and keep_outputs: "outputs (snd (get GPIO_IN_REG s)) = outputs s" "outputs (pause e s) = outputs s"
begin

lemma start: "ident s \<noteq> - 1 \<Longrightarrow> \<exists>t. lab1_start get put s = Inr t \<and> outputs t = LED0_MASK"
  by (simp add: lab1_start_def get_ident put_outputs prod.case_eq_if)

lemma look:
  assumes "pauses e" "goes_on_with (levels e)" "0 \<le> n" "n < 10" "outputs s = push_bit (nat n) 1"
  shows "\<exists>t. (\<forall>ws. lab1_loop get put (pause e # ws) n s = lab1_loop get put ws (led_step n (levels e)) t) \<and>
    outputs t = push_bit (nat (led_step n (levels e))) 1"
proof (cases "lab1_move (levels e) n")
  case None
  then have "led_step n (levels e) = n"
    using lab1_move_step [OF assms(3,4)] by (auto simp: led_step_def split: if_splits)
  with None assms show ?thesis
    by (intro exI [of _ "snd (get GPIO_IN_REG (pause e s))"])
       (simp add: prod.case_eq_if get_inputs keep_outputs goes_on_with_def button_masks)
next
  case (Some led)
  then have "led = led_step n (levels e)"
    using lab1_move_step [OF assms(3,4)] by (auto split: if_splits)
  with Some assms show ?thesis
    by (intro exI [of _ "snd (put GPIO_OUT_REG (push_bit (nat led) LED0_MASK) (snd (get GPIO_IN_REG (pause e s))))"])
       (simp add: prod.case_eq_if get_inputs put_outputs goes_on_with_def button_masks)
qed

lemma walk:
  assumes "\<forall>e \<in> set es. pauses e \<and> goes_on_with (levels e)" "0 \<le> n" "n < 10" "outputs s = push_bit (nat n) 1"
  shows "\<exists>t. (\<forall>ws. lab1_loop get put (map pause es @ ws) n s =
      lab1_loop get put ws (foldl led_step n (map levels es)) t) \<and>
    outputs t = push_bit (nat (foldl led_step n (map levels es))) 1"
  using assms
proof (induction es arbitrary: n s)
  case (Cons e es)
  from Cons.prems look [of e n s] obtain t where
    t: "\<And>ws. lab1_loop get put (pause e # ws) n s = lab1_loop get put ws (led_step n (levels e)) t"
    "outputs t = push_bit (nat (led_step n (levels e))) 1" by auto
  from Cons.IH [OF _ _ _ t(2)] Cons.prems led_step_range [of n "levels e"] t(1) show ?case by simp
qed auto

lemma ends:
  assumes "pauses e" "levels e \<noteq> - 1" "\<not> bit (levels e) 12"
  shows "\<exists>t. map_option (\<lambda>(status, s). lab1_finish put status s) (lab1_loop get put [pause e] n s) = Some (0, t) \<and>
    outputs t = 0"
  using assms by (simp add: prod.case_eq_if get_inputs button_masks lab1_finish_def put_outputs)

text \<open>The key test lights all LEDs and ends with the first look that sees the key down.\<close>

lemma key_test:
  assumes "\<forall>e \<in> set es. pauses e \<and> bit (levels e) 10" "pauses e" "\<not> bit (levels e) 10"
  shows "\<exists>t. gpio_main get put (map pause (es @ e # later)) s = Some t \<and> outputs t = GPIO_OUT_LEDS_MASK"
proof -
  have "\<exists>t. gpio_wait get (map pause (es @ e # later)) s = Some t \<and> outputs t = outputs s" for s
    using assms(1)
  proof (induction es arbitrary: s)
    case Nil
    then show ?case using assms(2,3) by (simp add: prod.case_eq_if get_inputs keep_outputs button_masks)
  next
    case (Cons d es)
    then obtain t where "gpio_wait get (map pause (es @ e # later)) (snd (get GPIO_IN_REG (pause d s))) = Some t"
        "outputs t = outputs s" using Cons.IH [of "snd (get GPIO_IN_REG (pause d s))"] by (auto simp: keep_outputs)
    with Cons.prems show ?case by (simp add: prod.case_eq_if get_inputs button_masks)
  qed
  then show ?thesis by (metis gpio_main_def put_outputs(2))
qed

end

text \<open>
  The board: between two looks some clock cycles pass, at least one, with any levels on the
  pins; the program sees the last ones.
\<close>

definition cycles :: "u32 list \<Rightarrow> ece453 driver \<Rightarrow> ece453 driver" where
  "cycles ps s = s\<lparr>hw := fold idle ps (hw s)\<rparr>"

lemma reg_read_input:
  "ece453_reg_read rd wr GPIO_IN_REG s = (fst (rd 5 (hw s)), s\<lparr>hw := snd (rd 5 (hw s))\<rparr>)"
  "ece453_reg_read rd wr DEVICE_ID_REG s = (fst (rd 0 (hw s)), s\<lparr>hw := snd (rd 0 (hw s))\<rparr>)"
proof -
  have "Option.bind (lookup_attr rd wr GPIO_IN_REG) show_fn = Some (show_reg rd 5)"
    "Option.bind (lookup_attr rd wr DEVICE_ID_REG) show_fn = Some (show_reg rd 0)"
    by (simp_all add: lookup_file attrs_def ece453_read_gpio_in_def ece453_read_device_id_def)
  then show "ece453_reg_read rd wr GPIO_IN_REG s = (fst (rd 5 (hw s)), s\<lparr>hw := snd (rd 5 (hw s))\<rparr>)"
    "ece453_reg_read rd wr DEVICE_ID_REG s = (fst (rd 0 (hw s)), s\<lparr>hw := snd (rd 0 (hw s))\<rparr>)"
    using user_text.scan_print_line(2)
    by (simp_all add: ece453_reg_read_def sysfs_read_def show_reg_def prod.case_eq_if)
qed

lemma idle_gpio: "gpio_out_r (fold idle ps r) = gpio_out_r r" "ps \<noteq> [] \<Longrightarrow> gpio_in_r (fold idle ps r) = last ps"
proof -
  show "gpio_out_r (fold idle ps r) = gpio_out_r r"
    by (induction ps arbitrary: r) (simp_all add: idle_def clock_def reg_in_def)
  show "gpio_in_r (fold idle ps r) = last ps" if "ps \<noteq> []"
    using that by (induction ps arbitrary: r) (auto simp: idle_def)
qed

interpretation board: gpio_board lib_get "lib_put garbage" "\<lambda>s. gpio_out_r (hw s)" "\<lambda>s. dev_id_r (hw s)" cycles last "\<lambda>ps. ps \<noteq> []"
  by unfold_locales
     (simp_all add: lib_get_def reg_read_input cycles_def idle_gpio ioread32_def slave_readdata_def clock_def reg_in_def)

text \<open>
  The LED of the first laboratory walks. Seen through user library, driver and register
  block, the program lights LED 0; each look that finds key 1 or key 0 down moves the one
  lit LED up or down on the ring of ten; and the look that finds key 2 down ends the program
  with status 0 and all outputs off.
\<close>

theorem lab1_led_walks:
  assumes "dev_id_r (hw s) \<noteq> - 1" and "\<forall>ps \<in> set pss. ps \<noteq> [] \<and> goes_on_with (last ps)"
    and "qs \<noteq> []" and "last qs \<noteq> - 1" and "\<not> bit (last qs) 12"
  shows "\<exists>s1 s2 s3. lab1_start lib_get (lib_put garbage) s = Inr s1 \<and>
    (\<forall>ws. lab1_loop lib_get (lib_put garbage) (map cycles pss @ ws) 0 s1 =
       lab1_loop lib_get (lib_put garbage) ws (led_after (map last pss)) s2) \<and>
    gpio_out_r (hw s2) = push_bit (nat (led_after (map last pss))) 1 \<and>
    lab1_main lib_get (lib_put garbage) (map cycles (pss @ [qs])) s = Some (0, s3) \<and> gpio_out_r (hw s3) = 0"
proof -
  obtain s1 where s1: "lab1_start lib_get (lib_put garbage) s = Inr s1" "gpio_out_r (hw s1) = LED0_MASK"
    using board.start [OF assms(1)] by blast
  obtain s2 where s2: "\<And>ws. lab1_loop lib_get (lib_put garbage) (map cycles pss @ ws) 0 s1 =
       lab1_loop lib_get (lib_put garbage) ws (led_after (map last pss)) s2"
     "gpio_out_r (hw s2) = push_bit (nat (led_after (map last pss))) 1"
    using board.walk [OF assms(2), of 0 s1] s1(2) unfolding led_after_def by auto
  obtain s3 where "map_option (\<lambda>(status, s). lab1_finish (lib_put garbage) status s)
      (lab1_loop lib_get (lib_put garbage) [cycles qs] (led_after (map last pss)) s2) = Some (0, s3)" "gpio_out_r (hw s3) = 0"
    using board.ends [OF assms(3-5)] by blast
  with s1 s2 show ?thesis by (intro exI [of _ s1] exI [of _ s2] exI [of _ s3]) (simp add: lab1_main_def)
qed

theorem lab1_led_walks_witness:
  "led_after (map last [[0x1C00], [0x1400], [0x1800, 0x1400]]) = 2 \<and>
   (\<exists>s3. lab1_main lib_get (lib_put 0) (map cycles ([[0x1C00], [0x1400], [0x1800, 0x1400]] @ [[0x0C00]]))
      \<lparr>hw = ece453_reset 0, pid = 0\<rparr> = Some (0, s3) \<and> gpio_out_r (hw s3) = 0)"
proof
  show "led_after (map last [[0x1C00], [0x1400], [0x1800, 0x1400]]) = 2" by (simp add: led_after_def led_step_def)
  show "\<exists>s3. lab1_main lib_get (lib_put 0) (map cycles ([[0x1C00], [0x1400], [0x1800, 0x1400]] @ [[0x0C00]]))
      \<lparr>hw = ece453_reset 0, pid = 0\<rparr> = Some (0, s3) \<and> gpio_out_r (hw s3) = 0"
  proof -
    have h: "dev_id_r (hw \<lparr>hw = ece453_reset 0, pid = 0\<rparr>) \<noteq> - 1"
        "\<forall>ps \<in> set [[0x1C00], [0x1400], [0x1800, 0x1400]]. ps \<noteq> [] \<and> goes_on_with (last ps)"
        "[0x0C00 :: u32] \<noteq> []" "last [0x0C00 :: u32] \<noteq> - 1" "\<not> bit (last [0x0C00 :: u32]) 12"
      by (simp_all add: ece453_reset_def goes_on_with_def)
    show ?thesis using lab1_led_walks [OF h, of 0] by blast
  qed
qed

subsection \<open>The keypad test sees every electrode\<close>

text \<open>A touch controller that shows one word of keys for each poll.\<close>

fun scripted :: "u8 \<Rightarrow> u16 list \<Rightarrow> app_error + (u8 \<times> u16 list)" where
  "scripted reg [] = Inl Aborted"
| "scripted reg (k # ks) =
     (if reg = AT42QT2120_KEY_STATUS_HI_REG then Inr (ucast (drop_bit 8 k), k # ks) else Inr (ucast k, ks))"

lemma keypad_keys_word: "n < 12 \<Longrightarrow> bit (keypad_keys (ucast (drop_bit 8 k)) (ucast k)) n = bit k n"
proof -
  have "(0x0F :: u8) AND hi = take_bit 4 hi" for hi
    by (simp add: take_bit_eq_mask mask_eq_exp_minus_1 and.commute)
  then show "n < 12 \<Longrightarrow> bit (keypad_keys (ucast (drop_bit 8 k)) (ucast k)) n = bit k n"
    unfolding keypad_keys_def by (auto simp: bit_simps)
qed

lemma keypad_wait_script:
  assumes "n < 12" "length ks < fuel"
  shows "keypad_wait fuel scripted n ks =
    Some (case dropWhile (\<lambda>k. \<not> bit k n) ks of [] \<Rightarrow> Inl Aborted | _ # rest \<Rightarrow> Inr rest)"
  using assms(2)
proof (induction ks arbitrary: fuel)
  case Nil
  then show ?case by (cases fuel) simp_all
next
  case (Cons k ks)
  then obtain f where "fuel = Suc f" "length ks < f" by (cases fuel) auto
  then show ?case
    using Cons.IH [of f] assms(1) mask_bit_clear [of n "keypad_keys (ucast (drop_bit 8 k)) (ucast k)"]
    by (simp add: keypad_keys_word)
qed

lemma KEYPAD_LOOKUP_permutation: "distinct KEYPAD_LOOKUP" "set KEYPAD_LOOKUP = {0..<12}"
  unfolding atLeastLessThan_upt by code_simp+

text \<open>Touching the electrodes one after the other, in the order of the table, passes the test.\<close>

lemma keypad_passes:
  "length ks < fuel \<Longrightarrow> set ns \<subseteq> {0..<12} \<Longrightarrow> ks = map (\<lambda>n. push_bit n 1) ns \<Longrightarrow> keypad_loop fuel scripted ns ks = Some (Inr [])"
proof (induction ns arbitrary: ks)
  case (Cons n ns)
  then have "keypad_wait fuel scripted n ks = Some (Inr (map (\<lambda>n. push_bit n 1) ns))"
    using keypad_wait_script [of n ks fuel] by (simp add: bit_simps)
  with Cons show ?case by simp
qed simp

subsection \<open>The display test ignores the device option\<close>

lemma parse_opts_device: "parse_opts opts device p = parse_opts opts [] p"
proof (induction opts arbitrary: device p)
  case (Cons x opts)
  then show ?case by (cases x) (simp only: parse_opts.simps Cons.IH [of device])
qed simp

lemma device_option_ignored:
  "ili9341_main ((CHR ''D'', path) # opts) = ili9341_main opts"
  using parse_opts_device [of opts path] parse_opts_device [of opts SPI_DEVICE] by (simp add: ili9341_main_def Let_def)

subsection \<open>The packet counter counts\<close>

lemma recv_loop_counts:
  "recv_loop w (map Some ns @ rs) = (case recv_loop (w + int (length ns)) rs of (out, ex) \<Rightarrow> (map (\<lambda>i. w + int i) [0..<length ns] @ out, ex))"
proof (induction ns arbitrary: w)
  case (Cons n ns)
  have "map (\<lambda>i. w + int i) [0..<Suc (length ns)] = w # map (\<lambda>i. w + 1 + int i) [0..<length ns]"
    by (simp add: upt_conv_Cons map_Suc_upt [symmetric] del: upt_Suc)
  then show ?case using Cons.IH [of "w + 1"] by (simp add: prod.case_eq_if add.assoc [symmetric] del: upt_Suc)
qed simp

lemma udp_server_counts:
  "udp_server_main True True (map Some ns @ [None]) = (map int [0..<length ns], Some 1)"
  by (simp add: udp_server_main_def recv_loop_counts)

end
