(* ===== verification/Dmx_Transmitter.thy ===== *)
theory Dmx_Transmitter
  imports Ece453_Device
begin

text \<open>
  The transmitter of \<open>dmx_module/dmx512.sv\<close>, one clock edge at a time. Its channel memory is
  part of the register block (\<open>Ece453_Device\<close>), which writes it; here it is an input of
  every cycle. The theory shows the waveform of a packet: idle, break, mark after break,
  then the start code and the 512 channels, each with a start bit, eight data bits, low bit
  first, and two stop bits.

  The comments of the source give the lengths in cycles as the values the timer is compared
  with. As the timer counts from zero and the comparison ends the phase, each phase is one
  cycle longer.
\<close>

subsection \<open>The state machine\<close>

datatype dmx_phase = D_IDLE | D_BREAK | D_MAB | D_TRANSMIT

record dmx512 =
  dmx_state :: dmx_phase
  frame_addr :: "10 word"
  shift_reg :: "11 word"
  bit_count :: "4 word"
  timer :: "13 word"

definition dmx512_reset :: dmx512 where
  "dmx512_reset = \<lparr>dmx_state = D_IDLE, frame_addr = 0, shift_reg = 0, bit_count = 0, timer = 0\<rparr>"

text \<open>The control signals of the combinational block.\<close>

record dmx_control =
  dmx_signal :: bool
  next_dmx :: dmx_phase
  first_frame :: bool
  next_frame :: bool
  shift_load :: bool
  shift_bit :: bool
  timer_rst :: bool

definition dmx_default :: dmx_control where
  "dmx_default = \<lparr>dmx_signal = True, next_dmx = D_IDLE, first_frame = False, next_frame = False,
     shift_load = False, shift_bit = False, timer_rst = False\<rparr>"

definition dmx_comb :: "dmx512 \<Rightarrow> dmx_control" where
  "dmx_comb d = (case dmx_state d of
     D_IDLE \<Rightarrow> if timer d = 2500 then dmx_default\<lparr>next_dmx := D_BREAK, timer_rst := True\<rparr> else dmx_default
   | D_BREAK \<Rightarrow>
       if timer d = 5000
       then dmx_default\<lparr>dmx_signal := False, next_dmx := D_MAB, first_frame := True, timer_rst := True\<rparr>
       else dmx_default\<lparr>dmx_signal := False, next_dmx := D_BREAK\<rparr>
   | D_MAB \<Rightarrow>
       if timer d = 600
       then dmx_default\<lparr>next_dmx := D_TRANSMIT, next_frame := True, shift_load := True, timer_rst := True\<rparr>
       else dmx_default\<lparr>next_dmx := D_MAB\<rparr>
   | D_TRANSMIT \<Rightarrow>
       (let c = dmx_default\<lparr>dmx_signal := bit (shift_reg d) 0, next_dmx := D_TRANSMIT\<rparr> in
        if timer d = 200 then
          (if bit_count d \<noteq> 10 then c\<lparr>shift_bit := True, timer_rst := True\<rparr>
           else if frame_addr d \<noteq> 513 then c\<lparr>next_frame := True, shift_load := True, timer_rst := True\<rparr>
           else c\<lparr>next_dmx := D_IDLE, timer_rst := True\<rparr>)
        else c))"

text \<open>A frame in the shift register: two stop bits, the byte, the start bit.\<close>

definition frame_word :: "u8 \<Rightarrow> 11 word" where
  "frame_word v = push_bit 9 3 OR push_bit 1 (ucast v)"

definition dmx_clock :: "u8 list \<Rightarrow> dmx512 \<Rightarrow> dmx512" where
  "dmx_clock mem d =
     (let c = dmx_comb d in
      \<lparr>dmx_state = next_dmx c,
       frame_addr = (if first_frame c then 0 else if next_frame c then frame_addr d + 1 else frame_addr d),
       shift_reg = (if shift_load c then frame_word (mem ! unat (frame_addr d))
                    else if shift_bit c then drop_bit 1 (shift_reg d) else shift_reg d),
       bit_count = (if shift_load c then 0 else if shift_bit c then bit_count d + 1 else bit_count d),
       timer = (if timer_rst c then 0 else timer d + 1)\<rparr>)"

subsection \<open>The output\<close>

text \<open>The levels of the line over a number of cycles, given the memory of each cycle.\<close>

primrec line_out :: "u8 list list \<Rightarrow> dmx512 \<Rightarrow> bool list" where
  "line_out [] d = []"
| "line_out (m # ms) d = dmx_signal (dmx_comb d) # line_out ms (dmx_clock m d)"

primrec dmx_run :: "u8 list list \<Rightarrow> dmx512 \<Rightarrow> dmx512" where
  "dmx_run [] d = d"
| "dmx_run (m # ms) d = dmx_run ms (dmx_clock m d)"

lemma line_out_append: "line_out (ms @ ns) d = line_out ms d @ line_out ns (dmx_run ms d)"
  by (induction ms arbitrary: d) simp_all

lemma dmx_run_append: "dmx_run (ms @ ns) d = dmx_run ns (dmx_run ms d)"
  by (induction ms arbitrary: d) simp_all

text \<open>
  A phase with a constant level: the states \<open>s 0\<close> to \<open>s n\<close> follow one another, and the
  cycle of \<open>s n\<close> ends the phase.
\<close>

lemma hold:
  assumes "\<And>t. t \<le> n \<Longrightarrow> dmx_signal (dmx_comb (s t)) = b" and "\<And>t. t < n \<Longrightarrow> dmx_clock mem (s t) = s (Suc t)"
    and "dmx_clock mem (s n) = s'"
  shows "line_out (replicate (Suc n) mem) (s 0) = replicate (Suc n) b \<and> dmx_run (replicate (Suc n) mem) (s 0) = s'"
proof -
  have "line_out (replicate (Suc (n - k)) mem) (s k) = replicate (Suc (n - k)) b \<and>
      dmx_run (replicate (Suc (n - k)) mem) (s k) = s'" if "k \<le> n" for k
    using that
  proof (induction "n - k" arbitrary: k)
    case 0
    then show ?case using assms(1,3) by simp
  next
    case (Suc m)
    then have "k < n" "m = n - Suc k" "n - k = Suc m" by simp_all
    then show ?case using Suc.hyps(1) [of "Suc k"] assms(1) [of k] assms(2) [of k] by simp
  qed
  from this [of 0] show ?thesis by simp
qed

lemma timer_neq: "t < n \<Longrightarrow> n < 8192 \<Longrightarrow> (of_nat t :: 13 word) \<noteq> of_nat n"
  by (simp add: word_unat_eq_iff unat_of_nat)

text \<open>The phases before the frames.\<close>

lemma idle_phase:
  "line_out (replicate 2501 mem) (d\<lparr>dmx_state := D_IDLE, timer := 0\<rparr>) = replicate 2501 True \<and>
   dmx_run (replicate 2501 mem) (d\<lparr>dmx_state := D_IDLE, timer := 0\<rparr>) = d\<lparr>dmx_state := D_BREAK, timer := 0\<rparr>"
  using hold [of 2500 "\<lambda>t. d\<lparr>dmx_state := D_IDLE, timer := of_nat t\<rparr>" True mem "d\<lparr>dmx_state := D_BREAK, timer := 0\<rparr>"]
    timer_neq [of _ 2500]
  by (simp add: dmx_comb_def dmx_clock_def dmx_default_def Let_def)

lemma break_phase:
  "line_out (replicate 5001 mem) (d\<lparr>dmx_state := D_BREAK, timer := 0\<rparr>) = replicate 5001 False \<and>
   dmx_run (replicate 5001 mem) (d\<lparr>dmx_state := D_BREAK, timer := 0\<rparr>) =
     d\<lparr>dmx_state := D_MAB, timer := 0, frame_addr := 0\<rparr>"
  using hold [of 5000 "\<lambda>t. d\<lparr>dmx_state := D_BREAK, timer := of_nat t\<rparr>" False mem
      "d\<lparr>dmx_state := D_MAB, timer := 0, frame_addr := 0\<rparr>"] timer_neq [of _ 5000]
  by (simp add: dmx_comb_def dmx_clock_def dmx_default_def Let_def)

text \<open>The state at the beginning of a bit: what is left in the shift register, the number of the bit and of the next frame.\<close>

definition sending :: "nat \<Rightarrow> 11 word \<Rightarrow> nat \<Rightarrow> dmx512" where
  "sending f w k = \<lparr>dmx_state = D_TRANSMIT, frame_addr = of_nat f, shift_reg = w, bit_count = of_nat k, timer = 0\<rparr>"

lemma mab_phase:
  "line_out (replicate 601 mem) (d\<lparr>dmx_state := D_MAB, timer := 0, frame_addr := 0\<rparr>) = replicate 601 True \<and>
   dmx_run (replicate 601 mem) (d\<lparr>dmx_state := D_MAB, timer := 0, frame_addr := 0\<rparr>) = sending 1 (frame_word (mem ! 0)) 0"
  using hold [of 600 "\<lambda>t. d\<lparr>dmx_state := D_MAB, timer := of_nat t, frame_addr := 0\<rparr>" True mem
      "sending 1 (frame_word (mem ! 0)) 0"] timer_neq [of _ 600]
  by (simp add: dmx_comb_def dmx_clock_def dmx_default_def Let_def sending_def)

lemma bit_phase:
  assumes "d' = (if k \<noteq> 10 then sending f (drop_bit 1 w) (Suc k)
     else if f \<noteq> 513 then sending (Suc f) (frame_word (mem ! f)) 0
     else (sending f w k)\<lparr>dmx_state := D_IDLE\<rparr>)"
    and "k \<le> 10" and "f \<le> 513"
  shows "line_out (replicate 201 mem) (sending f w k) = replicate 201 (bit w 0) \<and>
    dmx_run (replicate 201 mem) (sending f w k) = d'"
proof -
  have k: "(of_nat k :: 4 word) = 10 \<longleftrightarrow> k = 10" using assms(2) by (simp add: word_unat_eq_iff unat_of_nat)
  have f: "(of_nat f :: 10 word) = 513 \<longleftrightarrow> f = 513" "unat (of_nat f :: 10 word) = f"
    using assms(3) by (simp_all add: word_unat_eq_iff unat_of_nat)
  define s where "s t = (sending f w k)\<lparr>timer := of_nat t\<rparr>" for t
  have sel: "dmx_state (s t) = D_TRANSMIT" "timer (s t) = of_nat t" "bit_count (s t) = of_nat k"
      "frame_addr (s t) = of_nat f" "shift_reg (s t) = w" for t
    by (simp_all add: s_def sending_def)
  have comb: "dmx_comb (s t) = (let c = dmx_default\<lparr>dmx_signal := bit w 0, next_dmx := D_TRANSMIT\<rparr> in
        if (of_nat t :: 13 word) = 200 then
          (if k \<noteq> 10 then c\<lparr>shift_bit := True, timer_rst := True\<rparr>
           else if f \<noteq> 513 then c\<lparr>next_frame := True, shift_load := True, timer_rst := True\<rparr>
           else c\<lparr>next_dmx := D_IDLE, timer_rst := True\<rparr>)
        else c)" for t
    unfolding dmx_comb_def sel k f by simp
  have "line_out (replicate (Suc 200) mem) (s 0) = replicate (Suc 200) (bit w 0) \<and> dmx_run (replicate (Suc 200) mem) (s 0) = d'"
  proof (rule hold)
    show "dmx_signal (dmx_comb (s t)) = bit w 0" for t
      unfolding comb by (simp add: Let_def)
    show "dmx_clock mem (s t) = s (Suc t)" if "t < 200" for t
      using timer_neq [OF that] unfolding dmx_clock_def comb by (simp add: Let_def s_def sending_def dmx_default_def)
    show "dmx_clock mem (s 200) = d'"
      unfolding dmx_clock_def comb assms(1)
      by (simp add: Let_def s_def sending_def dmx_default_def f(2))
  qed
  then show ?thesis by (simp add: s_def sending_def)
qed

text \<open>A frame: eleven bits, each for 201 cycles.\<close>

definition frame_levels :: "11 word \<Rightarrow> nat \<Rightarrow> bool list" where
  "frame_levels w n = concat (map (\<lambda>k. replicate 201 (bit w k)) [0..<n])"

definition after_frame :: "u8 list \<Rightarrow> nat \<Rightarrow> 11 word \<Rightarrow> dmx512" where
  "after_frame mem f w = (if f \<noteq> 513 then sending (Suc f) (frame_word (mem ! f)) 0
     else (sending f (drop_bit 10 w) 10)\<lparr>dmx_state := D_IDLE\<rparr>)"

lemma frame_levels_Suc: "frame_levels w (Suc n) = replicate 201 (bit w 0) @ frame_levels (drop_bit 1 w) n"
proof -
  have "[0..<Suc n] = 0 # map Suc [0..<n]" by (simp add: map_Suc_upt upt_conv_Cons del: upt_Suc)
  then show ?thesis by (simp add: frame_levels_def o_def bit_simps del: upt_Suc)
qed

lemma bits_from:
  assumes "k \<le> 10" and "f \<le> 513"
  shows "line_out (replicate (201 * (11 - k)) mem) (sending f (drop_bit k w) k) = frame_levels (drop_bit k w) (11 - k) \<and>
    dmx_run (replicate (201 * (11 - k)) mem) (sending f (drop_bit k w) k) = after_frame mem f w"
  using assms(1)
proof (induction "10 - k" arbitrary: k)
  case 0
  then have k: "k = 10" by simp
  have one: "frame_levels v 1 = replicate 201 (bit v 0)" for v by (simp add: frame_levels_def)
  show ?case
    using bit_phase [OF refl, of 10 f mem "drop_bit 10 w"] assms(2)
    by (auto simp: k after_frame_def one [unfolded One_nat_def])
next
  case (Suc m)
  then have k: "k < 10" "m = 10 - Suc k" "Suc k \<le> 10" by simp_all
  have len: "201 * (11 - k) = 201 + 201 * (11 - Suc k)" using k(1) by simp
  have eleven: "11 - k = Suc (11 - Suc k)" using k(1) by simp
  have d: "drop_bit 1 (drop_bit k w) = drop_bit (Suc k) w" by simp
  note b = bit_phase [OF refl, of k f mem "drop_bit k w"]
  note IH = Suc.hyps(1) [OF k(2,3)]
  have b': "line_out (replicate 201 mem) (sending f (drop_bit k w) k) = replicate 201 (bit (drop_bit k w) 0)"
      "dmx_run (replicate 201 mem) (sending f (drop_bit k w) k) = sending f (drop_bit (Suc k) w) (Suc k)"
    using b k(1) assms(2) d by simp_all
  have rep: "replicate (201 * (11 - k)) mem = replicate 201 mem @ replicate (201 * (11 - Suc k)) mem"
    by (simp only: len replicate_add)
  show ?case
    unfolding rep line_out_append dmx_run_append b' using IH by (simp only: eleven frame_levels_Suc d)
qed

lemma frame_phase:
  "f \<le> 513 \<Longrightarrow> line_out (replicate 2211 mem) (sending f w 0) = frame_levels w 11 \<and>
    dmx_run (replicate 2211 mem) (sending f w 0) = after_frame mem f w"
  using bits_from [of 0 f mem w] by simp

text \<open>What a receiver of the standard expects of a byte: start bit, data, stop bits.\<close>

definition byte_levels :: "u8 \<Rightarrow> bool list" where
  "byte_levels v = concat (map (replicate 201) ([False] @ map (bit v) [0..<8] @ [True, True]))"

lemma bit_frame_word: "bit (frame_word v) k \<longleftrightarrow> (1 \<le> k \<and> k \<le> 8 \<and> bit v (k - 1)) \<or> k = 9 \<or> k = 10"
proof -
  have m: "(3 :: 11 word) = mask 2" by (simp add: mask_numeral)
  have "bit (frame_word v) k \<longleftrightarrow> k < 11 \<and> (9 \<le> k \<or> 1 \<le> k \<and> bit v (k - 1))"
    unfolding frame_word_def m bit_or_iff bit_push_bit_iff bit_ucast_iff
    by (cases "k < 11") (auto simp: bit_simps possible_bit_def)
  moreover have "bit v (k - 1) \<Longrightarrow> k \<le> 8" using bit_imp_le_length [of v "k - 1"] by simp
  moreover have "k < 11 \<and> 9 \<le> k \<longleftrightarrow> k = 9 \<or> k = 10" by linarith
  ultimately show ?thesis by (cases "bit v (k - 1)") auto
qed

lemma frame_levels_byte: "frame_levels (frame_word v) 11 = byte_levels v"
  by (simp add: frame_levels_def byte_levels_def bit_frame_word upt_rec del: replicate.simps)

lemma frames_from:
  assumes "1 \<le> f" and "f \<le> 513"
  shows "line_out (replicate (2211 * (514 - f)) mem) (sending f (frame_word (mem ! (f - 1))) 0) =
      concat (map (\<lambda>i. byte_levels (mem ! i)) [f - 1..<513]) \<and>
    dmx_state (dmx_run (replicate (2211 * (514 - f)) mem) (sending f (frame_word (mem ! (f - 1))) 0)) = D_IDLE \<and>
    timer (dmx_run (replicate (2211 * (514 - f)) mem) (sending f (frame_word (mem ! (f - 1))) 0)) = 0"
  using assms
proof (induction "513 - f" arbitrary: f)
  case 0
  then have f: "f = 513" by simp
  have u: "[512..<513] = [512 :: nat]" by (simp add: upt_rec)
  show ?case
    using frame_phase [of 513 mem "frame_word (mem ! 512)"]
    by (simp add: f after_frame_def sending_def frame_levels_byte u)
next
  case (Suc m)
  then have f: "f < 513" "m = 513 - Suc f" "1 \<le> Suc f" "Suc f \<le> 513" by simp_all
  note IH = Suc.hyps(1) [OF f(2-4)]
  have len: "2211 * (514 - f) = 2211 + 2211 * (514 - Suc f)" using f(1) by simp
  have rep: "replicate (2211 * (514 - f)) mem = replicate 2211 mem @ replicate (2211 * (514 - Suc f)) mem"
    by (simp only: len replicate_add)
  have fr: "line_out (replicate 2211 mem) (sending f (frame_word (mem ! (f - 1))) 0) = byte_levels (mem ! (f - 1))"
      "dmx_run (replicate 2211 mem) (sending f (frame_word (mem ! (f - 1))) 0) = sending (Suc f) (frame_word (mem ! (Suc f - 1))) 0"
    using frame_phase [of f mem "frame_word (mem ! (f - 1))"] f(1) by (simp_all add: after_frame_def frame_levels_byte)
  have u: "[f - 1..<513] = (f - 1) # [Suc f - 1..<513]" using f(1) Suc.prems(1) by (simp add: upt_conv_Cons)
  show ?case
    unfolding rep line_out_append dmx_run_append fr u using IH by simp
qed

definition packet_levels :: "u8 list \<Rightarrow> bool list" where
  "packet_levels mem = replicate 2501 True @ replicate 5001 False @ replicate 601 True @
     concat (map (\<lambda>i. byte_levels (mem ! i)) [0..<513])"

abbreviation (input) PACKET :: nat where "PACKET \<equiv> 2501 + (5001 + (601 + 2211 * 513))"

lemma packet_phase:
  assumes "dmx_state d = D_IDLE" and "timer d = 0"
  shows "line_out (replicate PACKET mem) d = packet_levels mem \<and>
    dmx_state (dmx_run (replicate PACKET mem) d) = D_IDLE \<and> timer (dmx_run (replicate PACKET mem) d) = 0"
proof -
  have d: "d = d\<lparr>dmx_state := D_IDLE, timer := 0\<rparr>" using assms by simp
  have rep: "replicate PACKET mem =
      replicate 2501 mem @ replicate 5001 mem @ replicate 601 mem @ replicate (2211 * 513) mem"
    by (simp only: replicate_add)
  have i: "line_out (replicate 2501 mem) d = replicate 2501 True"
      "dmx_run (replicate 2501 mem) d = d\<lparr>dmx_state := D_BREAK, timer := 0\<rparr>"
    using idle_phase [of mem d] d by simp_all
  note b = break_phase [of mem d] and m = mab_phase [of mem d]
  have f: "line_out (replicate (2211 * 513) mem) (sending 1 (frame_word (mem ! 0)) 0) =
        concat (map (\<lambda>i. byte_levels (mem ! i)) [0..<513])"
      "dmx_state (dmx_run (replicate (2211 * 513) mem) (sending 1 (frame_word (mem ! 0)) 0)) = D_IDLE"
      "timer (dmx_run (replicate (2211 * 513) mem) (sending 1 (frame_word (mem ! 0)) 0)) = 0"
    using frames_from [of 1 mem] by simp_all
  show ?thesis
    unfolding rep line_out_append dmx_run_append i b [THEN conjunct1] b [THEN conjunct2] m [THEN conjunct1]
      m [THEN conjunct2] f packet_levels_def by simp
qed

text \<open>Packets follow one another without a gap.\<close>

lemma packets:
  assumes "dmx_state d = D_IDLE" and "timer d = 0"
  shows "line_out (concat (map (\<lambda>m. replicate PACKET m) ms)) d = concat (map packet_levels ms) \<and>
    dmx_state (dmx_run (concat (map (\<lambda>m. replicate PACKET m) ms)) d) = D_IDLE \<and>
    timer (dmx_run (concat (map (\<lambda>m. replicate PACKET m) ms)) d) = 0"
  using assms
proof (induction ms arbitrary: d)
  case Nil
  then show ?case by simp
next
  case (Cons m ms)
  note p = packet_phase [OF Cons.prems, of m]
  show ?case
    using Cons.IH [OF p [THEN conjunct2, THEN conjunct1] p [THEN conjunct2, THEN conjunct2]] p [THEN conjunct1]
    by (simp only: list.map concat.simps line_out_append dmx_run_append)
qed

text \<open>
  C10: The transmitter sends the channel memory for ever, packet after packet. From reset, if
  the memory only changes between packets, the levels of the line are exactly the packets
  of the successive contents: 2501 cycles of idle line, 5001 of break, 601 of mark, then for
  the start code and each of the 512 channels in order a start bit, the eight bits of the
  byte from the low one up, and two stop bits, each bit for 201 cycles.
\<close>

theorem dmx_line_carries_memory:
  "line_out (concat (map (\<lambda>m. replicate PACKET m) ms)) dmx512_reset = concat (map packet_levels ms)"
  using packets [of dmx512_reset ms] by (simp add: dmx512_reset_def)

text \<open>Where a channel's frame is in a packet.\<close>

lemma length_byte_levels [simp]: "length (byte_levels v) = 2211"
  by (simp add: byte_levels_def length_concat sum_list_triv o_def)

lemma nth_piece:
  "(\<And>x. length (f x) = n) \<Longrightarrow> i < length xs \<Longrightarrow> take n (drop (n * i) (concat (map f xs))) = f (xs ! i)"
proof (induction xs arbitrary: i)
  case (Cons x xs)
  then show ?case by (cases i) simp_all
qed simp

lemma packet_channel:
  assumes "i < 513"
  shows "take 2211 (drop (8103 + 2211 * i) (packet_levels mem)) = byte_levels (mem ! i)"
proof -
  define h where "h = replicate 2501 True @ replicate 5001 False @ replicate 601 True"
  have h: "length h = 8103" by (simp add: h_def)
  have "packet_levels mem = h @ concat (map (\<lambda>i. byte_levels (mem ! i)) [0..<513])"
    by (simp only: packet_levels_def h_def append_assoc)
  then have "drop (8103 + 2211 * i) (packet_levels mem) =
      drop (2211 * i) (concat (map (\<lambda>i. byte_levels (mem ! i)) [0..<513]))"
    using h by (simp del: upt_rec_numeral)
  then show ?thesis
    using nth_piece [of "\<lambda>i. byte_levels (mem ! i)" 2211 i "[0..<513]"] assms by (simp del: upt_rec_numeral)
qed

end
