(* ===== verification/Uart_State.thy ===== *)
theory Uart_State
  imports Packets
begin

text \<open>
  The state of the serial driver \<open>firmware/main/drivers/uart.c\<close>: the registers and FIFOs
  of the three ports, and the driver object that \<open>uart_driver_install\<close> allocates for a
  port.

  The registers are 32 bit words; \<open>get_field\<close> and \<open>set_field\<close> are the reads and writes of
  their bit fields. The positions of the fields, the values of the enumerations and the
  clock are those of the chip's reference manual, which the headers of the vendor's
  library name. A FIFO is the list of the bytes in it, and \<open>tx_line\<close> records the bytes that left the
  transmit FIFO for the line. Three effects of a register write go
  beyond storing it: a one written to \<open>int_clr\<close> clears the raw interrupt, the two reset
  bits of \<open>conf0\<close> empty a FIFO, and a byte written to the FIFO address joins the transmit
  FIFO.
\<close>

subsection \<open>Bit fields\<close>

definition get_field :: "nat \<times> nat \<Rightarrow> u32 \<Rightarrow> u32" where
  "get_field f x = take_bit (snd f) (drop_bit (fst f) x)"

definition set_field :: "nat \<times> nat \<Rightarrow> u32 \<Rightarrow> u32 \<Rightarrow> u32" where
  "set_field f v x = x AND NOT (push_bit (fst f) (mask (snd f))) OR push_bit (fst f) (take_bit (snd f) v)"

definition in_word :: "nat \<times> nat \<Rightarrow> bool" where
  "in_word f \<longleftrightarrow> fst f + snd f \<le> 32"

definition apart :: "nat \<times> nat \<Rightarrow> nat \<times> nat \<Rightarrow> bool" where
  "apart f g \<longleftrightarrow> fst f + snd f \<le> fst g \<or> fst g + snd g \<le> fst f"

lemma bit_get_field: "bit (get_field f x) n \<longleftrightarrow> n < snd f \<and> bit x (fst f + n)"
  by (auto simp: get_field_def bit_simps)

lemma bit_set_field:
  "bit (set_field f v x) n \<longleftrightarrow>
     (if fst f \<le> n \<and> n < fst f + snd f then n < 32 \<and> bit v (n - fst f) else bit x n)"
  by (auto simp: set_field_def bit_simps not_le not_less dest: bit_imp_le_length)

lemma get_set_field: "in_word f \<Longrightarrow> get_field f (set_field f v x) = take_bit (snd f) v"
  by (rule bit_word_eqI) (auto simp: bit_get_field bit_set_field bit_simps in_word_def)

lemma get_set_field_apart: "apart f g \<Longrightarrow> get_field f (set_field g v x) = get_field f x"
  by (rule bit_word_eqI) (auto simp: bit_get_field bit_set_field apart_def)

lemma set_set_field: "set_field f v (set_field f u x) = set_field f v x"
  by (rule bit_word_eqI) (auto simp: bit_set_field)

lemma bit_set_field_apart: "apart (n, 1) f \<Longrightarrow> bit (set_field f v x) n = bit x n"
  by (auto simp: bit_set_field apart_def)

lemmas field_simps' = get_set_field get_set_field_apart set_set_field in_word_def apart_def

subsection \<open>Constants of the chip\<close>

abbreviation (input) UART_NUM_MAX :: nat where "UART_NUM_MAX \<equiv> 3"
abbreviation (input) UART_FIFO_LEN :: nat where "UART_FIFO_LEN \<equiv> 128"
abbreviation (input) UART_CLK_FREQ :: u32 where "UART_CLK_FREQ \<equiv> 80000000"
abbreviation (input) UART_BITRATE_MAX :: u32 where "UART_BITRATE_MAX \<equiv> 5000000"

abbreviation (input) UART_DATA_BITS_MAX :: u32 where "UART_DATA_BITS_MAX \<equiv> 4"
abbreviation (input) UART_STOP_BITS_1 :: u32 where "UART_STOP_BITS_1 \<equiv> 1"
abbreviation (input) UART_STOP_BITS_2 :: u32 where "UART_STOP_BITS_2 \<equiv> 3"
abbreviation (input) UART_STOP_BITS_MAX :: u32 where "UART_STOP_BITS_MAX \<equiv> 4"
abbreviation (input) UART_PARITY_DISABLE :: u32 where "UART_PARITY_DISABLE \<equiv> 0"
abbreviation (input) UART_PARITY_EVEN :: u32 where "UART_PARITY_EVEN \<equiv> 2"
abbreviation (input) UART_PARITY_ODD :: u32 where "UART_PARITY_ODD \<equiv> 3"
abbreviation (input) UART_HW_FLOWCTRL_DISABLE :: u32 where "UART_HW_FLOWCTRL_DISABLE \<equiv> 0"
abbreviation (input) UART_HW_FLOWCTRL_RTS :: u32 where "UART_HW_FLOWCTRL_RTS \<equiv> 1"
abbreviation (input) UART_HW_FLOWCTRL_CTS :: u32 where "UART_HW_FLOWCTRL_CTS \<equiv> 2"
abbreviation (input) UART_HW_FLOWCTRL_MAX :: u32 where "UART_HW_FLOWCTRL_MAX \<equiv> 4"

text \<open>Interrupt numbers: the bit an interrupt has in \<open>int_raw\<close>, \<open>int_ena\<close> and \<open>int_clr\<close>.\<close>

abbreviation (input) RXFIFO_FULL :: nat where "RXFIFO_FULL \<equiv> 0"
abbreviation (input) TXFIFO_EMPTY :: nat where "TXFIFO_EMPTY \<equiv> 1"
abbreviation (input) PARITY_ERR :: nat where "PARITY_ERR \<equiv> 2"
abbreviation (input) FRM_ERR :: nat where "FRM_ERR \<equiv> 3"
abbreviation (input) RXFIFO_OVF :: nat where "RXFIFO_OVF \<equiv> 4"
abbreviation (input) BRK_DET :: nat where "BRK_DET \<equiv> 7"
abbreviation (input) RXFIFO_TOUT :: nat where "RXFIFO_TOUT \<equiv> 8"
abbreviation (input) TX_BRK_DONE :: nat where "TX_BRK_DONE \<equiv> 12"
abbreviation (input) TX_BRK_IDLE_DONE :: nat where "TX_BRK_IDLE_DONE \<equiv> 13"
abbreviation (input) TX_DONE :: nat where "TX_DONE \<equiv> 14"
abbreviation (input) AT_CMD_CHAR_DET :: nat where "AT_CMD_CHAR_DET \<equiv> 18"
abbreviation (input) UART_INTR_MASK :: u32 where "UART_INTR_MASK \<equiv> 0x1ff"

text \<open>The mask of one interrupt.\<close>

definition int_mask :: "nat \<Rightarrow> u32" where
  "int_mask n = push_bit n 1"

lemma bit_int_mask: "bit (int_mask n) k \<longleftrightarrow> k = n \<and> n < 32"
  by (auto simp: int_mask_def bit_simps)

subsection \<open>Results\<close>

datatype esp_err_t = ESP_OK | ESP_FAIL | ESP_ERR_TIMEOUT | ESP_ERR_INVALID_ARG | ESP_ERR_OTHER int

subsection \<open>Registers of a port\<close>

record uart_dev =
  conf0 :: u32
  conf1 :: u32
  clk_div :: u32
  rs485_conf :: u32
  flow_conf :: u32
  swfc_conf :: u32
  idle_conf :: u32
  at_cmd_char :: u32
  at_cmd_gaptout :: u32
  at_cmd_postcnt :: u32
  at_cmd_precnt :: u32
  int_raw :: u32
  int_ena :: u32
  rx_fifo :: "u8 list"
  tx_fifo :: "u8 list"
  tx_line :: "u8 list"

abbreviation (input) "PARITY \<equiv> (0::nat, 1::nat)"
abbreviation (input) "PARITY_EN \<equiv> (1::nat, 1::nat)"
abbreviation (input) "BIT_NUM \<equiv> (2::nat, 2::nat)"
abbreviation (input) "STOP_BIT_NUM \<equiv> (4::nat, 2::nat)"
abbreviation (input) "SW_RTS \<equiv> (6::nat, 1::nat)"
abbreviation (input) "SW_DTR \<equiv> (7::nat, 1::nat)"
abbreviation (input) "TXD_BRK \<equiv> (8::nat, 1::nat)"
abbreviation (input) "TX_FLOW_EN \<equiv> (15::nat, 1::nat)"
abbreviation (input) "RXFIFO_RST \<equiv> (17::nat, 1::nat)"
abbreviation (input) "TXFIFO_RST \<equiv> (18::nat, 1::nat)"
abbreviation (input) UART_LINE_INV_MASK :: u32 where "UART_LINE_INV_MASK \<equiv> 0x1F80000"
abbreviation (input) UART_TICK_REF_ALWAYS_ON_M :: u32 where "UART_TICK_REF_ALWAYS_ON_M \<equiv> 0x8000000"

abbreviation (input) "RXFIFO_FULL_THRHD \<equiv> (0::nat, 7::nat)"
abbreviation (input) "TXFIFO_EMPTY_THRHD \<equiv> (8::nat, 7::nat)"
abbreviation (input) "RX_FLOW_THRHD \<equiv> (16::nat, 7::nat)"
abbreviation (input) "RX_FLOW_EN \<equiv> (23::nat, 1::nat)"
abbreviation (input) "RX_TOUT_THRHD \<equiv> (24::nat, 7::nat)"
abbreviation (input) "RX_TOUT_EN \<equiv> (31::nat, 1::nat)"
abbreviation (input) "DIV_INT \<equiv> (0::nat, 20::nat)"
abbreviation (input) "DIV_FRAG \<equiv> (20::nat, 4::nat)"
abbreviation (input) "DL1_EN \<equiv> (2::nat, 1::nat)"
abbreviation (input) "SW_FLOW_CON_EN \<equiv> (0::nat, 1::nat)"
abbreviation (input) "XONOFF_DEL \<equiv> (1::nat, 1::nat)"
abbreviation (input) "XON_THRESHOLD \<equiv> (0::nat, 8::nat)"
abbreviation (input) "XOFF_THRESHOLD \<equiv> (8::nat, 8::nat)"
abbreviation (input) "XON_CHAR \<equiv> (16::nat, 8::nat)"
abbreviation (input) "XOFF_CHAR \<equiv> (24::nat, 8::nat)"
abbreviation (input) "TX_BRK_NUM \<equiv> (20::nat, 8::nat)"
abbreviation (input) "AT_DATA \<equiv> (0::nat, 8::nat)"
abbreviation (input) "AT_CHAR_NUM \<equiv> (8::nat, 8::nat)"
abbreviation (input) "IDLE_24 \<equiv> (0::nat, 24::nat)"

text \<open>Register accesses that do more than store.\<close>

definition int_st :: "uart_dev \<Rightarrow> u32" where
  "int_st d = int_raw d AND int_ena d"

definition int_clr :: "u32 \<Rightarrow> uart_dev \<Rightarrow> uart_dev" where
  "int_clr m d = d\<lparr>int_raw := int_raw d AND NOT m\<rparr>"

definition write_conf0 :: "u32 \<Rightarrow> uart_dev \<Rightarrow> uart_dev" where
  "write_conf0 v d = d\<lparr>conf0 := v,
     rx_fifo := (if bit v (fst RXFIFO_RST) then [] else rx_fifo d),
     tx_fifo := (if bit v (fst TXFIFO_RST) then [] else tx_fifo d)\<rparr>"

definition set_conf0 :: "nat \<times> nat \<Rightarrow> u32 \<Rightarrow> uart_dev \<Rightarrow> uart_dev" where
  "set_conf0 f v d = write_conf0 (set_field f v (conf0 d)) d"

definition int_enable :: "nat \<Rightarrow> uart_dev \<Rightarrow> uart_dev" where
  "int_enable n d = d\<lparr>int_ena := set_bit n (int_ena d)\<rparr>"

definition int_disable :: "nat \<Rightarrow> uart_dev \<Rightarrow> uart_dev" where
  "int_disable n d = d\<lparr>int_ena := unset_bit n (int_ena d)\<rparr>"

definition fifo_write :: "u8 list \<Rightarrow> uart_dev \<Rightarrow> uart_dev" where
  "fifo_write bs d = d\<lparr>tx_fifo := tx_fifo d @ bs\<rparr>"

lemma write_conf0_simps [simp]:
  "conf0 (write_conf0 v d) = v" "conf1 (write_conf0 v d) = conf1 d" "clk_div (write_conf0 v d) = clk_div d"
  "rs485_conf (write_conf0 v d) = rs485_conf d" "int_raw (write_conf0 v d) = int_raw d"
  "int_ena (write_conf0 v d) = int_ena d" "idle_conf (write_conf0 v d) = idle_conf d" "tx_line (write_conf0 v d) = tx_line d"
  by (simp_all add: write_conf0_def)

lemma set_conf0_simps [simp]:
  "conf0 (set_conf0 f v d) = set_field f v (conf0 d)" "conf1 (set_conf0 f v d) = conf1 d"
  "clk_div (set_conf0 f v d) = clk_div d" "rs485_conf (set_conf0 f v d) = rs485_conf d"
  "int_raw (set_conf0 f v d) = int_raw d" "int_ena (set_conf0 f v d) = int_ena d"
  "idle_conf (set_conf0 f v d) = idle_conf d" "tx_line (set_conf0 f v d) = tx_line d"
  by (simp_all add: set_conf0_def)

lemma int_clr_simps [simp]:
  "int_raw (int_clr m d) = int_raw d AND NOT m" "int_ena (int_clr m d) = int_ena d"
  "conf0 (int_clr m d) = conf0 d" "conf1 (int_clr m d) = conf1 d"
  "rx_fifo (int_clr m d) = rx_fifo d" "tx_fifo (int_clr m d) = tx_fifo d" "tx_line (int_clr m d) = tx_line d"
  by (simp_all add: int_clr_def)

lemma int_enable_simps [simp]:
  "int_raw (int_enable n d) = int_raw d" "int_ena (int_enable n d) = set_bit n (int_ena d)"
  "tx_line (int_enable n d) = tx_line d" "tx_line (int_disable n d) = tx_line d"
  "conf0 (int_enable n d) = conf0 d" "rx_fifo (int_enable n d) = rx_fifo d" "tx_fifo (int_enable n d) = tx_fifo d"
  "int_raw (int_disable n d) = int_raw d" "int_ena (int_disable n d) = unset_bit n (int_ena d)"
  "conf0 (int_disable n d) = conf0 d" "rx_fifo (int_disable n d) = rx_fifo d" "tx_fifo (int_disable n d) = tx_fifo d"
  by (simp_all add: int_enable_def int_disable_def)

lemma fifo_write_simps [simp]:
  "int_raw (fifo_write bs d) = int_raw d" "int_ena (fifo_write bs d) = int_ena d"
  "conf0 (fifo_write bs d) = conf0 d" "rx_fifo (fifo_write bs d) = rx_fifo d"
  "tx_fifo (fifo_write bs d) = tx_fifo d @ bs" "tx_line (fifo_write bs d) = tx_line d"
  by (simp_all add: fifo_write_def)

lemma set_conf0_fifos:
  "apart RXFIFO_RST f \<Longrightarrow> \<not> bit (conf0 d) (fst RXFIFO_RST) \<Longrightarrow> rx_fifo (set_conf0 f v d) = rx_fifo d"
  "apart TXFIFO_RST f \<Longrightarrow> \<not> bit (conf0 d) (fst TXFIFO_RST) \<Longrightarrow> tx_fifo (set_conf0 f v d) = tx_fifo d"
  by (simp_all add: set_conf0_def write_conf0_def bit_set_field_apart)

subsection \<open>The driver object of a port\<close>

text \<open>
  A handle that may be \<open>NULL\<close> is an option. A semaphore is whether it can be taken. A
  pointer into an item of a ring buffer is the bytes of the item from there on. The
  transmit ring buffer keeps items apart; the receive ring buffer is a byte buffer, so its
  content is one list. \<open>rx_cur_remain\<close> is a natural number: it is set to a size and only
  reduced by at most itself. Events are the type and the size the handler fills in.
\<close>

datatype uart_event_type_t =
    UART_DATA | UART_BREAK | UART_BUFFER_FULL | UART_FIFO_OVF | UART_FRAME_ERR
  | UART_PARITY_ERR | UART_DATA_BREAK | UART_PATTERN_DET | UART_EVENT_MAX

record uart_event_t =
  ev_type :: uart_event_type_t
  ev_size :: nat

type_synonym sem = "bool option"

record uart_obj =
  uart_num :: nat
  queue_size :: nat
  xQueueUart :: "uart_event_t list option"
  intr_handle :: "nat option"
  rx_buffered_len :: int
  rx_mux :: sem
  rx_buf_size :: int
  rx_ring_buf :: "u8 list option"
  rx_buffer_full_flg :: bool
  rx_cur_remain :: nat
  rx_ptr :: "u8 list option"
  rx_head_ptr :: "u8 list option"
  rx_data_buf :: "u8 list"
  rx_stash_len :: u8
  tx_fifo_sem :: sem
  tx_mux :: sem
  tx_done_sem :: sem
  tx_brk_sem :: sem
  tx_buf_size :: int
  tx_ring_buf :: "u8 list list option"
  tx_waiting_fifo :: bool
  tx_ptr :: "u8 list option"
  tx_head :: "u8 list option"
  tx_len_tot :: u32
  tx_len_cur :: u32
  tx_brk_flg :: u8
  tx_brk_len :: u8
  tx_waiting_brk :: u8

text \<open>A semaphore operation on a handle that is \<open>NULL\<close> stops at FreeRTOS's assertion.\<close>

definition sem_give :: "sem \<Rightarrow> sem result" where
  "sem_give h = (case h of None \<Rightarrow> Inl Assert_failed | Some _ \<Rightarrow> Inr (Some True))"

text \<open>Taking with no time to wait: the answer, and the semaphore after it.\<close>

definition sem_take :: "sem \<Rightarrow> (bool \<times> sem) result" where
  "sem_take h = (case h of None \<Rightarrow> Inl Assert_failed | Some b \<Rightarrow> Inr (b, Some False))"

lemma sem_simps [simp]:
  "sem_give (Some b) = Inr (Some True)" "sem_take (Some b) = Inr (b, Some False)"
  "sem_give None = Inl Assert_failed" "sem_take None = Inl Assert_failed"
  by (simp_all add: sem_give_def sem_take_def)

subsection \<open>The whole driver\<close>

text \<open>The signals of a port that the GPIO matrix can route.\<close>

datatype uart_sig = TXD_OUT nat | RXD_IN nat | RTS_OUT nat | CTS_IN nat

text \<open>What the driver allocates; a size goes with the queue and the ring buffers.\<close>

datatype uart_res =
    Tx_fifo_sem | Tx_done_sem | Tx_brk_sem | Tx_mux | Rx_mux | Event_queue | Rx_ring | Tx_ring | Object

datatype uart_call =
    Periph_module_enable nat
  | Pin_func_gpio int
  | Gpio_set_level_1 int
  | Gpio_set_pull_up int
  | Gpio_set_direction_in int
  | Gpio_set_direction_out int
  | Gpio_matrix_out int uart_sig
  | Gpio_matrix_in int uart_sig
  | Esp_intr_alloc nat
  | Esp_intr_free "nat option"
  | Create uart_res int
  | Delete uart_res

record uart_sys =
  uart_devs :: "nat \<Rightarrow> uart_dev"
  p_uart_obj :: "nat \<Rightarrow> uart_obj option"
  uart_calls :: "uart_call list"

definition on_dev :: "nat \<Rightarrow> (uart_dev \<Rightarrow> uart_dev) \<Rightarrow> uart_sys \<Rightarrow> uart_sys" where
  "on_dev n f s = s\<lparr>uart_devs := (uart_devs s)(n := f (uart_devs s n))\<rparr>"

definition put_obj :: "nat \<Rightarrow> uart_obj option \<Rightarrow> uart_sys \<Rightarrow> uart_sys" where
  "put_obj n p s = s\<lparr>p_uart_obj := (p_uart_obj s)(n := p)\<rparr>"

definition emit :: "uart_call list \<Rightarrow> uart_sys \<Rightarrow> uart_sys" where
  "emit cs s = s\<lparr>uart_calls := uart_calls s @ cs\<rparr>"

lemma on_dev_simps [simp]:
  "uart_devs (on_dev n f s) m = (if m = n then f (uart_devs s n) else uart_devs s m)"
  "p_uart_obj (on_dev n f s) = p_uart_obj s" "uart_calls (on_dev n f s) = uart_calls s"
  by (simp_all add: on_dev_def)

lemma put_obj_simps [simp]:
  "uart_devs (put_obj n p s) = uart_devs s" "uart_calls (put_obj n p s) = uart_calls s"
  "p_uart_obj (put_obj n p s) m = (if m = n then p else p_uart_obj s m)"
  by (simp_all add: put_obj_def)

lemma emit_simps [simp]:
  "uart_devs (emit cs s) = uart_devs s" "p_uart_obj (emit cs s) = p_uart_obj s"
  "uart_calls (emit cs s) = uart_calls s @ cs"
  by (simp_all add: emit_def)

lemma on_dev_on_dev: "on_dev n f (on_dev n g s) = on_dev n (f \<circ> g) s"
  by (simp add: on_dev_def)

text \<open>The guard that opens almost every function of the driver.\<close>

definition uart_check :: "bool \<Rightarrow> 'r \<Rightarrow> uart_sys \<Rightarrow> 'r \<times> uart_sys \<Rightarrow> 'r \<times> uart_sys" where
  "uart_check c r s k = (if c then k else (r, s))"

lemma uart_check_simps [simp]: "uart_check True r s k = k" "uart_check False r s k = (r, s)"
  by (simp_all add: uart_check_def)

end
