(* ===== verification/Uart_Config.thy ===== *)
theory Uart_Config
  imports Uart_State
begin

text \<open>
  The configuration functions of \<open>firmware/main/drivers/uart.c\<close>, in the order of the file.
  A function that returns through a pointer has the value it stores as a second result,
  \<open>None\<close> when it returns before storing one.

  \<open>uart_setting\<close> is the contract of a setter with its getter: what is set is read back, on
  that port and on no other. Word length, stop bits, parity and hardware flow control are
  its interpretations. The baud rate is not: the divider of the clock only approximates it,
  and the theory gives the bounds.
\<close>

subsection \<open>Frame format\<close>

definition uart_set_word_length :: "nat \<Rightarrow> u32 \<Rightarrow> uart_sys \<Rightarrow> esp_err_t \<times> uart_sys" where
  "uart_set_word_length n data_bit s =
     uart_check (n < UART_NUM_MAX) ESP_FAIL s
     (uart_check (data_bit < UART_DATA_BITS_MAX) ESP_FAIL s
     (ESP_OK, on_dev n (set_conf0 BIT_NUM data_bit) s))"

definition uart_get_word_length :: "nat \<Rightarrow> uart_sys \<Rightarrow> esp_err_t \<times> u32 option" where
  "uart_get_word_length n s =
     (if \<not> n < UART_NUM_MAX then (ESP_FAIL, None)
      else (ESP_OK, Some (get_field BIT_NUM (conf0 (uart_devs s n)))))"

definition uart_set_stop_bits :: "nat \<Rightarrow> u32 \<Rightarrow> uart_sys \<Rightarrow> esp_err_t \<times> uart_sys" where
  "uart_set_stop_bits n stop_bit s =
     uart_check (n < UART_NUM_MAX) ESP_FAIL s
     (uart_check (stop_bit < UART_STOP_BITS_MAX) ESP_FAIL s
     (let two = (stop_bit = UART_STOP_BITS_2);
          stop_bit' = (if two then UART_STOP_BITS_1 else stop_bit)
      in (ESP_OK, on_dev n (\<lambda>d. set_conf0 STOP_BIT_NUM stop_bit'
            (d\<lparr>rs485_conf := set_field DL1_EN (if two then 1 else 0) (rs485_conf d)\<rparr>)) s)))"

definition uart_get_stop_bits :: "nat \<Rightarrow> uart_sys \<Rightarrow> esp_err_t \<times> u32 option" where
  "uart_get_stop_bits n s =
     (if \<not> n < UART_NUM_MAX then (ESP_FAIL, None)
      else (let d = uart_devs s n in
        if get_field DL1_EN (rs485_conf d) = 1 \<and> get_field STOP_BIT_NUM (conf0 d) = UART_STOP_BITS_1
        then (ESP_OK, Some UART_STOP_BITS_2)
        else (ESP_OK, Some (get_field STOP_BIT_NUM (conf0 d)))))"

definition uart_set_parity :: "nat \<Rightarrow> u32 \<Rightarrow> uart_sys \<Rightarrow> esp_err_t \<times> uart_sys" where
  "uart_set_parity n parity_mode s =
     uart_check (n < UART_NUM_MAX) ESP_FAIL s
     (ESP_OK, on_dev n (set_conf0 PARITY_EN (drop_bit 1 parity_mode AND 1) \<circ>
        set_conf0 PARITY (parity_mode AND 1)) s)"

definition uart_get_parity :: "nat \<Rightarrow> uart_sys \<Rightarrow> esp_err_t \<times> u32 option" where
  "uart_get_parity n s =
     (if \<not> n < UART_NUM_MAX then (ESP_FAIL, None)
      else (let val = conf0 (uart_devs s n) in
        (ESP_OK, Some (if bit val (fst PARITY_EN)
           then (if bit val (fst PARITY) then UART_PARITY_ODD else UART_PARITY_EVEN)
           else UART_PARITY_DISABLE))))"

subsection \<open>Baud rate\<close>

text \<open>Both functions divide by a value they do not check: zero is an error of the platform.\<close>

definition uart_set_baudrate :: "nat \<Rightarrow> u32 \<Rightarrow> uart_sys \<Rightarrow> (esp_err_t \<times> uart_sys) result" where
  "uart_set_baudrate n baud_rate s =
     (if \<not> n < UART_NUM_MAX then Inr (ESP_FAIL, s)
      else if \<not> baud_rate \<le> UART_BITRATE_MAX then Inr (ESP_FAIL, s)
      else if baud_rate = 0 then Inl Division_by_zero
      else (let cd = push_bit 4 UART_CLK_FREQ div baud_rate
            in Inr (ESP_OK, on_dev n (\<lambda>d. d\<lparr>clk_div :=
                 set_field DIV_FRAG (cd AND 0xf) (set_field DIV_INT (drop_bit 4 cd) (clk_div d))\<rparr>) s)))"

definition uart_get_baudrate :: "nat \<Rightarrow> uart_sys \<Rightarrow> (esp_err_t \<times> u32 option) result" where
  "uart_get_baudrate n s =
     (if \<not> n < UART_NUM_MAX then Inr (ESP_FAIL, None)
      else (let d = uart_devs s n;
                cd = push_bit 4 (get_field DIV_INT (clk_div d)) OR get_field DIV_FRAG (clk_div d)
            in if cd = 0 then Inl Division_by_zero
               else Inr (ESP_OK, Some (push_bit 4 UART_CLK_FREQ div cd))))"

subsection \<open>Lines and flow control\<close>

definition uart_set_line_inverse :: "nat \<Rightarrow> u32 \<Rightarrow> uart_sys \<Rightarrow> esp_err_t \<times> uart_sys" where
  "uart_set_line_inverse n inverse_mask s =
     uart_check (n < UART_NUM_MAX) ESP_FAIL s
     (uart_check (inverse_mask AND NOT UART_LINE_INV_MASK = 0 \<or> inverse_mask = 0) ESP_FAIL s
     (ESP_OK, on_dev n ((\<lambda>d. write_conf0 (conf0 d OR inverse_mask) d) \<circ>
        (\<lambda>d. write_conf0 (conf0 d AND NOT UART_LINE_INV_MASK) d)) s))"

definition uart_set_sw_flow_ctrl :: "nat \<Rightarrow> bool \<Rightarrow> u8 \<Rightarrow> u8 \<Rightarrow> uart_sys \<Rightarrow> esp_err_t \<times> uart_sys" where
  "uart_set_sw_flow_ctrl n enable rx_thresh_xon rx_thresh_xoff s =
     uart_check (n < UART_NUM_MAX) ESP_FAIL s
     (uart_check (unat rx_thresh_xon < UART_FIFO_LEN) ESP_FAIL s
     (uart_check (unat rx_thresh_xoff < UART_FIFO_LEN) ESP_FAIL s
     (ESP_OK, on_dev n (\<lambda>d. d\<lparr>
        flow_conf := set_field XONOFF_DEL (if enable then 1 else 0)
          (set_field SW_FLOW_CON_EN (if enable then 1 else 0) (flow_conf d)),
        swfc_conf := set_field XOFF_CHAR 0x13 (set_field XON_CHAR 0x11
          (set_field XOFF_THRESHOLD (ucast rx_thresh_xoff)
          (set_field XON_THRESHOLD (ucast rx_thresh_xon) (swfc_conf d))))\<rparr>) s)))"

definition uart_set_hw_flow_ctrl :: "nat \<Rightarrow> u32 \<Rightarrow> u8 \<Rightarrow> uart_sys \<Rightarrow> esp_err_t \<times> uart_sys" where
  "uart_set_hw_flow_ctrl n flow_ctrl rx_thresh s =
     uart_check (n < UART_NUM_MAX) ESP_FAIL s
     (uart_check (unat rx_thresh < UART_FIFO_LEN) ESP_FAIL s
     (uart_check (flow_ctrl < UART_HW_FLOWCTRL_MAX) ESP_FAIL s
     (ESP_OK, on_dev n
        (set_conf0 TX_FLOW_EN (if flow_ctrl AND UART_HW_FLOWCTRL_CTS \<noteq> 0 then 1 else 0) \<circ>
         (\<lambda>d. d\<lparr>conf1 := (if flow_ctrl AND UART_HW_FLOWCTRL_RTS \<noteq> 0
            then set_field RX_FLOW_EN 1 (set_field RX_FLOW_THRHD (ucast rx_thresh) (conf1 d))
            else set_field RX_FLOW_EN 0 (conf1 d))\<rparr>)) s)))"

definition uart_get_hw_flow_ctrl :: "nat \<Rightarrow> uart_sys \<Rightarrow> esp_err_t \<times> u32 option" where
  "uart_get_hw_flow_ctrl n s =
     (if \<not> n < UART_NUM_MAX then (ESP_FAIL, None)
      else (let d = uart_devs s n;
                val = UART_HW_FLOWCTRL_DISABLE;
                val = (if get_field RX_FLOW_EN (conf1 d) \<noteq> 0 then val OR UART_HW_FLOWCTRL_RTS else val);
                val = (if get_field TX_FLOW_EN (conf0 d) \<noteq> 0 then val OR UART_HW_FLOWCTRL_CTS else val)
            in (ESP_OK, Some val)))"

subsection \<open>FIFOs and interrupts\<close>

definition uart_reset_fifo :: "nat \<Rightarrow> uart_sys \<Rightarrow> esp_err_t \<times> uart_sys" where
  "uart_reset_fifo n s =
     uart_check (n < UART_NUM_MAX) ESP_FAIL s
     (ESP_OK, on_dev n (set_conf0 TXFIFO_RST 0 \<circ> set_conf0 TXFIFO_RST 1 \<circ>
        set_conf0 RXFIFO_RST 0 \<circ> set_conf0 RXFIFO_RST 1) s)"

definition uart_clear_intr_status :: "nat \<Rightarrow> u32 \<Rightarrow> uart_sys \<Rightarrow> esp_err_t \<times> uart_sys" where
  "uart_clear_intr_status n clr_mask s =
     uart_check (n < UART_NUM_MAX) ESP_FAIL s (ESP_OK, on_dev n (int_clr clr_mask) s)"

definition uart_enable_intr_mask :: "nat \<Rightarrow> u32 \<Rightarrow> uart_sys \<Rightarrow> esp_err_t \<times> uart_sys" where
  "uart_enable_intr_mask n enable_mask s =
     uart_check (n < UART_NUM_MAX) ESP_FAIL s
     (ESP_OK, on_dev n ((\<lambda>d. d\<lparr>int_ena := int_ena d OR enable_mask\<rparr>) \<circ> int_clr enable_mask) s)"

definition uart_disable_intr_mask :: "nat \<Rightarrow> u32 \<Rightarrow> uart_sys \<Rightarrow> esp_err_t \<times> uart_sys" where
  "uart_disable_intr_mask n disable_mask s =
     uart_check (n < UART_NUM_MAX) ESP_FAIL s
     (ESP_OK, on_dev n (\<lambda>d. d\<lparr>int_ena := int_ena d AND NOT disable_mask\<rparr>) s)"

definition uart_enable_pattern_det_intr ::
  "nat \<Rightarrow> u8 \<Rightarrow> u8 \<Rightarrow> int \<Rightarrow> int \<Rightarrow> int \<Rightarrow> uart_sys \<Rightarrow> esp_err_t \<times> uart_sys" where
  "uart_enable_pattern_det_intr n pattern_chr chr_num chr_tout post_idle pre_idle s =
     uart_check (n < UART_NUM_MAX) ESP_FAIL s
     (uart_check (0 \<le> chr_tout \<and> chr_tout \<le> 0xffffff) ESP_FAIL s
     (uart_check (0 \<le> post_idle \<and> post_idle \<le> 0xffffff) ESP_FAIL s
     (uart_check (0 \<le> pre_idle \<and> pre_idle \<le> 0xffffff) ESP_FAIL s
     (uart_enable_intr_mask n (int_mask AT_CMD_CHAR_DET) (on_dev n (\<lambda>d. d\<lparr>
        at_cmd_char := set_field AT_CHAR_NUM (ucast chr_num) (set_field AT_DATA (ucast pattern_chr) (at_cmd_char d)),
        at_cmd_gaptout := set_field IDLE_24 (word_of_int chr_tout) (at_cmd_gaptout d),
        at_cmd_postcnt := set_field IDLE_24 (word_of_int post_idle) (at_cmd_postcnt d),
        at_cmd_precnt := set_field IDLE_24 (word_of_int pre_idle) (at_cmd_precnt d)\<rparr>) s)))))"

definition uart_disable_pattern_det_intr :: "nat \<Rightarrow> uart_sys \<Rightarrow> esp_err_t \<times> uart_sys" where
  "uart_disable_pattern_det_intr n = uart_disable_intr_mask n (int_mask AT_CMD_CHAR_DET)"

definition uart_enable_rx_intr :: "nat \<Rightarrow> uart_sys \<Rightarrow> esp_err_t \<times> uart_sys" where
  "uart_enable_rx_intr n = uart_enable_intr_mask n (int_mask RXFIFO_FULL OR int_mask RXFIFO_TOUT)"

definition uart_disable_rx_intr :: "nat \<Rightarrow> uart_sys \<Rightarrow> esp_err_t \<times> uart_sys" where
  "uart_disable_rx_intr n = uart_disable_intr_mask n (int_mask RXFIFO_FULL OR int_mask RXFIFO_TOUT)"

definition uart_disable_tx_intr :: "nat \<Rightarrow> uart_sys \<Rightarrow> esp_err_t \<times> uart_sys" where
  "uart_disable_tx_intr n = uart_disable_intr_mask n (int_mask TXFIFO_EMPTY)"

definition uart_enable_tx_intr :: "nat \<Rightarrow> int \<Rightarrow> int \<Rightarrow> uart_sys \<Rightarrow> esp_err_t \<times> uart_sys" where
  "uart_enable_tx_intr n enable thresh s =
     uart_check (n < UART_NUM_MAX) ESP_FAIL s
     (uart_check (thresh < int UART_FIFO_LEN) ESP_FAIL s
     (ESP_OK, on_dev n
        ((if odd enable then int_enable TXFIFO_EMPTY else int_disable TXFIFO_EMPTY) \<circ>
         (\<lambda>d. d\<lparr>conf1 := set_field TXFIFO_EMPTY_THRHD (word_of_int thresh AND 0x7f) (conf1 d)\<rparr>) \<circ>
         int_clr (int_mask TXFIFO_EMPTY)) s))"

subsection \<open>Pins\<close>

text \<open>
  The GPIO driver is not part of the repository: which pad numbers are valid are arguments
  of \<open>uart_set_pin\<close>, its calls are recorded. \<open>sig_port\<close> is the switch that picks the port
  whose signals are routed.
\<close>

definition sig_port :: "nat \<Rightarrow> nat" where
  "sig_port n = (if n = 0 then 0 else if n = 1 then 1 else if n = 2 then 2 else 0)"

definition uart_set_pin ::
  "(int \<Rightarrow> bool) \<Rightarrow> (int \<Rightarrow> bool) \<Rightarrow> nat \<Rightarrow> int \<Rightarrow> int \<Rightarrow> int \<Rightarrow> int \<Rightarrow> uart_sys \<Rightarrow> esp_err_t \<times> uart_sys" where
  "uart_set_pin valid_output valid_gpio n tx_io_num rx_io_num rts_io_num cts_io_num s =
     uart_check (n < UART_NUM_MAX) ESP_FAIL s
     (uart_check (tx_io_num < 0 \<or> valid_output tx_io_num) ESP_FAIL s
     (uart_check (rx_io_num < 0 \<or> valid_gpio rx_io_num) ESP_FAIL s
     (uart_check (rts_io_num < 0 \<or> valid_output rts_io_num) ESP_FAIL s
     (uart_check (cts_io_num < 0 \<or> valid_gpio cts_io_num) ESP_FAIL s
     (ESP_OK, emit
       ((if 0 \<le> tx_io_num then [Pin_func_gpio tx_io_num, Gpio_set_level_1 tx_io_num,
           Gpio_matrix_out tx_io_num (TXD_OUT (sig_port n))] else []) @
        (if 0 \<le> rx_io_num then [Pin_func_gpio rx_io_num, Gpio_set_pull_up rx_io_num,
           Gpio_set_direction_in rx_io_num, Gpio_matrix_in rx_io_num (RXD_IN (sig_port n))] else []) @
        (if 0 \<le> rts_io_num then [Pin_func_gpio rts_io_num, Gpio_set_direction_out rts_io_num,
           Gpio_matrix_out rts_io_num (RTS_OUT (sig_port n))] else []) @
        (if 0 \<le> cts_io_num then [Pin_func_gpio cts_io_num, Gpio_set_pull_up cts_io_num,
           Gpio_set_direction_in cts_io_num, Gpio_matrix_in cts_io_num (CTS_IN (sig_port n))] else [])) s)))))"

definition uart_set_rts :: "nat \<Rightarrow> int \<Rightarrow> uart_sys \<Rightarrow> esp_err_t \<times> uart_sys" where
  "uart_set_rts n level s =
     uart_check (n < UART_NUM_MAX) ESP_FAIL s
     (uart_check (get_field RX_FLOW_EN (conf1 (uart_devs s n)) \<noteq> 1) ESP_FAIL s
     (ESP_OK, on_dev n (set_conf0 SW_RTS (word_of_int level AND 1)) s))"

definition uart_set_dtr :: "nat \<Rightarrow> int \<Rightarrow> uart_sys \<Rightarrow> esp_err_t \<times> uart_sys" where
  "uart_set_dtr n level s =
     uart_check (n < UART_NUM_MAX) ESP_FAIL s
     (ESP_OK, on_dev n (set_conf0 SW_DTR (word_of_int level AND 1)) s)"

subsection \<open>Whole configurations\<close>

record uart_config_t =
  baud_rate :: u32
  data_bits :: u32
  parity :: u32
  stop_bits :: u32
  flow_ctrl :: u32
  rx_flow_ctrl_thresh :: u8

definition uart_param_config :: "nat \<Rightarrow> uart_config_t option \<Rightarrow> uart_sys \<Rightarrow> (esp_err_t \<times> uart_sys) result" where
  "uart_param_config n cfg s =
     (if \<not> n < UART_NUM_MAX then Inr (ESP_FAIL, s)
      else case cfg of None \<Rightarrow> Inr (ESP_FAIL, s)
      | Some c \<Rightarrow>
        (let s1 = emit [Periph_module_enable n] s;
             (r, s2) = uart_set_hw_flow_ctrl n (flow_ctrl c) (rx_flow_ctrl_thresh c) s1
         in if r \<noteq> ESP_OK then Inr (r, s2)
            else bind_result (uart_set_baudrate n (baud_rate c) s2) (\<lambda>(r, s3).
              if r \<noteq> ESP_OK then Inr (r, s3)
              else Inr (uart_set_stop_bits n (stop_bits c) (on_dev n (write_conf0
                (parity c OR push_bit 2 (data_bits c) OR
                 (if flow_ctrl c AND UART_HW_FLOWCTRL_CTS \<noteq> 0 then push_bit 15 1 else 0) OR
                 UART_TICK_REF_ALWAYS_ON_M)) s3)))))"

record uart_intr_config_t =
  intr_enable_mask :: u32
  rx_timeout_thresh :: u8
  txfifo_empty_intr_thresh :: u8
  rxfifo_full_thresh :: u8

definition uart_intr_config :: "nat \<Rightarrow> uart_intr_config_t option \<Rightarrow> uart_sys \<Rightarrow> esp_err_t \<times> uart_sys" where
  "uart_intr_config n cfg s =
     uart_check (n < UART_NUM_MAX) ESP_FAIL s
     (case cfg of None \<Rightarrow> (ESP_FAIL, s)
      | Some c \<Rightarrow>
        (ESP_OK, on_dev n
          ((\<lambda>d. d\<lparr>int_ena := intr_enable_mask c\<rparr>) \<circ>
           (\<lambda>d. if bit (intr_enable_mask c) TXFIFO_EMPTY
              then d\<lparr>conf1 := set_field TXFIFO_EMPTY_THRHD (ucast (txfifo_empty_intr_thresh c)) (conf1 d)\<rparr> else d) \<circ>
           (\<lambda>d. if bit (intr_enable_mask c) RXFIFO_FULL
              then d\<lparr>conf1 := set_field RXFIFO_FULL_THRHD (ucast (rxfifo_full_thresh c)) (conf1 d)\<rparr> else d) \<circ>
           (\<lambda>d. if bit (intr_enable_mask c) RXFIFO_TOUT
              then d\<lparr>conf1 := set_field RX_TOUT_EN 1
                (set_field RX_TOUT_THRHD (ucast (rx_timeout_thresh c) AND 0x7f) (conf1 d))\<rparr>
              else d\<lparr>conf1 := set_field RX_TOUT_EN 0 (conf1 d)\<rparr>) \<circ>
           int_clr UART_INTR_MASK) s))"

subsection \<open>The contract of a setting\<close>

locale uart_setting =
  fixes set_v :: "nat \<Rightarrow> 'v \<Rightarrow> uart_sys \<Rightarrow> esp_err_t \<times> uart_sys"
    and get_v :: "nat \<Rightarrow> uart_sys \<Rightarrow> esp_err_t \<times> 'v option"
    and legal :: "'v \<Rightarrow> bool"
  assumes bad_port: "\<not> n < UART_NUM_MAX \<Longrightarrow> set_v n v s = (ESP_FAIL, s) \<and> get_v n s = (ESP_FAIL, None)"
    and set_ok: "n < UART_NUM_MAX \<Longrightarrow> legal v \<Longrightarrow> fst (set_v n v s) = ESP_OK"
    and get_set: "n < UART_NUM_MAX \<Longrightarrow> legal v \<Longrightarrow> get_v n (snd (set_v n v s)) = (ESP_OK, Some v)"
    and other_port: "m \<noteq> n \<Longrightarrow> get_v m (snd (set_v n v s)) = get_v m s"
begin

text \<open>After any sequence of calls the value of a port is the last one given for that port.\<close>

definition set_all :: "(nat \<times> 'v) list \<Rightarrow> uart_sys \<Rightarrow> uart_sys" where
  "set_all vs s = foldl (\<lambda>s (n, v). snd (set_v n v s)) s vs"

lemma set_all_snoc: "set_all (vs @ [(n, v)]) s = snd (set_v n v (set_all vs s))"
  by (simp add: set_all_def)

lemma last_write_wins:
  assumes "\<forall>(m, w) \<in> set vs. m \<noteq> n" and "n < UART_NUM_MAX" and "legal v"
  shows "get_v n (set_all (us @ (n, v) # vs) s) = (ESP_OK, Some v)"
  using assms(1)
proof (induction vs rule: rev_induct)
  case Nil
  then show ?case using assms(2,3) by (simp add: set_all_snoc get_set)
next
  case (snoc x xs)
  obtain m w where x: "x = (m, w)" by (cases x)
  have "us @ (n, v) # xs @ [x] = (us @ (n, v) # xs) @ [(m, w)]" by (simp add: x)
  then have "get_v n (set_all (us @ (n, v) # xs @ [x]) s) = get_v n (set_all (us @ (n, v) # xs) s)"
    using snoc.prems x by (simp only: set_all_snoc) (auto intro: other_port)
  then show ?case using snoc by auto
qed

end

lemma below_four: "v < (4 :: u32) \<longleftrightarrow> v = 0 \<or> v = 1 \<or> v = 2 \<or> v = 3"
proof
  assume "v < 4"
  then have "unat v < 4" by (simp add: word_less_nat_alt)
  then have "unat v = 0 \<or> unat v = 1 \<or> unat v = 2 \<or> unat v = 3" by linarith
  then show "v = 0 \<or> v = 1 \<or> v = 2 \<or> v = 3" by (simp add: word_unat_eq_iff)
qed auto

lemma take_bit_small: "v < (4 :: u32) \<Longrightarrow> take_bit 2 v = v"
  unfolding below_four by auto

lemma field_one: "get_field (k, 1) x = (if bit x k then 1 else 0)"
  by (rule bit_word_eqI) (auto simp: bit_get_field bit_simps)

lemmas setting_simps = uart_check_def Let_def get_set_field get_set_field_apart in_word_def apart_def
  bit_set_field bit_simps

interpretation word_length: uart_setting uart_set_word_length uart_get_word_length "\<lambda>v. v < UART_DATA_BITS_MAX"
  by unfold_locales
    (simp_all add: uart_set_word_length_def uart_get_word_length_def setting_simps take_bit_small)

interpretation stop_bits: uart_setting uart_set_stop_bits uart_get_stop_bits "\<lambda>v. v < UART_STOP_BITS_MAX"
  by unfold_locales
    (auto simp: uart_set_stop_bits_def uart_get_stop_bits_def setting_simps take_bit_small below_four)

interpretation parity: uart_setting uart_set_parity uart_get_parity
    "\<lambda>v. v \<in> {UART_PARITY_DISABLE, UART_PARITY_EVEN, UART_PARITY_ODD}"
  by unfold_locales (auto simp: uart_set_parity_def uart_get_parity_def setting_simps)

interpretation hw_flow: uart_setting "\<lambda>n v. uart_set_hw_flow_ctrl n v t" uart_get_hw_flow_ctrl
    "\<lambda>v. v < UART_HW_FLOWCTRL_MAX \<and> unat t < UART_FIFO_LEN" for t
  by unfold_locales
    (auto simp: uart_set_hw_flow_ctrl_def uart_get_hw_flow_ctrl_def setting_simps below_four)

subsection \<open>The accuracy of the baud rate\<close>

text \<open>The divider as the two fields hold it: its low 24 bits.\<close>

definition divider_of :: "uart_dev \<Rightarrow> u32" where
  "divider_of d = push_bit 4 (get_field DIV_INT (clk_div d)) OR get_field DIV_FRAG (clk_div d)"

lemma divider_stored:
  "push_bit 4 (get_field DIV_INT (set_field DIV_FRAG (cd AND 0xf) (set_field DIV_INT (drop_bit 4 cd) x))) OR
   get_field DIV_FRAG (set_field DIV_FRAG (cd AND 0xf) (set_field DIV_INT (drop_bit 4 cd) x)) = take_bit 24 cd"
  (is "?l = _")
proof -
  have f: "(0xf :: u32) = mask 4" by (simp add: mask_numeral)
  show ?thesis unfolding f
    by (rule bit_word_eqI) (auto simp: bit_simps bit_get_field bit_set_field)
qed

lemma set_baudrate_divider:
  assumes "n < UART_NUM_MAX" and "b \<le> UART_BITRATE_MAX" and "b \<noteq> 0"
  obtains s' where "uart_set_baudrate n b s = Inr (ESP_OK, s')"
    and "divider_of (uart_devs s' n) = take_bit 24 (1280000000 div b)"
    and "\<forall>m. conf0 (uart_devs s' m) = conf0 (uart_devs s m) \<and> conf1 (uart_devs s' m) = conf1 (uart_devs s m) \<and>
           rs485_conf (uart_devs s' m) = rs485_conf (uart_devs s m)"
  using assms by (simp add: uart_set_baudrate_def Let_def divider_of_def divider_stored)

lemma get_baudrate_divider:
  assumes "n < UART_NUM_MAX" and "divider_of (uart_devs s n) \<noteq> 0"
  shows "uart_get_baudrate n s = Inr (ESP_OK, Some (1280000000 div divider_of (uart_devs s n)))"
  using assms by (simp add: uart_get_baudrate_def Let_def divider_of_def)

lemma divide_back:
  fixes b F :: nat
  assumes "256 * b \<le> F" and "0 < b"
  shows "b \<le> F div (F div b)" and "256 * (F div (F div b) - b) < b"
proof -
  define q where "q = F div b"
  have q: "256 \<le> q" using assms by (simp add: q_def less_eq_div_iff_mult_less_eq)
  have qb: "q * b \<le> F" "F < q * b + b"
    using div_times_less_eq_dividend [of F b] dividend_less_div_times [OF assms(2), of F]
    by (simp_all add: q_def add.commute)
  show le: "b \<le> F div q" using qb(1) q by (simp add: less_eq_div_iff_mult_less_eq mult.commute)
  have "F div q * q < q * b + b" using qb(2) div_times_less_eq_dividend [of F q] by linarith
  moreover have "(F div q - b) * q = F div q * q - b * q" by (simp add: diff_mult_distrib)
  ultimately have "(F div q - b) * q < b" using assms(2) by (simp add: mult.commute [of b])
  moreover have "256 * (F div q - b) \<le> q * (F div q - b)" using q by (rule mult_le_mono1)
  ultimately show "256 * (F div q - b) < b" by (simp only: mult.commute [of q])
qed

lemma rate_word_bounds:
  fixes b :: u32
  assumes "77 \<le> b" and "b \<le> UART_BITRATE_MAX"
  shows "take_bit 24 (1280000000 div b) = 1280000000 div b"
    and "b \<le> 1280000000 div (1280000000 div b)"
    and "256 * (unat (1280000000 div (1280000000 div b)) - unat b) < unat b"
    and "1280000000 div b \<noteq> 0"
proof -
  have b: "77 \<le> unat b" "unat b \<le> 5000000" using assms by (simp_all add: word_le_nat_alt)
  have u: "unat (1280000000 div b) = 1280000000 div unat b" by (simp add: unat_div)
  have "1280000000 div unat b \<le> 1280000000 div 77" using b(1) by (intro div_le_mono2) simp_all
  then have "unat (1280000000 div b) < 2 ^ 24" using u by simp
  then show "take_bit 24 (1280000000 div b) = 1280000000 div b"
    by (simp add: word_unat_eq_iff unsigned_take_bit_eq take_bit_nat_eq_self)
  have "256 * unat b \<le> 1280000000" "0 < unat b" using b by auto
  note d = divide_back [OF this]
  show "b \<le> 1280000000 div (1280000000 div b)" using d(1) by (simp add: word_le_nat_alt unat_div)
  show "256 * (unat (1280000000 div (1280000000 div b)) - unat b) < unat b"
    using d(2) by (simp add: unat_div)
  have "256 \<le> 1280000000 div unat b" using b by (simp add: less_eq_div_iff_mult_less_eq)
  then have "unat (1280000000 div b) \<noteq> 0" using u by linarith
  then show "1280000000 div b \<noteq> 0" by (metis unsigned_0)
qed

subsection \<open>Configuring a port\<close>

definition config_ok :: "uart_config_t \<Rightarrow> bool" where
  "config_ok c \<longleftrightarrow> 77 \<le> baud_rate c \<and> baud_rate c \<le> UART_BITRATE_MAX \<and> data_bits c < UART_DATA_BITS_MAX \<and>
     parity c \<in> {UART_PARITY_DISABLE, UART_PARITY_EVEN, UART_PARITY_ODD} \<and> stop_bits c < UART_STOP_BITS_MAX \<and>
     flow_ctrl c < UART_HW_FLOWCTRL_MAX \<and> unat (rx_flow_ctrl_thresh c) < UART_FIFO_LEN"

text \<open>The word that \<open>uart_param_config\<close> writes to \<open>conf0\<close>, field by field.\<close>

definition conf0_word :: "uart_config_t \<Rightarrow> u32" where
  "conf0_word c = parity c OR push_bit 2 (data_bits c) OR
     (if flow_ctrl c AND UART_HW_FLOWCTRL_CTS \<noteq> 0 then push_bit 15 1 else 0) OR UART_TICK_REF_ALWAYS_ON_M"

lemma conf0_word_fields:
  assumes "parity c \<in> {0, 2, 3}" and "data_bits c < 4"
  shows "get_field BIT_NUM (conf0_word c) = data_bits c"
    and "bit (conf0_word c) (fst PARITY_EN) = bit (parity c) 1"
    and "bit (conf0_word c) (fst PARITY) = bit (parity c) 0"
    and "get_field TX_FLOW_EN (conf0_word c) = (if flow_ctrl c AND 2 \<noteq> 0 then 1 else 0)"
  using assms by (auto simp: conf0_word_def below_four get_field_def)

lemma hw_flow_dev:
  assumes "n < UART_NUM_MAX" and "unat t < UART_FIFO_LEN" and "v < UART_HW_FLOWCTRL_MAX"
  obtains s' where "uart_set_hw_flow_ctrl n v t s = (ESP_OK, s')"
    and "get_field RX_FLOW_EN (conf1 (uart_devs s' n)) = (if v AND 1 \<noteq> 0 then 1 else 0)"
    and "\<forall>m. m \<noteq> n \<longrightarrow> uart_devs s' m = uart_devs s m"
  using assms by (simp add: uart_set_hw_flow_ctrl_def setting_simps)

lemma set_baudrate_other:
  "uart_set_baudrate n b s = Inr (r, s') \<Longrightarrow> m \<noteq> n \<Longrightarrow> uart_devs s' m = uart_devs s m"
  by (auto simp: uart_set_baudrate_def Let_def split: if_splits)

lemma param_config_steps:
  assumes "n < UART_NUM_MAX" and "config_ok c"
  obtains s3 where "uart_param_config n (Some c) s =
        Inr (uart_set_stop_bits n (stop_bits c) (on_dev n (write_conf0 (conf0_word c)) s3))"
    and "divider_of (uart_devs s3 n) = 1280000000 div baud_rate c"
    and "get_field RX_FLOW_EN (conf1 (uart_devs s3 n)) = (if flow_ctrl c AND 1 \<noteq> 0 then 1 else 0)"
    and "\<forall>m. m \<noteq> n \<longrightarrow> uart_devs s3 m = uart_devs s m"
proof -
  have c: "77 \<le> baud_rate c" "baud_rate c \<le> UART_BITRATE_MAX" "flow_ctrl c < UART_HW_FLOWCTRL_MAX"
      "unat (rx_flow_ctrl_thresh c) < UART_FIFO_LEN"
    using assms(2) by (auto simp: config_ok_def)
  then have nz: "baud_rate c \<noteq> 0" by (auto simp: word_le_nat_alt)
  obtain s2 where s2: "uart_set_hw_flow_ctrl n (flow_ctrl c) (rx_flow_ctrl_thresh c)
        (emit [Periph_module_enable n] s) = (ESP_OK, s2)"
      "get_field RX_FLOW_EN (conf1 (uart_devs s2 n)) = (if flow_ctrl c AND 1 \<noteq> 0 then 1 else 0)"
      "\<forall>m. m \<noteq> n \<longrightarrow> uart_devs s2 m = uart_devs s m"
    using hw_flow_dev [OF assms(1) c(4,3), of "emit [Periph_module_enable n] s"] by auto
  obtain s3 where s3: "uart_set_baudrate n (baud_rate c) s2 = Inr (ESP_OK, s3)"
      "divider_of (uart_devs s3 n) = take_bit 24 (1280000000 div baud_rate c)"
      "\<forall>m. conf0 (uart_devs s3 m) = conf0 (uart_devs s2 m) \<and> conf1 (uart_devs s3 m) = conf1 (uart_devs s2 m) \<and>
           rs485_conf (uart_devs s3 m) = rs485_conf (uart_devs s2 m)"
    using set_baudrate_divider [OF assms(1) c(2) nz] by blast
  show thesis
  proof (rule that)
    show "uart_param_config n (Some c) s =
        Inr (uart_set_stop_bits n (stop_bits c) (on_dev n (write_conf0 (conf0_word c)) s3))"
      using assms(1) s2(1) s3(1) by (simp add: uart_param_config_def conf0_word_def)
    show "divider_of (uart_devs s3 n) = 1280000000 div baud_rate c"
      using s3(2) rate_word_bounds(1) [OF c(1,2)] by simp
    show "get_field RX_FLOW_EN (conf1 (uart_devs s3 n)) = (if flow_ctrl c AND 1 \<noteq> 0 then 1 else 0)"
      using s2(2) s3(3) by simp
    show "\<forall>m. m \<noteq> n \<longrightarrow> uart_devs s3 m = uart_devs s m"
      using s2(3) set_baudrate_other [OF s3(1)] by simp
  qed
qed

text \<open>Setting the stop bits keeps what the other getters read.\<close>

lemma set_stop_bits_keeps:
  assumes "uart_set_stop_bits n v s = (r, s')"
  shows "uart_get_word_length m s' = uart_get_word_length m s" "uart_get_parity m s' = uart_get_parity m s"
    "uart_get_hw_flow_ctrl m s' = uart_get_hw_flow_ctrl m s" "uart_get_baudrate m s' = uart_get_baudrate m s"
    "m \<noteq> n \<Longrightarrow> uart_devs s' m = uart_devs s m"
proof -
  have d: "s' = s \<or> (\<exists>u w. s' = on_dev n (\<lambda>d. set_conf0 STOP_BIT_NUM u
      (d\<lparr>rs485_conf := set_field DL1_EN w (rs485_conf d)\<rparr>)) s)"
    using assms by (auto simp: uart_set_stop_bits_def uart_check_def Let_def split: if_splits)
  have c: "clk_div (uart_devs s' m) = clk_div (uart_devs s m)" "conf1 (uart_devs s' m) = conf1 (uart_devs s m)"
    using d by auto
  have f: "apart f STOP_BIT_NUM \<Longrightarrow> get_field f (conf0 (uart_devs s' m)) = get_field f (conf0 (uart_devs s m))" for f
    using d by (auto simp: get_set_field_apart)
  have b: "apart (k, 1) STOP_BIT_NUM \<Longrightarrow> bit (conf0 (uart_devs s' m)) k = bit (conf0 (uart_devs s m)) k" for k
    using d bit_set_field_apart [of k STOP_BIT_NUM] by (cases "m = n") auto
  show "uart_get_word_length m s' = uart_get_word_length m s"
    unfolding uart_get_word_length_def by (subst f) (simp_all add: apart_def)
  show "uart_get_parity m s' = uart_get_parity m s"
    using b [of "fst PARITY"] b [of "fst PARITY_EN"] by (simp add: uart_get_parity_def Let_def apart_def)
  show "uart_get_hw_flow_ctrl m s' = uart_get_hw_flow_ctrl m s"
    using f [of TX_FLOW_EN] c(2) by (simp add: uart_get_hw_flow_ctrl_def Let_def apart_def)
  show "uart_get_baudrate m s' = uart_get_baudrate m s"
    using c(1) by (simp add: uart_get_baudrate_def Let_def)
  show "m \<noteq> n \<Longrightarrow> uart_devs s' m = uart_devs s m"
    using d by auto
qed

lemma word_getters:
  assumes "n < UART_NUM_MAX" and "config_ok c"
    and "get_field RX_FLOW_EN (conf1 (uart_devs s3 n)) = (if flow_ctrl c AND 1 \<noteq> 0 then 1 else 0)"
  shows "uart_get_word_length n (on_dev n (write_conf0 (conf0_word c)) s3) = (ESP_OK, Some (data_bits c))"
    and "uart_get_parity n (on_dev n (write_conf0 (conf0_word c)) s3) = (ESP_OK, Some (parity c))"
    and "uart_get_hw_flow_ctrl n (on_dev n (write_conf0 (conf0_word c)) s3) = (ESP_OK, Some (flow_ctrl c))"
proof -
  have c: "parity c \<in> {0, 2, 3}" "data_bits c < 4" "flow_ctrl c < 4" using assms(2) by (auto simp: config_ok_def)
  note f = conf0_word_fields [OF c(1,2)]
  show "uart_get_word_length n (on_dev n (write_conf0 (conf0_word c)) s3) = (ESP_OK, Some (data_bits c))"
    using assms(1) f(1) by (simp add: uart_get_word_length_def)
  show "uart_get_parity n (on_dev n (write_conf0 (conf0_word c)) s3) = (ESP_OK, Some (parity c))"
    using assms(1) f(2,3) c(1) by (auto simp: uart_get_parity_def Let_def)
  show "uart_get_hw_flow_ctrl n (on_dev n (write_conf0 (conf0_word c)) s3) = (ESP_OK, Some (flow_ctrl c))"
    using assms(1,3) f(4) c(3) by (auto simp: uart_get_hw_flow_ctrl_def Let_def below_four)
qed

text \<open>
  A port that \<open>uart_param_config\<close> configures reads back what it was given: word length,
  parity, stop bits and flow control exactly, and a baud rate that is never too slow and
  off by less than one part in 256. It holds for every rate from 77 baud up to the maximum,
  and no other port changes.
\<close>

theorem uart_param_config_read_back:
  assumes "n < UART_NUM_MAX" and "config_ok c"
  shows "\<exists>s' b. uart_param_config n (Some c) s = Inr (ESP_OK, s') \<and>
    uart_get_word_length n s' = (ESP_OK, Some (data_bits c)) \<and>
    uart_get_parity n s' = (ESP_OK, Some (parity c)) \<and>
    uart_get_stop_bits n s' = (ESP_OK, Some (stop_bits c)) \<and>
    uart_get_hw_flow_ctrl n s' = (ESP_OK, Some (flow_ctrl c)) \<and>
    uart_get_baudrate n s' = Inr (ESP_OK, Some b) \<and>
    baud_rate c \<le> b \<and> 256 * (unat b - unat (baud_rate c)) < unat (baud_rate c) \<and>
    (\<forall>m. m \<noteq> n \<longrightarrow> uart_devs s' m = uart_devs s m)"
proof -
  have c: "77 \<le> baud_rate c" "baud_rate c \<le> UART_BITRATE_MAX" "stop_bits c < UART_STOP_BITS_MAX"
    using assms(2) by (auto simp: config_ok_def)
  obtain s3 where s3: "uart_param_config n (Some c) s =
        Inr (uart_set_stop_bits n (stop_bits c) (on_dev n (write_conf0 (conf0_word c)) s3))"
      "divider_of (uart_devs s3 n) = 1280000000 div baud_rate c"
      "get_field RX_FLOW_EN (conf1 (uart_devs s3 n)) = (if flow_ctrl c AND 1 \<noteq> 0 then 1 else 0)"
      "\<forall>m. m \<noteq> n \<longrightarrow> uart_devs s3 m = uart_devs s m"
    using param_config_steps [OF assms] by blast
  define s4 where "s4 = on_dev n (write_conf0 (conf0_word c)) s3"
  obtain s' where s': "uart_set_stop_bits n (stop_bits c) s4 = (ESP_OK, s')"
    using stop_bits.set_ok [OF assms(1) c(3)] by (metis prod.collapse)
  have div: "divider_of (uart_devs s4 n) = 1280000000 div baud_rate c"
    using s3(2) by (simp add: s4_def divider_of_def)
  note keep = set_stop_bits_keeps [OF s']
  have "uart_get_baudrate n s4 = Inr (ESP_OK, Some (1280000000 div (1280000000 div baud_rate c)))"
    using get_baudrate_divider [OF assms(1), of s4] div rate_word_bounds(4) [OF c(1,2)] by simp
  moreover have "uart_get_stop_bits n s' = (ESP_OK, Some (stop_bits c))"
    using stop_bits.get_set [OF assms(1) c(3), of s4] s' by simp
  moreover have "\<forall>m. m \<noteq> n \<longrightarrow> uart_devs s' m = uart_devs s m"
    using keep(5) s3(4) by (simp add: s4_def)
  ultimately show ?thesis
    using s3(1) s' rate_word_bounds(2,3) [OF c(1,2)] word_getters [OF assms s3(3), folded s4_def] keep
    by (intro exI [of _ s'] exI [of _ "1280000000 div (1280000000 div baud_rate c)"]) (simp add: s4_def)
qed

definition dev0 :: uart_dev where
  "dev0 = \<lparr>conf0 = 0, conf1 = 0, clk_div = 0, rs485_conf = 0, flow_conf = 0, swfc_conf = 0, idle_conf = 0,
     at_cmd_char = 0, at_cmd_gaptout = 0, at_cmd_postcnt = 0, at_cmd_precnt = 0, int_raw = 0, int_ena = 0,
     rx_fifo = [], tx_fifo = [], tx_line = []\<rparr>"

definition sys0 :: uart_sys where
  "sys0 = \<lparr>uart_devs = \<lambda>_. dev0, p_uart_obj = \<lambda>_. None, uart_calls = []\<rparr>"

definition config_8n1 :: uart_config_t where
  "config_8n1 = \<lparr>baud_rate = 115200, data_bits = 3, parity = UART_PARITY_DISABLE, stop_bits = UART_STOP_BITS_1,
     flow_ctrl = UART_HW_FLOWCTRL_DISABLE, rx_flow_ctrl_thresh = 0\<rparr>"

lemma config_8n1_ok: "config_ok config_8n1"
  by (simp add: config_ok_def config_8n1_def)

theorem uart_param_config_read_back_witness:
  "\<exists>s' b. uart_param_config 1 (Some config_8n1) sys0 = Inr (ESP_OK, s') \<and>
    uart_get_word_length 1 s' = (ESP_OK, Some 3) \<and> uart_get_parity 1 s' = (ESP_OK, Some 0) \<and>
    uart_get_stop_bits 1 s' = (ESP_OK, Some 1) \<and> uart_get_hw_flow_ctrl 1 s' = (ESP_OK, Some 0) \<and>
    uart_get_baudrate 1 s' = Inr (ESP_OK, Some b) \<and>
    (115200 :: u32) \<le> b \<and> 256 * (unat b - 115200) < 115200"
proof -
  have v: "data_bits config_8n1 = 3" "parity config_8n1 = 0" "stop_bits config_8n1 = 1"
      "flow_ctrl config_8n1 = 0" "baud_rate config_8n1 = 115200"
    by (simp_all add: config_8n1_def)
  have n: "(1 :: nat) < UART_NUM_MAX" by simp
  have u: "unat (115200 :: u32) = 115200" by simp
  show ?thesis
    using uart_param_config_read_back [OF n config_8n1_ok, of sys0] unfolding v u by blast
qed

text \<open>
  Below 77 baud the divider does not fit its field. The setter has no lower bound: it
  accepts the rate, and the port runs at another one.
\<close>

lemma slow_baudrate_truncated:
  assumes "n < UART_NUM_MAX"
  shows "\<exists>s'. uart_set_baudrate n 76 s = Inr (ESP_OK, s') \<and> uart_get_baudrate n s' = Inr (ESP_OK, Some 19725)"
proof -
  obtain s' where s': "uart_set_baudrate n 76 s = Inr (ESP_OK, s')"
      "divider_of (uart_devs s' n) = take_bit 24 (1280000000 div 76)"
    using set_baudrate_divider [OF assms, of 76 s] by auto
  have d: "divider_of (uart_devs s' n) = 64889" using s'(2) by simp
  show ?thesis using s'(1) get_baudrate_divider [OF assms, of s'] d by simp
qed

text \<open>A rate of zero passes the check and divides by zero.\<close>

lemma zero_baudrate_traps: "n < UART_NUM_MAX \<Longrightarrow> uart_set_baudrate n 0 s = Inl Division_by_zero"
  by (simp add: uart_set_baudrate_def)

text \<open>Configuring ports in any order, each ends with the word length given to it last.\<close>

lemma word_length_last_call:
  assumes "\<forall>(m, w) \<in> set vs. m \<noteq> n" and "n < UART_NUM_MAX" and "v < UART_DATA_BITS_MAX"
  shows "uart_get_word_length n (foldl (\<lambda>s (n, v). snd (uart_set_word_length n v s)) s (us @ (n, v) # vs)) =
    (ESP_OK, Some v)"
  using word_length.last_write_wins [OF assms, of us s] unfolding word_length.set_all_def .

subsection \<open>Interrupt enables\<close>

lemma reset_fifo_empties:
  assumes "n < UART_NUM_MAX"
  shows "rx_fifo (uart_devs (snd (uart_reset_fifo n s)) n) = []"
    and "tx_fifo (uart_devs (snd (uart_reset_fifo n s)) n) = []"
  using assms by (auto simp: uart_reset_fifo_def set_conf0_def write_conf0_def bit_set_field)

lemma enable_rx_intr_dev [simp]:
  assumes "n < UART_NUM_MAX"
  shows "snd (uart_enable_rx_intr n s) = on_dev n
    ((\<lambda>d. d\<lparr>int_ena := int_ena d OR (int_mask RXFIFO_FULL OR int_mask RXFIFO_TOUT)\<rparr>) \<circ>
      int_clr (int_mask RXFIFO_FULL OR int_mask RXFIFO_TOUT)) s"
  using assms by (simp add: uart_enable_rx_intr_def uart_enable_intr_mask_def)

lemma enable_intr_mask_obj [simp]:
  "p_uart_obj (snd (uart_enable_rx_intr n s)) = p_uart_obj s"
  "p_uart_obj (snd (uart_disable_rx_intr n s)) = p_uart_obj s"
  "p_uart_obj (snd (uart_enable_tx_intr n e t s)) = p_uart_obj s"
  "p_uart_obj (snd (uart_enable_intr_mask n m s)) = p_uart_obj s"
  "p_uart_obj (snd (uart_disable_intr_mask n m s)) = p_uart_obj s"
  "p_uart_obj (snd (uart_reset_fifo n s)) = p_uart_obj s"
  by (auto simp: uart_enable_rx_intr_def uart_disable_rx_intr_def uart_enable_tx_intr_def
      uart_enable_intr_mask_def uart_disable_intr_mask_def uart_reset_fifo_def uart_check_def)

end
