(* ===== verification/Uart_Isr.thy ===== *)
theory Uart_Isr
  imports Uart_Config
begin

text \<open>
  The interrupt handler of \<open>firmware/main/drivers/uart.c\<close>, \<open>uart_rx_intr_handler_default\<close>.

  The handler loops while the interrupt status it has read is not zero. One turn serves one
  cause, in the order of the chain of conditions; the status is read again at the end of
  the turn, except where the C says \<open>continue\<close>. What the hardware does in the meantime is an
  input: interrupts raised, bytes received, bytes sent from the FIFO. The loop has fuel,
  because one of its \<open>continue\<close> branches never ends; the theory proves how much is enough
  for the others.

  The transmit part hands the items of the ring buffer to the FIFO. Items come in groups: a
  description (type, break length, size), then the bytes in pieces. \<open>stream_ok\<close> is the
  grammar of the ring buffer's content and \<open>payload\<close> the bytes it stands for; the theory
  shows that the transmit loop moves exactly these bytes, in order.

  Whether the receive ring buffer accepts a piece is an argument, \<open>acc\<close>: the ring buffer is
  part of the vendor's library.
\<close>

subsection \<open>Hardware between two readings of the status\<close>

record hw_in =
  raised :: u32
  arrived :: "u8 list"
  drained :: nat

definition hw_step :: "hw_in \<Rightarrow> uart_dev \<Rightarrow> uart_dev" where
  "hw_step i d = d\<lparr>int_raw := int_raw d OR raised i,
     rx_fifo := take UART_FIFO_LEN (rx_fifo d @ arrived i), 
     tx_fifo := drop (drained i) (tx_fifo d), tx_line := tx_line d @ take (drained i) (tx_fifo d)\<rparr>"

definition quiet :: hw_in where
  "quiet = \<lparr>raised = 0, arrived = [], drained = 0\<rparr>"

fun next_in :: "hw_in list \<Rightarrow> hw_in \<times> hw_in list" where
  "next_in [] = (quiet, [])"
| "next_in (i # is) = (i, is)"

subsection \<open>The description of a transmission\<close>

text \<open>The packed words of \<open>uart_tx_data_t\<close>: type, break length, size.\<close>

record uart_tx_data_t =
  tx_type :: u32
  brk_len :: u32
  tx_size :: u32

abbreviation (input) TYPE_UART_DATA :: u32 where "TYPE_UART_DATA \<equiv> 0"
abbreviation (input) TYPE_UART_DATA_BREAK :: u32 where "TYPE_UART_DATA_BREAK \<equiv> 6"

definition tx_data_bytes :: "uart_tx_data_t \<Rightarrow> u8 list" where
  "tx_data_bytes t = le32 (tx_type t) @ le32 (brk_len t) @ le32 (tx_size t)"

definition tx_data_of :: "u8 list \<Rightarrow> uart_tx_data_t" where
  "tx_data_of bs = \<lparr>tx_type = of_le32 bs, brk_len = of_le32 (drop 4 bs), tx_size = of_le32 (drop 8 bs)\<rparr>"

interpretation tx_data: wire_format tx_data_bytes tx_data_of "\<lambda>_. True" 12
  by unfold_locales (simp_all add: tx_data_bytes_def tx_data_of_def)

subsection \<open>Transmitting from the ring buffer\<close>

datatype fetched = Fetch_stop uart_obj | Fetched bool uart_obj

text \<open>
  The first half of the loop: get the next item when there is nothing to send. An item that
  is read as a description must have its twelve bytes.
\<close>

definition tx_fetch :: "bool \<Rightarrow> uart_obj \<Rightarrow> fetched result" where
  "tx_fetch en p =
     (if tx_len_tot p = 0 \<or> tx_ptr p = None \<or> tx_len_cur p = 0 then
        (case tx_ring_buf p of None \<Rightarrow> Inl Null_dereference
         | Some [] \<Rightarrow> Inr (Fetch_stop (p\<lparr>tx_head := None\<rparr>))
         | Some (item # ring) \<Rightarrow>
           (let p1 = p\<lparr>tx_ring_buf := Some ring, tx_head := Some item\<rparr> in
            if tx_len_tot p1 = 0 then
              if length item < 12 then Inl Out_of_bounds
              else (let t = tx_data_of item; p2 = p1\<lparr>tx_ptr := None, tx_len_tot := tx_size t\<rparr> in
                Inr (Fetched en (if tx_type t = TYPE_UART_DATA_BREAK
                  then p2\<lparr>tx_len_tot := tx_size t, tx_brk_flg := 1, tx_brk_len := ucast (brk_len t)\<rparr> else p2)))
            else if tx_ptr p1 = None then
              Inr (Fetched True (p1\<lparr>tx_ptr := Some item, tx_len_cur := of_nat (length item)\<rparr>))
            else Inr (Fetched en p1)))
      else Inr (Fetched en p))"

text \<open>The second half: move as much of the current item as the FIFO has room for.\<close>

definition start_break :: "u8 \<Rightarrow> uart_dev \<Rightarrow> uart_dev" where
  "start_break len d = int_enable TX_BRK_DONE (int_clr (int_mask TX_BRK_DONE) (set_conf0 TXD_BRK 1
     ((int_disable TX_BRK_DONE d)\<lparr>idle_conf := set_field TX_BRK_NUM (ucast len) (idle_conf d)\<rparr>)))"

definition tx_push :: "nat \<Rightarrow> bool \<Rightarrow> uart_obj \<Rightarrow> uart_dev \<Rightarrow> (nat \<times> bool \<times> uart_obj \<times> uart_dev) result" where
  "tx_push rem en p d =
     (case tx_ptr p of
        Some bs \<Rightarrow>
          if tx_len_tot p > 0 \<and> tx_len_cur p > 0 then
            (let send_len = (if unat (tx_len_cur p) > rem then rem else unat (tx_len_cur p)) in
             if length bs < send_len then Inl Out_of_bounds
             else
               (let d1 = fifo_write (take send_len bs) d;
                    p1 = p\<lparr>tx_ptr := Some (drop send_len bs), tx_len_tot := tx_len_tot p - of_nat send_len,
                           tx_len_cur := tx_len_cur p - of_nat send_len\<rparr>
                in if tx_len_cur p1 = 0 then
                     (let p2 = p1\<lparr>tx_head := None, tx_ptr := None\<rparr> in
                      if tx_brk_flg p2 = 1 \<and> tx_len_tot p2 = 0
                      then Inr (rem - send_len, en, p2\<lparr>tx_waiting_brk := 1\<rparr>, start_break (tx_brk_len p2) d1)
                      else Inr (rem - send_len, True, p2, d1))
                   else Inr (rem - send_len, True, p1, d1)))
          else Inr (rem, en, p, d)
      | None \<Rightarrow> Inr (rem, en, p, d))"

definition tx_items :: "uart_obj \<Rightarrow> nat" where
  "tx_items p = (case tx_ring_buf p of None \<Rightarrow> 0 | Some r \<Rightarrow> length r)"

lemma tx_push_ring: "tx_push rem en p d = Inr (rem', en', p', d') \<Longrightarrow> tx_ring_buf p' = tx_ring_buf p"
  by (auto simp: tx_push_def Let_def split: option.splits if_splits)

lemma tx_push_rem: "tx_push rem en p d = Inr (rem', en', p', d') \<Longrightarrow> rem' \<le> rem"
  by (auto simp: tx_push_def Let_def split: option.splits if_splits)

lemma tx_fetch_cases:
  assumes "tx_fetch en p = Inr (Fetched en' p')"
  shows "tx_items p' < tx_items p \<or>
    (p' = p \<and> tx_len_tot p \<noteq> 0 \<and> tx_ptr p \<noteq> None \<and> tx_len_cur p \<noteq> 0)"
  using assms by (auto simp: tx_fetch_def tx_items_def Let_def split: option.splits list.splits if_splits)

lemma tx_push_progress:
  assumes "tx_push rem en p d = Inr (rem', en', p', d')" and "rem \<noteq> 0"
    and "tx_len_tot p \<noteq> 0" "tx_ptr p \<noteq> None" "tx_len_cur p \<noteq> 0"
  shows "rem' < rem"
  using assms
  by (auto simp: tx_push_def Let_def word_neq_0_conv unat_gt_0 split: option.splits if_splits)

function tx_loop :: "nat \<Rightarrow> bool \<Rightarrow> uart_obj \<Rightarrow> uart_dev \<Rightarrow> (bool \<times> uart_obj \<times> uart_dev) result" where
  "tx_loop rem en p d =
     (if rem = 0 then Inr (en, p, d)
      else case tx_fetch en p of
        Inl e \<Rightarrow> Inl e
      | Inr (Fetch_stop p') \<Rightarrow> Inr (en, p', d)
      | Inr (Fetched en' p') \<Rightarrow>
          (case tx_push rem en' p' d of
             Inl e \<Rightarrow> Inl e
           | Inr (rem', en'', p'', d') \<Rightarrow> tx_loop rem' en'' p'' d'))"
  by pat_completeness auto
termination
proof (relation "measure (\<lambda>(rem, en, p, d). rem + tx_items p)")
  fix rem en p d f en' p' r rem' x en'' y p'' d'
  assume "rem \<noteq> (0 :: nat)" "tx_fetch en p = Inr f" "f = Fetched en' p'"
    "tx_push rem en' p' d = Inr r" "(rem', x) = r" "(en'', y) = x" "(p'', d') = y"
  then have *: "tx_fetch en p = Inr (Fetched en' p')" "tx_push rem en' p' d = Inr (rem', en'', p'', d')" "rem \<noteq> 0"
    by auto
  have items: "tx_items p'' = tx_items p'" using tx_push_ring [OF *(2)] by (simp add: tx_items_def)
  show "((rem', en'', p'', d'), rem, en, p, d) \<in> measure (\<lambda>(rem, en, p, d). rem + tx_items p)"
    using tx_fetch_cases [OF *(1)]
  proof
    assume "tx_items p' < tx_items p"
    then show ?thesis using items tx_push_rem [OF *(2)] by simp
  next
    assume "p' = p \<and> tx_len_tot p \<noteq> 0 \<and> tx_ptr p \<noteq> None \<and> tx_len_cur p \<noteq> 0"
    then show ?thesis using items tx_push_progress [OF *(2,3)] by simp
  qed
qed simp

declare tx_loop.simps [simp del]

subsection \<open>One turn of the handler\<close>

text \<open>
  The outcome of a turn: whether the C goes on with \<open>continue\<close>, that is, without reading the
  status again, and the event to be queued. The size of an event keeps its last value,
  as the local variable of the handler does.
\<close>

record turn =
  goes_on :: bool
  event :: uart_event_type_t
  event_size :: nat
  obj :: uart_obj
  dev :: uart_dev

definition turn_done :: "uart_event_type_t \<Rightarrow> nat \<Rightarrow> uart_obj \<Rightarrow> uart_dev \<Rightarrow> turn" where
  "turn_done e sz p d = \<lparr>goes_on = False, event = e, event_size = sz, obj = p, dev = d\<rparr>"

definition isr_tx_empty :: "nat \<Rightarrow> uart_obj \<Rightarrow> uart_dev \<Rightarrow> turn result" where
  "isr_tx_empty sz p d =
     (let d1 = int_clr (int_mask TXFIFO_EMPTY) (int_disable TXFIFO_EMPTY d);
          again = \<lparr>goes_on = True, event = UART_EVENT_MAX, event_size = sz, obj = p, dev = d1\<rparr> in
      if tx_waiting_brk p \<noteq> 0 then Inr again
      else if tx_waiting_fifo p \<and> tx_buf_size p = 0 then
        bind_result (sem_give (tx_fifo_sem p)) (\<lambda>h.
          Inr (turn_done UART_EVENT_MAX sz (p\<lparr>tx_waiting_fifo := False, tx_fifo_sem := h\<rparr>) d1))
      else if tx_buf_size p = 0 then Inr again
      else bind_result (tx_loop (UART_FIFO_LEN - length (tx_fifo d1)) False p d1) (\<lambda>(en, p', d2).
        Inr (turn_done UART_EVENT_MAX sz p'
          (if en then int_enable TXFIFO_EMPTY (int_clr (int_mask TXFIFO_EMPTY) d2) else d2))))"

definition isr_rx :: "(uart_obj \<Rightarrow> u8 list \<Rightarrow> bool) \<Rightarrow> nat \<Rightarrow> uart_obj \<Rightarrow> uart_dev \<Rightarrow> turn result" where
  "isr_rx acc sz p d =
     (if \<not> rx_buffer_full_flg p then
        (let bs = rx_fifo d; rx_fifo_len = length bs in
         if length (rx_data_buf p) < rx_fifo_len then Inl Out_of_bounds
         else
           (let p1 = p\<lparr>rx_stash_len := of_nat rx_fifo_len, rx_data_buf := bs @ drop rx_fifo_len (rx_data_buf p)\<rparr>;
                d1 = int_clr (int_mask RXFIFO_FULL) (int_clr (int_mask RXFIFO_TOUT) (d\<lparr>rx_fifo := []\<rparr>));
                piece = take (unat (rx_stash_len p1)) (rx_data_buf p1)
            in case rx_ring_buf p of None \<Rightarrow> Inl Null_dereference
            | Some ring \<Rightarrow>
              if \<not> acc p1 piece
              then Inr (turn_done UART_BUFFER_FULL rx_fifo_len (p1\<lparr>rx_buffer_full_flg := True\<rparr>)
                     (int_disable RXFIFO_TOUT (int_disable RXFIFO_FULL d1)))
              else Inr (turn_done UART_DATA rx_fifo_len
                     (p1\<lparr>rx_ring_buf := Some (ring @ piece),
                         rx_buffered_len := rx_buffered_len p1 + int (unat (rx_stash_len p1))\<rparr>) d1)))
      else Inr (turn_done UART_BUFFER_FULL sz p
             (int_clr (int_mask RXFIFO_FULL OR int_mask RXFIFO_TOUT)
               (int_disable RXFIFO_TOUT (int_disable RXFIFO_FULL d)))))"

definition isr_tx_brk_done :: "nat \<Rightarrow> uart_obj \<Rightarrow> uart_dev \<Rightarrow> turn result" where
  "isr_tx_brk_done sz p d =
     (let d1 = int_clr (int_mask TX_BRK_DONE) (int_disable TX_BRK_DONE (set_conf0 TXD_BRK 0 d)) in
      if tx_brk_flg p = 1
      then Inr (turn_done UART_EVENT_MAX sz (p\<lparr>tx_brk_flg := 0, tx_waiting_brk := 0\<rparr>) (int_enable TXFIFO_EMPTY d1))
      else bind_result (sem_give (tx_brk_sem p)) (\<lambda>h. Inr (turn_done UART_EVENT_MAX sz (p\<lparr>tx_brk_sem := h\<rparr>) d1)))"

definition isr_tx_done :: "nat \<Rightarrow> uart_obj \<Rightarrow> uart_dev \<Rightarrow> turn result" where
  "isr_tx_done sz p d =
     bind_result (sem_give (tx_done_sem p)) (\<lambda>h.
       Inr (turn_done UART_EVENT_MAX sz (p\<lparr>tx_done_sem := h\<rparr>) (int_clr (int_mask TX_DONE) (int_disable TX_DONE d))))"

definition isr_turn :: "(uart_obj \<Rightarrow> u8 list \<Rightarrow> bool) \<Rightarrow> u32 \<Rightarrow> nat \<Rightarrow> uart_obj \<Rightarrow> uart_dev \<Rightarrow> turn result" where
  "isr_turn acc st sz p d =
     (if bit st TXFIFO_EMPTY then isr_tx_empty sz p d
      else if bit st RXFIFO_TOUT \<or> bit st RXFIFO_FULL then isr_rx acc sz p d
      else if bit st RXFIFO_OVF then
        Inr (turn_done UART_FIFO_OVF sz p (int_clr (int_mask RXFIFO_OVF) (set_conf0 RXFIFO_RST 0 (set_conf0 RXFIFO_RST 1 d))))
      else if bit st BRK_DET then Inr (turn_done UART_BREAK sz p (int_clr (int_mask BRK_DET) d))
      else if bit st FRM_ERR then Inr (turn_done UART_FRAME_ERR sz p (int_clr (int_mask FRM_ERR) d))
      else if bit st PARITY_ERR then Inr (turn_done UART_PARITY_ERR sz p (int_clr (int_mask PARITY_ERR) d))
      else if bit st TX_BRK_DONE then isr_tx_brk_done sz p d
      else if bit st TX_BRK_IDLE_DONE then
        Inr (turn_done UART_EVENT_MAX sz p (int_clr (int_mask TX_BRK_IDLE_DONE) (int_disable TX_BRK_IDLE_DONE d)))
      else if bit st AT_CMD_CHAR_DET then Inr (turn_done UART_PATTERN_DET sz p (int_clr (int_mask AT_CMD_CHAR_DET) d))
      else if bit st TX_DONE then isr_tx_done sz p d
      else Inr (turn_done UART_EVENT_MAX sz p (int_clr st d)))"

text \<open>Queueing the event; a queue that is full drops it.\<close>

definition send_event :: "turn \<Rightarrow> uart_obj" where
  "send_event t =
     (if event t = UART_EVENT_MAX then obj t
      else case xQueueUart (obj t) of None \<Rightarrow> obj t
      | Some q \<Rightarrow>
        if length q < queue_size (obj t)
        then (obj t)\<lparr>xQueueUart := Some (q @ [\<lparr>ev_type = event t, ev_size = event_size t\<rparr>])\<rparr>
        else obj t)"

fun isr_loop :: "nat \<Rightarrow> (uart_obj \<Rightarrow> u8 list \<Rightarrow> bool) \<Rightarrow> u32 \<Rightarrow> nat \<Rightarrow> hw_in list \<Rightarrow> uart_obj \<Rightarrow> uart_dev \<Rightarrow>
    (uart_obj \<times> uart_dev \<times> hw_in list) result option" where
  "isr_loop 0 acc st sz env p d = (if st = 0 then Some (Inr (p, d, env)) else None)"
| "isr_loop (Suc fuel) acc st sz env p d =
     (if st = 0 then Some (Inr (p, d, env))
      else case isr_turn acc st sz p d of
        Inl e \<Rightarrow> Some (Inl e)
      | Inr t \<Rightarrow>
        if goes_on t then isr_loop fuel acc st (event_size t) env (obj t) (dev t)
        else (let (i, env') = next_in env; d' = hw_step i (dev t)
              in isr_loop fuel acc (int_st d') (event_size t) env' (send_event t) d'))"

definition uart_rx_intr_handler_default ::
  "nat \<Rightarrow> (uart_obj \<Rightarrow> u8 list \<Rightarrow> bool) \<Rightarrow> nat \<Rightarrow> hw_in list \<Rightarrow> uart_obj \<Rightarrow> uart_dev \<Rightarrow>
    (uart_obj \<times> uart_dev \<times> hw_in list) result option" where
  "uart_rx_intr_handler_default fuel acc sz env p d = isr_loop fuel acc (int_st d) sz env p d"

lemma turn_done_simps [simp]:
  "\<not> goes_on (turn_done e sz p d)" "obj (turn_done e sz p d) = p" "dev (turn_done e sz p d) = d"
  "event (turn_done e sz p d) = e" "event_size (turn_done e sz p d) = sz"
  by (simp_all add: turn_done_def)

subsection \<open>Termination\<close>

text \<open>The branches that leave the turn without reading the status again.\<close>

definition stuck :: "u32 \<Rightarrow> uart_obj \<Rightarrow> bool" where
  "stuck st p \<longleftrightarrow> bit st TXFIFO_EMPTY \<and>
     (tx_waiting_brk p \<noteq> 0 \<or> (tx_buf_size p = 0 \<and> \<not> tx_waiting_fifo p))"

lemma isr_turn_stuck:
  "stuck st p \<Longrightarrow> \<exists>t. isr_turn acc st sz p d = Inr t \<and> goes_on t \<and> obj t = p"
  by (auto simp: stuck_def isr_turn_def isr_tx_empty_def Let_def)

lemma isr_loop_stuck: "stuck st p \<Longrightarrow> isr_loop fuel acc st sz env p d = None"
proof (induction fuel arbitrary: sz d)
  case 0
  then show ?case by (auto simp: stuck_def)
next
  case (Suc fuel)
  then obtain t where "isr_turn acc st sz p d = Inr t" "goes_on t" "obj t = p"
    using isr_turn_stuck by blast
  moreover have "st \<noteq> 0" using Suc.prems by (auto simp: stuck_def)
  ultimately show ?case using Suc by simp
qed

text \<open>Every other turn clears a raw interrupt that was pending and raises none.\<close>

definition pending_bits :: "uart_dev \<Rightarrow> nat set" where
  "pending_bits d = {k. bit (int_raw d) k}"

lemma finite_pending_bits [simp]: "finite (pending_bits d)"
  by (rule finite_subset [of _ "{..<32}"]) (auto simp: pending_bits_def dest: bit_imp_le_length)

lemma tx_push_raw: "tx_push rem en p d = Inr (rem', en', p', d') \<Longrightarrow> pending_bits d' \<subseteq> pending_bits d"
  by (auto simp: tx_push_def Let_def start_break_def pending_bits_def bit_simps split: option.splits if_splits)

lemma tx_loop_0: "tx_loop 0 en p d = Inr (en, p, d)"
  by (subst tx_loop.simps) simp

lemma tx_loop_stop: "rem \<noteq> 0 \<Longrightarrow> tx_fetch en p = Inr (Fetch_stop q) \<Longrightarrow> tx_loop rem en p d = Inr (en, q, d)"
  by (subst tx_loop.simps) simp

lemma tx_loop_step:
  "rem \<noteq> 0 \<Longrightarrow> tx_fetch en p = Inr (Fetched en1 p1) \<Longrightarrow> tx_push rem en1 p1 d = Inr (r, en2, p2, d2) \<Longrightarrow>
     tx_loop rem en p d = tx_loop r en2 p2 d2"
  by (subst tx_loop.simps) simp

text \<open>The rule of the loop: what a stop and a full turn keep, the loop keeps.\<close>

lemma tx_loop_invariant:
  assumes "tx_loop rem en p d = Inr (en', p', d')" and "I rem en p d"
    and "\<And>rem en p d q. I rem en p d \<Longrightarrow> rem \<noteq> 0 \<Longrightarrow> tx_fetch en p = Inr (Fetch_stop q) \<Longrightarrow> I rem en q d"
    and "\<And>rem en p d en1 p1 r en2 p2 d2. I rem en p d \<Longrightarrow> rem \<noteq> 0 \<Longrightarrow> tx_fetch en p = Inr (Fetched en1 p1) \<Longrightarrow>
           tx_push rem en1 p1 d = Inr (r, en2, p2, d2) \<Longrightarrow> I r en2 p2 d2"
  shows "\<exists>r. I r en' p' d'"
  using assms(1,2)
proof (induction rem en p d rule: tx_loop.induct)
  case (1 rem en p d)
  show ?case
  proof (cases "rem = 0")
    case True
    then show ?thesis using "1.prems" by (auto simp: tx_loop_0)
  next
    case rem: False
    then consider q where "tx_fetch en p = Inr (Fetch_stop q)"
      | en1 p1 r en2 p2 d2 where "tx_fetch en p = Inr (Fetched en1 p1)" "tx_push rem en1 p1 d = Inr (r, en2, p2, d2)"
      using "1.prems"(1) by (subst (asm) tx_loop.simps) (auto split: sum.splits fetched.splits)
    then show ?thesis
    proof cases
      case 1
      have "I rem en q d" using "1.prems"(2) rem 1 by (rule assms(3))
      then show ?thesis using "1.prems"(1) tx_loop_stop [OF rem 1] by auto
    next
      case 2
      have "I r en2 p2 d2" using "1.prems"(2) rem 2 by (rule assms(4))
      then show ?thesis
        using "1.IH" [OF rem 2(1) refl 2(2) refl refl refl] "1.prems"(1) tx_loop_step [OF rem 2] by simp
    qed
  qed
qed

lemma tx_loop_raw: "tx_loop rem en p d = Inr (en', p', d') \<Longrightarrow> pending_bits d' \<subseteq> pending_bits d"
  using tx_loop_invariant [where I = "\<lambda>_ _ _ x. pending_bits x \<subseteq> pending_bits d"] tx_push_raw by blast

lemma clears:
  "k < 32 \<Longrightarrow> bit (int_raw d) k \<Longrightarrow> pending_bits d' \<subseteq> pending_bits d - {k} \<Longrightarrow>
     card (pending_bits d') < card (pending_bits d)"
  by (rule psubset_card_mono) (auto simp: pending_bits_def)

lemma pending_bits_simps [simp]:
  "pending_bits (int_enable k d) = pending_bits d" "pending_bits (int_disable k d) = pending_bits d"
  "pending_bits (set_conf0 f v d) = pending_bits d" "pending_bits (d\<lparr>rx_fifo := bs\<rparr>) = pending_bits d"
  "pending_bits (d\<lparr>idle_conf := w\<rparr>) = pending_bits d"
  by (simp_all add: pending_bits_def)

lemma pending_bits_clr [simp]: "pending_bits (int_clr m d) = pending_bits d - {k. bit m k}"
  by (auto simp: pending_bits_def bit_simps dest: bit_imp_le_length)

lemma bits_int_mask [simp]: "k < 32 \<Longrightarrow> {j. bit (int_mask k) j} = {k}"
  by (auto simp: bit_int_mask)

lemma isr_tx_empty_clears:
  assumes "isr_tx_empty sz p d = Inr t" and "\<not> goes_on t"
  shows "pending_bits (dev t) \<subseteq> pending_bits d - {TXFIFO_EMPTY}"
  using assms
  by (auto simp: isr_tx_empty_def Let_def bind_result_eq_Inr split: if_splits dest!: tx_loop_raw)

lemma isr_rx_clears:
  "isr_rx acc sz p d = Inr t \<Longrightarrow>
     \<not> goes_on t \<and> pending_bits (dev t) \<subseteq> pending_bits d - {RXFIFO_FULL, RXFIFO_TOUT}"
  by (auto simp: isr_rx_def Let_def bit_int_mask bit_or_iff split: if_splits option.splits)

text \<open>In every branch but the first, a pending interrupt is cleared and none is raised.\<close>

lemma isr_turn_clears:
  assumes "isr_turn acc (int_st d) sz p d = Inr t" and "int_st d \<noteq> 0" and "\<not> goes_on t"
  shows "card (pending_bits (dev t)) < card (pending_bits d)"
proof -
  have st: "bit (int_raw d) k" if "bit (int_st d) k" for k
    using that by (simp add: int_st_def bit_simps)
  obtain j where j: "bit (int_st d) j" using assms(2) by (auto simp: bit_eq_iff)
  have one: "card (pending_bits (dev t)) < card (pending_bits d)"
    if "bit (int_st d) k" "k < 32" "pending_bits (dev t) \<subseteq> pending_bits d - {k}" for k
    using clears [OF that(2) st [OF that(1)] that(3)] .
  consider (tx) "bit (int_st d) TXFIFO_EMPTY"
    | (rx) "\<not> bit (int_st d) TXFIFO_EMPTY" "bit (int_st d) RXFIFO_TOUT \<or> bit (int_st d) RXFIFO_FULL"
    | (rest) "\<not> bit (int_st d) TXFIFO_EMPTY" "\<not> (bit (int_st d) RXFIFO_TOUT \<or> bit (int_st d) RXFIFO_FULL)"
    by blast
  then show ?thesis
  proof cases
    case tx
    then have "isr_tx_empty sz p d = Inr t" using assms(1) by (simp add: isr_turn_def)
    then show ?thesis using one [OF tx] isr_tx_empty_clears [OF _ assms(3)] by simp
  next
    case rx
    then have "isr_rx acc sz p d = Inr t" using assms(1) unfolding isr_turn_def by (auto split: if_splits)
    note c = isr_rx_clears [OF this]
    show ?thesis using rx(2)
    proof
      assume "bit (int_st d) RXFIFO_TOUT"
      then show ?thesis using c by (intro one [of RXFIFO_TOUT]) auto
    next
      assume "bit (int_st d) RXFIFO_FULL"
      then show ?thesis using c by (intro one [of RXFIFO_FULL]) auto
    qed
  next
    case rest
    have "\<exists>k. bit (int_st d) k \<and> k < 32 \<and> pending_bits (dev t) \<subseteq> pending_bits d - {k}"
      using assms(1) rest j bit_imp_le_length [OF j] unfolding isr_turn_def
      by (auto simp: isr_tx_brk_done_def isr_tx_done_def Let_def bind_result_eq_Inr split: if_splits)
    then show ?thesis using one by blast
  qed
qed

text \<open>
  A state in which a transmit interrupt, if it is pending, leads to neither of the two
  \<open>continue\<close> branches.
\<close>

definition serviceable :: "uart_obj \<Rightarrow> uart_dev \<Rightarrow> bool" where
  "serviceable p d \<longleftrightarrow> (bit (int_raw d) TXFIFO_EMPTY \<longrightarrow>
     tx_waiting_brk p = 0 \<and> (tx_buf_size p \<noteq> 0 \<or> tx_waiting_fifo p))"

lemma serviceable_pending:
  "serviceable p d \<longleftrightarrow> (TXFIFO_EMPTY \<in> pending_bits d \<longrightarrow>
     tx_waiting_brk p = 0 \<and> (tx_buf_size p \<noteq> 0 \<or> tx_waiting_fifo p))"
  by (simp add: serviceable_def pending_bits_def)

lemma isr_tx_empty_serviceable:
  assumes "isr_tx_empty sz p d = Inr t" and "bit (int_raw d) TXFIFO_EMPTY" and "serviceable p d"
  shows "\<not> goes_on t \<and> serviceable (obj t) (dev t)"
proof -
  have "\<not> goes_on t"
    using assms by (auto simp: serviceable_def isr_tx_empty_def Let_def bind_result_eq_Inr split: if_splits)
  with isr_tx_empty_clears [OF assms(1)] show ?thesis by (auto simp: serviceable_pending)
qed

lemma serviceable_mono:
  "serviceable p d \<Longrightarrow> pending_bits d' \<subseteq> pending_bits d \<Longrightarrow>
     tx_waiting_brk p' = tx_waiting_brk p \<or> tx_waiting_brk p' = 0 \<Longrightarrow> tx_buf_size p' = tx_buf_size p \<Longrightarrow>
     tx_waiting_fifo p' = tx_waiting_fifo p \<Longrightarrow> serviceable p' d'"
  by (auto simp: serviceable_pending)

lemma isr_rx_obj:
  "isr_rx acc sz p d = Inr t \<Longrightarrow> tx_waiting_brk (obj t) = tx_waiting_brk p \<and>
     tx_buf_size (obj t) = tx_buf_size p \<and> tx_waiting_fifo (obj t) = tx_waiting_fifo p"
  by (auto simp: isr_rx_def Let_def split: if_splits option.splits)

lemma isr_turn_serviceable:
  assumes "isr_turn acc (int_st d) sz p d = Inr t" and "serviceable p d"
  shows "\<not> goes_on t \<and> serviceable (obj t) (dev t)"
proof -
  consider (tx) "bit (int_st d) TXFIFO_EMPTY"
    | (rx) "\<not> bit (int_st d) TXFIFO_EMPTY" "bit (int_st d) RXFIFO_TOUT \<or> bit (int_st d) RXFIFO_FULL"
    | (rest) "\<not> bit (int_st d) TXFIFO_EMPTY" "\<not> (bit (int_st d) RXFIFO_TOUT \<or> bit (int_st d) RXFIFO_FULL)"
    by blast
  then show ?thesis
  proof cases
    case tx
    then have "isr_tx_empty sz p d = Inr t" "bit (int_raw d) TXFIFO_EMPTY"
      using assms(1) by (simp_all add: isr_turn_def int_st_def bit_simps)
    then show ?thesis using isr_tx_empty_serviceable assms(2) by blast
  next
    case rx
    then have r: "isr_rx acc sz p d = Inr t" using assms(1) unfolding isr_turn_def by (auto split: if_splits)
    show ?thesis using isr_rx_clears [OF r] isr_rx_obj [OF r] by (auto intro: serviceable_mono [OF assms(2)])
  next
    case rest
    then show ?thesis
      using assms(1) unfolding isr_turn_def
      by (auto simp: isr_tx_brk_done_def isr_tx_done_def Let_def bind_result_eq_Inr split: if_splits
          intro: serviceable_mono [OF assms(2)])
  qed
qed

lemma send_event_simps [simp]:
  "tx_waiting_brk (send_event t) = tx_waiting_brk (obj t)" "tx_buf_size (send_event t) = tx_buf_size (obj t)"
  "tx_waiting_fifo (send_event t) = tx_waiting_fifo (obj t)"
  by (auto simp: send_event_def split: option.splits)

lemma card_pending_le: "card (pending_bits d) \<le> 32"
proof -
  have "pending_bits d \<subseteq> {..<32}" by (auto simp: pending_bits_def dest: bit_imp_le_length)
  then have "card (pending_bits d) \<le> card {..<32 :: nat}" by (intro card_mono) auto
  then show ?thesis by simp
qed

lemma isr_loop_returns:
  assumes "serviceable p d" and "\<forall>i \<in> set env. \<not> bit (raised i) TXFIFO_EMPTY"
    and "card (pending_bits d) + 33 * length env \<le> fuel"
  shows "isr_loop fuel acc (int_st d) sz env p d \<noteq> None"
  using assms
proof (induction fuel arbitrary: sz env p d)
  case 0
  then have "pending_bits d = {}" by simp
  then have "int_raw d = 0" by (intro bit_word_eqI) (auto simp: pending_bits_def)
  then show ?case by (simp add: int_st_def)
next
  case (Suc fuel)
  show ?case
  proof (cases "int_st d = 0 \<or> (\<exists>e. isr_turn acc (int_st d) sz p d = Inl e)")
    case True
    then show ?thesis by auto
  next
    case False
    then obtain t where t: "isr_turn acc (int_st d) sz p d = Inr t" "int_st d \<noteq> 0" by (metis sum.exhaust)
    note serv = isr_turn_serviceable [OF t(1) Suc.prems(1)]
    have less: "card (pending_bits (dev t)) < card (pending_bits d)" using isr_turn_clears [OF t] serv by blast
    obtain i env' where next_i: "next_in env = (i, env')" by (cases "next_in env")
    define d' where "d' = hw_step i (dev t)"
    have i: "\<not> bit (raised i) TXFIFO_EMPTY" "\<forall>i \<in> set env'. \<not> bit (raised i) TXFIFO_EMPTY"
        "env = [] \<and> env' = [] \<and> i = quiet \<or> env = i # env'"
      using next_i Suc.prems(2) by (cases env; auto simp: quiet_def)+
    have "pending_bits d' \<subseteq> pending_bits (dev t) \<union> {k. bit (raised i) k}"
      by (auto simp: d'_def hw_step_def pending_bits_def bit_simps)
    then have s': "serviceable (send_event t) d'" using serv i(1) by (auto simp: serviceable_pending)
    have "card (pending_bits d') + 33 * length env' \<le> fuel"
    proof (cases env)
      case Nil
      then have "pending_bits d' = pending_bits (dev t)" "env' = []"
        using i(3) by (auto simp: d'_def hw_step_def quiet_def pending_bits_def)
      then show ?thesis using less Suc.prems(3) by simp
    next
      case (Cons j env'')
      then have "length env = Suc (length env')" using i(3) by auto
      then show ?thesis using card_pending_le [of d'] less Suc.prems(3) by simp
    qed
    then have "isr_loop fuel acc (int_st d') (event_size t) env' (send_event t) d' \<noteq> None"
      using Suc.IH [OF s' i(2)] by blast
    then show ?thesis using t serv next_i by (simp add: d'_def Let_def)
  qed
qed

subsection \<open>The stream in the transmit ring buffer\<close>

text \<open>
  \<open>n\<close> is what is still to come of the transmission under way. The last transmission of the
  ring buffer may be incomplete: its pieces are queued one by one.
\<close>

fun stream_ok :: "nat \<Rightarrow> u8 list list \<Rightarrow> bool" where
  "stream_ok n [] = True"
| "stream_ok n (x # r) =
     (if n = 0 then length x = 12 \<and> 0 < unat (tx_size (tx_data_of x)) \<and> stream_ok (unat (tx_size (tx_data_of x))) r
      else x \<noteq> [] \<and> length x \<le> n \<and> stream_ok (n - length x) r)"

fun payload :: "nat \<Rightarrow> u8 list list \<Rightarrow> u8 list" where
  "payload n [] = []"
| "payload n (x # r) =
     (if n = 0 then payload (unat (tx_size (tx_data_of x))) r else x @ payload (n - length x) r)"

fun still_to_come :: "nat \<Rightarrow> u8 list list \<Rightarrow> nat" where
  "still_to_come n [] = n"
| "still_to_come n (x # r) =
     (if n = 0 then still_to_come (unat (tx_size (tx_data_of x))) r else still_to_come (n - length x) r)"

lemma stream_append:
  "stream_ok n (r @ r') \<longleftrightarrow> stream_ok n r \<and> stream_ok (still_to_come n r) r'"
  "payload n (r @ r') = payload n r @ payload (still_to_come n r) r'"
  "still_to_come n (r @ r') = still_to_come (still_to_come n r) r'"
  by (induction n r rule: stream_ok.induct) auto

text \<open>The pieces of one transmission.\<close>

lemma stream_pieces:
  assumes "\<forall>x \<in> set xs. x \<noteq> []" and "length (concat xs) \<le> n"
  shows "stream_ok n xs \<and> payload n xs = concat xs \<and> still_to_come n xs = n - length (concat xs)"
  using assms
proof (induction xs arbitrary: n)
  case Nil
  then show ?case by simp
next
  case (Cons x xs)
  then have "n \<noteq> 0" "length (concat xs) \<le> n - length x" by (cases x; auto)+
  then show ?case using Cons by (auto simp: Cons.IH)
qed

definition current :: "uart_obj \<Rightarrow> u8 list" where
  "current p = (case tx_ptr p of None \<Rightarrow> [] | Some bs \<Rightarrow> bs)"

definition ring_of :: "uart_obj \<Rightarrow> u8 list list" where
  "ring_of p = (case tx_ring_buf p of None \<Rightarrow> [] | Some r \<Rightarrow> r)"

text \<open>The bytes the driver still owes the line.\<close>

definition pending :: "uart_obj \<Rightarrow> u8 list" where
  "pending p = current p @ payload (unat (tx_len_tot p) - length (current p)) (ring_of p)"

definition tx_ok :: "uart_obj \<Rightarrow> bool" where
  "tx_ok p \<longleftrightarrow> tx_ring_buf p \<noteq> None \<and>
     (\<forall>bs. tx_ptr p = Some bs \<longrightarrow> bs \<noteq> [] \<and> unat (tx_len_cur p) = length bs \<and> length bs \<le> unat (tx_len_tot p)) \<and>
     stream_ok (unat (tx_len_tot p) - length (current p)) (ring_of p)"

lemma tx_fetch_ok:
  assumes "tx_ok p"
  obtains (stop) q where "tx_fetch en p = Inr (Fetch_stop q)" "tx_ok q" "pending q = pending p" "pending p = []"
      "tx_ring_buf q = tx_ring_buf p"
  | (go) en' q where "tx_fetch en p = Inr (Fetched en' q)" "tx_ok q" "pending q = pending p"
proof -
  obtain ring where ring: "tx_ring_buf p = Some ring" using assms by (auto simp: tx_ok_def)
  have cur: "unat (tx_len_cur p) = length bs" "bs \<noteq> []" "length bs \<le> unat (tx_len_tot p)"
    if "tx_ptr p = Some bs" for bs
    using assms that by (auto simp: tx_ok_def)
  show thesis
  proof (cases "tx_ptr p")
    case (Some bs)
    have "tx_len_cur p \<noteq> 0" "tx_len_tot p \<noteq> 0" using cur [OF Some] by auto
    then have "tx_fetch en p = Inr (Fetched en p)" using Some by (simp add: tx_fetch_def)
    then show thesis using go assms by blast
  next
    case None
    then have c: "current p = []" by (simp add: current_def)
    have st: "stream_ok (unat (tx_len_tot p)) ring"
      using assms ring c by (simp add: tx_ok_def ring_of_def)
    show thesis
    proof (cases ring)
      case Nil
      then have "tx_fetch en p = Inr (Fetch_stop (p\<lparr>tx_head := None\<rparr>))"
        using ring None by (simp add: tx_fetch_def)
      moreover have "tx_ok (p\<lparr>tx_head := None\<rparr>)" "pending (p\<lparr>tx_head := None\<rparr>) = pending p" "pending p = []"
        using assms ring Nil c by (auto simp: tx_ok_def pending_def current_def ring_of_def)
      ultimately show thesis using stop by simp
    next
      case (Cons x r)
      show thesis
      proof (cases "tx_len_tot p = 0")
        case True
        then have x: "length x = 12" "0 < unat (tx_size (tx_data_of x))" "stream_ok (unat (tx_size (tx_data_of x))) r"
          using st Cons by auto
        obtain q en' where q: "tx_fetch en p = Inr (Fetched en' q)" "tx_ptr q = None"
            "tx_len_tot q = tx_size (tx_data_of x)" "tx_ring_buf q = Some r"
          using True ring Cons x(1) by (auto simp: tx_fetch_def Let_def)
        have "tx_ok q" "pending q = pending p"
          using q x True ring Cons None by (auto simp: tx_ok_def pending_def current_def ring_of_def)
        then show thesis using go q(1) by blast
      next
        case False
        then have n: "unat (tx_len_tot p) \<noteq> 0" by (simp add: word_unat_eq_iff)
        then have x: "x \<noteq> []" "length x \<le> unat (tx_len_tot p)" "stream_ok (unat (tx_len_tot p) - length x) r"
          using st Cons by auto
        have "length x < 2 ^ 32" using x(2) unat_range [of "tx_len_tot p"] by simp
        then have l: "unat (of_nat (length x) :: u32) = length x" by (simp add: unat_of_nat)
        obtain q where q: "tx_fetch en p = Inr (Fetched True q)" "tx_ptr q = Some x"
            "tx_len_tot q = tx_len_tot p" "tx_ring_buf q = Some r" "tx_len_cur q = of_nat (length x)"
          using False ring Cons None by (auto simp: tx_fetch_def Let_def)
        have "tx_ok q" "pending q = pending p"
          using q x n l ring Cons None by (auto simp: tx_ok_def pending_def current_def ring_of_def)
        then show thesis using go q(1) by blast
      qed
    qed
  qed
qed

lemma word_minus_nat: "k \<le> unat (w :: u32) \<Longrightarrow> unat (w - of_nat k) = unat w - k"
  using unat_range [of w] by (simp add: unat_sub word_le_nat_alt unat_of_nat)

text \<open>The FIFO reset bits are not set.\<close>

definition dev_ok :: "uart_dev \<Rightarrow> bool" where
  "dev_ok d \<longleftrightarrow> \<not> bit (conf0 d) (fst RXFIFO_RST) \<and> \<not> bit (conf0 d) (fst TXFIFO_RST)"

lemma dev_ok_break:
  "dev_ok d \<Longrightarrow> dev_ok (start_break len d) \<and> tx_fifo (start_break len d) = tx_fifo d \<and>
     rx_fifo (start_break len d) = rx_fifo d"
  by (auto simp: dev_ok_def start_break_def bit_set_field set_conf0_def write_conf0_def)

text \<open>Pushing takes bytes off the front of what is owed and writes exactly these.\<close>

lemma tx_push_ok:
  assumes "tx_ok p" and "dev_ok d"
  obtains rem' en' p' d' bs where "tx_push rem en p d = Inr (rem', en', p', d')" "tx_ok p'" "dev_ok d'"
    and "tx_fifo d' = tx_fifo d @ bs" and "bs @ pending p' = pending p" and "rem' + length bs = rem"
proof (cases "tx_ptr p")
  case None
  then have "tx_push rem en p d = Inr (rem, en, p, d)" by (simp add: tx_push_def)
  then show thesis using assms that [of rem en p d "[]"] by simp
next
  case (Some bs)
  have cur: "unat (tx_len_cur p) = length bs" "0 < length bs" "length bs \<le> unat (tx_len_tot p)"
      "tx_ring_buf p \<noteq> None" "stream_ok (unat (tx_len_tot p) - length bs) (ring_of p)"
    using assms Some by (auto simp: tx_ok_def current_def)
  then have pos: "tx_len_tot p > 0" "tx_len_cur p > 0" by (simp_all only: word_less_nat_alt unsigned_0)
  define k where "k = (if length bs > rem then rem else length bs)"
  have k: "k \<le> length bs" "k \<le> rem" "k = length bs \<or> k = rem" by (auto simp: k_def)
  define p1 where "p1 = p\<lparr>tx_ptr := Some (drop k bs), tx_len_tot := tx_len_tot p - of_nat k,
    tx_len_cur := tx_len_cur p - of_nat k\<rparr>"
  define d1 where "d1 = fifo_write (take k bs) d"
  have len: "unat (tx_len_cur p1) = length bs - k" "unat (tx_len_tot p1) = unat (tx_len_tot p) - k"
    using k cur by (simp_all add: p1_def word_minus_nat)
  have push: "tx_push rem en p d =
      (if tx_len_cur p1 = 0 then
         (let p2 = p1\<lparr>tx_head := None, tx_ptr := None\<rparr> in
          if tx_brk_flg p2 = 1 \<and> tx_len_tot p2 = 0
          then Inr (rem - k, en, p2\<lparr>tx_waiting_brk := 1\<rparr>, start_break (tx_brk_len p2) d1)
          else Inr (rem - k, True, p2, d1))
       else Inr (rem - k, True, p1, d1))"
    using Some pos k(1) unfolding tx_push_def cur(1) k_def [symmetric] p1_def [symmetric] d1_def [symmetric]
    by (simp add: Let_def p1_def d1_def)
  have pend: "pending p = bs @ payload (unat (tx_len_tot p) - length bs) (ring_of p)"
    using Some by (simp add: pending_def current_def)
  have d1: "dev_ok d1" "tx_fifo d1 = tx_fifo d @ take k bs" using assms(2) by (simp_all add: d1_def dev_ok_def)
  have rem: "rem - k + length (take k bs) = rem" using k by simp
  have ring: "tx_ring_buf p1 = tx_ring_buf p" "ring_of p1 = ring_of p" by (simp_all add: p1_def ring_of_def)
  show thesis
  proof (cases "k = length bs")
    case True
    then have z: "tx_len_cur p1 = 0" using len(1) by (simp add: word_unat_eq_iff)
    have ok: "tx_ok q \<and> take k bs @ pending q = pending p"
      if "tx_ring_buf q = tx_ring_buf p1" "tx_ptr q = None" "tx_len_tot q = tx_len_tot p1" for q
      using that cur(4,5) pend len(2) True ring by (simp add: tx_ok_def pending_def current_def ring_of_def)
    show thesis
      using push z ok d1 dev_ok_break [OF d1(1)] rem
      by (cases "tx_brk_flg p1 = 1 \<and> tx_len_tot p1 = 0") (auto simp: Let_def intro!: that)
  next
    case False
    then have "tx_len_cur p1 \<noteq> 0" using len(1) k(1) by (auto simp: word_unat_eq_iff)
    then have "tx_push rem en p d = Inr (rem - k, True, p1, d1)" using push by simp
    moreover have "tx_ok p1" "take k bs @ pending p1 = pending p"
    proof -
      have c: "current p1 = drop k bs" "tx_ptr p1 = Some (drop k bs)" by (simp_all add: p1_def current_def)
      have n: "unat (tx_len_tot p) - k - (length bs - k) = unat (tx_len_tot p) - length bs" using k(1) cur(3) by simp
      show "tx_ok p1" using c n len ring cur False k(1) by (auto simp: tx_ok_def)
      show "take k bs @ pending p1 = pending p" using c n len(2) ring pend by (simp add: pending_def)
    qed
    ultimately show thesis using that d1 rem by blast
  qed
qed

text \<open>
  C16: The transmit loop of the handler moves what was written to the driver, and nothing
  else. On a ring buffer that holds well-formed transmissions it never fails, appends to
  the FIFO the first bytes of what the driver owes, in order, keeps the rest owed, and
  stops only when the FIFO has no room or nothing is owed any more.
\<close>

theorem tx_loop_moves_stream:
  assumes "tx_ok p" and "dev_ok d"
  shows "\<exists>en' p' d' bs. tx_loop rem en p d = Inr (en', p', d') \<and> tx_ok p' \<and> dev_ok d' \<and>
    tx_fifo d' = tx_fifo d @ bs \<and> pending p = bs @ pending p' \<and> length bs \<le> rem \<and>
    (length bs = rem \<or> pending p' = [])"
  using assms
proof (induction rem en p d rule: tx_loop.induct)
  case (1 rem en p d)
  show ?case
  proof (cases "rem = 0")
    case True
    then show ?thesis using "1.prems" by (auto simp: tx_loop_0)
  next
    case rem: False
    from "1.prems"(1) show ?thesis
    proof (cases rule: tx_fetch_ok [where en = en])
      case (stop q)
      then show ?thesis using "1.prems" tx_loop_stop [OF rem stop(1)] by auto
    next
      case (go en1 q)
      obtain r en2 q2 d2 bs where push: "tx_push rem en1 q d = Inr (r, en2, q2, d2)" "tx_ok q2" "dev_ok d2"
          "tx_fifo d2 = tx_fifo d @ bs" "bs @ pending q2 = pending q" "r + length bs = rem"
        using tx_push_ok [OF go(2) "1.prems"(2)] by metis
      obtain en' p' d' cs where IH: "tx_loop r en2 q2 d2 = Inr (en', p', d')" "tx_ok p'" "dev_ok d'"
          "tx_fifo d' = tx_fifo d2 @ cs" "pending q2 = cs @ pending p'" "length cs \<le> r"
          "length cs = r \<or> pending p' = []"
        using "1.IH" [OF rem go(1) refl push(1) refl refl refl push(2,3)] by blast
      show ?thesis
        using IH push go(3) tx_loop_step [OF rem go(1) push(1), symmetric]
        by (intro exI [of _ en'] exI [of _ p'] exI [of _ d'] exI [of _ "bs @ cs"]) auto
    qed
  qed
qed

definition one_piece :: "u8 list \<Rightarrow> uart_obj \<Rightarrow> uart_obj" where
  "one_piece bs p = p\<lparr>tx_ring_buf := Some [tx_data_bytes \<lparr>tx_type = TYPE_UART_DATA, brk_len = 0,
     tx_size = of_nat (length bs)\<rparr>, bs], tx_len_tot := 0, tx_ptr := None\<rparr>"

definition obj0 :: uart_obj where
  "obj0 = \<lparr>uart_num = 1, queue_size = 4, xQueueUart = Some [], intr_handle = Some 7, rx_buffered_len = 0,
     rx_mux = Some True, rx_buf_size = 256, rx_ring_buf = Some [], rx_buffer_full_flg = False, rx_cur_remain = 0,
     rx_ptr = None, rx_head_ptr = None, rx_data_buf = replicate 128 0, rx_stash_len = 0, tx_fifo_sem = Some True,
     tx_mux = Some True, tx_done_sem = Some False, tx_brk_sem = Some False, tx_buf_size = 256,
     tx_ring_buf = Some [], tx_waiting_fifo = False, tx_ptr = None, tx_head = None, tx_len_tot = 0,
     tx_len_cur = 0, tx_brk_flg = 0, tx_brk_len = 0, tx_waiting_brk = 0\<rparr>"

lemma obj0_ok: "tx_ok obj0" "dev_ok dev0"
  by (simp_all add: tx_ok_def obj0_def dev_ok_def dev0_def current_def ring_of_def)

lemma tx_data_of_bytes [simp]: "tx_data_of (tx_data_bytes t) = t"
  using tx_data.dec_enc [of t "[]"] by simp

lemma length_tx_data_bytes [simp]: "length (tx_data_bytes t) = 12"
  by (simp add: tx_data.length_enc)

theorem tx_loop_moves_stream_witness:
  "\<exists>en' p' d' bs. tx_loop 2 False (one_piece [65, 66, 67] obj0) dev0 = Inr (en', p', d') \<and> tx_ok p' \<and>
     dev_ok d' \<and> tx_fifo d' = bs \<and> [65, 66, 67] = bs @ pending p' \<and> length bs \<le> 2"
proof -
  have "tx_ok (one_piece [65, 66, 67] obj0)" "pending (one_piece [65, 66, 67] obj0) = [65, 66, 67]"
    by (simp_all add: tx_ok_def pending_def one_piece_def obj0_def current_def ring_of_def)
  then show ?thesis
    using tx_loop_moves_stream [of "one_piece [65, 66, 67] obj0" dev0 2 False] obj0_ok(2)
    by (auto simp: dev0_def)
qed

subsection \<open>A transmission with a break\<close>

text \<open>
  The handler enables the interrupt for an empty FIFO again after it has started a break,
  because fetching the data has set \<open>en_tx_flg\<close>.
\<close>

lemma tx_loop_break:
  assumes "tx_ring_buf p = Some [tx_data_bytes \<lparr>tx_type = TYPE_UART_DATA_BREAK, brk_len = b,
        tx_size = of_nat (length bs)\<rparr>, bs]"
    and "tx_len_tot p = 0" and "bs \<noteq> []" and "length bs \<le> rem" and "rem \<le> UART_FIFO_LEN"
  obtains p' d1 where "tx_loop rem en p d = Inr (True, p', start_break (ucast b) (fifo_write bs d))"
    and "tx_waiting_brk p' = 1" "tx_ring_buf p' = Some []" "tx_len_tot p' = 0" "tx_buf_size p' = tx_buf_size p"
proof -
  have rem: "rem \<noteq> 0" using assms(3,4) by (cases bs) auto
  have l: "unat (of_nat (length bs) :: u32) = length bs" using assms(4,5) by (simp add: unat_of_nat)
  have nz: "(of_nat (length bs) :: u32) \<noteq> 0" "(of_nat (length bs) :: u32) > 0"
    using assms(3) l by (auto simp: word_unat_eq_iff word_less_nat_alt)
  define p1 where "p1 = p\<lparr>tx_ring_buf := Some [bs], tx_head := Some (tx_data_bytes
      \<lparr>tx_type = TYPE_UART_DATA_BREAK, brk_len = b, tx_size = of_nat (length bs)\<rparr>), tx_ptr := None,
      tx_len_tot := of_nat (length bs), tx_brk_flg := 1, tx_brk_len := ucast b\<rparr>"
  have f1: "tx_fetch en p = Inr (Fetched en p1)"
    using assms(1,2) by (simp add: tx_fetch_def Let_def p1_def)
  have s1: "tx_push rem en p1 d = Inr (rem, en, p1, d)" by (simp add: tx_push_def p1_def)
  define p2 where "p2 = p1\<lparr>tx_ring_buf := Some [], tx_head := Some bs, tx_ptr := Some bs,
      tx_len_cur := of_nat (length bs)\<rparr>"
  have f2: "tx_fetch en p1 = Inr (Fetched True p2)"
    using nz by (simp add: tx_fetch_def Let_def p1_def p2_def)
  define p3 where "p3 = p2\<lparr>tx_ptr := None, tx_head := None, tx_len_tot := 0, tx_len_cur := 0, tx_waiting_brk := 1\<rparr>"
  have s2: "tx_push rem True p2 d = Inr (rem - length bs, True, p3, start_break (ucast b) (fifo_write bs d))"
    using nz assms(4) l by (simp add: tx_push_def Let_def p1_def p2_def p3_def)
  have p3: "tx_waiting_brk p3 = 1" "tx_ring_buf p3 = Some []" "tx_len_tot p3 = 0" "tx_buf_size p3 = tx_buf_size p"
    by (simp_all add: p3_def p2_def p1_def)
  have loop: "tx_loop rem en p d = tx_loop (rem - length bs) True p3 (start_break (ucast b) (fifo_write bs d))"
    using tx_loop_step [OF rem f1 s1] tx_loop_step [OF rem f2 s2] by simp
  show thesis
  proof (cases "rem - length bs = 0")
    case True
    then show thesis using that [of p3] loop p3 by (simp add: tx_loop_0)
  next
    case False
    have "tx_fetch True p3 = Inr (Fetch_stop (p3\<lparr>tx_head := None\<rparr>))" using p3 by (simp add: tx_fetch_def)
    then show thesis using that [of "p3\<lparr>tx_head := None\<rparr>"] loop p3 tx_loop_stop [OF False] by simp
  qed
qed

lemma handler_starts_break:
  assumes "tx_ring_buf p = Some [tx_data_bytes \<lparr>tx_type = TYPE_UART_DATA_BREAK, brk_len = b,
        tx_size = of_nat (length bs)\<rparr>, bs]"
    and "tx_len_tot p = 0" and "bs \<noteq> []" and "length bs \<le> UART_FIFO_LEN"
    and "tx_waiting_brk p = 0" "tx_buf_size p \<noteq> 0"
    and "int_raw d = int_mask TXFIFO_EMPTY" "bit (int_ena d) TXFIFO_EMPTY" "tx_fifo d = []"
  obtains p' d' where "uart_rx_intr_handler_default 1 acc sz [] p d = Some (Inr (p', d', []))"
    and "tx_waiting_brk p' = 1" and "bit (int_ena d') TXFIFO_EMPTY"
proof -
  define d0 where "d0 = int_clr (int_mask TXFIFO_EMPTY) (int_disable TXFIFO_EMPTY d)"
  have fifo: "tx_fifo d0 = []" using assms(9) by (simp add: d0_def)
  obtain q where q: "tx_loop UART_FIFO_LEN False p d0 = Inr (True, q, start_break (ucast b) (fifo_write bs d0))"
      "tx_waiting_brk q = 1"
    using tx_loop_break [OF assms(1-4) order_refl] by metis
  define d1 where "d1 = int_enable TXFIFO_EMPTY (int_clr (int_mask TXFIFO_EMPTY) (start_break (ucast b) (fifo_write bs d0)))"
  have st: "bit (int_st d) TXFIFO_EMPTY"
    using assms(7,8) by (auto simp: int_st_def bit_simps bit_int_mask)
  then have nz: "int_st d \<noteq> 0" by auto
  have turn: "isr_turn acc (int_st d) sz p d = Inr (turn_done UART_EVENT_MAX sz q d1)"
    using st assms(5,6,9) q(1) [unfolded d0_def]
    by (simp add: isr_turn_def isr_tx_empty_def Let_def d1_def d0_def)
  have raw: "int_raw d1 = 0" "bit (int_ena d1) TXFIFO_EMPTY"
    using assms(7)
    by (auto simp: d1_def d0_def start_break_def bit_simps bit_int_mask intro!: bit_word_eqI)
  define d2 where "d2 = hw_step quiet d1"
  have d2: "int_st d2 = 0" "bit (int_ena d2) TXFIFO_EMPTY"
    using raw by (simp_all add: d2_def hw_step_def quiet_def int_st_def)
  show thesis
  proof (rule that [of q d2])
    show "uart_rx_intr_handler_default 1 acc sz [] p d = Some (Inr (q, d2, []))"
      using nz turn d2(1)
      by (simp add: uart_rx_intr_handler_default_def One_nat_def send_event_def d2_def [symmetric] Let_def del: isr_loop.simps(2) add: isr_loop.simps(2) [of 0])
  qed (use q d2 in simp_all)
qed

lemma handler_stuck:
  assumes "stuck (int_st d) p"
  shows "uart_rx_intr_handler_default fuel acc sz env p d = None"
  using isr_loop_stuck [OF assms] by (simp add: uart_rx_intr_handler_default_def)

text \<open>
  C37: The interrupt handler returns. In a state in which a pending transmit interrupt
  does not meet one of the two \<open>continue\<close> branches, and while the hardware raises no new
  transmit interrupt, it ends whatever else the hardware raises meanwhile: after at most
  32 turns for what is pending and 33 for each time it is interfered with.
\<close>

theorem handler_returns:
  assumes "serviceable p d" and "\<forall>i \<in> set env. \<not> bit (raised i) TXFIFO_EMPTY"
  shows "\<exists>r. uart_rx_intr_handler_default (32 + 33 * length env) acc sz env p d = Some r"
  using isr_loop_returns [OF assms, of "32 + 33 * length env" acc sz] card_pending_le [of d]
  by (simp add: uart_rx_intr_handler_default_def)

theorem handler_returns_witness:
  "\<exists>r. uart_rx_intr_handler_default 65 (\<lambda>_ _. True) 0 [\<lparr>raised = int_mask RXFIFO_FULL, arrived = [1], drained = 0\<rparr>]
     obj0 (dev0\<lparr>int_raw := 0xFFFFFFFF, int_ena := 0xFFFFFFFF\<rparr>) = Some r"
proof -
  have s: "serviceable obj0 (dev0\<lparr>int_raw := 0xFFFFFFFF, int_ena := 0xFFFFFFFF\<rparr>)"
    by (simp add: serviceable_def obj0_def)
  have e: "\<forall>i \<in> set [\<lparr>raised = int_mask RXFIFO_FULL, arrived = [1], drained = 0\<rparr>]. \<not> bit (raised i) TXFIFO_EMPTY"
    by (simp add: bit_int_mask)
  show ?thesis using handler_returns [OF s e, of "\<lambda>_ _. True" 0] by simp
qed

end
