(* ===== verification/Uart_Receive.thy ===== *)
theory Uart_Receive
  imports Uart_Isr
begin

text \<open>
  The receiving functions of \<open>firmware/main/drivers/uart.c\<close>: reading, flushing, and the
  receive part of the interrupt handler seen together with them.

  Two arguments stand for the ring buffer of the vendor's library: \<open>acc\<close>, whether it
  accepts a piece, and \<open>chunk\<close>, how many of the stored bytes the next item has. The
  documentation of a byte buffer promises an item of at least one byte and at most all
  (\<open>chunk_ok\<close>). A call that finds the ring buffer empty gives up after its waiting time.

  \<open>received\<close> is the abstract state of the receiver: the bytes that arrived and were not
  read yet, wherever the driver keeps them. The handler appends to it, a read takes from
  its front. \<open>rx_ok\<close> is the invariant.
\<close>

type_synonym accepts = "uart_obj \<Rightarrow> u8 list \<Rightarrow> bool"

definition chunk_ok :: "(u8 list \<Rightarrow> nat) \<Rightarrow> bool" where
  "chunk_ok chunk \<longleftrightarrow> (\<forall>r. r \<noteq> [] \<longrightarrow> 0 < chunk r \<and> chunk r \<le> length r)"

subsection \<open>Reading\<close>

text \<open>Getting the next item when nothing is left of the last one; \<open>None\<close> when there is none.\<close>

definition read_item :: "(u8 list \<Rightarrow> nat) \<Rightarrow> uart_obj \<Rightarrow> uart_obj option result" where
  "read_item chunk p =
     (if rx_cur_remain p = 0 then
        (case rx_ring_buf p of None \<Rightarrow> Inl Null_dereference
         | Some ring \<Rightarrow>
           if ring = [] then Inr None
           else (let item = take (chunk ring) ring in
             Inr (Some (p\<lparr>rx_ring_buf := Some (drop (chunk ring) ring), rx_head_ptr := Some item,
               rx_ptr := Some item, rx_cur_remain := length item\<rparr>))))
      else Inr (Some p))"

text \<open>Pushing the stashed bytes once there may be room.\<close>

definition push_stash :: "accepts \<Rightarrow> uart_obj \<Rightarrow> bool \<times> uart_obj" where
  "push_stash acc p =
     (let piece = take (unat (rx_stash_len p)) (rx_data_buf p) in
      if rx_buffer_full_flg p \<and> acc p piece
      then (True, p\<lparr>rx_ring_buf := map_option (\<lambda>r. r @ piece) (rx_ring_buf p),
              rx_buffered_len := rx_buffered_len p + int (unat (rx_stash_len p)), rx_buffer_full_flg := False\<rparr>)
      else (False, p))"

text \<open>One round of the loop after that: copy, and return the item when it is used up.\<close>

definition read_copy :: "accepts \<Rightarrow> nat \<Rightarrow> uart_obj \<Rightarrow> (u8 list \<times> bool \<times> uart_obj) result" where
  "read_copy acc len p =
     (case rx_ptr p of None \<Rightarrow> Inl Null_dereference
      | Some bs \<Rightarrow>
        (let len_tmp = (if rx_cur_remain p > len then len else rx_cur_remain p) in
         if length bs < len_tmp then Inl Out_of_bounds
         else
           (let p1 = p\<lparr>rx_ptr := Some (drop len_tmp bs), rx_cur_remain := rx_cur_remain p - len_tmp\<rparr> in
            if rx_cur_remain p1 = 0
            then (let (en, p2) = push_stash acc (p1\<lparr>rx_head_ptr := None, rx_ptr := None\<rparr>)
                  in Inr (take len_tmp bs, en, p2))
            else Inr (take len_tmp bs, False, p1))))"

definition read_finish :: "nat \<Rightarrow> u8 list \<Rightarrow> uart_obj \<Rightarrow> uart_sys \<Rightarrow> (int \<times> u8 list \<times> uart_sys) result" where
  "read_finish n copied p s =
     bind_result (sem_give (rx_mux p)) (\<lambda>h. Inr (int (length copied), copied,
       put_obj n (Some (p\<lparr>rx_mux := h, rx_buffered_len := rx_buffered_len p - int (length copied)\<rparr>)) s))"

fun read_loop :: "nat \<Rightarrow> accepts \<Rightarrow> (u8 list \<Rightarrow> nat) \<Rightarrow> nat \<Rightarrow> nat \<Rightarrow> u8 list \<Rightarrow> uart_obj \<Rightarrow> uart_sys \<Rightarrow>
    (int \<times> u8 list \<times> uart_sys) result option" where
  "read_loop 0 acc chunk n len copied p s = (if len = 0 then Some (read_finish n copied p s) else None)"
| "read_loop (Suc fuel) acc chunk n len copied p s =
     (if len = 0 then Some (read_finish n copied p s)
      else case read_item chunk p of
        Inl e \<Rightarrow> Some (Inl e)
      | Inr None \<Rightarrow> Some (read_finish n copied p s)
      | Inr (Some p1) \<Rightarrow>
          (case read_copy acc len p1 of
             Inl e \<Rightarrow> Some (Inl e)
           | Inr (bs, en, p2) \<Rightarrow>
               read_loop fuel acc chunk n (len - length bs) (copied @ bs) p2
                 (if en then snd (uart_enable_rx_intr (uart_num p2) s) else s)))"

text \<open>
  \<open>buf\<close> says whether the caller's buffer is there; the bytes stored in it are the second
  result. A mutex that is taken makes the call fail after its waiting time.
\<close>

definition uart_read_bytes ::
  "nat \<Rightarrow> accepts \<Rightarrow> (u8 list \<Rightarrow> nat) \<Rightarrow> nat \<Rightarrow> bool \<Rightarrow> u32 \<Rightarrow> uart_sys \<Rightarrow> (int \<times> u8 list \<times> uart_sys) result option" where
  "uart_read_bytes fuel acc chunk n buf len s =
     (if \<not> n < UART_NUM_MAX \<or> \<not> buf then Some (Inr (-1, [], s))
      else case p_uart_obj s n of None \<Rightarrow> Some (Inr (-1, [], s))
      | Some p \<Rightarrow>
        (case sem_take (rx_mux p) of
           Inl e \<Rightarrow> Some (Inl e)
         | Inr (ok, h) \<Rightarrow>
           if \<not> ok then Some (Inr (-1, [], s))
           else read_loop fuel acc chunk n (unat len) [] (p\<lparr>rx_mux := h\<rparr>) s))"

definition uart_get_buffered_data_len :: "nat \<Rightarrow> uart_sys \<Rightarrow> esp_err_t \<times> int option" where
  "uart_get_buffered_data_len n s =
     (if \<not> n < UART_NUM_MAX then (ESP_FAIL, None)
      else case p_uart_obj s n of None \<Rightarrow> (ESP_FAIL, None) | Some p \<Rightarrow> (ESP_OK, Some (rx_buffered_len p)))"

subsection \<open>Flushing\<close>

definition drop_head :: "uart_obj \<Rightarrow> uart_obj" where
  "drop_head p =
     (if rx_head_ptr p \<noteq> None
      then p\<lparr>rx_buffered_len := rx_buffered_len p - int (rx_cur_remain p), rx_ptr := None, rx_cur_remain := 0,
             rx_head_ptr := None\<rparr>
      else p)"

fun flush_loop :: "nat \<Rightarrow> accepts \<Rightarrow> (u8 list \<Rightarrow> nat) \<Rightarrow> uart_obj \<Rightarrow> uart_obj result option" where
  "flush_loop 0 acc chunk p = None"
| "flush_loop (Suc fuel) acc chunk p =
     (let p1 = drop_head p in
      case rx_ring_buf p1 of None \<Rightarrow> Some (Inl Null_dereference)
      | Some ring \<Rightarrow>
        if ring = [] then Some (Inr p1)
        else flush_loop fuel acc chunk (snd (push_stash acc (p1\<lparr>rx_ring_buf := Some (drop (chunk ring) ring),
               rx_buffered_len := rx_buffered_len p1 - int (length (take (chunk ring) ring))\<rparr>))))"

text \<open>A mutex that is taken makes the call wait for ever, which is \<open>None\<close>.\<close>

definition uart_flush :: "nat \<Rightarrow> accepts \<Rightarrow> (u8 list \<Rightarrow> nat) \<Rightarrow> nat \<Rightarrow> uart_sys \<Rightarrow> (esp_err_t \<times> uart_sys) result option" where
  "uart_flush fuel acc chunk n s =
     (if \<not> n < UART_NUM_MAX then Some (Inr (ESP_FAIL, s))
      else case p_uart_obj s n of None \<Rightarrow> Some (Inr (ESP_FAIL, s))
      | Some p \<Rightarrow>
        (case sem_take (rx_mux p) of
           Inl e \<Rightarrow> Some (Inl e)
         | Inr (ok, h) \<Rightarrow>
           if \<not> ok then None
           else (let s1 = snd (uart_disable_rx_intr (uart_num p) s) in
             case flush_loop fuel acc chunk (p\<lparr>rx_mux := h\<rparr>) of
               None \<Rightarrow> None
             | Some (Inl e) \<Rightarrow> Some (Inl e)
             | Some (Inr p1) \<Rightarrow>
               (let p2 = p1\<lparr>rx_ptr := None, rx_cur_remain := 0, rx_head_ptr := None\<rparr>;
                    s2 = snd (uart_enable_rx_intr (uart_num p2) (snd (uart_reset_fifo n s1)))
                in Some (bind_result (sem_give (rx_mux p2)) (\<lambda>h.
                     Inr (ESP_OK, put_obj n (Some (p2\<lparr>rx_mux := h\<rparr>)) s2)))))))"

subsection \<open>The receiver as a queue of bytes\<close>

definition rx_shape :: "uart_obj \<Rightarrow> bool" where
  "rx_shape p \<longleftrightarrow> rx_ring_buf p \<noteq> None \<and> length (rx_data_buf p) = UART_FIFO_LEN \<and>
     (rx_buffer_full_flg p \<longrightarrow> unat (rx_stash_len p) \<le> UART_FIFO_LEN) \<and>
     (case rx_ptr p of None \<Rightarrow> rx_cur_remain p = 0 \<and> rx_head_ptr p = None
      | Some bs \<Rightarrow> bs \<noteq> [] \<and> rx_cur_remain p = length bs \<and> rx_head_ptr p \<noteq> None)"

definition opened :: "uart_obj \<Rightarrow> u8 list" where
  "opened p = (case rx_ptr p of None \<Rightarrow> [] | Some bs \<Rightarrow> bs)"

definition stored :: "uart_obj \<Rightarrow> u8 list" where
  "stored p = (case rx_ring_buf p of None \<Rightarrow> [] | Some r \<Rightarrow> r)"

definition stashed :: "uart_obj \<Rightarrow> u8 list" where
  "stashed p = (if rx_buffer_full_flg p then take (unat (rx_stash_len p)) (rx_data_buf p) else [])"

definition received :: "uart_obj \<Rightarrow> u8 list" where
  "received p = opened p @ stored p @ stashed p"

text \<open>The counter of buffered bytes counts what is not stashed.\<close>

definition rx_surplus :: "uart_obj \<Rightarrow> int" where
  "rx_surplus p = rx_buffered_len p - int (length (opened p @ stored p))"

definition rx_ok :: "uart_obj \<Rightarrow> bool" where
  "rx_ok p \<longleftrightarrow> rx_shape p \<and> rx_surplus p = 0"

lemmas rx_defs = opened_def stored_def stashed_def received_def rx_surplus_def

lemma rx_shape_updates [simp]:
  "rx_shape (p\<lparr>rx_mux := h\<rparr>) = rx_shape p" "rx_shape (p\<lparr>rx_buffered_len := k\<rparr>) = rx_shape p"
  by (cases "rx_ptr p"; simp add: rx_shape_def)+

lemma rx_content_updates [simp]:
  "received (p\<lparr>rx_mux := h\<rparr>) = received p" "received (p\<lparr>rx_buffered_len := k\<rparr>) = received p"
  "rx_surplus (p\<lparr>rx_mux := h\<rparr>) = rx_surplus p"
  "rx_surplus (p\<lparr>rx_buffered_len := k\<rparr>) = rx_surplus p - rx_buffered_len p + k"
  by (simp_all add: rx_defs)

lemma rx_cur_opened: "rx_shape p \<Longrightarrow> rx_cur_remain p = length (opened p)"
  by (auto simp: rx_shape_def opened_def split: option.splits)

lemma push_stash_ok:
  assumes "rx_shape p" and "push_stash acc p = (en, p')"
  shows "rx_shape p' \<and> received p' = received p \<and> rx_surplus p' = rx_surplus p \<and> rx_mux p' = rx_mux p \<and>
    opened p' = opened p \<and> (rx_buffer_full_flg p' \<longrightarrow> rx_buffer_full_flg p)"
  using assms by (auto simp: push_stash_def Let_def rx_shape_def rx_defs split: option.splits if_splits)

lemma read_item_ok:
  assumes "rx_shape p" and "chunk_ok chunk"
  obtains (none) "read_item chunk p = Inr None" "opened p = []" "stored p = []"
  | (some) q where "read_item chunk p = Inr (Some q)" "rx_shape q" "opened q \<noteq> []" "received q = received p"
      "rx_surplus q = rx_surplus p" "rx_mux q = rx_mux p"
proof -
  obtain ring where ring: "rx_ring_buf p = Some ring" using assms(1) by (auto simp: rx_shape_def)
  note cur = rx_cur_opened [OF assms(1)]
  show thesis
  proof (cases "opened p = []")
    case False
    then show thesis using some [of p] assms(1) cur by (simp add: read_item_def)
  next
    case o: True
    show thesis
    proof (cases "ring = []")
      case True
      then show thesis using none o cur ring by (simp add: read_item_def stored_def)
    next
      case False
      define k where "k = chunk ring"
      have k: "0 < k" "k \<le> length ring" using assms(2) False by (auto simp: chunk_ok_def k_def)
      define q where "q = p\<lparr>rx_ring_buf := Some (drop k ring), rx_head_ptr := Some (take k ring),
          rx_ptr := Some (take k ring), rx_cur_remain := length (take k ring)\<rparr>"
      have "read_item chunk p = Inr (Some q)" using o cur ring False by (simp add: read_item_def Let_def q_def k_def)
      moreover have "rx_shape q" using assms(1) k False by (auto simp: rx_shape_def q_def)
      moreover have "opened q \<noteq> []" "received q = received p" "rx_surplus q = rx_surplus p" "rx_mux q = rx_mux p"
        using o ring k False by (auto simp: q_def rx_defs split: option.splits)
      ultimately show thesis using some by blast
    qed
  qed
qed

lemma read_copy_ok:
  assumes "rx_shape p" and "opened p \<noteq> []" and "0 < len"
  obtains bs en q where "read_copy acc len p = Inr (bs, en, q)" "rx_shape q" "received p = bs @ received q"
    "0 < length bs" "length bs \<le> len" "rx_surplus q = rx_surplus p + int (length bs)" "rx_mux q = rx_mux p"
proof -
  obtain bs where bs: "rx_ptr p = Some bs" "opened p = bs" using assms(2) by (auto simp: opened_def split: option.splits)
  note cur = rx_cur_opened [OF assms(1)]
  define k where "k = (if length bs > len then len else length bs)"
  have k: "k \<le> length bs" "k \<le> len" "0 < k" "k < length bs \<or> k = length bs"
    using assms(2,3) bs by (auto simp: k_def)
  define p1 where "p1 = p\<lparr>rx_ptr := Some (drop k bs), rx_cur_remain := rx_cur_remain p - k\<rparr>"
  have copy: "read_copy acc len p =
      (if rx_cur_remain p1 = 0
       then (let (en, p2) = push_stash acc (p1\<lparr>rx_head_ptr := None, rx_ptr := None\<rparr>) in Inr (take k bs, en, p2))
       else Inr (take k bs, False, p1))"
    using bs cur k(1) by (simp add: read_copy_def Let_def k_def p1_def)
  show thesis
  proof (cases "k = length bs")
    case True
    define p2 where "p2 = p1\<lparr>rx_head_ptr := None, rx_ptr := None\<rparr>"
    obtain en q where q: "push_stash acc p2 = (en, q)" by (cases "push_stash acc p2")
    have p2: "rx_shape p2" "received p = take k bs @ received p2" "rx_surplus p2 = rx_surplus p + int k"
        "rx_mux p2 = rx_mux p"
      using assms(1) True bs cur by (auto simp: rx_shape_def p2_def p1_def rx_defs)
    have "rx_cur_remain p1 = 0" using True cur bs by (simp add: p1_def)
    then have "read_copy acc len p = Inr (take k bs, en, q)" using copy q by (simp add: p2_def)
    then show thesis using push_stash_ok [OF p2(1) q] p2 k by (intro that [of "take k bs" en q]) auto
  next
    case False
    then have "rx_cur_remain p1 \<noteq> 0" using k cur bs by (auto simp: p1_def)
    then have "read_copy acc len p = Inr (take k bs, False, p1)" using copy by simp
    moreover have "rx_shape p1" "received p = take k bs @ received p1" "rx_surplus p1 = rx_surplus p + int k"
        "rx_mux p1 = rx_mux p"
      using assms(1) False bs cur k by (auto simp: rx_shape_def p1_def rx_defs)
    ultimately show thesis using k by (intro that [of "take k bs" False p1]) auto
  qed
qed

lemma read_loop_ok:
  assumes "rx_shape p" and "chunk_ok chunk" and "len < fuel" and "rx_mux p \<noteq> None"
  shows "\<exists>bs q s'. read_loop fuel acc chunk n len copied p s = Some (read_finish n (copied @ bs) q s') \<and>
    rx_shape q \<and> received p = bs @ received q \<and> length bs \<le> len \<and>
    (length bs = len \<or> opened q = [] \<and> stored q = []) \<and>
    rx_surplus q = rx_surplus p + int (length bs) \<and> rx_mux q = rx_mux p"
  using assms(1,3,4)
proof (induction fuel arbitrary: len copied p s)
  case 0
  then show ?case by simp
next
  case (Suc fuel)
  show ?case
  proof (cases "len = 0")
    case True
    then have "read_loop (Suc fuel) acc chunk n len copied p s = Some (read_finish n (copied @ []) p s)" by simp
    then show ?thesis using Suc.prems(1) True by (intro exI [of _ "[]"] exI [of _ p] exI [of _ s]) simp
  next
    case len: False
    from Suc.prems(1) show ?thesis using assms(2)
    proof (cases rule: read_item_ok)
      case none
      then have "read_loop (Suc fuel) acc chunk n len copied p s = Some (read_finish n (copied @ []) p s)"
        using len by simp
      then show ?thesis using Suc.prems(1) none by (intro exI [of _ "[]"] exI [of _ p] exI [of _ s]) simp
    next
      case (some q)
      have "0 < len" using len by simp
      then obtain bs en q' where c: "read_copy acc len q = Inr (bs, en, q')" "rx_shape q'"
          "received q = bs @ received q'" "0 < length bs" "length bs \<le> len"
          "rx_surplus q' = rx_surplus q + int (length bs)" "rx_mux q' = rx_mux q"
        using read_copy_ok [OF some(2,3), of len acc] by metis
      define s1 where "s1 = (if en then snd (uart_enable_rx_intr (uart_num q') s) else s)"
      have step: "read_loop (Suc fuel) acc chunk n len copied p s =
          read_loop fuel acc chunk n (len - length bs) (copied @ bs) q' s1"
        using len some(1) c(1) by (simp add: s1_def)
      have less: "len - length bs < fuel" using c(4,5) Suc.prems(2) by linarith
      have mux: "rx_mux q' \<noteq> None" using Suc.prems(3) c(7) some(6) by simp
      obtain cs r s' where IH: "read_loop fuel acc chunk n (len - length bs) (copied @ bs) q' s1 =
            Some (read_finish n ((copied @ bs) @ cs) r s')" "rx_shape r" "received q' = cs @ received r"
          "length cs \<le> len - length bs" "length cs = len - length bs \<or> opened r = [] \<and> stored r = []"
          "rx_surplus r = rx_surplus q' + int (length cs)" "rx_mux r = rx_mux q'"
        using Suc.IH [OF c(2) less mux, of "copied @ bs" s1] by blast
      show ?thesis
        using step IH c some(4-6) \<open>0 < len\<close> by (intro exI [of _ "bs @ cs"] exI [of _ r] exI [of _ s']) auto
    qed
  qed
qed

text \<open>
  C17: Reading takes from the front of what was received. A read hands out the first bytes of
  the received stream, in order and at most as many as asked for, and less than that only
  when the driver has no more; the rest stays, the invariant of the receiver holds again
  and the lock is free. The call returns whatever the ring buffer's items are.
\<close>

theorem uart_read_bytes_reads_stream:
  assumes "n < UART_NUM_MAX" and "p_uart_obj s n = Some p" and "rx_ok p" and "rx_mux p = Some True"
    and "chunk_ok chunk" and "unat len < fuel"
  shows "\<exists>bs s' p'. uart_read_bytes fuel acc chunk n True len s = Some (Inr (int (length bs), bs, s')) \<and>
    p_uart_obj s' n = Some p' \<and> rx_ok p' \<and> rx_mux p' = Some True \<and> received p = bs @ received p' \<and>
    length bs \<le> unat len \<and> (length bs = unat len \<or> rx_buffered_len p' = 0)"
proof -
  define q where "q = p\<lparr>rx_mux := Some False\<rparr>"
  have q: "rx_shape q" "received q = received p" "rx_surplus q = 0" "rx_mux q = Some False"
    using assms(3) by (simp_all add: q_def rx_ok_def)
  obtain bs r s1 where loop: "read_loop fuel acc chunk n (unat len) [] q s = Some (read_finish n bs r s1)"
      "rx_shape r" "received q = bs @ received r" "length bs \<le> unat len"
      "length bs = unat len \<or> opened r = [] \<and> stored r = []"
      "rx_surplus r = rx_surplus q + int (length bs)" "rx_mux r = Some False"
    using read_loop_ok [OF q(1) assms(5,6), of acc n "[]" s] q(4) by auto
  define p' where "p' = r\<lparr>rx_mux := Some True, rx_buffered_len := rx_buffered_len r - int (length bs)\<rparr>"
  have p': "rx_ok p'" "received p' = received r" "rx_mux p' = Some True"
    using loop(2,6) q(3) by (simp_all add: p'_def rx_ok_def)
  have "opened r = [] \<and> stored r = [] \<Longrightarrow> rx_buffered_len p' = 0"
    using loop(6) q(3) by (simp add: p'_def rx_surplus_def)
  moreover have "uart_read_bytes fuel acc chunk n True len s =
      Some (Inr (int (length bs), bs, put_obj n (Some p') s1))"
    using assms(1,2,4) loop(1,7)
    by (simp add: uart_read_bytes_def read_finish_def q_def [symmetric] p'_def)
  ultimately show ?thesis
    using p' loop q(2) by (intro exI [of _ bs] exI [of _ "put_obj n (Some p') s1"] exI [of _ p']) auto
qed

definition rx_demo :: uart_obj where
  "rx_demo = obj0\<lparr>rx_ring_buf := Some [1, 2, 3, 4, 5], rx_buffered_len := 5\<rparr>"

definition sys_of :: "uart_obj \<Rightarrow> uart_sys" where
  "sys_of p = put_obj 1 (Some p) sys0"

lemma sys_of_obj [simp]: "p_uart_obj (sys_of p) (Suc 0) = Some p"
  by (simp add: sys_of_def)

definition two_by_two :: "u8 list \<Rightarrow> nat" where
  "two_by_two r = min 2 (length r)"

lemma two_by_two_ok: "chunk_ok two_by_two"
  by (auto simp: chunk_ok_def two_by_two_def)

lemma rx_demo_ok: "rx_ok rx_demo" "received rx_demo = [1, 2, 3, 4, 5]" "rx_mux rx_demo = Some True"
  by (simp_all add: rx_ok_def rx_shape_def rx_defs rx_demo_def obj0_def)

theorem uart_read_bytes_reads_stream_witness:
  "\<exists>bs s' p'. uart_read_bytes 10 (\<lambda>_ _. True) two_by_two 1 True 3 (sys_of rx_demo) = Some (Inr (int (length bs), bs, s')) \<and>
    p_uart_obj s' 1 = Some p' \<and> rx_ok p' \<and> [1, 2, 3, 4, 5] = bs @ received p' \<and>
    (length bs = 3 \<or> rx_buffered_len p' = 0)"
proof -
  have l: "unat (3 :: u32) = 3" "(1 :: nat) < UART_NUM_MAX" "unat (3 :: u32) < 10" by simp_all
  show ?thesis
    using uart_read_bytes_reads_stream [OF l(2) _ rx_demo_ok(1,3) two_by_two_ok l(3), of "sys_of rx_demo" "\<lambda>_ _. True"]
    unfolding rx_demo_ok(2) l(1) by simp blast
qed

text \<open>The handler appends what is in the FIFO, to the ring buffer or to the stash.\<close>

lemma isr_rx_appends:
  assumes "rx_ok p" and "\<not> rx_buffer_full_flg p" and "length (rx_fifo d) \<le> UART_FIFO_LEN"
  obtains t where "isr_rx acc sz p d = Inr t" "rx_ok (obj t)" "received (obj t) = received p @ rx_fifo d"
    "rx_fifo (dev t) = []"
proof -
  obtain ring where ring: "rx_ring_buf p = Some ring" using assms(1) by (auto simp: rx_ok_def rx_shape_def)
  define k where "k = length (rx_fifo d)"
  have k: "k \<le> 128" "unat (of_nat k :: u8) = k" using assms(3) by (auto simp: k_def unat_of_nat)
  have piece: "take k (rx_fifo d @ drop k (rx_data_buf p)) = rx_fifo d" by (simp add: k_def)
  define p1 where "p1 = p\<lparr>rx_stash_len := of_nat k, rx_data_buf := rx_fifo d @ drop k (rx_data_buf p)\<rparr>"
  have p1: "unat (rx_stash_len p1) = k" "uint (rx_stash_len p1) = int k" "take k (rx_data_buf p1) = rx_fifo d"
    using k(2) piece by (simp_all add: p1_def uint_nat)
  have len: "length (rx_data_buf p) = 128" "\<not> length (rx_data_buf p) < k"
    using assms(1) k by (auto simp: rx_ok_def rx_shape_def)
  define yes where "yes = p1\<lparr>rx_ring_buf := Some (ring @ rx_fifo d), rx_buffered_len := rx_buffered_len p1 + int k\<rparr>"
  define no where "no = p1\<lparr>rx_buffer_full_flg := True\<rparr>"
  have ok: "rx_ok yes" "received yes = received p @ rx_fifo d" "rx_ok no" "received no = received p @ rx_fifo d"
    using assms(1,2) ring k len piece
    by (auto simp: yes_def no_def p1_def rx_ok_def rx_shape_def rx_defs k_def split: option.splits)
  have "\<exists>t. isr_rx acc sz p d = Inr t \<and> obj t = (if acc p1 (rx_fifo d) then yes else no) \<and> rx_fifo (dev t) = []"
    using assms(2) ring len(2) p1
    by (auto simp: isr_rx_def Let_def k_def [symmetric] p1_def [symmetric] yes_def no_def)
  then show thesis using that ok by (cases "acc p1 (rx_fifo d)") auto
qed

text \<open>Flushing empties the ring buffer, and the counter with it.\<close>

lemma drop_head_ok:
  assumes "rx_ok p"
  shows "rx_ok (drop_head p)" "opened (drop_head p) = []" "stored (drop_head p) = stored p"
    "rx_buffer_full_flg (drop_head p) = rx_buffer_full_flg p" "rx_mux (drop_head p) = rx_mux p"
    "rx_stash_len (drop_head p) = rx_stash_len p" "uart_num (drop_head p) = uart_num p"
  using assms
  by (auto simp: drop_head_def rx_ok_def rx_shape_def rx_defs split: option.splits)

text \<open>The bytes a flush may have to throw away.\<close>

definition flush_work :: "uart_obj \<Rightarrow> nat" where
  "flush_work p = length (stored p) + length (stashed p)"

lemma push_stash_work:
  "rx_shape p \<Longrightarrow> push_stash acc p = (en, q) \<Longrightarrow> flush_work q = flush_work p \<and> uart_num q = uart_num p"
  by (auto simp: push_stash_def flush_work_def Let_def rx_shape_def rx_defs split: if_splits)

lemma flush_loop_ok:
  assumes "rx_ok p" and "chunk_ok chunk" and "flush_work p < fuel"
  shows "\<exists>q. flush_loop fuel acc chunk p = Some (Inr q) \<and> rx_ok q \<and> opened q = [] \<and> stored q = [] \<and>
    rx_mux q = rx_mux p \<and> uart_num q = uart_num p \<and> (rx_buffer_full_flg q \<longrightarrow> rx_buffer_full_flg p)"
  using assms(1,3)
proof (induction fuel arbitrary: p)
  case 0
  then show ?case by simp
next
  case (Suc fuel)
  define p1 where "p1 = drop_head p"
  note p1 = drop_head_ok [OF Suc.prems(1), folded p1_def]
  obtain ring where ring: "rx_ring_buf p1 = Some ring" "stored p1 = ring"
    using p1(1) by (auto simp: rx_ok_def rx_shape_def stored_def)
  show ?case
  proof (cases "ring = []")
    case True
    then show ?thesis using p1 ring by (auto simp: p1_def [symmetric] Let_def)
  next
    case False
    define k where "k = chunk ring"
    have k: "0 < k" "k \<le> length ring" using assms(2) False by (auto simp: chunk_ok_def k_def)
    define p2 where "p2 = p1\<lparr>rx_ring_buf := Some (drop k ring),
        rx_buffered_len := rx_buffered_len p1 - int (length (take k ring))\<rparr>"
    have p2: "rx_ok p2" "opened p2 = []" "flush_work p2 < flush_work p"
      using p1 ring k by (auto simp: p2_def rx_ok_def rx_shape_def rx_defs flush_work_def drop_head_def p1_def
          split: option.splits if_splits)
    obtain en q where q: "push_stash acc p2 = (en, q)" by (cases "push_stash acc p2")
    have ok: "rx_ok q" "flush_work q < fuel" "rx_mux q = rx_mux p" "uart_num q = uart_num p"
        "rx_buffer_full_flg q \<longrightarrow> rx_buffer_full_flg p"
      using push_stash_ok [OF _ q] push_stash_work [OF _ q] p2 p1 Suc.prems(2)
      by (auto simp: rx_ok_def p2_def)
    have step: "flush_loop (Suc fuel) acc chunk p = flush_loop fuel acc chunk q"
      using ring False q by (simp add: p1_def [symmetric] Let_def p2_def k_def)
    show ?thesis using Suc.IH [OF ok(1,2)] ok(3-5) step by auto
  qed
qed

text \<open>
  A flush does not empty the stash when it finds the ring buffer empty. The flag that says
  so then stays set, and the handler leaves the FIFO alone as long as it is: \<open>dead\<close> is the
  state of a receiver that will never deliver a byte again.
\<close>

definition dead :: "uart_obj \<Rightarrow> bool" where
  "dead p \<longleftrightarrow> rx_ok p \<and> rx_buffer_full_flg p \<and> opened p = [] \<and> stored p = []"

lemma dead_flush: "rx_ok p \<Longrightarrow> rx_buffer_full_flg p \<Longrightarrow> stored p = [] \<Longrightarrow>
    flush_loop (Suc fuel) acc chunk p = Some (Inr (drop_head p)) \<and> dead (drop_head p)"
  using drop_head_ok [of p]
  by (auto simp: dead_def Let_def stored_def rx_ok_def rx_shape_def split: option.splits)

lemma dead_isr: "dead p \<Longrightarrow> \<exists>t. isr_rx acc sz p d = Inr t \<and> obj t = p \<and> rx_fifo (dev t) = rx_fifo d"
  by (auto simp: dead_def isr_rx_def)

lemma dead_read:
  assumes "dead p" and "n < UART_NUM_MAX" and "p_uart_obj s n = Some p" and "rx_mux p = Some True"
    and "0 < len"
  shows "\<exists>s'. uart_read_bytes (Suc fuel) acc chunk n True len s = Some (Inr (0, [], s')) \<and> p_uart_obj s' n = Some p"
proof -
  have "rx_cur_remain p = 0" "rx_ring_buf p = Some []"
    using assms(1) rx_cur_opened [of p]
    by (auto simp: dead_def rx_ok_def rx_shape_def stored_def split: option.splits)
  moreover have "unat len \<noteq> 0" using assms(5) by (auto simp: word_less_nat_alt)
  ultimately show ?thesis
    using assms(2-4) by (auto simp: uart_read_bytes_def read_item_def read_finish_def)
qed

lemma drop_head_dead [simp]: "dead p \<Longrightarrow> drop_head p = p"
  by (auto simp: dead_def drop_head_def rx_ok_def rx_shape_def opened_def split: option.splits)

lemma uart_flush_run:
  assumes "n < UART_NUM_MAX" and "p_uart_obj s n = Some p" and "rx_mux p = Some True"
    and "flush_loop fuel acc chunk (p\<lparr>rx_mux := Some False\<rparr>) = Some (Inr q)"
    and "rx_ok q" "opened q = []" "rx_mux q = Some False" "uart_num q = n"
  obtains s' where "uart_flush fuel acc chunk n s = Some (Inr (ESP_OK, s'))"
    and "p_uart_obj s' n = Some (q\<lparr>rx_mux := Some True\<rparr>)" and "rx_fifo (uart_devs s' n) = []"
proof -
  have ptrs: "rx_ptr q = None" "rx_cur_remain q = 0" "rx_head_ptr q = None"
    using assms(5,6) by (auto simp: rx_ok_def rx_shape_def opened_def split: option.splits)
  then have "q\<lparr>rx_ptr := None, rx_cur_remain := 0, rx_head_ptr := None, rx_mux := Some True\<rparr> = q\<lparr>rx_mux := Some True\<rparr>"
    by simp
  then show thesis
    using assms(1-4,7,8) reset_fifo_empties(1) [OF assms(1)]
    by (intro that) (auto simp: uart_flush_def Let_def)
qed

text \<open>
  Flushing empties the receiver. Afterwards nothing is stored or half read, the counter
  of buffered bytes is zero, the FIFO is empty, the lock is free and the invariant holds; if
  no bytes were waiting in the stash, nothing at all is left to be read. The number of
  bytes held bounds the rounds of the loop.
\<close>

theorem uart_flush_empties:
  assumes "n < UART_NUM_MAX" and "p_uart_obj s n = Some p" and "rx_ok p" and "rx_mux p = Some True"
    and "uart_num p = n" and "chunk_ok chunk" and "length (received p) < fuel"
  shows "\<exists>s' p'. uart_flush fuel acc chunk n s = Some (Inr (ESP_OK, s')) \<and> p_uart_obj s' n = Some p' \<and>
    rx_ok p' \<and> rx_mux p' = Some True \<and> rx_buffered_len p' = 0 \<and> rx_fifo (uart_devs s' n) = [] \<and>
    (\<not> rx_buffer_full_flg p \<longrightarrow> received p' = [])"
proof -
  define p0 where "p0 = p\<lparr>rx_mux := Some False\<rparr>"
  have "flush_work p0 \<le> length (received p)" by (simp add: p0_def flush_work_def rx_defs)
  then have p0: "rx_ok p0" "flush_work p0 < fuel" using assms(3,7) by (simp_all add: p0_def rx_ok_def)
  obtain q where q: "flush_loop fuel acc chunk p0 = Some (Inr q)" "rx_ok q" "opened q = []" "stored q = []"
      "rx_mux q = Some False" "uart_num q = n" "rx_buffer_full_flg q \<longrightarrow> rx_buffer_full_flg p"
    using flush_loop_ok [OF p0(1) assms(6) p0(2), of acc] assms(5) by (auto simp: p0_def)
  obtain s' where s': "uart_flush fuel acc chunk n s = Some (Inr (ESP_OK, s'))"
      "p_uart_obj s' n = Some (q\<lparr>rx_mux := Some True\<rparr>)" "rx_fifo (uart_devs s' n) = []"
    using uart_flush_run [OF assms(1,2,4) q(1) [unfolded p0_def] q(2,3,5,6)] by blast
  have "rx_buffered_len q = 0" using q(2-4) by (simp add: rx_ok_def rx_surplus_def)
  moreover have "received q = []" if "\<not> rx_buffer_full_flg p" using q(3,4,7) that by (simp add: received_def stashed_def)
  ultimately show ?thesis
    using s' q(2) by (intro exI [of _ s'] exI [of _ "q\<lparr>rx_mux := Some True\<rparr>"]) (simp add: rx_ok_def)
qed

theorem uart_flush_empties_witness:
  "\<exists>s' p'. uart_flush 6 (\<lambda>_ _. True) two_by_two 1 (sys_of rx_demo) = Some (Inr (ESP_OK, s')) \<and>
    p_uart_obj s' 1 = Some p' \<and> rx_buffered_len p' = 0 \<and> received p' = []"
proof -
  have l: "(1 :: nat) < UART_NUM_MAX" "uart_num rx_demo = 1" "length (received rx_demo) < 6" "\<not> rx_buffer_full_flg rx_demo"
    by (simp_all add: rx_demo_ok(2)) (simp_all add: rx_demo_def obj0_def)
  show ?thesis
    using uart_flush_empties [OF l(1) _ rx_demo_ok(1,3) l(2) two_by_two_ok l(3), of "sys_of rx_demo" "\<lambda>_ _. True"] l(4)
    by simp blast
qed

text \<open>
  C39: A flush can silence a port for ever. When the ring buffer was full, bytes are waiting
  in the stash, and the reader has already fetched all stored bytes as one item, the flush
  finds nothing to receive and keeps the flag of the full buffer. From then on the handler
  leaves received bytes in the FIFO, every read returns nothing, and a further flush
  changes nothing about it.
\<close>

theorem flush_can_silence_port:
  assumes "n < UART_NUM_MAX" and "p_uart_obj s n = Some p" and "rx_ok p" and "rx_mux p = Some True"
    and "uart_num p = n" and "rx_buffer_full_flg p" and "stored p = []"
  shows "\<exists>s' q. uart_flush (Suc fuel) acc chunk n s = Some (Inr (ESP_OK, s')) \<and> p_uart_obj s' n = Some q \<and> dead q \<and>
    (\<forall>acc sz d. \<exists>t. isr_rx acc sz q d = Inr t \<and> obj t = q \<and> rx_fifo (dev t) = rx_fifo d) \<and>
    (\<forall>fuel acc chunk len t. p_uart_obj t n = Some q \<longrightarrow> 0 < len \<longrightarrow>
       (\<exists>t'. uart_read_bytes (Suc fuel) acc chunk n True len t = Some (Inr (0, [], t')) \<and> p_uart_obj t' n = Some q)) \<and>
    (\<forall>fuel acc chunk t. p_uart_obj t n = Some q \<longrightarrow>
       (\<exists>t'. uart_flush (Suc fuel) acc chunk n t = Some (Inr (ESP_OK, t')) \<and> p_uart_obj t' n = Some q))"
proof -
  have flush: "\<exists>s'. uart_flush (Suc fuel) acc chunk n s = Some (Inr (ESP_OK, s')) \<and>
      p_uart_obj s' n = Some ((drop_head (p\<lparr>rx_mux := Some False\<rparr>))\<lparr>rx_mux := Some True\<rparr>)"
    if p: "p_uart_obj s n = Some p" "rx_ok p" "rx_mux p = Some True" "uart_num p = n" "rx_buffer_full_flg p" "stored p = []"
    for s p fuel acc chunk
  proof -
    define p0 where "p0 = p\<lparr>rx_mux := Some False\<rparr>"
    have p0: "rx_ok p0" "rx_buffer_full_flg p0" "stored p0 = []" using p by (simp_all add: p0_def rx_ok_def stored_def)
    show ?thesis
      using uart_flush_run [OF assms(1) p(1,3), of "Suc fuel" acc chunk "drop_head p0"] dead_flush [OF p0, of fuel acc chunk]
        drop_head_ok [OF p0(1)] p(4) by (auto simp: p0_def)
  qed
  define q where "q = (drop_head (p\<lparr>rx_mux := Some False\<rparr>))\<lparr>rx_mux := Some True\<rparr>"
  have "dead (drop_head (p\<lparr>rx_mux := Some False\<rparr>))"
    using dead_flush [of "p\<lparr>rx_mux := Some False\<rparr>"] assms(3,6,7) by (simp add: rx_ok_def stored_def)
  then have q: "dead q" "rx_mux q = Some True" by (simp_all add: q_def dead_def rx_ok_def opened_def stored_def)
  have q': "uart_num q = n" "rx_ok q" "rx_buffer_full_flg q" "stored q = []"
    using q(1) assms(3,5) drop_head_ok(7) [of "p\<lparr>rx_mux := Some False\<rparr>"] by (simp_all add: dead_def q_def rx_ok_def)
  have "dead (q\<lparr>rx_mux := Some False\<rparr>)" using q(1) by (simp add: dead_def rx_ok_def opened_def stored_def)
  then have again: "(drop_head (q\<lparr>rx_mux := Some False\<rparr>))\<lparr>rx_mux := Some True\<rparr> = q" using q(2) by simp
  obtain s' where s': "uart_flush (Suc fuel) acc chunk n s = Some (Inr (ESP_OK, s'))" "p_uart_obj s' n = Some q"
    using flush [OF assms(2-7)] unfolding q_def by blast
  show ?thesis
  proof (rule exI [of _ s'], rule exI [of _ q], intro conjI allI impI)
    fix t :: uart_sys and fuel acc chunk
    assume "p_uart_obj t n = Some q"
    then show "\<exists>t'. uart_flush (Suc fuel) acc chunk n t = Some (Inr (ESP_OK, t')) \<and> p_uart_obj t' n = Some q"
      using flush [OF _ q'(2) q(2) q'(1,3,4), unfolded again] by blast
  qed (use s' q(1) dead_isr [OF q(1)] dead_read [OF q(1) assms(1) _ q(2)] in blast)+
qed

definition rx_full :: uart_obj where
  "rx_full = obj0\<lparr>rx_ring_buf := Some [], rx_ptr := Some [9], rx_head_ptr := Some [8, 9], rx_cur_remain := 1,
     rx_buffered_len := 1, rx_buffer_full_flg := True, rx_stash_len := 2\<rparr>"

theorem flush_can_silence_port_witness:
  "\<exists>s' q. uart_flush 1 (\<lambda>_ _. True) two_by_two 1 (sys_of rx_full) = Some (Inr (ESP_OK, s')) \<and>
     p_uart_obj s' 1 = Some q \<and> dead q"
proof -
  have p: "(1 :: nat) < UART_NUM_MAX" "rx_ok rx_full" "rx_mux rx_full = Some True" "uart_num rx_full = 1"
      "rx_buffer_full_flg rx_full" "stored rx_full = []"
    by (simp_all add: rx_ok_def rx_shape_def rx_defs rx_full_def obj0_def)
  have here: "p_uart_obj (sys_of rx_full) 1 = Some rx_full" by simp
  show ?thesis
    using flush_can_silence_port [OF p(1) here p(2-6), of 0 "\<lambda>_ _. True" two_by_two] unfolding One_nat_def
    by (elim exE conjE) (intro exI conjI)
qed

end
