(* ===== verification/Uart_Transmit.thy ===== *)
theory Uart_Transmit
  imports Uart_Receive
begin

text \<open>
  The transmitting functions of \<open>firmware/main/drivers/uart.c\<close>. A call that has to wait for
  a semaphore lets the hardware work meanwhile: each input of the environment is one stretch
  of hardware activity, after which the interrupt handler runs if it has a reason to. A
  call that is still waiting when the inputs are used up has no result (\<open>None\<close>), and the
  same stands for a mutex that nobody gives back.

  The bytes of a port on their way out are \<open>wire\<close>: those that left for the line, then those
  in the FIFO. Without a transmit ring buffer, writing is shown to append exactly the
  caller's bytes to it; with one, writing queues them as a well-formed transmission, which
  is what the handler's loop needs to move them.
\<close>

subsection \<open>Waiting\<close>

text \<open>Waiting as long as there is hardware activity to come; the answer is whether the semaphore was taken.\<close>

fun wait_timed :: "nat \<Rightarrow> accepts \<Rightarrow> nat \<Rightarrow> (uart_obj \<Rightarrow> sem) \<Rightarrow> (sem \<Rightarrow> uart_obj \<Rightarrow> uart_obj) \<Rightarrow> hw_in list \<Rightarrow>
    uart_obj \<Rightarrow> uart_dev \<Rightarrow> (bool \<times> uart_obj \<times> uart_dev \<times> hw_in list) result option" where
  "wait_timed 0 acc sz get put env p d = None"
| "wait_timed (Suc fuel) acc sz get put env p d =
     (case sem_take (get p) of
        Inl e \<Rightarrow> Some (Inl e)
      | Inr (ok, h) \<Rightarrow>
        if ok then Some (Inr (True, put h p, d, env))
        else case env of
          [] \<Rightarrow> Some (Inr (False, p, d, []))
        | i # env' \<Rightarrow>
          (case uart_rx_intr_handler_default fuel acc sz env' p (hw_step i d) of
             None \<Rightarrow> None
           | Some (Inl e) \<Rightarrow> Some (Inl e)
           | Some (Inr (p', d', env'')) \<Rightarrow> wait_timed fuel acc sz get put env'' p' d'))"

text \<open>Waiting without a limit.\<close>

definition wait_sem :: "nat \<Rightarrow> accepts \<Rightarrow> nat \<Rightarrow> (uart_obj \<Rightarrow> sem) \<Rightarrow> (sem \<Rightarrow> uart_obj \<Rightarrow> uart_obj) \<Rightarrow> hw_in list \<Rightarrow>
    uart_obj \<Rightarrow> uart_dev \<Rightarrow> (uart_obj \<times> uart_dev \<times> hw_in list) result option" where
  "wait_sem fuel acc sz get put env p d =
     (case wait_timed fuel acc sz get put env p d of
        None \<Rightarrow> None
      | Some (Inl e) \<Rightarrow> Some (Inl e)
      | Some (Inr (ok, p', d', env')) \<Rightarrow> if ok then Some (Inr (p', d', env')) else None)"

subsection \<open>Filling the FIFO\<close>

definition uart_fill_fifo :: "u8 list \<Rightarrow> uart_dev \<Rightarrow> nat \<times> uart_dev" where
  "uart_fill_fifo buffer d =
     (let tx_fifo_cnt = of_nat (length (tx_fifo d)) :: u8;
          tx_remain_fifo_cnt = 128 - tx_fifo_cnt;
          copy_cnt = (if length buffer \<ge> unat tx_remain_fifo_cnt then tx_remain_fifo_cnt else of_nat (length buffer))
      in (unat copy_cnt, fifo_write (take (unat copy_cnt) buffer) d))"

text \<open>A buffer that is \<open>NULL\<close> is \<open>None\<close>; its length is the argument \<open>len\<close>.\<close>

definition uart_tx_chars :: "nat \<Rightarrow> u8 list option \<Rightarrow> uart_sys \<Rightarrow> (int \<times> uart_sys) result option" where
  "uart_tx_chars n buffer s =
     (if \<not> n < UART_NUM_MAX then Some (Inr (-1, s))
      else case p_uart_obj s n of None \<Rightarrow> Some (Inr (-1, s))
      | Some p \<Rightarrow>
        (case buffer of None \<Rightarrow> Some (Inr (-1, s))
         | Some bs \<Rightarrow>
           if bs = [] then Some (Inr (0, s))
           else (case sem_take (tx_mux p) of
             Inl e \<Rightarrow> Some (Inl e)
           | Inr (ok, h) \<Rightarrow>
             if \<not> ok then None
             else (let (tx_len, d) = uart_fill_fifo bs (uart_devs s n)
               in Some (bind_result (sem_give h) (\<lambda>h'.
                 Inr (int tx_len, put_obj n (Some (p\<lparr>tx_mux := h'\<rparr>)) (on_dev n (\<lambda>_. d) s))))))))"

definition uart_set_break :: "int \<Rightarrow> uart_dev \<Rightarrow> uart_dev" where
  "uart_set_break break_num d =
     int_enable TX_BRK_DONE (int_clr (int_mask TX_BRK_DONE) (set_conf0 TXD_BRK 1
       (d\<lparr>idle_conf := set_field TX_BRK_NUM (word_of_int break_num) (idle_conf d)\<rparr>)))"

subsection \<open>Writing\<close>

text \<open>The register part of \<open>uart_enable_tx_intr (uart_num, 1, UART_EMPTY_THRESH_DEFAULT)\<close>.\<close>

definition enable_tx_empty :: "uart_dev \<Rightarrow> uart_dev" where
  "enable_tx_empty d = int_enable TXFIFO_EMPTY
     ((int_clr (int_mask TXFIFO_EMPTY) d)\<lparr>conf1 := set_field TXFIFO_EMPTY_THRHD 10 (conf1 d)\<rparr>)"

lemma enable_tx_empty:
  "n < UART_NUM_MAX \<Longrightarrow> uart_enable_tx_intr n 1 10 s = (ESP_OK, on_dev n enable_tx_empty s)"
  by (simp add: uart_enable_tx_intr_def enable_tx_empty_def on_dev_def)

text \<open>
  Queueing the pieces of a transmission. \<open>max_size\<close> is the largest item the ring buffer
  takes; the loop only ends if half of it is not zero, so it has fuel. Waiting for room in
  the ring buffer is not modelled: the items join it in the order they are sent.
\<close>

fun queue_pieces :: "nat \<Rightarrow> nat \<Rightarrow> u8 list \<Rightarrow> u8 list list \<Rightarrow> uart_dev \<Rightarrow> (u8 list list \<times> uart_dev) option" where
  "queue_pieces 0 max_size src ring d = (if src = [] then Some (ring, d) else None)"
| "queue_pieces (Suc fuel) max_size src ring d =
     (if src = [] then Some (ring, d)
      else (let send_size = (if length src > max_size div 2 then max_size div 2 else length src)
        in queue_pieces fuel max_size (drop send_size src) (ring @ [take send_size src]) (enable_tx_empty d)))"

definition tx_ring_write :: "nat \<Rightarrow> nat \<Rightarrow> u8 list \<Rightarrow> bool \<Rightarrow> int \<Rightarrow> uart_obj \<Rightarrow> uart_dev \<Rightarrow> (uart_obj \<times> uart_dev) result option" where
  "tx_ring_write fuel max_size src brk_en brk p d =
     (case tx_ring_buf p of None \<Rightarrow> Some (Inl Null_dereference)
      | Some ring \<Rightarrow>
        (let evt = \<lparr>tx_type = (if brk_en then TYPE_UART_DATA_BREAK else TYPE_UART_DATA),
                    brk_len = word_of_int brk, tx_size = of_nat (length src)\<rparr>
         in case queue_pieces fuel max_size src (ring @ [tx_data_bytes evt]) d of
              None \<Rightarrow> None
            | Some (ring', d') \<Rightarrow>
              Some (bind_result (sem_give (tx_mux p)) (\<lambda>h. Inr (p\<lparr>tx_ring_buf := Some ring', tx_mux := h\<rparr>, d')))))"

text \<open>Writing through the FIFO, waiting for it to empty in between.\<close>

fun tx_direct :: "nat \<Rightarrow> accepts \<Rightarrow> nat \<Rightarrow> hw_in list \<Rightarrow> u8 list \<Rightarrow> uart_obj \<Rightarrow> uart_dev \<Rightarrow>
    (uart_obj \<times> uart_dev \<times> hw_in list) result option" where
  "tx_direct 0 acc sz env src p d = (if src = [] then Some (Inr (p, d, env)) else None)"
| "tx_direct (Suc fuel) acc sz env src p d =
     (if src = [] then Some (Inr (p, d, env))
      else case wait_sem fuel acc sz tx_fifo_sem (\<lambda>h p. p\<lparr>tx_fifo_sem := h\<rparr>) env p d of
        None \<Rightarrow> None
      | Some (Inl e) \<Rightarrow> Some (Inl e)
      | Some (Inr (p1, d1, env1)) \<Rightarrow>
        (let (sent, d2) = uart_fill_fifo src d1
         in if sent < length src
            then tx_direct fuel acc sz env1 (drop sent src) (p1\<lparr>tx_waiting_fifo := True\<rparr>) (enable_tx_empty d2)
            else tx_direct fuel acc sz env1 (drop sent src) p1 d2))"

definition tx_direct_write :: "nat \<Rightarrow> accepts \<Rightarrow> nat \<Rightarrow> hw_in list \<Rightarrow> u8 list \<Rightarrow> bool \<Rightarrow> int \<Rightarrow> uart_obj \<Rightarrow> uart_dev \<Rightarrow>
    (uart_obj \<times> uart_dev \<times> hw_in list) result option" where
  "tx_direct_write fuel acc sz env src brk_en brk p d =
     (case tx_direct fuel acc sz env src p d of
        None \<Rightarrow> None
      | Some (Inl e) \<Rightarrow> Some (Inl e)
      | Some (Inr (p1, d1, env1)) \<Rightarrow>
        (case (if brk_en
               then wait_sem fuel acc sz tx_brk_sem (\<lambda>h p. p\<lparr>tx_brk_sem := h\<rparr>) env1 p1 (uart_set_break brk d1)
               else Some (Inr (p1, d1, env1))) of
           None \<Rightarrow> None
         | Some (Inl e) \<Rightarrow> Some (Inl e)
         | Some (Inr (p2, d2, env2)) \<Rightarrow>
           Some (bind_result (sem_give (tx_fifo_sem p2)) (\<lambda>h. Inr (p2\<lparr>tx_fifo_sem := h\<rparr>, d2, env2)))))"

definition uart_tx_all :: "nat \<Rightarrow> accepts \<Rightarrow> nat \<Rightarrow> nat \<Rightarrow> hw_in list \<Rightarrow> nat \<Rightarrow> u8 list \<Rightarrow> bool \<Rightarrow> int \<Rightarrow> uart_sys \<Rightarrow>
    (int \<times> uart_sys) result option" where
  "uart_tx_all fuel acc sz max_size env n src brk_en brk s =
     (if src = [] then Some (Inr (0, s))
      else case p_uart_obj s n of None \<Rightarrow> Some (Inl Null_dereference)
      | Some p \<Rightarrow>
        (case sem_take (tx_mux p) of
           Inl e \<Rightarrow> Some (Inl e)
         | Inr (ok, h) \<Rightarrow>
           if \<not> ok then None
           else (let p0 = p\<lparr>tx_mux := h\<rparr>; d0 = uart_devs s n in
             case (if tx_buf_size p0 > 0 then tx_ring_write fuel max_size src brk_en brk p0 d0
                   else map_option (\<lambda>r. bind_result r (\<lambda>(p, d, env'). Inr (p, d)))
                     (tx_direct_write fuel acc sz env src brk_en brk p0 d0)) of
               None \<Rightarrow> None
             | Some (Inl e) \<Rightarrow> Some (Inl e)
             | Some (Inr (p1, d1)) \<Rightarrow>
               Some (bind_result (sem_give (tx_mux p1)) (\<lambda>h'.
                 Inr (int (length src), put_obj n (Some (p1\<lparr>tx_mux := h'\<rparr>)) (on_dev n (\<lambda>_. d1) s)))))))"

definition uart_write_bytes :: "nat \<Rightarrow> accepts \<Rightarrow> nat \<Rightarrow> nat \<Rightarrow> hw_in list \<Rightarrow> nat \<Rightarrow> u8 list option \<Rightarrow> uart_sys \<Rightarrow>
    (int \<times> uart_sys) result option" where
  "uart_write_bytes fuel acc sz max_size env n src s =
     (if \<not> n < UART_NUM_MAX \<or> p_uart_obj s n = None then Some (Inr (-1, s))
      else case src of None \<Rightarrow> Some (Inr (-1, s))
      | Some bs \<Rightarrow> uart_tx_all fuel acc sz max_size env n bs False 0 s)"

definition uart_write_bytes_with_break :: "nat \<Rightarrow> accepts \<Rightarrow> nat \<Rightarrow> nat \<Rightarrow> hw_in list \<Rightarrow> nat \<Rightarrow> u8 list option \<Rightarrow> nat \<Rightarrow> int \<Rightarrow>
    uart_sys \<Rightarrow> (int \<times> uart_sys) result option" where
  "uart_write_bytes_with_break fuel acc sz max_size env n src len brk s =
     (if \<not> n < UART_NUM_MAX \<or> p_uart_obj s n = None \<or> \<not> 0 < len then Some (Inr (-1, s))
      else case src of None \<Rightarrow> Some (Inr (-1, s))
      | Some bs \<Rightarrow>
        if \<not> (0 < brk \<and> brk < 256) then Some (Inr (-1, s))
        else uart_tx_all fuel acc sz max_size env n (take len bs) True brk s)"

text \<open>
  Waiting for the end of a transmission. The hardware activity \<open>env\<close> is what the waiting
  time allows.
\<close>

definition uart_wait_tx_done :: "nat \<Rightarrow> accepts \<Rightarrow> nat \<Rightarrow> hw_in list \<Rightarrow> nat \<Rightarrow> uart_sys \<Rightarrow>
    (esp_err_t \<times> uart_sys) result option" where
  "uart_wait_tx_done fuel acc sz env n s =
     (if \<not> n < UART_NUM_MAX then Some (Inr (ESP_FAIL, s))
      else case p_uart_obj s n of None \<Rightarrow> Some (Inr (ESP_FAIL, s))
      | Some p \<Rightarrow>
        (case sem_take (tx_mux p) of
           Inl e \<Rightarrow> Some (Inl e)
         | Inr (ok, h) \<Rightarrow>
           if \<not> ok then Some (Inr (ESP_ERR_TIMEOUT, s))
           else case sem_take (tx_done_sem p) of
             Inl e \<Rightarrow> Some (Inl e)
           | Inr (_, td) \<Rightarrow>
             (let p1 = p\<lparr>tx_mux := h, tx_done_sem := td\<rparr> in
              if tx_fifo (uart_devs s n) = []
              then Some (bind_result (sem_give (tx_mux p1)) (\<lambda>h'. Inr (ESP_OK, put_obj n (Some (p1\<lparr>tx_mux := h'\<rparr>)) s)))
              else
                (let s1 = snd (uart_enable_intr_mask n (int_mask TX_DONE) s) in
                 case wait_timed fuel acc sz tx_done_sem (\<lambda>h p. p\<lparr>tx_done_sem := h\<rparr>) env p1 (uart_devs s1 n) of
                   None \<Rightarrow> None
                 | Some (Inl e) \<Rightarrow> Some (Inl e)
                 | Some (Inr (ok, p2, d2, _)) \<Rightarrow>
                   (let s2 = on_dev n (\<lambda>_. d2) s1;
                        s3 = (if ok then s2 else snd (uart_disable_intr_mask n (int_mask TX_DONE) s2))
                    in Some (bind_result (sem_give (tx_mux p2)) (\<lambda>h'.
                         Inr (if ok then ESP_OK else ESP_ERR_TIMEOUT, put_obj n (Some (p2\<lparr>tx_mux := h'\<rparr>)) s3))))))))"

subsection \<open>Queueing a transmission\<close>

lemma enable_tx_empty_simps [simp]:
  "tx_fifo (enable_tx_empty d) = tx_fifo d" "tx_line (enable_tx_empty d) = tx_line d"
  "conf0 (enable_tx_empty d) = conf0 d" "int_raw (enable_tx_empty d) = int_raw d AND NOT (int_mask TXFIFO_EMPTY)"
  "int_ena (enable_tx_empty d) = set_bit TXFIFO_EMPTY (int_ena d)"
  by (simp_all add: enable_tx_empty_def int_enable_def)

text \<open>A transmission leaves the wires as they are and arms the interrupt for an empty FIFO.\<close>

definition armed :: "uart_dev \<Rightarrow> uart_dev \<Rightarrow> bool" where
  "armed d d' \<longleftrightarrow> tx_fifo d' = tx_fifo d \<and> tx_line d' = tx_line d \<and> conf0 d' = conf0 d \<and>
     int_raw d' = int_raw d AND NOT (int_mask TXFIFO_EMPTY) \<and> int_ena d' = set_bit TXFIFO_EMPTY (int_ena d)"

lemma armed_enable: "armed d (enable_tx_empty d)"
  by (simp add: armed_def)

lemma set_bit_twice: "set_bit n (set_bit n (w :: u32)) = set_bit n w"
  by (rule bit_word_eqI) (auto simp: bit_simps)

lemma armed_again: "armed (enable_tx_empty d) d' \<Longrightarrow> armed d d'"
  by (auto simp: armed_def set_bit_twice ac_simps)

lemma queue_pieces_ok:
  assumes "2 \<le> max_size" and "length src \<le> fuel" and "src \<noteq> []"
  shows "\<exists>xs d'. queue_pieces fuel max_size src ring d = Some (ring @ xs, d') \<and> concat xs = src \<and>
    (\<forall>x \<in> set xs. x \<noteq> []) \<and> armed d d' \<and> (length src \<le> max_size div 2 \<longrightarrow> xs = [src])"
  using assms(2,3)
proof (induction fuel arbitrary: src ring d)
  case 0
  then show ?case by simp
next
  case (Suc fuel)
  define k where "k = (if length src > max_size div 2 then max_size div 2 else length src)"
  have k: "0 < k" "k \<le> length src" "length src \<le> max_size div 2 \<Longrightarrow> k = length src"
    using assms(1) Suc.prems by (auto simp: k_def)
  have step: "queue_pieces (Suc fuel) max_size src ring d =
      queue_pieces fuel max_size (drop k src) (ring @ [take k src]) (enable_tx_empty d)"
    using Suc.prems(2) by (simp add: k_def Let_def)
  show ?case
  proof (cases "drop k src = []")
    case True
    then have "queue_pieces fuel max_size (drop k src) (ring @ [take k src]) (enable_tx_empty d) =
        Some (ring @ [src], enable_tx_empty d)"
      by (cases fuel) simp_all
    then show ?thesis using step Suc.prems(2) armed_enable by auto
  next
    case False
    have "length (drop k src) \<le> fuel" using k Suc.prems(1) by simp
    then obtain xs d' where xs: "queue_pieces fuel max_size (drop k src) (ring @ [take k src]) (enable_tx_empty d) =
        Some ((ring @ [take k src]) @ xs, d')" "concat xs = drop k src" "\<forall>x \<in> set xs. x \<noteq> []"
        "armed (enable_tx_empty d) d'"
      using Suc.IH [OF _ False] by blast
    have "take k src \<noteq> []" using k Suc.prems(2) by (cases src) auto
    then show ?thesis
      using step xs armed_again [OF xs(4)] False k(3)
      by (intro exI [of _ "take k src # xs"] exI [of _ d']) auto
  qed
qed

text \<open>The ring buffer ends with a complete transmission.\<close>

definition complete :: "uart_obj \<Rightarrow> bool" where
  "complete p \<longleftrightarrow> still_to_come (unat (tx_len_tot p) - length (current p)) (ring_of p) = 0"

lemma queue_transmission:
  assumes "tx_ok p" and "complete p" and "concat xs = src" and "\<forall>x \<in> set xs. x \<noteq> []" and "src \<noteq> []"
    and "length src < 2 ^ 32"
    and "q = p\<lparr>tx_ring_buf := Some ((ring_of p @ [tx_data_bytes \<lparr>tx_type = ty, brk_len = b, tx_size = of_nat (length src)\<rparr>]) @ xs), tx_mux := h\<rparr>"
  shows "tx_ok q \<and> complete q \<and> pending q = pending p @ src"
proof -
  have l: "unat (of_nat (length src) :: u32) = length src" using assms(6) by (simp add: unat_of_nat)
  have pieces: "stream_ok (length src) xs" "payload (length src) xs = src" "still_to_come (length src) xs = 0"
    using stream_pieces [OF assms(4), of "length src"] assms(3) by auto
  have c: "current q = current p" "tx_len_tot q = tx_len_tot p" "tx_ptr q = tx_ptr p" "tx_len_cur q = tx_len_cur p"
    by (simp_all add: assms(7) current_def)
  have r: "ring_of q = ring_of p @ tx_data_bytes \<lparr>tx_type = ty, brk_len = b, tx_size = of_nat (length src)\<rparr> # xs"
      "tx_ring_buf q \<noteq> None"
    by (simp_all add: assms(7) ring_of_def)
  have len: "0 < length src" using assms(5) by simp
  show ?thesis
    using assms(1,2) c r l pieces len
    by (auto simp: tx_ok_def complete_def pending_def stream_append)
qed

lemma tx_all_ring:
  assumes "p_uart_obj s n = Some p" and "tx_mux p = Some True" and "0 < tx_buf_size p"
    and "tx_ok p" and "complete p" and "src \<noteq> []" and "length src \<le> fuel" and "length src < 2 ^ 32" and "2 \<le> max_size"
  obtains s' q xs where "uart_tx_all fuel acc sz max_size env n src brk_en brk s = Some (Inr (int (length src), s'))"
    and "p_uart_obj s' n = Some q" "armed (uart_devs s n) (uart_devs s' n)"
    and "q = p\<lparr>tx_ring_buf := Some ((ring_of p @ [tx_data_bytes \<lparr>tx_type = (if brk_en then TYPE_UART_DATA_BREAK else TYPE_UART_DATA),
           brk_len = word_of_int brk, tx_size = of_nat (length src)\<rparr>]) @ xs), tx_mux := Some True\<rparr>"
    and "tx_ok q" "complete q" "pending q = pending p @ src" "tx_mux q = Some True"
    and "length src \<le> max_size div 2 \<longrightarrow> xs = [src]"
proof -
  obtain ring where ring: "tx_ring_buf p = Some ring" "ring_of p = ring" using assms(4) by (auto simp: tx_ok_def ring_of_def)
  define evt where "evt = \<lparr>tx_type = (if brk_en then TYPE_UART_DATA_BREAK else TYPE_UART_DATA),
      brk_len = word_of_int brk, tx_size = (of_nat (length src) :: u32)\<rparr>"
  obtain xs d' where xs: "queue_pieces fuel max_size src (ring @ [tx_data_bytes evt]) (uart_devs s n) =
        Some ((ring @ [tx_data_bytes evt]) @ xs, d')" "concat xs = src" "\<forall>x \<in> set xs. x \<noteq> []"
      "armed (uart_devs s n) d'" "length src \<le> max_size div 2 \<longrightarrow> xs = [src]"
    using queue_pieces_ok [OF assms(9,7,6)] by blast
  define q where "q = p\<lparr>tx_ring_buf := Some ((ring @ [tx_data_bytes evt]) @ xs), tx_mux := Some True\<rparr>"
  have ok: "tx_ok q \<and> complete q \<and> pending q = pending p @ src"
    by (rule queue_transmission [OF assms(4,5) xs(2,3) assms(6,8)]) (simp add: q_def evt_def ring(2))
  have "uart_tx_all fuel acc sz max_size env n src brk_en brk s =
      Some (Inr (int (length src), put_obj n (Some q) (on_dev n (\<lambda>_. d') s)))"
    using assms(1,2,3,6) ring(1) xs(1)
    by (simp add: uart_tx_all_def tx_ring_write_def evt_def [symmetric] Let_def q_def)
  then show thesis
    using ok xs(4,5) by (intro that [of "put_obj n (Some q) (on_dev n (\<lambda>_. d') s)" q xs]) (simp_all add: q_def ring(2) evt_def)
qed

text \<open>
  C19: Writing with a transmit ring buffer queues exactly the caller's bytes. The call
  answers their number, appends them to what the driver owes the line, leaves the FIFO
  alone, arms the interrupt that will move them and gives the lock back; the ring buffer
  stays a sequence of complete transmissions, whatever size its items are cut to.
\<close>

theorem uart_write_bytes_queues:
  assumes "n < UART_NUM_MAX" and "p_uart_obj s n = Some p" and "tx_mux p = Some True" and "0 < tx_buf_size p"
    and "tx_ok p" and "complete p" and "length bs \<le> fuel" and "length bs < 2 ^ 32" and "2 \<le> max_size"
    and "bs \<noteq> []"
  shows "\<exists>s' q. uart_write_bytes fuel acc sz max_size env n (Some bs) s = Some (Inr (int (length bs), s')) \<and>
    p_uart_obj s' n = Some q \<and> tx_ok q \<and> complete q \<and> pending q = pending p @ bs \<and> tx_mux q = Some True \<and>
    tx_fifo (uart_devs s' n) = tx_fifo (uart_devs s n) \<and> bit (int_ena (uart_devs s' n)) TXFIFO_EMPTY"
proof -
  obtain s' q xs where s': "uart_tx_all fuel acc sz max_size env n bs False 0 s = Some (Inr (int (length bs), s'))"
      "p_uart_obj s' n = Some q" "armed (uart_devs s n) (uart_devs s' n)" "tx_ok q" "complete q"
      "pending q = pending p @ bs" "tx_mux q = Some True"
    using tx_all_ring [OF assms(2-6,10,7-9), of acc sz env False 0] by metis
  then show ?thesis
    using assms(1,2)
    by (intro exI [of _ s'] exI [of _ q]) (simp add: uart_write_bytes_def armed_def bit_simps)
qed

lemma obj0_complete: "complete obj0" "tx_mux obj0 = Some True" "0 < tx_buf_size obj0" "pending obj0 = []"
  by (simp_all add: complete_def pending_def obj0_def current_def ring_of_def)

theorem uart_write_bytes_queues_witness:
  "\<exists>s' q. uart_write_bytes 5 (\<lambda>_ _. True) 0 4 [] 1 (Some [1, 2, 3, 4, 5]) (sys_of obj0) = Some (Inr (5, s')) \<and>
     p_uart_obj s' 1 = Some q \<and> pending q = [1, 2, 3, 4, 5]"
proof -
  have a: "(1 :: nat) < UART_NUM_MAX" "p_uart_obj (sys_of obj0) 1 = Some obj0" "length [1, 2, 3, 4, 5 :: u8] \<le> 5"
      "length [1, 2, 3, 4, 5 :: u8] < 2 ^ 32" "(2 :: nat) \<le> 4" "[1, 2, 3, 4, 5 :: u8] \<noteq> []"
    by simp_all
  show ?thesis
    using uart_write_bytes_queues [OF a(1,2) obj0_complete(2,3) obj0_ok(1) obj0_complete(1) a(3-6), of "\<lambda>_ _. True" 0 "[]"]
    by (auto simp: obj0_complete(4))
qed

text \<open>
  C38: Sending data with a break hangs the processor. On an idle port with a transmit ring
  buffer, up to a FIFO of data is written with a break and the transmit interrupt is
  served once. That turn moves the data to the FIFO, starts the break and enables the
  interrupt for an empty FIFO again. When that interrupt comes, which it does before the
  break can be sent, the handler reaches a \<open>continue\<close> that does not read the status again:
  it never returns, whatever the hardware does and however much fuel it has.
\<close>

theorem break_hangs_handler:
  assumes "n < UART_NUM_MAX" and "p_uart_obj s n = Some p" and "tx_mux p = Some True" and "0 < tx_buf_size p"
    and "tx_ok p" and "complete p" and "tx_len_tot p = 0" and "ring_of p = []" and "tx_waiting_brk p = 0"
    and "bs \<noteq> []" and "length bs \<le> UART_FIFO_LEN" and "length bs \<le> max_size div 2"
    and "0 < brk" "brk < 256" and "int_raw (uart_devs s n) = 0" and "tx_fifo (uart_devs s n) = []"
  shows "\<exists>s' q. uart_write_bytes_with_break UART_FIFO_LEN acc sz max_size env n (Some bs) (length bs) brk s =
      Some (Inr (int (length bs), s')) \<and> p_uart_obj s' n = Some q \<and>
    (\<exists>q' d'. uart_rx_intr_handler_default 1 acc sz [] q
        ((uart_devs s' n)\<lparr>int_raw := int_mask TXFIFO_EMPTY\<rparr>) = Some (Inr (q', d', [])) \<and>
      (\<forall>i fuel env. bit (raised i) TXFIFO_EMPTY \<longrightarrow>
         uart_rx_intr_handler_default fuel acc sz env q' (hw_step i d') = None))"
proof -
  have len: "length bs < 2 ^ 32" "2 \<le> max_size" using assms(10-12) by (cases bs; simp)+
  obtain s' q xs where s': "uart_tx_all UART_FIFO_LEN acc sz max_size env n bs True brk s = Some (Inr (int (length bs), s'))"
      "p_uart_obj s' n = Some q" "armed (uart_devs s n) (uart_devs s' n)"
      "q = p\<lparr>tx_ring_buf := Some ((ring_of p @ [tx_data_bytes \<lparr>tx_type = (if True then TYPE_UART_DATA_BREAK else TYPE_UART_DATA),
           brk_len = word_of_int brk, tx_size = of_nat (length bs)\<rparr>]) @ xs), tx_mux := Some True\<rparr>"
      "length bs \<le> max_size div 2 \<longrightarrow> xs = [bs]"
    using tx_all_ring [OF assms(2-6,10,11) len, of acc sz env True brk] by metis
  define d where "d = (uart_devs s' n)\<lparr>int_raw := int_mask TXFIFO_EMPTY\<rparr>"
  have ring: "tx_ring_buf q = Some [tx_data_bytes \<lparr>tx_type = TYPE_UART_DATA_BREAK, brk_len = word_of_int brk,
        tx_size = of_nat (length bs)\<rparr>, bs]"
    using s'(4,5) assms(8,12) by simp
  have q: "tx_len_tot q = 0" "tx_waiting_brk q = 0" "tx_buf_size q \<noteq> 0"
    using s'(4) assms(4,7,9) by simp_all
  have d: "int_raw d = int_mask TXFIFO_EMPTY" "bit (int_ena d) TXFIFO_EMPTY" "tx_fifo d = []"
    using s'(3) assms(16) by (simp_all add: d_def armed_def bit_simps)
  obtain q' d' where run: "uart_rx_intr_handler_default 1 acc sz [] q d = Some (Inr (q', d', []))"
      "tx_waiting_brk q' = 1" "bit (int_ena d') TXFIFO_EMPTY"
    using handler_starts_break [OF ring q(1) assms(10,11) q(2,3) d] by blast
  have hang: "uart_rx_intr_handler_default fuel acc sz env q' (hw_step i d') = None"
    if "bit (raised i) TXFIFO_EMPTY" for i fuel env
    by (rule handler_stuck) (use run(2,3) that in \<open>simp add: stuck_def int_st_def hw_step_def bit_simps\<close>)
  have "uart_write_bytes_with_break UART_FIFO_LEN acc sz max_size env n (Some bs) (length bs) brk s =
      Some (Inr (int (length bs), s'))"
    using s'(1) assms(1,2,10,13,14) by (simp add: uart_write_bytes_with_break_def)
  then show ?thesis using s'(2) run(1) hang unfolding d_def by blast
qed

theorem break_hangs_handler_witness:
  "\<exists>s' q. uart_write_bytes_with_break 128 (\<lambda>_ _. True) 0 124 [] 1 (Some [85]) (length [85 :: u8]) 10 (sys_of obj0) =
      Some (Inr (int (length [85 :: u8]), s')) \<and> p_uart_obj s' 1 = Some q \<and>
    (\<exists>q' d'. uart_rx_intr_handler_default 1 (\<lambda>_ _. True) 0 [] q
        ((uart_devs s' 1)\<lparr>int_raw := int_mask TXFIFO_EMPTY\<rparr>) = Some (Inr (q', d', [])) \<and>
      (\<forall>i fuel env. bit (raised i) TXFIFO_EMPTY \<longrightarrow>
         uart_rx_intr_handler_default fuel (\<lambda>_ _. True) 0 env q' (hw_step i d') = None))"
proof -
  have a: "(1 :: nat) < UART_NUM_MAX" "p_uart_obj (sys_of obj0) 1 = Some obj0" "tx_len_tot obj0 = 0"
      "ring_of obj0 = []" "tx_waiting_brk obj0 = 0"
      "[85 :: u8] \<noteq> []" "length [85 :: u8] \<le> UART_FIFO_LEN" "length [85 :: u8] \<le> 124 div 2" "(0 :: int) < 10" "(10 :: int) < 256"
      "int_raw (uart_devs (sys_of obj0) 1) = 0" "tx_fifo (uart_devs (sys_of obj0) 1) = []"
    by (simp_all add: obj0_def ring_of_def sys_of_def sys0_def dev0_def)
  show ?thesis
    by (rule break_hangs_handler [OF a(1,2) obj0_complete(2,3) obj0_ok(1) obj0_complete(1) a(3-12)])
qed

subsection \<open>Writing without a ring buffer\<close>

definition wire :: "uart_dev \<Rightarrow> u8 list" where
  "wire d = tx_line d @ tx_fifo d"

definition direct_ok :: "uart_obj \<Rightarrow> uart_dev \<Rightarrow> bool" where
  "direct_ok p d \<longleftrightarrow> tx_buf_size p = 0 \<and> dev_ok d \<and> length (tx_fifo d) \<le> UART_FIFO_LEN"

lemma dev_ok_simps [simp]:
  "dev_ok (int_clr m d) = dev_ok d" "dev_ok (int_enable k d) = dev_ok d" "dev_ok (int_disable k d) = dev_ok d"
  "dev_ok (d\<lparr>rx_fifo := bs\<rparr>) = dev_ok d" "dev_ok (d\<lparr>idle_conf := w\<rparr>) = dev_ok d" "dev_ok (fifo_write bs d) = dev_ok d"
  "dev_ok (hw_step i d) = dev_ok d" "dev_ok (enable_tx_empty d) = dev_ok d"
  by (simp_all add: dev_ok_def hw_step_def)

lemma wire_simps [simp]:
  "wire (int_clr m d) = wire d" "wire (int_enable k d) = wire d" "wire (int_disable k d) = wire d"
  "wire (d\<lparr>rx_fifo := bs\<rparr>) = wire d" "wire (d\<lparr>idle_conf := w\<rparr>) = wire d" "wire (fifo_write bs d) = wire d @ bs"
  "wire (hw_step i d) = wire d" "wire (enable_tx_empty d) = wire d"
  by (simp_all add: wire_def hw_step_def)

text \<open>Writes to the line break and to the receive reset bit leave the wires alone.\<close>

lemma set_conf0_break:
  "dev_ok d \<Longrightarrow> dev_ok (set_conf0 TXD_BRK v d) \<and> wire (set_conf0 TXD_BRK v d) = wire d \<and>
     tx_fifo (set_conf0 TXD_BRK v d) = tx_fifo d"
  by (simp add: dev_ok_def wire_def set_conf0_def write_conf0_def bit_set_field)

lemma rx_reset:
  assumes "dev_ok d"
  shows "dev_ok (set_conf0 RXFIFO_RST 0 (set_conf0 RXFIFO_RST 1 d)) \<and>
     wire (set_conf0 RXFIFO_RST 0 (set_conf0 RXFIFO_RST 1 d)) = wire d \<and>
     tx_fifo (set_conf0 RXFIFO_RST 0 (set_conf0 RXFIFO_RST 1 d)) = tx_fifo d"
  using assms by (simp add: dev_ok_def wire_def set_conf0_def write_conf0_def bit_set_field)

lemma isr_rx_keeps:
  "isr_rx acc sz p d = Inr t \<Longrightarrow> tx_buf_size (obj t) = tx_buf_size p \<and> dev_ok (dev t) = dev_ok d \<and>
     wire (dev t) = wire d \<and> tx_fifo (dev t) = tx_fifo d"
  by (auto simp: isr_rx_def Let_def split: if_splits option.splits)

lemma isr_turn_direct:
  assumes "isr_turn acc st sz p d = Inr t" and "direct_ok p d"
  shows "direct_ok (obj t) (dev t) \<and> wire (dev t) = wire d"
proof -
  have d: "tx_buf_size p = 0" "dev_ok d" "length (tx_fifo d) \<le> 128" using assms(2) by (simp_all add: direct_ok_def)
  consider (tx) "bit st TXFIFO_EMPTY"
    | (rx) "\<not> bit st TXFIFO_EMPTY" "bit st RXFIFO_TOUT \<or> bit st RXFIFO_FULL"
    | (rest) "\<not> bit st TXFIFO_EMPTY" "\<not> (bit st RXFIFO_TOUT \<or> bit st RXFIFO_FULL)"
    by blast
  then show ?thesis
  proof cases
    case tx
    then show ?thesis
      using assms d by (auto simp: isr_turn_def isr_tx_empty_def Let_def bind_result_eq_Inr direct_ok_def split: if_splits)
  next
    case rx
    then have "isr_rx acc sz p d = Inr t" using assms(1) unfolding isr_turn_def by (auto split: if_splits)
    from isr_rx_keeps [OF this] show ?thesis using d by (simp add: direct_ok_def)
  next
    case rest
    show ?thesis
      using assms(1) rest d set_conf0_break [OF d(2), of 0] rx_reset [OF d(2)] unfolding isr_turn_def
      by (auto simp: isr_tx_brk_done_def isr_tx_done_def Let_def bind_result_eq_Inr direct_ok_def split: if_splits)
  qed
qed

lemma hw_step_direct: "direct_ok p d \<Longrightarrow> direct_ok p (hw_step i d)"
  by (auto simp: direct_ok_def hw_step_def dev_ok_def)

lemma isr_loop_direct:
  assumes "isr_loop fuel acc st sz env p d = Some (Inr (p', d', env'))" and "direct_ok p d"
  shows "direct_ok p' d' \<and> wire d' = wire d"
  using assms
proof (induction fuel arbitrary: st sz env p d)
  case 0
  then show ?case by (simp split: if_splits)
next
  case (Suc fuel)
  show ?case
  proof (cases "st = 0")
    case True
    then show ?thesis using Suc.prems by simp
  next
    case False
    then obtain t where t: "isr_turn acc st sz p d = Inr t" using Suc.prems(1) by (auto split: sum.splits)
    note keep = isr_turn_direct [OF t Suc.prems(2)]
    obtain i env1 where i: "next_in env = (i, env1)" by (cases "next_in env")
    show ?thesis
    proof (cases "goes_on t")
      case True
      then show ?thesis using Suc.IH Suc.prems(1) False t keep by fastforce
    next
      case go: False
      have "direct_ok (send_event t) (hw_step i (dev t))"
        using keep hw_step_direct [of "obj t" "dev t" i] by (simp add: direct_ok_def)
      moreover have "isr_loop fuel acc (int_st (hw_step i (dev t))) (event_size t) env1 (send_event t) (hw_step i (dev t)) =
          Some (Inr (p', d', env'))"
        using Suc.prems(1) False t go i by (simp add: Let_def)
      ultimately show ?thesis using Suc.IH keep by fastforce
    qed
  qed
qed

lemma wait_timed_direct:
  assumes "wait_timed fuel acc sz get put env p d = Some (Inr (ok, p', d', env'))" and "direct_ok p d"
    and "\<And>h p. tx_buf_size (put h p) = tx_buf_size p"
  shows "direct_ok p' d' \<and> wire d' = wire d"
  using assms(1,2)
proof (induction fuel arbitrary: env p d)
  case 0
  then show ?case by simp
next
  case (Suc fuel)
  show ?case
  proof (cases env)
    case Nil
    then show ?thesis using Suc.prems assms(3) by (auto simp: direct_ok_def split: sum.splits if_splits)
  next
    case (Cons i env1)
    consider h where "sem_take (get p) = Inr (True, h)" | h where "sem_take (get p) = Inr (False, h)"
      using Suc.prems(1) by (cases "sem_take (get p)") auto
    then show ?thesis
    proof cases
      case 1
      then show ?thesis using Suc.prems assms(3) by (auto simp: direct_ok_def)
    next
      case 2
      then obtain q e env2 where run: "uart_rx_intr_handler_default fuel acc sz env1 p (hw_step i d) = Some (Inr (q, e, env2))"
          "wait_timed fuel acc sz get put env2 q e = Some (Inr (ok, p', d', env'))"
        using Suc.prems(1) Cons by (auto split: option.splits sum.splits)
      have "direct_ok q e \<and> wire e = wire (hw_step i d)"
        using isr_loop_direct [OF run(1) [unfolded uart_rx_intr_handler_default_def] hw_step_direct [OF Suc.prems(2)]] .
      then show ?thesis using Suc.IH [OF run(2)] by simp
    qed
  qed
qed

lemma wait_sem_direct:
  assumes "wait_sem fuel acc sz get put env p d = Some (Inr (p', d', env'))" and "direct_ok p d"
    and "\<And>h p. tx_buf_size (put h p) = tx_buf_size p"
  shows "direct_ok p' d' \<and> wire d' = wire d"
proof -
  have "wait_timed fuel acc sz get put env p d = Some (Inr (True, p', d', env'))"
    using assms(1) unfolding wait_sem_def by (auto split: option.splits sum.splits if_splits)
  then show ?thesis using wait_timed_direct assms(2,3) by blast
qed

lemma fill_fifo:
  assumes "length (tx_fifo d) \<le> UART_FIFO_LEN"
  shows "uart_fill_fifo bs d =
    (min (length bs) (128 - length (tx_fifo d)), fifo_write (take (128 - length (tx_fifo d)) bs) d)"
proof -
  have u: "unat (128 - of_nat (length (tx_fifo d)) :: u8) = 128 - length (tx_fifo d)"
    using assms by (simp add: unat_sub word_le_nat_alt unat_of_nat)
  show ?thesis
  proof (cases "128 - length (tx_fifo d) \<le> length bs")
    case True
    then show ?thesis by (simp add: uart_fill_fifo_def Let_def u)
  next
    case False
    then have "unat (of_nat (length bs) :: u8) = length bs" by (simp add: unat_of_nat)
    then show ?thesis using False by (simp add: uart_fill_fifo_def Let_def u)
  qed
qed

lemma fill_fifo_direct:
  assumes "direct_ok p d" and "uart_fill_fifo bs d = (cnt, d')"
  shows "direct_ok p d' \<and> wire d' @ drop cnt bs = wire d @ bs \<and> cnt \<le> length bs \<and>
    (cnt < length bs \<longrightarrow> length (tx_fifo d) + cnt = UART_FIFO_LEN)"
proof -
  define k where "k = 128 - length (tx_fifo d)"
  have l: "length (tx_fifo d) \<le> 128" using assms(1) by (simp add: direct_ok_def)
  then have d': "cnt = min (length bs) k" "d' = fifo_write (take k bs) d"
    using assms(2) fill_fifo [of d bs] by (simp_all add: k_def)
  have "take k bs @ drop cnt bs = bs" using d'(1) by (cases "length bs \<le> k") simp_all
  then show ?thesis using assms(1) d' l by (auto simp: direct_ok_def k_def min_def)
qed

text \<open>Whatever the hardware does meanwhile, a write that returns has appended the caller's bytes.\<close>

lemma tx_direct_wire:
  assumes "tx_direct fuel acc sz env src p d = Some (Inr (p', d', env'))" and "direct_ok p d"
  shows "direct_ok p' d' \<and> wire d' = wire d @ src"
  using assms
proof (induction fuel arbitrary: env src p d)
  case 0
  then show ?case by (simp split: if_splits)
next
  case (Suc fuel)
  show ?case
  proof (cases "src = []")
    case True
    then show ?thesis using Suc.prems by simp
  next
    case False
    then obtain p1 d1 env1 where w: "wait_sem fuel acc sz tx_fifo_sem (\<lambda>h p. p\<lparr>tx_fifo_sem := h\<rparr>) env p d = Some (Inr (p1, d1, env1))"
      using Suc.prems(1) by (auto split: option.splits sum.splits)
    have k1: "direct_ok p1 d1" "wire d1 = wire d" using wait_sem_direct [OF w Suc.prems(2)] by simp_all
    obtain cnt d2 where f: "uart_fill_fifo src d1 = (cnt, d2)" by (cases "uart_fill_fifo src d1")
    note k2 = fill_fifo_direct [OF k1(1) f]
    define q where "q = (if cnt < length src then p1\<lparr>tx_waiting_fifo := True\<rparr> else p1)"
    define e where "e = (if cnt < length src then enable_tx_empty d2 else d2)"
    have "direct_ok q e" "wire e = wire d2" using k2 by (auto simp: q_def e_def direct_ok_def)
    moreover have "tx_direct fuel acc sz env1 (drop cnt src) q e = Some (Inr (p', d', env'))"
      using Suc.prems(1) False w f by (simp add: q_def e_def Let_def split: if_splits)
    ultimately show ?thesis using Suc.IH k1(2) k2 by (metis append.assoc)
  qed
qed

text \<open>A line that keeps working: the FIFO drains and its interrupt is raised.\<close>

definition drain :: hw_in where
  "drain = \<lparr>raised = int_mask TXFIFO_EMPTY, arrived = [], drained = UART_FIFO_LEN\<rparr>"

text \<open>A writer that has filled the FIFO and waits for its turn.\<close>

definition writer_waits :: "uart_obj \<Rightarrow> uart_dev \<Rightarrow> bool" where
  "writer_waits p d \<longleftrightarrow> direct_ok p d \<and> tx_waiting_brk p = 0 \<and> tx_waiting_fifo p \<and> tx_fifo_sem p = Some False \<and>
     int_raw d = 0 \<and> bit (int_ena d) TXFIFO_EMPTY"

lemma handler_wakes_writer:
  assumes "writer_waits p d"
  obtains d1 where "uart_rx_intr_handler_default (Suc (Suc f)) acc sz (drain # env) p (hw_step drain d) =
      Some (Inr (p\<lparr>tx_waiting_fifo := False, tx_fifo_sem := Some True\<rparr>, d1, env))"
    and "tx_fifo d1 = []" "int_raw d1 = int_mask TXFIFO_EMPTY" "dev_ok d1"
proof -
  define d0 where "d0 = hw_step drain d"
  have w: "tx_buf_size p = 0" "dev_ok d" "length (tx_fifo d) \<le> 128" "tx_waiting_brk p = 0" "tx_waiting_fifo p"
      "tx_fifo_sem p = Some False" "int_raw d = 0" "bit (int_ena d) TXFIFO_EMPTY"
    using assms by (simp_all add: writer_waits_def direct_ok_def)
  have st: "bit (int_st d0) TXFIFO_EMPTY"
    using w by (simp add: d0_def int_st_def hw_step_def drain_def bit_simps bit_int_mask)
  then have nz: "int_st d0 \<noteq> 0" by auto
  define q where "q = p\<lparr>tx_waiting_fifo := False, tx_fifo_sem := Some True\<rparr>"
  define e where "e = int_clr (int_mask TXFIFO_EMPTY) (int_disable TXFIFO_EMPTY d0)"
  have turn: "isr_turn acc (int_st d0) sz p d0 = Inr (turn_done UART_EVENT_MAX sz q e)"
    using st w by (simp add: isr_turn_def isr_tx_empty_def Let_def q_def e_def)
  define d1 where "d1 = hw_step drain e"
  have raw: "int_raw d1 = int_mask TXFIFO_EMPTY"
    using w(7) by (auto simp: d1_def e_def d0_def hw_step_def drain_def bit_simps intro!: bit_word_eqI)
  have "int_st d1 = 0"
    unfolding int_st_def raw
    by (auto simp: d1_def e_def hw_step_def bit_simps bit_int_mask intro!: bit_word_eqI)
  then have "isr_loop (Suc (Suc f)) acc (int_st d0) sz (drain # env) p d0 = Some (Inr (q, d1, env))"
    using nz turn by (simp add: Let_def d1_def send_event_def)
  then have "uart_rx_intr_handler_default (Suc (Suc f)) acc sz (drain # env) p (hw_step drain d) = Some (Inr (q, d1, env))"
    unfolding uart_rx_intr_handler_default_def d0_def .
  moreover have "tx_fifo d1 = []" using w(3) by (simp add: d1_def e_def d0_def hw_step_def drain_def)
  moreover have "dev_ok d1" using w(2) by (simp add: d1_def e_def d0_def)
  ultimately show thesis using that raw by (simp add: q_def)
qed

lemma drain_round:
  assumes "writer_waits p d"
  obtains d1 where "wait_sem (Suc (Suc (Suc f))) acc sz tx_fifo_sem (\<lambda>h p. p\<lparr>tx_fifo_sem := h\<rparr>) (drain # drain # env) p d =
      Some (Inr (p\<lparr>tx_waiting_fifo := False\<rparr>, d1, env))"
    and "tx_fifo d1 = []" "int_raw d1 = int_mask TXFIFO_EMPTY" "dev_ok d1"
proof -
  obtain d1 where run: "uart_rx_intr_handler_default (Suc (Suc f)) acc sz (drain # env) p (hw_step drain d) =
      Some (Inr (p\<lparr>tx_waiting_fifo := False, tx_fifo_sem := Some True\<rparr>, d1, env))"
      "tx_fifo d1 = []" "int_raw d1 = int_mask TXFIFO_EMPTY" "dev_ok d1"
    using handler_wakes_writer [OF assms] by metis
  have s: "tx_fifo_sem p = Some False" using assms by (simp add: writer_waits_def)
  then have "p\<lparr>tx_waiting_fifo := False, tx_fifo_sem := Some False\<rparr> = p\<lparr>tx_waiting_fifo := False\<rparr>" by simp
  then show thesis using that run s by (simp add: wait_sem_def)
qed

lemma drained_writer_finishes:
  assumes "writer_waits p d" and "length src \<le> m" and "length src + 3 \<le> fuel"
  shows "\<exists>p' d' env'. tx_direct fuel acc sz (replicate (2 * m) drain) src p d = Some (Inr (p', d', env')) \<and>
    (tx_fifo_sem p' = Some False) \<and> tx_mux p' = tx_mux p"
  using assms
proof (induction fuel arbitrary: m src p d)
  case 0
  then show ?case by simp
next
  case (Suc fuel)
  show ?case
  proof (cases "src = []")
    case True
    then show ?thesis using Suc.prems(1) by (auto simp: writer_waits_def)
  next
    case False
    then obtain m' where m: "m = Suc m'" using Suc.prems(2) by (cases m) auto
    then have env: "replicate (2 * m) drain = drain # drain # replicate (2 * m') drain" by simp
    have "3 \<le> fuel" using Suc.prems(3) False by (cases src) auto
    then have "fuel = Suc (Suc (Suc (fuel - 3)))" by simp
    then obtain f where fuel: "fuel = Suc (Suc (Suc f))" by blast
    obtain d1 where w: "wait_sem fuel acc sz tx_fifo_sem (\<lambda>h p. p\<lparr>tx_fifo_sem := h\<rparr>) (replicate (2 * m) drain) p d =
          Some (Inr (p\<lparr>tx_waiting_fifo := False\<rparr>, d1, replicate (2 * m') drain))"
        "tx_fifo d1 = []" "int_raw d1 = int_mask TXFIFO_EMPTY" "dev_ok d1"
      using drain_round [OF Suc.prems(1)] unfolding env fuel by metis
    define cnt where "cnt = min (length src) 128"
    have f: "uart_fill_fifo src d1 = (cnt, fifo_write (take 128 src) d1)"
      using fill_fifo [of d1 src] w(2) by (simp add: cnt_def)
    show ?thesis
    proof (cases "cnt < length src")
      case less: True
      define q where "q = p\<lparr>tx_waiting_fifo := True\<rparr>"
      define e where "e = enable_tx_empty (fifo_write (take 128 src) d1)"
      have raw: "int_raw e = 0" using w(3) by (simp add: e_def)
      have ww: "writer_waits q e"
        using Suc.prems(1) w(2,4) raw
        by (auto simp: writer_waits_def direct_ok_def q_def e_def bit_simps)
      have len: "length (drop cnt src) \<le> m'" "length (drop cnt src) + 3 \<le> fuel"
        using less Suc.prems(2,3) m by (auto simp: cnt_def)
      have "tx_direct (Suc fuel) acc sz (replicate (2 * m) drain) src p d =
          tx_direct fuel acc sz (replicate (2 * m') drain) (drop cnt src) q e"
        using False w(1) f less by (simp add: q_def e_def del: replicate.simps)
      then show ?thesis using Suc.IH [OF ww len] by (simp add: q_def)
    next
      case full: False
      then have "drop cnt src = []" by simp
      then have "tx_direct fuel acc sz (replicate (2 * m') drain) (drop cnt src) (p\<lparr>tx_waiting_fifo := False\<rparr>)
            (fifo_write (take 128 src) d1) =
          Some (Inr (p\<lparr>tx_waiting_fifo := False\<rparr>, fifo_write (take 128 src) d1, replicate (2 * m') drain))"
        by (simp add: fuel del: replicate.simps)
      then show ?thesis
        using False w(1) f full Suc.prems(1) by (simp add: writer_waits_def del: replicate.simps)
    qed
  qed
qed

lemma direct_write_starts:
  assumes "direct_ok p d" and "tx_fifo_sem p = Some True" and "tx_waiting_brk p = 0" and "int_raw d = 0"
    and "length src + 4 \<le> fuel"
  shows "\<exists>p' d' env'. tx_direct fuel acc sz (replicate (2 * length src) drain) src p d = Some (Inr (p', d', env')) \<and>
    tx_fifo_sem p' \<noteq> None \<and> tx_mux p' = tx_mux p"
proof -
  obtain g where g: "fuel = Suc (Suc g)" "length src + 2 \<le> g"
    using assms(5) by (intro that [of "fuel - 2"]) auto
  show ?thesis
  proof (cases "src = []")
    case True
    then show ?thesis using assms(2) g by auto
  next
    case False
    define p1 where "p1 = p\<lparr>tx_fifo_sem := Some False\<rparr>"
    have w: "wait_sem (Suc g) acc sz tx_fifo_sem (\<lambda>h p. p\<lparr>tx_fifo_sem := h\<rparr>) env p d = Some (Inr (p1, d, env))" for env
      using assms(2) by (simp add: wait_sem_def p1_def)
    obtain cnt d2 where f: "uart_fill_fifo src d = (cnt, d2)" by (cases "uart_fill_fifo src d")
    have raw: "int_raw d2 = 0" using f fill_fifo [of d src] assms(1,4) by (auto simp: direct_ok_def)
    note k = fill_fifo_direct [OF assms(1) f]
    show ?thesis
    proof (cases "cnt < length src")
      case True
      have ww: "writer_waits (p1\<lparr>tx_waiting_fifo := True\<rparr>) (enable_tx_empty d2)"
        using k assms(3) raw by (auto simp: writer_waits_def direct_ok_def p1_def bit_simps)
      have "tx_direct fuel acc sz (replicate (2 * length src) drain) src p d =
          tx_direct (Suc g) acc sz (replicate (2 * length src) drain) (drop cnt src)
            (p1\<lparr>tx_waiting_fifo := True\<rparr>) (enable_tx_empty d2)"
        unfolding g(1) by (subst tx_direct.simps(2)) (simp add: False w f True Let_def del: tx_direct.simps)
      moreover have "length (drop cnt src) \<le> length src" "length (drop cnt src) + 3 \<le> Suc g" using g(2) by auto
      note fin = drained_writer_finishes [OF ww this, of acc sz]
      ultimately show ?thesis using fin by (auto simp: p1_def simp del: tx_direct.simps)
    next
      case full: False
      then show ?thesis using False w f by (auto simp: g(1) Let_def p1_def)
    qed
  qed
qed

text \<open>
  C18: Writing without a transmit ring buffer puts the caller's bytes on the line, in order
  and once. Whatever the hardware does while the call waits, a call that returns has
  appended exactly these bytes to what is on its way out; and on a line that keeps
  draining it does return, with the number of bytes and with both semaphores given back,
  after at most two stretches of hardware activity per byte.
\<close>

theorem uart_write_bytes_direct:
  assumes "n < UART_NUM_MAX" and "p_uart_obj s n = Some p" and "tx_mux p = Some True" and "bs \<noteq> []"
    and "direct_ok p (uart_devs s n)" and "tx_fifo_sem p = Some True" and "tx_waiting_brk p = 0"
    and "int_raw (uart_devs s n) = 0"
  shows "(\<forall>fuel env r s'. uart_write_bytes fuel acc sz max_size env n (Some bs) s = Some (Inr (r, s')) \<longrightarrow>
      r = int (length bs) \<and> wire (uart_devs s' n) = wire (uart_devs s n) @ bs) \<and>
    (\<exists>s' q. uart_write_bytes (length bs + 4) acc sz max_size (replicate (2 * length bs) drain) n (Some bs) s =
        Some (Inr (int (length bs), s')) \<and>
      p_uart_obj s' n = Some q \<and> tx_mux q = Some True \<and> tx_fifo_sem q = Some True)"
proof -
  define p0 where "p0 = p\<lparr>tx_mux := Some False\<rparr>"
  define d where "d = uart_devs s n"
  have ok: "direct_ok p0 d" "tx_buf_size p0 = 0" "tx_fifo_sem p0 = Some True" "tx_waiting_brk p0 = 0" "int_raw d = 0"
    using assms(5-8) by (simp_all add: p0_def d_def direct_ok_def)
  have all: "uart_write_bytes fuel acc sz max_size env n (Some bs) s =
      (case tx_direct fuel acc sz env bs p0 d of None \<Rightarrow> None | Some (Inl e) \<Rightarrow> Some (Inl e)
       | Some (Inr (p1, d1, env1)) \<Rightarrow>
           Some (bind_result (sem_give (tx_fifo_sem p1)) (\<lambda>h. bind_result (sem_give (tx_mux p1)) (\<lambda>h'.
             Inr (int (length bs), put_obj n (Some (p1\<lparr>tx_fifo_sem := h, tx_mux := h'\<rparr>)) (on_dev n (\<lambda>_. d1) s))))))"
    (is "_ = ?rhs fuel env") for fuel env
  proof -
    have "uart_write_bytes fuel acc sz max_size env n (Some bs) s =
      (case map_option (\<lambda>r. bind_result r (\<lambda>(p, d, env'). Inr (p, d))) (tx_direct_write fuel acc sz env bs False 0 p0 d) of
         None \<Rightarrow> None
       | Some (Inl e) \<Rightarrow> Some (Inl e)
       | Some (Inr (p1, d1)) \<Rightarrow> Some (bind_result (sem_give (tx_mux p1)) (\<lambda>h'.
           Inr (int (length bs), put_obj n (Some (p1\<lparr>tx_mux := h'\<rparr>)) (on_dev n (\<lambda>_. d1) s)))))"
      using assms(1-4) ok(2) by (simp add: uart_write_bytes_def uart_tx_all_def p0_def d_def)
    also have "\<dots> = ?rhs fuel env"
    proof (cases "tx_direct fuel acc sz env bs p0 d")
      case None
      then show ?thesis by (simp add: tx_direct_write_def)
    next
      case (Some r)
      show ?thesis
      proof (cases r)
        case (Inl e)
        then show ?thesis using Some by (simp add: tx_direct_write_def)
      next
        case (Inr x)
        obtain p1 d1 env1 where x: "x = (p1, d1, env1)" by (cases x)
        show ?thesis using Some Inr x by (cases "tx_fifo_sem p1") (simp_all add: tx_direct_write_def)
      qed
    qed
    finally show ?thesis .
  qed
  have safe: "r = int (length bs) \<and> wire (uart_devs s' n) = wire (uart_devs s n) @ bs"
    if run: "uart_write_bytes fuel acc sz max_size env n (Some bs) s = Some (Inr (r, s'))" for fuel env r s'
  proof -
    obtain p1 d1 env1 where t: "tx_direct fuel acc sz env bs p0 d = Some (Inr (p1, d1, env1))"
      using run all by (auto split: option.splits sum.splits)
    have "r = int (length bs)" "uart_devs s' n = d1"
      using run t unfolding all by (auto simp: bind_result_eq_Inr)
    then show ?thesis using tx_direct_wire [OF t ok(1)] by (simp add: d_def)
  qed
  obtain p1 d1 env1 where t: "tx_direct (length bs + 4) acc sz (replicate (2 * length bs) drain) bs p0 d = Some (Inr (p1, d1, env1))"
      "tx_fifo_sem p1 \<noteq> None" "tx_mux p1 = Some False"
    using direct_write_starts [OF ok(1,3,4,5) order_refl, of bs acc sz] by (auto simp: p0_def)
  then have "\<exists>s' q. uart_write_bytes (length bs + 4) acc sz max_size (replicate (2 * length bs) drain) n (Some bs) s =
        Some (Inr (int (length bs), s')) \<and>
      p_uart_obj s' n = Some q \<and> tx_mux q = Some True \<and> tx_fifo_sem q = Some True"
    unfolding all by (auto simp: sem_give_def)
  with safe show ?thesis by blast
qed

theorem uart_write_bytes_direct_witness:
  "\<exists>s'. uart_write_bytes 7 (\<lambda>_ _. True) 0 0 (replicate 6 drain) 1 (Some [1, 2, 3]) (sys_of (obj0\<lparr>tx_buf_size := 0\<rparr>)) =
      Some (Inr (3, s')) \<and> wire (uart_devs s' 1) = [1, 2, 3]"
proof -
  define s where "s = sys_of (obj0\<lparr>tx_buf_size := 0\<rparr>)"
  have a: "(1 :: nat) < UART_NUM_MAX" "p_uart_obj s 1 = Some (obj0\<lparr>tx_buf_size := 0\<rparr>)"
      "tx_mux (obj0\<lparr>tx_buf_size := 0\<rparr>) = Some True" "[1, 2, 3 :: u8] \<noteq> []"
      "direct_ok (obj0\<lparr>tx_buf_size := 0\<rparr>) (uart_devs s 1)" "tx_fifo_sem (obj0\<lparr>tx_buf_size := 0\<rparr>) = Some True"
      "tx_waiting_brk (obj0\<lparr>tx_buf_size := 0\<rparr>) = 0" "int_raw (uart_devs s 1) = 0"
    using obj0_ok(2) by (simp_all add: s_def direct_ok_def sys_of_def sys0_def) (simp_all add: obj0_def dev0_def)
  have w0: "wire (uart_devs s 1) = []" by (simp add: s_def sys_of_def sys0_def dev0_def wire_def)
  note t = uart_write_bytes_direct [OF a, of "\<lambda>_ _. True" 0 0]
  have l: "length [1, 2, 3 :: u8] + 4 = 7" "2 * length [1, 2, 3 :: u8] = 6" "int (length [1, 2, 3 :: u8]) = 3" by simp_all
  obtain s' where "uart_write_bytes 7 (\<lambda>_ _. True) 0 0 (replicate 6 drain) 1 (Some [1, 2, 3]) s = Some (Inr (3, s'))"
    using t unfolding l by blast
  moreover from this have "wire (uart_devs s' 1) = [1, 2, 3]" using t w0 unfolding l by (metis append_Nil)
  ultimately show ?thesis by (auto simp: s_def)
qed

end
