(* ===== verification/Uart_Install.thy ===== *)
theory Uart_Install
  imports Uart_Transmit "HOL-Library.Multiset"
begin

text \<open>
  Installing and deleting the serial driver, from \<open>firmware/main/drivers/uart.c\<close>. What the
  calls into the vendor's library answer is an input. \<open>malloc\<close> answers memory with
  arbitrary content: the fields that the code does not set keep that content, which matters
  for the interrupt handle.
\<close>

subsection \<open>Interrupt registration\<close>

text \<open>The handle is only stored when the allocation succeeds.\<close>

definition uart_isr_register :: "esp_err_t \<Rightarrow> nat \<Rightarrow> nat \<Rightarrow> uart_sys \<Rightarrow> (esp_err_t \<times> nat option) \<times> uart_sys" where
  "uart_isr_register answer handle n s =
     (if \<not> n < UART_NUM_MAX then ((ESP_FAIL, None), s)
      else ((answer, if answer = ESP_OK then Some handle else None), emit [Esp_intr_alloc (sig_port n)] s))"

definition uart_isr_free :: "esp_err_t \<Rightarrow> nat \<Rightarrow> uart_sys \<Rightarrow> (esp_err_t \<times> uart_sys) result" where
  "uart_isr_free answer n s =
     (if \<not> n < UART_NUM_MAX then Inr (ESP_FAIL, s)
      else case p_uart_obj s n of None \<Rightarrow> Inl Null_dereference
      | Some p \<Rightarrow>
        if intr_handle p = None then Inr (ESP_ERR_INVALID_ARG, s)
        else Inr (answer, put_obj n (Some (p\<lparr>intr_handle := None\<rparr>)) (emit [Esp_intr_free (intr_handle p)] s)))"

subsection \<open>Deleting\<close>

definition delete_if :: "bool \<Rightarrow> uart_res \<Rightarrow> uart_call list" where
  "delete_if there r = (if there then [Delete r] else [])"

definition delete_calls :: "uart_obj \<Rightarrow> uart_call list" where
  "delete_calls p =
     delete_if (tx_fifo_sem p \<noteq> None) Tx_fifo_sem @ delete_if (tx_done_sem p \<noteq> None) Tx_done_sem @
     delete_if (tx_brk_sem p \<noteq> None) Tx_brk_sem @ delete_if (tx_mux p \<noteq> None) Tx_mux @
     delete_if (rx_mux p \<noteq> None) Rx_mux @ delete_if (xQueueUart p \<noteq> None) Event_queue @
     delete_if (rx_ring_buf p \<noteq> None) Rx_ring @ delete_if (tx_ring_buf p \<noteq> None) Tx_ring @ [Delete Object]"

definition uart_driver_delete :: "nat \<Rightarrow> uart_sys \<Rightarrow> esp_err_t \<times> uart_sys" where
  "uart_driver_delete n s =
     (if \<not> n < UART_NUM_MAX then (ESP_FAIL, s)
      else case p_uart_obj s n of None \<Rightarrow> (ESP_OK, s)
      | Some p \<Rightarrow>
        (let s1 = emit [Esp_intr_free (intr_handle p)] s;
             s2 = snd (uart_disable_tx_intr n (snd (uart_disable_rx_intr n s1)))
         in (ESP_OK, put_obj n None (emit (delete_calls p) s2))))"

subsection \<open>Installing\<close>

record install_answers =
  ans_malloc :: "uart_obj option"
  ans_tx_fifo_sem :: bool
  ans_tx_done_sem :: bool
  ans_tx_brk_sem :: bool
  ans_tx_mux :: bool
  ans_rx_mux :: bool
  ans_queue :: bool
  ans_rx_ring :: bool
  ans_tx_ring :: bool
  ans_intr :: esp_err_t
  ans_handle :: nat

abbreviation (input) ESP_INTR_FLAG_IRAM :: u32 where "ESP_INTR_FLAG_IRAM \<equiv> 0x400"

text \<open>
  Filling in the object. Giving the first semaphore and asking for the free spaces of the
  queue stop at an assertion when the object was not created.
\<close>

definition fill_obj :: "install_answers \<Rightarrow> nat \<Rightarrow> int \<Rightarrow> nat \<Rightarrow> bool \<Rightarrow> uart_obj \<Rightarrow> uart_obj" where
  "fill_obj a n tx_buffer_size qsize uart_queue g = g\<lparr>uart_num := n, tx_fifo_sem := Some True,
        tx_done_sem := (if ans_tx_done_sem a then Some False else None),
        tx_brk_sem := (if ans_tx_brk_sem a then Some False else None),
        tx_mux := (if ans_tx_mux a then Some True else None),
        rx_mux := (if ans_rx_mux a then Some True else None),
        queue_size := qsize, tx_ptr := None, tx_head := None, tx_len_tot := 0, tx_brk_flg := 0, tx_brk_len := 0,
        tx_waiting_brk := 0, rx_buffered_len := 0,
        xQueueUart := (if uart_queue then Some [] else None),
        rx_buffer_full_flg := False, tx_waiting_fifo := False, rx_ptr := None, rx_cur_remain := 0, rx_head_ptr := None,
        rx_ring_buf := (if ans_rx_ring a then Some [] else None),
        tx_ring_buf := (if tx_buffer_size > 0 \<and> ans_tx_ring a then Some [] else None),
        tx_buf_size := (if tx_buffer_size > 0 then tx_buffer_size else 0)\<rparr>"

definition init_obj :: "install_answers \<Rightarrow> nat \<Rightarrow> int \<Rightarrow> nat \<Rightarrow> bool \<Rightarrow> uart_obj \<Rightarrow> uart_obj result" where
  "init_obj a n tx_buffer_size qsize uart_queue g =
     (if \<not> ans_tx_fifo_sem a \<or> (uart_queue \<and> \<not> ans_queue a) then Inl Assert_failed
      else Inr (fill_obj a n tx_buffer_size qsize uart_queue g))"

definition create_calls :: "install_answers \<Rightarrow> int \<Rightarrow> int \<Rightarrow> nat \<Rightarrow> bool \<Rightarrow> uart_call list" where
  "create_calls a rx_buffer_size tx_buffer_size qsize uart_queue =
     [Create Object 1] @ (if ans_tx_fifo_sem a then [Create Tx_fifo_sem 1] else []) @
     (if ans_tx_done_sem a then [Create Tx_done_sem 1] else []) @ (if ans_tx_brk_sem a then [Create Tx_brk_sem 1] else []) @
     (if ans_tx_mux a then [Create Tx_mux 1] else []) @ (if ans_rx_mux a then [Create Rx_mux 1] else []) @
     (if uart_queue \<and> ans_queue a then [Create Event_queue (int qsize)] else []) @
     (if ans_rx_ring a then [Create Rx_ring rx_buffer_size] else []) @
     (if tx_buffer_size > 0 \<and> ans_tx_ring a then [Create Tx_ring tx_buffer_size] else [])"

definition uart_intr :: uart_intr_config_t where
  "uart_intr = \<lparr>intr_enable_mask = int_mask RXFIFO_FULL OR int_mask RXFIFO_TOUT OR int_mask FRM_ERR OR
       int_mask RXFIFO_OVF OR int_mask BRK_DET OR int_mask PARITY_ERR,
     rx_timeout_thresh = 10, txfifo_empty_intr_thresh = 10, rxfifo_full_thresh = 120\<rparr>"

definition uart_driver_install ::
  "install_answers \<Rightarrow> nat \<Rightarrow> int \<Rightarrow> int \<Rightarrow> nat \<Rightarrow> bool \<Rightarrow> u32 \<Rightarrow> uart_sys \<Rightarrow> (esp_err_t \<times> uart_sys) result" where
  "uart_driver_install a n rx_buffer_size tx_buffer_size qsize uart_queue intr_alloc_flags s =
     (if \<not> n < UART_NUM_MAX \<or> \<not> rx_buffer_size > int UART_FIFO_LEN \<or>
         \<not> (tx_buffer_size > int UART_FIFO_LEN \<or> tx_buffer_size = 0) \<or>
         intr_alloc_flags AND ESP_INTR_FLAG_IRAM \<noteq> 0
      then Inr (ESP_FAIL, s)
      else if p_uart_obj s n \<noteq> None then Inr (ESP_FAIL, s)
      else case ans_malloc a of None \<Rightarrow> Inr (ESP_FAIL, s)
      | Some g \<Rightarrow>
        bind_result (init_obj a n tx_buffer_size qsize uart_queue g) (\<lambda>p.
          let s1 = put_obj n (Some p) (emit (create_calls a rx_buffer_size tx_buffer_size qsize uart_queue) s);
              ((r, h), s2) = uart_isr_register (ans_intr a) (ans_handle a) n s1
          in if r \<noteq> ESP_OK then Inr (r, snd (uart_driver_delete n s2))
             else (let s3 = put_obj n (Some (p\<lparr>intr_handle := h\<rparr>)) s2;
                       (r, s4) = uart_intr_config n (Some uart_intr) s3
                   in if r \<noteq> ESP_OK then Inr (r, snd (uart_driver_delete n s4)) else Inr (r, s4))))"

subsection \<open>What is created and deleted\<close>

fun creation :: "uart_call \<Rightarrow> uart_res list" where
  "creation (Create r _) = [r]"
| "creation _ = []"

fun deletion :: "uart_call \<Rightarrow> uart_res list" where
  "deletion (Delete r) = [r]"
| "deletion _ = []"

definition created :: "uart_call list \<Rightarrow> uart_res multiset" where
  "created cs = mset (concat (map creation cs))"

definition deleted :: "uart_call list \<Rightarrow> uart_res multiset" where
  "deleted cs = mset (concat (map deletion cs))"

lemma created_append [simp]: "created (cs @ ds) = created cs + created ds" "created [] = {#}"
    "created (c # cs) = mset (creation c) + created cs"
  by (simp_all add: created_def)

lemma deleted_append [simp]: "deleted (cs @ ds) = deleted cs + deleted ds" "deleted [] = {#}"
    "deleted (c # cs) = mset (deletion c) + deleted cs"
  by (simp_all add: deleted_def)

definition install_args_ok :: "nat \<Rightarrow> int \<Rightarrow> int \<Rightarrow> u32 \<Rightarrow> bool" where
  "install_args_ok n rx tx flags \<longleftrightarrow> n < UART_NUM_MAX \<and> rx > int UART_FIFO_LEN \<and>
     (tx > int UART_FIFO_LEN \<or> tx = 0) \<and> flags AND ESP_INTR_FLAG_IRAM = 0"

lemma install_run:
  assumes "install_args_ok n rx tx flags" and "p_uart_obj s n = None" and "ans_malloc a = Some g"
    and "init_obj a n tx qsize queue g = Inr p"
  shows "uart_driver_install a n rx tx qsize queue flags s =
    (let s1 = put_obj n (Some p) (emit (create_calls a rx tx qsize queue @ [Esp_intr_alloc (sig_port n)]) s)
     in if ans_intr a \<noteq> ESP_OK then Inr (ans_intr a, snd (uart_driver_delete n s1))
        else Inr (ESP_OK, snd (uart_intr_config n (Some uart_intr) (put_obj n (Some (p\<lparr>intr_handle := Some (ans_handle a)\<rparr>)) s1))))"
proof -
  have e: "emit [c] (put_obj n q (emit cs s)) = put_obj n q (emit (cs @ [c]) s)" for c q cs
    by (simp add: emit_def put_obj_def)
  have i: "fst (uart_intr_config n (Some uart_intr) t) = ESP_OK" for t
    using assms(1) by (simp add: uart_intr_config_def install_args_ok_def)
  show ?thesis
    using assms i unfolding uart_driver_install_def install_args_ok_def
    by (simp add: uart_isr_register_def Let_def e case_prod_unfold)
qed

lemma intr_config_keeps [simp]:
  "p_uart_obj (snd (uart_intr_config n c s)) = p_uart_obj s" "uart_calls (snd (uart_intr_config n c s)) = uart_calls s"
  by (auto simp: uart_intr_config_def uart_check_def split: option.splits)

lemma disable_keeps_calls [simp]:
  "uart_calls (snd (uart_disable_rx_intr n s)) = uart_calls s" "uart_calls (snd (uart_disable_tx_intr n s)) = uart_calls s"
  by (auto simp: uart_disable_rx_intr_def uart_disable_tx_intr_def uart_disable_intr_mask_def uart_check_def)

lemma deleted_delete_if: "deleted (delete_if b r) = (if b then {#r#} else {#})"
  by (simp add: delete_if_def)

lemma created_delete_calls: "created (delete_calls p) = {#}"
  by (simp add: delete_calls_def delete_if_def)

text \<open>Deleting gives back what the object holds.\<close>

lemma delete_run:
  assumes "n < UART_NUM_MAX" and "p_uart_obj s n = Some p"
  shows "uart_calls (snd (uart_driver_delete n s)) = uart_calls s @ Esp_intr_free (intr_handle p) # delete_calls p"
    and "p_uart_obj (snd (uart_driver_delete n s)) n = None"
    and "fst (uart_driver_delete n s) = ESP_OK"
  using assms by (simp_all add: uart_driver_delete_def Let_def)

lemma init_obj_held:
  assumes "init_obj a n tx qsize queue g = Inr p"
  shows "deleted (delete_calls p) = created (create_calls a rx tx qsize queue)"
proof -
  have f: "ans_tx_fifo_sem a" "queue \<longrightarrow> ans_queue a" and eq: "p = fill_obj a n tx qsize queue g"
    using assms by (auto simp: init_obj_def split: if_splits)
  have p: "tx_fifo_sem p \<noteq> None" "(tx_done_sem p \<noteq> None) = ans_tx_done_sem a" "(tx_brk_sem p \<noteq> None) = ans_tx_brk_sem a"
      "(tx_mux p \<noteq> None) = ans_tx_mux a" "(rx_mux p \<noteq> None) = ans_rx_mux a" "(xQueueUart p \<noteq> None) = queue"
      "(rx_ring_buf p \<noteq> None) = ans_rx_ring a" "(tx_ring_buf p \<noteq> None) = (tx > 0 \<and> ans_tx_ring a)"
    by (simp_all add: eq fill_obj_def del: not_None_eq)
  have k: "created (if b then [Create r i] else []) = (if b then {#r#} else {#})" for b r i by simp
  show ?thesis
    unfolding delete_calls_def create_calls_def deleted_append(1) created_append(1) deleted_delete_if k p
    using f p(1) by simp
qed

text \<open>The object \<open>malloc\<close> answers has the array of the structure.\<close>

definition malloc_ok :: "uart_obj \<Rightarrow> bool" where
  "malloc_ok g \<longleftrightarrow> length (rx_data_buf g) = UART_FIFO_LEN"

definition all_granted :: "install_answers \<Rightarrow> bool" where
  "all_granted a \<longleftrightarrow> ans_tx_fifo_sem a \<and> ans_tx_done_sem a \<and> ans_tx_brk_sem a \<and> ans_tx_mux a \<and> ans_rx_mux a \<and>
     ans_queue a \<and> ans_rx_ring a \<and> ans_tx_ring a"

lemma init_obj_granted:
  "all_granted a \<Longrightarrow> init_obj a n tx qsize queue g = Inr (fill_obj a n tx qsize queue g)"
  by (simp add: init_obj_def all_granted_def)

lemma fill_obj_ready:
  assumes "all_granted a" and "malloc_ok g" and "p = (fill_obj a n tx qsize queue g)\<lparr>intr_handle := h\<rparr>"
  shows "rx_ok p" "received p = []" "rx_mux p = Some True" "tx_mux p = Some True" "tx_fifo_sem p = Some True"
    "tx_waiting_brk p = 0" "uart_num p = n" "0 < tx \<Longrightarrow> tx_ok p \<and> complete p \<and> pending p = [] \<and> tx_buf_size p = tx"
    "tx = 0 \<Longrightarrow> tx_buf_size p = 0"
  using assms(1,2)
  by (simp_all add: assms(3) fill_obj_def all_granted_def malloc_ok_def rx_ok_def rx_shape_def rx_defs
      tx_ok_def complete_def pending_def current_def ring_of_def)

text \<open>
  A successful installation establishes everything the other functions rely on: the
  receiver's invariant with nothing received, free locks, and either a transmit ring
  buffer that holds complete transmissions and owes nothing, or none at all. It does so
  whatever the allocated memory contained.
\<close>

theorem uart_driver_install_ready:
  assumes "install_args_ok n rx tx flags" and "p_uart_obj s n = None" and "ans_malloc a = Some g" and "malloc_ok g"
    and "all_granted a" and "ans_intr a = ESP_OK"
  shows "\<exists>s' p. uart_driver_install a n rx tx qsize queue flags s = Inr (ESP_OK, s') \<and> p_uart_obj s' n = Some p \<and>
    rx_ok p \<and> received p = [] \<and> rx_mux p = Some True \<and> tx_mux p = Some True \<and> tx_fifo_sem p = Some True \<and>
    tx_waiting_brk p = 0 \<and> uart_num p = n \<and> intr_handle p = Some (ans_handle a) \<and>
    (0 < tx \<longrightarrow> tx_ok p \<and> complete p \<and> pending p = []) \<and> (tx = 0 \<longrightarrow> tx_buf_size p = 0) \<and>
    int_ena (uart_devs s' n) = intr_enable_mask uart_intr"
proof -
  define p where "p = (fill_obj a n tx qsize queue g)\<lparr>intr_handle := Some (ans_handle a)\<rparr>"
  note ready = fill_obj_ready [OF assms(5,4) p_def]
  note run = install_run [OF assms(1-3) init_obj_granted [OF assms(5)], of qsize queue]
  define s' where "s' = snd (uart_intr_config n (Some uart_intr) (put_obj n (Some p) (put_obj n
      (Some (fill_obj a n tx qsize queue g)) (emit (create_calls a rx tx qsize queue @ [Esp_intr_alloc (sig_port n)]) s))))"
  have "uart_driver_install a n rx tx qsize queue flags s = Inr (ESP_OK, s')"
    using run assms(6) by (simp add: s'_def p_def Let_def)
  moreover have "p_uart_obj s' n = Some p" by (simp add: s'_def)
  moreover have "int_ena (uart_devs s' n) = intr_enable_mask uart_intr"
    using assms(1) by (simp add: s'_def uart_intr_config_def install_args_ok_def)
  moreover have "intr_handle p = Some (ans_handle a)" by (simp add: p_def)
  ultimately show ?thesis
    using ready by (intro exI [of _ s'] exI [of _ p]) simp
qed

text \<open>
  Installing and deleting are balanced. Whatever of the semaphores and buffers could be
  created, deleting an installed driver deletes exactly what was created, frees the
  interrupt that was allocated, and a new installation is possible.
\<close>

theorem uart_install_delete_balanced:
  assumes "install_args_ok n rx tx flags" and "p_uart_obj s n = None" and "ans_malloc a = Some g"
    and "init_obj a n tx qsize queue g = Inr p" and "ans_intr a = ESP_OK" and "uart_calls s = []"
  shows "\<exists>s1 s2. uart_driver_install a n rx tx qsize queue flags s = Inr (ESP_OK, s1) \<and>
    uart_driver_delete n s1 = (ESP_OK, s2) \<and> created (uart_calls s2) = deleted (uart_calls s2) \<and>
    Esp_intr_free (Some (ans_handle a)) \<in> set (uart_calls s2) \<and> p_uart_obj s2 n = None"
proof -
  define q where "q = p\<lparr>intr_handle := Some (ans_handle a)\<rparr>"
  define s1 where "s1 = snd (uart_intr_config n (Some uart_intr) (put_obj n (Some q) (put_obj n (Some p)
      (emit (create_calls a rx tx qsize queue @ [Esp_intr_alloc (sig_port n)]) s))))"
  have run: "uart_driver_install a n rx tx qsize queue flags s = Inr (ESP_OK, s1)"
    using install_run [OF assms(1-4)] assms(5) by (simp add: s1_def q_def Let_def)
  have n: "n < UART_NUM_MAX" using assms(1) by (simp add: install_args_ok_def)
  have s1: "p_uart_obj s1 n = Some q" "uart_calls s1 = create_calls a rx tx qsize queue @ [Esp_intr_alloc (sig_port n)]"
    using assms(6) by (simp_all add: s1_def)
  note del = delete_run [OF n s1(1)]
  have dq: "delete_calls q = delete_calls p" by (simp add: q_def delete_calls_def)
  have none: "deleted (create_calls a rx tx qsize queue) = {#}" by (simp add: create_calls_def)
  have "created (uart_calls (snd (uart_driver_delete n s1))) = deleted (uart_calls (snd (uart_driver_delete n s1)))"
    using del(1) s1(2) init_obj_held [OF assms(4), of rx] dq none by (simp add: created_delete_calls)
  moreover have "Esp_intr_free (Some (ans_handle a)) \<in> set (uart_calls (snd (uart_driver_delete n s1)))"
    using del(1) by (simp add: q_def)
  ultimately show ?thesis using run del(2,3) by (metis prod.collapse)
qed

text \<open>
  An installation whose interrupt cannot be allocated frees an interrupt handle that was
  never set. The error is passed on and everything created is deleted again, but the
  handle handed to \<open>esp_intr_free\<close> is whatever the allocated memory happened to contain.
\<close>

theorem failed_install_frees_garbage:
  assumes "install_args_ok n rx tx flags" and "p_uart_obj s n = None" and "ans_malloc a = Some g"
    and "init_obj a n tx qsize queue g = Inr p" and "ans_intr a \<noteq> ESP_OK" and "uart_calls s = []"
  shows "\<exists>s'. uart_driver_install a n rx tx qsize queue flags s = Inr (ans_intr a, s') \<and> p_uart_obj s' n = None \<and>
    created (uart_calls s') = deleted (uart_calls s') \<and> Esp_intr_free (intr_handle g) \<in> set (uart_calls s')"
proof -
  define s1 where "s1 = put_obj n (Some p) (emit (create_calls a rx tx qsize queue @ [Esp_intr_alloc (sig_port n)]) s)"
  have run: "uart_driver_install a n rx tx qsize queue flags s = Inr (ans_intr a, snd (uart_driver_delete n s1))"
    using install_run [OF assms(1-4)] assms(5) by (simp add: s1_def Let_def)
  have n: "n < UART_NUM_MAX" using assms(1) by (simp add: install_args_ok_def)
  have s1: "p_uart_obj s1 n = Some p" "uart_calls s1 = create_calls a rx tx qsize queue @ [Esp_intr_alloc (sig_port n)]"
    using assms(6) by (simp_all add: s1_def)
  note del = delete_run [OF n s1(1)]
  have none: "deleted (create_calls a rx tx qsize queue) = {#}" by (simp add: create_calls_def)
  have "intr_handle p = intr_handle g"
    using assms(4) by (auto simp: init_obj_def fill_obj_def split: if_splits)
  then have "Esp_intr_free (intr_handle g) \<in> set (uart_calls (snd (uart_driver_delete n s1)))"
    using del(1) by simp
  moreover have "created (uart_calls (snd (uart_driver_delete n s1))) = deleted (uart_calls (snd (uart_driver_delete n s1)))"
    using del(1) s1(2) init_obj_held [OF assms(4), of rx] none by (simp add: created_delete_calls)
  ultimately show ?thesis using run del(2) by blast
qed

subsection \<open>Concrete installations\<close>

definition grant :: "uart_obj \<Rightarrow> esp_err_t \<Rightarrow> install_answers" where
  "grant g r = \<lparr>ans_malloc = Some g, ans_tx_fifo_sem = True, ans_tx_done_sem = True, ans_tx_brk_sem = True,
     ans_tx_mux = True, ans_rx_mux = True, ans_queue = True, ans_rx_ring = True, ans_tx_ring = True,
     ans_intr = r, ans_handle = 7\<rparr>"

lemma grant_facts:
  "install_args_ok 1 256 256 0" "p_uart_obj sys0 1 = None" "ans_malloc (grant g r) = Some g" "all_granted (grant g r)"
  "ans_intr (grant g r) = r" "ans_handle (grant g r) = 7" "uart_calls sys0 = []" "malloc_ok obj0"
  by (simp_all add: install_args_ok_def sys0_def grant_def all_granted_def malloc_ok_def obj0_def)

theorem uart_driver_install_ready_witness:
  "\<exists>s' p. uart_driver_install (grant obj0 ESP_OK) 1 256 256 4 True 0 sys0 = Inr (ESP_OK, s') \<and>
     p_uart_obj s' 1 = Some p \<and> rx_ok p \<and> tx_ok p \<and> complete p"
  using uart_driver_install_ready [OF grant_facts(1,2) grant_facts(3) [of obj0 ESP_OK] grant_facts(8) grant_facts(4)
      grant_facts(5), of 4 True] by auto

theorem uart_install_delete_balanced_witness:
  "\<exists>s1 s2. uart_driver_install (grant obj0 ESP_OK) 1 256 256 4 True 0 sys0 = Inr (ESP_OK, s1) \<and>
     uart_driver_delete 1 s1 = (ESP_OK, s2) \<and> created (uart_calls s2) = deleted (uart_calls s2)"
  using uart_install_delete_balanced [OF grant_facts(1,2) grant_facts(3) [of obj0 ESP_OK]
      init_obj_granted [OF grant_facts(4)] grant_facts(5,7), of 4 True] by blast

theorem failed_install_frees_garbage_witness:
  "\<exists>s'. uart_driver_install (grant (obj0\<lparr>intr_handle := Some 666\<rparr>) ESP_FAIL) 1 256 256 4 True 0 sys0 = Inr (ESP_FAIL, s') \<and>
     Esp_intr_free (Some 666) \<in> set (uart_calls s')"
proof -
  have f: "ans_intr (grant (obj0\<lparr>intr_handle := Some 666\<rparr>) ESP_FAIL) \<noteq> ESP_OK" by (simp add: grant_facts(5))
  show ?thesis
    using failed_install_frees_garbage [OF grant_facts(1,2) grant_facts(3) [of "obj0\<lparr>intr_handle := Some 666\<rparr>" ESP_FAIL]
        init_obj_granted [OF grant_facts(4)] f grant_facts(7), of 4 True]
    by (auto simp: grant_facts(5))
qed

end
