(* ===== verification/Java_Prelude.thy ===== *)
theory Java_Prelude
  imports Chuck_Prelude
begin

text \<open>
  Vocabulary for the base station's server, \<open>chuck_server/src/chuck\<close>, which is written in
  Java. A method is a function from the state of the objects it works on to a result and the
  state afterwards. An exception is a result; the changes made before it was thrown stay, as
  they do in Java. \<open>System.exit\<close>, and a call that never returns, are treated as two more
  exceptions, which nothing catches.

  \<open>keeps\<close> is an invariant of a method on every path, exceptions included; \<open>succeeds\<close> says that
  a method returns normally. Both have one rule for each construct, so the proofs about
  the server follow the text of its methods.
\<close>

datatype java_exception = Illegal_argument | Index_out_of_bounds | Unsupported_operation | Null_pointer | IO_exception | System_exit | Blocked

type_synonym ('s, 'a) java = "'s \<Rightarrow> (java_exception + 'a) \<times> 's"

definition jret :: "'a \<Rightarrow> ('s, 'a) java" where
  "jret x s = (Inr x, s)"

definition jthrow :: "java_exception \<Rightarrow> ('s, 'a) java" where
  "jthrow e s = (Inl e, s)"

definition jbind :: "('s, 'a) java \<Rightarrow> ('a \<Rightarrow> ('s, 'b) java) \<Rightarrow> ('s, 'b) java" where
  "jbind m f s = (case m s of (Inl e, t) \<Rightarrow> (Inl e, t) | (Inr x, t) \<Rightarrow> f x t)"

definition jseq :: "('s, unit) java \<Rightarrow> ('s, 'b) java \<Rightarrow> ('s, 'b) java" where
  "jseq m n = jbind m (\<lambda>_. n)"

definition jmodify :: "('s \<Rightarrow> 's) \<Rightarrow> ('s, unit) java" where
  "jmodify f s = (Inr (), f s)"

definition jread :: "('s \<Rightarrow> 'a) \<Rightarrow> ('s, 'a) java" where
  "jread f s = (Inr (f s), s)"

text \<open>\<open>if (!ok) throw new \<dots>\<close>\<close>

definition jcheck :: "bool \<Rightarrow> java_exception \<Rightarrow> ('s, unit) java" where
  "jcheck ok e s = (if ok then Inr () else Inl e, s)"

text \<open>\<open>try { \<dots> } catch (IOException e) { e.printStackTrace(); }\<close>\<close>

definition try_io :: "('s, unit) java \<Rightarrow> ('s, unit) java" where
  "try_io m s = (case m s of (Inl e, t) \<Rightarrow> (if e = IO_exception then Inr () else Inl e, t) | (Inr x, t) \<Rightarrow> (Inr x, t))"

text \<open>\<open>try { \<dots> } catch (IOException e) { System.exit(-1); }\<close>\<close>

definition exit_io :: "('s, unit) java \<Rightarrow> ('s, unit) java" where
  "exit_io m s = (case m s of (Inl e, t) \<Rightarrow> (Inl (if e = IO_exception then System_exit else e), t) | (Inr x, t) \<Rightarrow> (Inr x, t))"

text \<open>\<open>if (b) { \<dots> }\<close>\<close>

definition jwhen :: "bool \<Rightarrow> ('s, unit) java \<Rightarrow> ('s, unit) java" where
  "jwhen b m = (if b then m else jret ())"

text \<open>The \<open>for\<close> loop over a list.\<close>

primrec jfor :: "'x list \<Rightarrow> ('x \<Rightarrow> ('s, unit) java) \<Rightarrow> ('s, unit) java" where
  "jfor [] f = jret ()"
| "jfor (x # xs) f = jseq (f x) (jfor xs f)"

primrec jrepeat :: "nat \<Rightarrow> ('s, unit) java \<Rightarrow> ('s, unit) java" where
  "jrepeat 0 m = jret ()"
| "jrepeat (Suc n) m = jseq (jrepeat n m) m"

text \<open>A method of a part of the state.\<close>

definition jon :: "('s \<Rightarrow> 't) \<Rightarrow> ('t \<Rightarrow> 's \<Rightarrow> 's) \<Rightarrow> ('t, 'a) java \<Rightarrow> ('s, 'a) java" where
  "jon get put m s = (case m (get s) of (r, t) \<Rightarrow> (r, put t s))"

named_theorems java "the definitions of the constructs, to run a method on a given state"

lemmas java_defs [java] = jret_def jthrow_def jbind_def jseq_def jmodify_def jread_def jcheck_def jon_def

lemma jbind_simps:
  "m s = (Inr x, t) \<Longrightarrow> jbind m f s = f x t" "m s = (Inl e, t) \<Longrightarrow> jbind m f s = (Inl e, t)"
  "m s = (Inr (), t) \<Longrightarrow> jseq m n s = n t"
  by (simp_all add: jbind_def jseq_def)

lemma jfor_append: "jfor (xs @ ys) f = jseq (jfor xs f) (jfor ys f)"
proof
  fix s
  show "jfor (xs @ ys) f s = jseq (jfor xs f) (jfor ys f) s"
    by (induction xs arbitrary: s) (auto simp: java_defs split: prod.splits sum.splits)
qed

lemma jfor_cong: "(\<And>x. x \<in> set xs \<Longrightarrow> f x = g x) \<Longrightarrow> jfor xs f = jfor xs g"
  by (induction xs) simp_all

subsection \<open>Invariants\<close>

definition keeps :: "('s \<Rightarrow> bool) \<Rightarrow> ('s, 'a) java \<Rightarrow> bool" where
  "keeps P m \<longleftrightarrow> (\<forall>s. P s \<longrightarrow> P (snd (m s)))"

named_theorems keeping "rules and facts for \<open>keeps\<close>"

lemma keepsD: "keeps P m \<Longrightarrow> P s \<Longrightarrow> P (snd (m s))"
  by (simp add: keeps_def)

lemma keeps_simple [keeping]:
  "keeps P (jret x)" "keeps P (jthrow e)" "keeps P (jread f)" "keeps P (jcheck b e)"
  by (simp_all add: keeps_def java_defs)

lemma keeps_modify: "(\<And>s. P s \<Longrightarrow> P (f s)) \<Longrightarrow> keeps P (jmodify f)"
  by (simp add: keeps_def java_defs)

lemma keeps_bind [keeping]:
  assumes "keeps P m" "\<And>x. keeps P (f x)"
  shows "keeps P (jbind m f)"
  unfolding keeps_def
proof (intro allI impI)
  fix s assume s: "P s"
  obtain r t where m: "m s = (r, t)" by fastforce
  with keepsD [OF assms(1) s] have "P t" by simp
  with assms(2) show "P (snd (jbind m f s))" by (cases r) (simp_all add: jbind_def m keeps_def)
qed

lemma keeps_seq [keeping]: "keeps P m \<Longrightarrow> keeps P n \<Longrightarrow> keeps P (jseq m n)"
  by (simp add: jseq_def keeping)

lemma keeps_if [keeping]: "(b \<Longrightarrow> keeps P m) \<Longrightarrow> (\<not> b \<Longrightarrow> keeps P n) \<Longrightarrow> keeps P (if b then m else n)"
  by simp

lemma keeps_try [keeping]: "keeps P m \<Longrightarrow> keeps P (try_io m)"
  by (auto simp: keeps_def try_io_def split: prod.splits sum.splits)

lemma keeps_exit [keeping]: "keeps P m \<Longrightarrow> keeps P (exit_io m)"
  by (auto simp: keeps_def exit_io_def split: prod.splits sum.splits)

lemma keeps_for [keeping]: "(\<And>x. x \<in> set xs \<Longrightarrow> keeps P (f x)) \<Longrightarrow> keeps P (jfor xs f)"
  by (induction xs) (simp_all add: keeping)

subsection \<open>Normal return\<close>

definition succeeds :: "('s \<Rightarrow> bool) \<Rightarrow> ('s, 'a) java \<Rightarrow> ('a \<Rightarrow> 's \<Rightarrow> bool) \<Rightarrow> bool" where
  "succeeds P m Q \<longleftrightarrow> (\<forall>s. P s \<longrightarrow> (\<exists>x t. m s = (Inr x, t) \<and> Q x t))"

lemma succeedsD: "succeeds P m Q \<Longrightarrow> P s \<Longrightarrow> \<exists>x t. m s = (Inr x, t) \<and> Q x t"
  by (simp add: succeeds_def)

lemma succeeds_bind:
  assumes "succeeds P m Q" "\<And>x. succeeds (Q x) (f x) R"
  shows "succeeds P (jbind m f) R"
  unfolding succeeds_def
proof (intro allI impI)
  fix s assume "P s"
  then obtain x t where m: "m s = (Inr x, t)" and t: "Q x t" using succeedsD [OF assms(1)] by blast
  from succeedsD [OF assms(2) t] show "\<exists>y u. jbind m f s = (Inr y, u) \<and> R y u"
    by (simp add: jbind_def m)
qed

lemma succeeds_seq: "succeeds P m (\<lambda>_. Q) \<Longrightarrow> succeeds Q n R \<Longrightarrow> succeeds P (jseq m n) R"
  unfolding jseq_def by (rule succeeds_bind)

lemma succeeds_try: "succeeds P m Q \<Longrightarrow> succeeds P (try_io m) Q" "succeeds P m Q \<Longrightarrow> succeeds P (exit_io m) Q"
  unfolding succeeds_def try_io_def exit_io_def by fastforce+

lemma succeeds_conseq: "succeeds P m Q \<Longrightarrow> (\<And>s. P' s \<Longrightarrow> P s) \<Longrightarrow> (\<And>x s. Q x s \<Longrightarrow> Q' x s) \<Longrightarrow> succeeds P' m Q'"
  unfolding succeeds_def by blast

lemma succeeds_for:
  "(\<And>x. x \<in> set xs \<Longrightarrow> succeeds P (f x) (\<lambda>_. P)) \<Longrightarrow> succeeds P (jfor xs f) (\<lambda>_. P)"
proof (induction xs)
  case Nil
  then show ?case by (simp add: succeeds_def java_defs)
next
  case (Cons x xs)
  then show ?case by (auto intro: succeeds_seq)
qed

lemma succeeds_read: "(\<And>s. P s \<Longrightarrow> Q (f s) s) \<Longrightarrow> succeeds P (jread f) Q"
  by (simp add: succeeds_def java_defs)

lemma succeeds_ret: "(\<And>s. P s \<Longrightarrow> Q x s) \<Longrightarrow> succeeds P (jret x) Q"
  by (simp add: succeeds_def java_defs)

lemma succeeds_modify: "(\<And>s. P s \<Longrightarrow> Q () (f s)) \<Longrightarrow> succeeds P (jmodify f) Q"
  by (simp add: succeeds_def java_defs)

lemma succeeds_check: "(\<And>s. P s \<Longrightarrow> ok) \<Longrightarrow> succeeds P (jcheck ok e) (\<lambda>_. P)"
  by (auto simp: succeeds_def java_defs)

lemma succeeds_when: "(b \<Longrightarrow> succeeds P m (\<lambda>_. Q)) \<Longrightarrow> (\<And>s. \<not> b \<Longrightarrow> P s \<Longrightarrow> Q s) \<Longrightarrow> succeeds P (jwhen b m) (\<lambda>_. Q)"
  by (auto simp: jwhen_def intro: succeeds_ret)

lemma succeeds_on: "(\<And>s. P s \<Longrightarrow> \<exists>x t. m (get s) = (Inr x, t) \<and> Q x (put t s)) \<Longrightarrow> succeeds P (jon get put m) Q"
  unfolding succeeds_def jon_def by fastforce

lemma succeeds_fact: "(c \<Longrightarrow> succeeds P m Q) \<Longrightarrow> succeeds (\<lambda>s. c \<and> P s) m Q"
  by (simp add: succeeds_def)

lemma keeps_on:
  "(\<And>s. P s \<Longrightarrow> P (put (snd (m (get s))) s)) \<Longrightarrow> keeps P (jon get put m)"
  unfolding keeps_def jon_def by (auto simp: case_prod_unfold)

lemma keeps_when [keeping]: "(b \<Longrightarrow> keeps P m) \<Longrightarrow> keeps P (jwhen b m)"
  by (simp add: jwhen_def keeping)

lemma succeeds_repeat: "succeeds P m (\<lambda>_. P) \<Longrightarrow> succeeds P (jrepeat n m) (\<lambda>_. P)"
  by (induction n) (auto intro: succeeds_seq succeeds_ret)

lemma succeeds_snoc:
  assumes "succeeds P (jfor xs f) (\<lambda>_. R)" "succeeds R (f x) (\<lambda>_. Q)"
  shows "succeeds P (jfor (xs @ [x]) f) (\<lambda>_. Q)"
  unfolding jfor_append jfor.simps
  by (rule succeeds_seq [OF assms(1) succeeds_seq [OF assms(2)]]) (rule succeeds_ret)

lemma succeeds_ex: "(\<And>x. succeeds (P x) m Q) \<Longrightarrow> succeeds (\<lambda>s. \<exists>x. P x s) m Q"
  by (auto simp: succeeds_def)

lemma succeeds_bind_read:
  "(\<And>s. P s \<Longrightarrow> g s = a) \<Longrightarrow> succeeds P (k a) Q \<Longrightarrow> succeeds P (jbind (jread g) k) Q"
  by (auto simp: succeeds_def java_defs)

lemma succeeds_if:
  "(b \<Longrightarrow> succeeds P m Q) \<Longrightarrow> (\<not> b \<Longrightarrow> succeeds P n Q) \<Longrightarrow> succeeds P (if b then m else n) Q"
  by simp

lemma succeeds_then_ret: "succeeds P m (\<lambda>_. Q) \<Longrightarrow> succeeds P (jseq m (jret x)) (\<lambda>_. Q)"
  by (rule succeeds_seq, assumption, rule succeeds_ret)

lemma jseq_assoc: "jseq (jseq m n) k = jseq m (jseq n k)"
  by (rule ext) (simp add: jseq_def jbind_def split: prod.split sum.split)

end
