(* ===== verification/Dmx_Driver.thy ===== *)
theory Dmx_Driver
  imports Java_Prelude Ece453_Apps Dmx_Transmitter
begin

text \<open>
  The base station's DMX driver, \<open>dmx/DefaultDMX.java\<close>: up to four channel values are packed
  into one word and handed to the register block through four files under
  \<open>/sys/kernel/ece453\<close>, and a shadow array keeps what was written.

  \<open>dmx_channels\<close> is the interface the driver relies on: the files accept every write, and the
  four writes of a transfer change the channels as the driver expects. The kernel driver over
  the register block satisfies it, if at least two clock cycles pass after each write.
\<close>

type_synonym 'r file_write = "string \<Rightarrow> string \<Rightarrow> 'r \<Rightarrow> nat option \<times> 'r"

record 'r default_dmx =
  dmxShadow :: "int list"
  regs :: 'r

subsection \<open>Writing\<close>

definition reg_text :: "u32 \<Rightarrow> string" where
  "reg_text v = sprintf_08x v @ [CHR 0x00]"

definition write_reg :: "'r file_write \<Rightarrow> string \<Rightarrow> u32 \<Rightarrow> ('r default_dmx, unit) java" where
  "write_reg fw reg v d =
     (let buf = reg_text v in
      if length buf \<noteq> 9 then (Inl Illegal_argument, d)
      else case fw reg buf (regs d) of
        (None, r) \<Rightarrow> (Inl IO_exception, d\<lparr>regs := r\<rparr>)
      | (Some _, r) \<Rightarrow> (Inr (), d\<lparr>regs := r\<rparr>))"

definition set_shadow :: "int \<Rightarrow> int \<Rightarrow> ('r default_dmx, unit) java" where
  "set_shadow i v d =
     (if 0 \<le> i \<and> i < int (length (dmxShadow d)) then (Inr (), d\<lparr>dmxShadow := (dmxShadow d)[nat i := v]\<rparr>)
      else (Inl Index_out_of_bounds, d))"

fun pack_values :: "int \<Rightarrow> nat \<Rightarrow> int list \<Rightarrow> u32 \<Rightarrow> ('r default_dmx, u32) java" where
  "pack_values address i [] data_val = jret data_val"
| "pack_values address i (v # vs) data_val =
     (let curr_val = take_bit 8 v; data_val = data_val + push_bit (8 * i) (word_of_int curr_val) in
      jseq (set_shadow (address + int i) curr_val) (pack_values address (Suc i) vs data_val))"

definition setDMX :: "'r file_write \<Rightarrow> int \<Rightarrow> int list \<Rightarrow> ('r default_dmx, unit) java" where
  "setDMX fw address values =
     jseq (jcheck (\<not> (address \<le> 0 \<or> address > 512)) Illegal_argument)
     (jseq (jcheck (length values \<noteq> 0) Illegal_argument)
     (jseq (jcheck (\<not> length values > 4) Illegal_argument)
     (jseq (jcheck (\<not> (\<exists>v \<in> set values. v < 0 \<or> v > 255)) Illegal_argument)
     (jbind (pack_values address 0 values 0) (\<lambda>data_val.
      jseq (write_reg fw DMX_DATA data_val)
     (jseq (write_reg fw DMX_ADDR (word_of_int address))
     (jseq (write_reg fw DMX_SIZE (of_nat (length values)))
       (write_reg fw CONTROL_REG 1))))))))"

text \<open>The loop \<open>for (int i = 1; i < 512; i = i + 4)\<close>.\<close>

definition block_starts :: "nat list" where
  "block_starts = map (\<lambda>k. 1 + 4 * k) [0..<128]"

definition setDMX_all :: "'r file_write \<Rightarrow> int list \<Rightarrow> ('r default_dmx, unit) java" where
  "setDMX_all fw values =
     jseq (jcheck (length values = 513) Illegal_argument)
       (jfor block_starts (\<lambda>i. setDMX fw (int i) [values ! i, values ! (i + 1), values ! (i + 2), values ! (i + 3)]))"

definition clearDMX :: "'r file_write \<Rightarrow> ('r default_dmx, unit) java" where
  "clearDMX fw = jfor block_starts (\<lambda>i. setDMX fw (int i) [0, 0, 0, 0])"

subsection \<open>Reading and construction\<close>

definition getDMX :: "int \<Rightarrow> ('r default_dmx, int) java" where
  "getDMX address d =
     (if address \<le> 0 \<or> address > 512 then (Inl Illegal_argument, d) else (Inr (dmxShadow d ! nat address), d))"

definition getDmx :: "'r default_dmx \<Rightarrow> int list" where
  "getDmx d = dmxShadow d"

text \<open>The constructor, given which of the five files can be accessed.\<close>

definition DefaultDMX :: "'r file_write \<Rightarrow> bool list \<Rightarrow> 'r \<Rightarrow> (java_exception + unit) \<times> 'r default_dmx" where
  "DefaultDMX fw accessible r =
     (if \<not> list_all id accessible then (Inl IO_exception, \<lparr>dmxShadow = [], regs = r\<rparr>)
      else clearDMX fw \<lparr>dmxShadow = replicate 513 0, regs = r\<rparr>)"

subsection \<open>Blocks of an array\<close>

primrec put_block :: "nat \<Rightarrow> 'a list \<Rightarrow> 'a list \<Rightarrow> 'a list" where
  "put_block a [] xs = xs"
| "put_block a (v # vs) xs = put_block (Suc a) vs (xs[a := v])"

lemma length_put_block [simp]: "length (put_block a vs xs) = length xs"
  by (induction vs arbitrary: a xs) simp_all

lemma nth_put_block:
  "i < length xs \<Longrightarrow> put_block a vs xs ! i = (if a \<le> i \<and> i < a + length vs then vs ! (i - a) else xs ! i)"
  by (induction vs arbitrary: a xs) (auto simp: nth_Cons' nth_list_update)

lemma map_put_block: "map f (put_block a vs xs) = put_block a (map f vs) (map f xs)"
  by (induction vs arbitrary: a xs) (simp_all add: map_update)

lemma put_block_append: "put_block a (vs @ ws) xs = put_block (a + length vs) ws (put_block a vs xs)"
  by (induction vs arbitrary: a xs) simp_all

lemma tl_put_block: "0 < a \<Longrightarrow> tl (put_block a vs xs) = put_block (a - 1) vs (tl xs)"
proof (induction vs arbitrary: a xs)
  case (Cons v vs)
  then obtain b where "a = Suc b" by (cases a) auto
  moreover have "tl (xs[Suc b := v]) = (tl xs)[b := v]" by (cases xs) simp_all
  ultimately show ?case using Cons.IH [of "Suc (Suc b)" "xs[Suc b := v]"] Cons.IH [of "Suc a" "xs[a := v]"] by simp
qed simp

lemma put_block_twice [simp]: "put_block a vs (put_block a vs xs) = put_block a vs xs"
  by (rule nth_equalityI) (auto simp: nth_put_block)

lemma put_block_all_bytes:
  "\<lbrakk>\<forall>v \<in> set vs. P v; \<forall>x \<in> set xs. P x\<rbrakk> \<Longrightarrow> \<forall>x \<in> set (put_block a vs xs). P x"
proof (induction vs arbitrary: a xs)
  case (Cons v vs)
  then have "\<forall>x \<in> set (xs[a := v]). P x" using set_update_subset_insert [of xs a v] by auto
  with Cons show ?case by simp
qed simp

text \<open>Values as bytes and as the word that is written.\<close>

definition byte_ok :: "int \<Rightarrow> bool" where
  "byte_ok v \<longleftrightarrow> 0 \<le> v \<and> v \<le> 255"

definition word_of_values :: "int list \<Rightarrow> u32" where
  "word_of_values vs = foldr (\<lambda>v w. word_of_int v + push_bit 8 w) vs 0"

lemma byte_ok_take_bit: "byte_ok v \<Longrightarrow> take_bit 8 v = v"
  by (simp add: byte_ok_def take_bit_int_eq_self)

lemma pack_values_result:
  assumes "\<forall>v \<in> set vs. byte_ok v" "a + i + length vs \<le> length (dmxShadow d)"
  shows "pack_values (int a) i vs w d =
    (Inr (w + push_bit (8 * i) (word_of_values vs)), d\<lparr>dmxShadow := put_block (a + i) vs (dmxShadow d)\<rparr>)"
  using assms
proof (induction vs arbitrary: i w d)
  case Nil
  then show ?case by (simp add: jret_def word_of_values_def)
next
  case (Cons v vs)
  let ?d = "d\<lparr>dmxShadow := (dmxShadow d)[a + i := v]\<rparr>"
  have "set_shadow (int a + int i) v d = (Inr (), ?d)"
    using Cons.prems(2) by (simp add: set_shadow_def nat_add_distrib)
  moreover have "pack_values (int a) (Suc i) vs (w + push_bit (8 * i) (word_of_int v)) ?d =
      (Inr (w + push_bit (8 * i) (word_of_int v) + push_bit (8 * Suc i) (word_of_values vs)),
       ?d\<lparr>dmxShadow := put_block (a + Suc i) vs ((dmxShadow d)[a + i := v])\<rparr>)"
    using Cons by simp
  moreover have "push_bit (8 * i) (word_of_int v) + push_bit (8 * Suc i) (word_of_values vs) =
      push_bit (8 * i) (word_of_values (v # vs))"
    by (simp add: word_of_values_def push_bit_add add.commute)
  ultimately show ?case
    using Cons.prems(1) by (simp add: byte_ok_take_bit jseq_def jbind_def add.assoc)
qed

subsection \<open>What the driver relies on\<close>

definition transfer :: "'r file_write \<Rightarrow> u32 \<Rightarrow> nat \<Rightarrow> nat \<Rightarrow> 'r \<Rightarrow> 'r" where
  "transfer fw w a n r =
     snd (fw CONTROL_REG (reg_text 1) (snd (fw DMX_SIZE (reg_text (of_nat n))
       (snd (fw DMX_ADDR (reg_text (of_nat a)) (snd (fw DMX_DATA (reg_text w) r)))))))"

text \<open>A block of one to four bytes inside the channels.\<close>

definition block_ok :: "nat \<Rightarrow> int list \<Rightarrow> bool" where
  "block_ok a vs \<longleftrightarrow> 0 < a \<and> a + length vs \<le> 513 \<and> vs \<noteq> [] \<and> length vs \<le> 4 \<and> (\<forall>v \<in> set vs. byte_ok v)"

text \<open>The shadow mirrors the channels: every array index but the unused one at zero.\<close>

definition mirrored :: "('r \<Rightarrow> u8 list) \<Rightarrow> ('r \<Rightarrow> bool) \<Rightarrow> 'r default_dmx \<Rightarrow> bool" where
  "mirrored channels ready d \<longleftrightarrow> ready (regs d) \<and> length (dmxShadow d) = 513 \<and> (\<forall>v \<in> set (dmxShadow d). byte_ok v) \<and>
     tl (map word_of_int (dmxShadow d)) = tl (channels (regs d))"

locale dmx_channels =
  fixes fw :: "'r file_write" and channels :: "'r \<Rightarrow> u8 list" and ready :: "'r \<Rightarrow> bool"
  assumes accepted: "path \<in> {DMX_ADDR, DMX_DATA, DMX_SIZE, CONTROL_REG} \<Longrightarrow> fst (fw path (reg_text v) r) \<noteq> None"
    and transferred: "ready r \<Longrightarrow> block_ok a vs \<Longrightarrow>
      ready (transfer fw (word_of_values vs) a (length vs) r) \<and>
      channels (transfer fw (word_of_values vs) a (length vs) r) = put_block a (map word_of_int vs) (channels r)"
    and all_channels: "ready r \<Longrightarrow> length (channels r) = 513"
begin

lemma write_accepted:
  "path \<in> {DMX_ADDR, DMX_DATA, DMX_SIZE, CONTROL_REG} \<Longrightarrow>
     write_reg fw path v d = (Inr (), d\<lparr>regs := snd (fw path (reg_text v) (regs d))\<rparr>)"
  using accepted [of path v "regs d"] by (auto simp: write_reg_def reg_text_def split: prod.splits option.splits)

lemma setDMX_result:
  assumes "block_ok a vs" "length (dmxShadow d) = 513"
  shows "setDMX fw (int a) vs d =
    (Inr (), d\<lparr>dmxShadow := put_block a vs (dmxShadow d), regs := transfer fw (word_of_values vs) a (length vs) (regs d)\<rparr>)"
proof -
  have "\<not> (\<exists>v \<in> set vs. v < 0 \<or> v > 255)" "length vs \<noteq> 0" "length vs \<le> 4" "0 < a" "a \<le> 512"
    using assms(1) by (cases vs; auto simp: block_ok_def byte_ok_def)+
  moreover have "pack_values (int a) 0 vs 0 d = (Inr (word_of_values vs), d\<lparr>dmxShadow := put_block a vs (dmxShadow d)\<rparr>)"
    using pack_values_result [of vs a 0 d 0] assms by (simp add: block_ok_def)
  ultimately show ?thesis
    by (simp add: setDMX_def jseq_def jbind_def jcheck_def write_accepted transfer_def)
qed

lemma setDMX_mirrored:
  assumes "block_ok a vs" "mirrored channels ready d"
  shows "\<exists>r. setDMX fw (int a) vs d = (Inr (), \<lparr>dmxShadow = put_block a vs (dmxShadow d), regs = r\<rparr>) \<and>
    mirrored channels ready \<lparr>dmxShadow = put_block a vs (dmxShadow d), regs = r\<rparr>"
proof -
  let ?r = "transfer fw (word_of_values vs) a (length vs) (regs d)"
  have d: "ready (regs d)" "length (dmxShadow d) = 513" "\<forall>v \<in> set (dmxShadow d). byte_ok v"
      "tl (map word_of_int (dmxShadow d)) = tl (channels (regs d))"
    using assms(2) by (auto simp: mirrored_def)
  have "tl (map word_of_int (put_block a vs (dmxShadow d))) = tl (channels ?r)"
    using transferred [OF d(1) assms(1)] d(4) assms(1) by (simp add: map_put_block tl_put_block block_ok_def)
  moreover have "\<forall>v \<in> set (put_block a vs (dmxShadow d)). byte_ok v"
    using put_block_all_bytes [of vs byte_ok "dmxShadow d" a] d(3) assms(1) by (simp add: block_ok_def)
  ultimately have "mirrored channels ready \<lparr>dmxShadow = put_block a vs (dmxShadow d), regs = ?r\<rparr>"
    using transferred [OF d(1) assms(1)] d(2) by (simp add: mirrored_def)
  then show ?thesis using setDMX_result [OF assms(1) d(2)] by (cases d) simp
qed

text \<open>A run of transfers of four values each, from channel 1 on.\<close>

lemma transfers_result:
  assumes "mirrored channels ready d" "\<And>i. byte_ok (v i)" "n \<le> 128"
  shows "\<exists>r. jfor (map (\<lambda>k. 1 + 4 * k) [0..<n]) (\<lambda>i. setDMX fw (int i) [v i, v (i + 1), v (i + 2), v (i + 3)]) d =
      (Inr (), \<lparr>dmxShadow = put_block 1 (map v [1..<1 + 4 * n]) (dmxShadow d), regs = r\<rparr>) \<and>
    mirrored channels ready \<lparr>dmxShadow = put_block 1 (map v [1..<1 + 4 * n]) (dmxShadow d), regs = r\<rparr>"
  using assms(3)
proof (induction n)
  case 0
  show ?case using assms(1) by (cases d) (simp add: jret_def)
next
  case (Suc n)
  let ?i = "1 + 4 * n" and ?s = "put_block 1 (map v [1..<1 + 4 * n]) (dmxShadow d)"
  let ?vs = "[v ?i, v (?i + 1), v (?i + 2), v (?i + 3)]"
  from Suc obtain r where r: "jfor (map (\<lambda>k. 1 + 4 * k) [0..<n]) (\<lambda>i. setDMX fw (int i) [v i, v (i + 1), v (i + 2), v (i + 3)]) d =
      (Inr (), \<lparr>dmxShadow = ?s, regs = r\<rparr>)" "mirrored channels ready \<lparr>dmxShadow = ?s, regs = r\<rparr>" by auto
  have "block_ok ?i ?vs" using Suc.prems assms(2) by (simp add: block_ok_def)
  from setDMX_mirrored [OF this r(2)] obtain r' where
    r': "setDMX fw (int ?i) ?vs \<lparr>dmxShadow = ?s, regs = r\<rparr> = (Inr (), \<lparr>dmxShadow = put_block ?i ?vs ?s, regs = r'\<rparr>)"
      "mirrored channels ready \<lparr>dmxShadow = put_block ?i ?vs ?s, regs = r'\<rparr>" by auto
  have "[?i..<?i + 4] = [?i, ?i + 1, ?i + 2, ?i + 3]" by (simp add: upt_rec)
  moreover have "[1..<1 + 4 * Suc n] = [1..<?i] @ [?i..<?i + 4]"
    using upt_add_eq_append [of 1 ?i 4] by simp
  ultimately have "map v [1..<1 + 4 * Suc n] = map v [1..<1 + 4 * n] @ ?vs" by simp
  then have "put_block ?i ?vs ?s = put_block 1 (map v [1..<1 + 4 * Suc n]) (dmxShadow d)"
    by (simp only: put_block_append length_map length_upt diff_add_inverse)
  with r r' show ?case by (auto simp: jfor_append jbind_simps jseq_def jbind_def jret_def)
qed

text \<open>Writing everything leaves exactly the given values, and nothing is left of the old ones.\<close>

lemma setDMX_all_result:
  assumes "mirrored channels ready d" "length vs = 513" "\<forall>v \<in> set vs. byte_ok v"
  shows "\<exists>r. setDMX_all fw vs d = (Inr (), \<lparr>dmxShadow = hd (dmxShadow d) # tl vs, regs = r\<rparr>) \<and>
    mirrored channels ready \<lparr>dmxShadow = hd (dmxShadow d) # tl vs, regs = r\<rparr>"
proof -
  define v where "v i = (if i < 513 then vs ! i else 0)" for i
  have len: "length (dmxShadow d) = 513" using assms(1) by (simp add: mirrored_def)
  have ok: "byte_ok (v i)" for i using assms(2,3) by (simp add: v_def byte_ok_def)
  have "dmxShadow d \<noteq> []" using len by auto
  then have "put_block 1 (map v [1..<1 + 4 * 128]) (dmxShadow d) = hd (dmxShadow d) # tl vs"
    by (intro nth_equalityI) (auto simp: nth_put_block len assms(2) v_def nth_Cons' nth_tl hd_conv_nth)
  with transfers_result [where v = v and n = 128, OF assms(1) ok] obtain r where
    r: "jfor block_starts (\<lambda>i. setDMX fw (int i) [v i, v (i + 1), v (i + 2), v (i + 3)]) d =
        (Inr (), \<lparr>dmxShadow = hd (dmxShadow d) # tl vs, regs = r\<rparr>)"
      "mirrored channels ready \<lparr>dmxShadow = hd (dmxShadow d) # tl vs, regs = r\<rparr>" by (auto simp: block_starts_def)
  have "jfor block_starts (\<lambda>i. setDMX fw (int i) [vs ! i, vs ! (i + 1), vs ! (i + 2), vs ! (i + 3)]) =
      jfor block_starts (\<lambda>i. setDMX fw (int i) [v i, v (i + 1), v (i + 2), v (i + 3)])"
  proof (rule jfor_cong)
    fix i assume "i \<in> set block_starts"
    then have "i + 3 < 513" by (auto simp: block_starts_def)
    then show "setDMX fw (int i) [vs ! i, vs ! (i + 1), vs ! (i + 2), vs ! (i + 3)] =
        setDMX fw (int i) [v i, v (i + 1), v (i + 2), v (i + 3)]" by (simp add: v_def)
  qed
  with r assms(2) show ?thesis by (simp add: setDMX_all_def jseq_def jbind_def jcheck_def)
qed

lemma clearDMX_result:
  assumes "mirrored channels ready d"
  shows "\<exists>r. clearDMX fw d = (Inr (), \<lparr>dmxShadow = hd (dmxShadow d) # replicate 512 0, regs = r\<rparr>) \<and>
    mirrored channels ready \<lparr>dmxShadow = hd (dmxShadow d) # replicate 512 0, regs = r\<rparr>"
proof -
  have len: "length (dmxShadow d) = 513" using assms(1) by (simp add: mirrored_def)
  have "dmxShadow d \<noteq> []" using len by auto
  then have "put_block 1 (map (\<lambda>_. 0) [1..<1 + 4 * 128]) (dmxShadow d) = hd (dmxShadow d) # replicate 512 0"
    by (intro nth_equalityI) (auto simp: nth_put_block len nth_Cons' hd_conv_nth)
  with transfers_result [OF assms, of "\<lambda>_. 0" 128] show ?thesis
    by (auto simp: clearDMX_def block_starts_def byte_ok_def)
qed

end

subsection \<open>The kernel driver and the register block satisfy it\<close>

text \<open>Writing a file, and the cycles that pass until the next access.\<close>

definition sysfs_file :: "u32 \<Rightarrow> u32 list \<Rightarrow> ece453 driver file_write" where
  "sysfs_file garbage gap path buf s =
     (case sysfs_write ioread32 iowrite32 garbage path buf s of (n, t) \<Rightarrow> (n, t\<lparr>hw := fold idle gap (hw t)\<rparr>))"

lemma sysfs_file_register:
  assumes "register_file name off"
  shows "sysfs_file garbage gap (sysfs_dir @ name) (reg_text v) s =
    (Some 9, s\<lparr>hw := fold idle gap (iowrite32 off v (hw s))\<rparr>)"
  by (simp add: sysfs_file_def sysfs_write_def lookup_register_file [OF assms] store_reg_def reg_text_def
      kernel_text.scan_print_line Let_def)

lemma byte_high_bits:
  assumes "byte_ok v" "8 \<le> n"
  shows "\<not> bit (word_of_int v :: u32) n"
proof -
  have "\<not> bit v n" using assms byte_ok_take_bit [of v] by (metis bit_take_bit_iff linorder_not_less)
  then show ?thesis by (simp add: bit_simps)
qed

lemma word_of_values_byte:
  assumes "k < length vs" "length vs \<le> 4" "\<forall>v \<in> set vs. byte_ok v"
  shows "(ucast (drop_bit (8 * k) (word_of_values vs)) :: u8) = word_of_int (vs ! k)"
  using assms
proof (induction vs arbitrary: k)
  case (Cons v vs)
  have v: "(word_of_int v :: u32) + push_bit 8 w = word_of_int v OR push_bit 8 w" for w
  proof (rule disjunctive_add)
    fix n
    have "\<not> bit (word_of_int v :: u32) n" if "8 \<le> n" using byte_high_bits that Cons.prems(3) by simp
    then show "\<not> bit (word_of_int v :: u32) n \<or> \<not> bit (push_bit 8 w) n" by (auto simp: bit_simps)
  qed
  have w: "word_of_values (v # vs) = word_of_int v OR push_bit 8 (word_of_values vs)"
    by (simp add: word_of_values_def v)
  show ?case
  proof (cases k)
    case 0
    then show ?thesis by (simp add: w) (rule bit_word_eqI, auto simp: bit_simps)
  next
    case (Suc j)
    have "\<not> bit (word_of_int v :: u32) n" if "8 \<le> n" for n using byte_high_bits that Cons.prems(3) by simp
    moreover have "8 * j + 8 \<le> 24" using Cons.prems(1,2) Suc by simp
    ultimately have "(ucast (drop_bit (8 * Suc j) (word_of_values (v # vs))) :: u8) = ucast (drop_bit (8 * j) (word_of_values vs))"
      unfolding w by (intro bit_word_eqI) (auto simp: bit_simps)
    then show ?thesis using Cons Suc by simp
  qed
qed simp

text \<open>One cycle of a running transfer, and the two cycles it takes.\<close>

lemma write_block:
  assumes "block_ok a vs" "dmx_busy r" "dmx_addr_r r = of_nat a" "dmx_data_r r = word_of_values vs"
    "dmx_size_r r = of_nat (length vs)"
  shows "DMX_data_in r = put_block a (map word_of_int vs) (DMX_data r)"
proof -
  have l: "0 < a" "a + length vs \<le> 513" "length vs \<le> 4" "length vs \<noteq> 0"
    using assms(1) by (simp_all add: block_ok_def)
  then have b: "0 < a" "a + length vs \<le> 513" "a < 513" "length vs \<le> 4"
      "length vs = 1 \<or> length vs = 2 \<or> length vs = 3 \<or> length vs = 4"
    by arith+
  have a: "unat (of_nat a :: u32) = a" "unat (of_nat a :: 10 word) = a"
    using b by (simp_all add: unat_of_nat)
  have addr: "(ucast (of_nat a :: u32) :: 10 word) = of_nat a"
    using a b by (simp add: word_unat_eq_iff unsigned_ucast_eq take_bit_nat_eq_self)
  have en: "write_en r" using assms(2,3) b a by (simp add: write_en_def word_le_nat_alt word_less_nat_alt)
  have sz: "unat (write_size r) = length vs"
    using b(5) by (auto simp: write_size_def assms(5))
  have k: "channel_addr k (write_size r) (of_nat a) = (if k < length vs then of_nat (a + k) else 0)" if "k < 4" for k
  proof (cases "k < length vs")
    case True
    then have "(of_nat a :: 10 word) \<le> 0x200 - of_nat k"
      using b that a(2) by (auto simp: word_le_nat_alt unat_sub unat_of_nat)
    with True show ?thesis by (simp add: channel_addr_def sz)
  qed (simp add: channel_addr_def sz)
  have u: "unat (of_nat (a + k) :: 10 word) = a + k" "(of_nat (a + k) :: 10 word) \<noteq> 0" if "k < length vs" for k
  proof -
    have "a + k < 1024" using b that by simp
    then show *: "unat (of_nat (a + k) :: 10 word) = a + k" by (simp only: unat_of_nat) simp
    have "0 < a + k" using b by simp
    with * show "(of_nat (a + k) :: 10 word) \<noteq> 0" by (metis less_numeral_extra(3) unat_0)
  qed
  have v: "(ucast (drop_bit (8 * k) (dmx_data_r r)) :: u8) = word_of_int (vs ! k)" if "k < length vs" for k
    using word_of_values_byte [OF that b(4)] assms(1,4) by (simp add: block_ok_def)
  have c: "write_channel (channel_addr k (write_size r) (of_nat a)) (ucast (drop_bit (8 * k) (dmx_data_r r))) mem =
      (if k < length vs then mem[a + k := word_of_int (vs ! k)] else mem)" if "k < 4" for k mem
    by (simp only: k [OF that] write_channel_def) (simp add: u v del: of_nat_add)
  have "DMX_data_in r =
      (let put = \<lambda>k mem. if k < length vs then mem[a + k := word_of_int (vs ! k)] else mem
       in put 3 (put 2 (put 1 (put 0 (DMX_data r)))))"
    using c [of 0] c [of 1] c [of 2] c [of 3] by (simp only: DMX_data_in_def en assms(3) addr Let_def if_True) simp
  moreover obtain v0 v1 v2 v3 where "vs = [v0] \<or> vs = [v0, v1] \<or> vs = [v0, v1, v2] \<or> vs = [v0, v1, v2, v3]"
    using b(5) by (auto simp: length_Suc_conv numeral_eq_Suc)
  ultimately show ?thesis by (elim disjE) (simp_all add: Let_def eval_nat_numeral)
qed

lemma idle_keeps_settled: "settled r \<Longrightarrow> settled (fold idle ps r)"
proof (induction ps arbitrary: r)
  case (Cons p ps)
  have "settled (r\<lparr>gpio_inputs := p\<rparr>)" using Cons.prems by (simp add: settled_def)
  from clock_settled(1) [OF this, of No_access] Cons.IH show ?case by (simp add: idle_def)
qed simp

lemma idle_dmx_regs:
  "dmx_addr_r (fold idle ps r) = dmx_addr_r r" "dmx_data_r (fold idle ps r) = dmx_data_r r"
  "dmx_size_r (fold idle ps r) = dmx_size_r r"
  by (induction ps arbitrary: r) (simp_all add: idle_def reg_in_def)

lemma quiet_write:
  assumes "settled r" "off \<noteq> CONTROL_ADDR"
  shows "settled (fold idle gap (iowrite32 off v r))" "DMX_data (fold idle gap (iowrite32 off v r)) = DMX_data r"
  using clock_settled [OF assms(1), of "Bus_write off v"] assms(2)
  by (simp_all add: iowrite32_def idle_keeps_settled idle_settled)

lemma transfer_block:
  assumes "block_ok a vs" "curr_state r = X_IDLE" "control_r r = 1" "dmx_addr_r r = of_nat a"
    "dmx_data_r r = word_of_values vs" "dmx_size_r r = of_nat (length vs)"
  shows "settled (fold idle (p # q # ps) r)"
    "DMX_data (fold idle (p # q # ps) r) = put_block a (map word_of_int vs) (DMX_data r)"
proof -
  define r1 where "r1 = idle p r"
  have "dmx_busy r" using assms(2,3) by (simp add: dmx_busy_def)
  then have 1: "DMX_data r1 = put_block a (map word_of_int vs) (DMX_data r)" "curr_state r1 = X_TRANSMIT" "control_r r1 = 0"
      "dmx_addr_r r1 = of_nat a" "dmx_data_r r1 = word_of_values vs" "dmx_size_r r1 = of_nat (length vs)"
    using write_block [OF assms(1) _ assms(4-6)] assms(2-6) by (simp_all add: r1_def idle_def reg_in_def next_state_def)
  then have "dmx_busy r1" by (simp add: dmx_busy_def)
  then have 2: "DMX_data (idle q r1) = put_block a (map word_of_int vs) (DMX_data r)"
    using write_block [OF assms(1) _ 1(4-6)] by (simp add: idle_def 1(1))
  have 3: "settled (idle q r1)" using 1(2,3) by (simp add: settled_def idle_def next_state_def reg_in_def)
  from idle_keeps_settled [OF 3] show "settled (fold idle (p # q # ps) r)" by (simp add: r1_def)
  from idle_settled [OF 3] 2 show "DMX_data (fold idle (p # q # ps) r) = put_block a (map word_of_int vs) (DMX_data r)"
    by (simp add: r1_def)
qed

lemma four_files:
  "register_file ''dmx_addr'' DMX_ADDR_ADDR" "register_file ''dmx_data'' DMX_DATA_ADDR"
  "register_file ''dmx_size'' DMX_SIZE_ADDR" "register_file ''control'' CONTROL_ADDR"
  by (simp_all add: register_file_def)

lemma board_transfer:
  assumes "settled (hw s)" "block_ok a vs"
  shows "settled (hw (transfer (sysfs_file garbage (p # q # ps)) (word_of_values vs) a (length vs) s))"
    "DMX_data (hw (transfer (sysfs_file garbage (p # q # ps)) (word_of_values vs) a (length vs) s)) =
       put_block a (map word_of_int vs) (DMX_data (hw s))"
proof -
  define gap where "gap = p # q # ps"
  define r1 where "r1 = fold idle gap (iowrite32 9 (word_of_values vs) (hw s))"
  define r2 where "r2 = fold idle gap (iowrite32 8 (of_nat a) r1)"
  define r3 where "r3 = fold idle gap (iowrite32 10 (of_nat (length vs)) r2)"
  have eq: "hw (transfer (sysfs_file garbage gap) (word_of_values vs) a (length vs) s) = fold idle gap (iowrite32 1 1 r3)"
    by (simp add: transfer_def sysfs_file_register [OF four_files(1)] sysfs_file_register [OF four_files(2)]
        sysfs_file_register [OF four_files(3)] sysfs_file_register [OF four_files(4)] r1_def r2_def r3_def)
  have 3: "settled r3" "DMX_data r3 = DMX_data (hw s)"
    unfolding r3_def r2_def r1_def using assms(1) by (simp_all add: quiet_write)
  have "dmx_addr_r r3 = of_nat a" "dmx_data_r r3 = word_of_values vs" "dmx_size_r r3 = of_nat (length vs)"
    by (simp_all add: r3_def r2_def r1_def iowrite32_def idle_dmx_regs reg_in_def)
  with 3 have 4: "curr_state (iowrite32 1 1 r3) = X_IDLE" "control_r (iowrite32 1 1 r3) = 1"
      "dmx_addr_r (iowrite32 1 1 r3) = of_nat a" "dmx_data_r (iowrite32 1 1 r3) = word_of_values vs"
      "dmx_size_r (iowrite32 1 1 r3) = of_nat (length vs)" "DMX_data (iowrite32 1 1 r3) = DMX_data (hw s)"
    by (simp_all add: iowrite32_def reg_in_def settled_def next_state_def DMX_data_in_def write_en_def dmx_busy_def)
  show "settled (hw (transfer (sysfs_file garbage (p # q # ps)) (word_of_values vs) a (length vs) s))"
    "DMX_data (hw (transfer (sysfs_file garbage (p # q # ps)) (word_of_values vs) a (length vs) s)) =
       put_block a (map word_of_int vs) (DMX_data (hw s))"
    using transfer_block [OF assms(2) 4(1-5), of p q ps] 4(6) eq by (simp_all only: gap_def)
qed

definition board_ready :: "ece453 driver \<Rightarrow> bool" where
  "board_ready s \<longleftrightarrow> settled (hw s) \<and> length (DMX_data (hw s)) = 513"

definition board_mirrored :: "ece453 driver default_dmx \<Rightarrow> bool" where
  "board_mirrored = mirrored (\<lambda>s. DMX_data (hw s)) board_ready"

interpretation board_dmx: dmx_channels "sysfs_file garbage (p # q # ps)" "\<lambda>s. DMX_data (hw s)" board_ready
proof
  show "fst (sysfs_file garbage (p # q # ps) path (reg_text v) r) \<noteq> None"
    if "path \<in> {DMX_ADDR, DMX_DATA, DMX_SIZE, CONTROL_REG}" for path v r
    using that sysfs_file_register [OF four_files(1)] sysfs_file_register [OF four_files(2)]
      sysfs_file_register [OF four_files(3)] sysfs_file_register [OF four_files(4)] by auto
qed (simp_all add: board_transfer board_ready_def)

subsection \<open>Properties\<close>

definition shadow_ok :: "'r default_dmx \<Rightarrow> bool" where
  "shadow_ok d \<longleftrightarrow> length (dmxShadow d) = 513 \<and> (\<forall>v \<in> set (dmxShadow d). byte_ok v)"

lemma shadow_ok_regs [simp]: "shadow_ok (d\<lparr>regs := r\<rparr>) = shadow_ok d"
  by (simp add: shadow_ok_def)

lemma keeps_write_reg [keeping]: "keeps shadow_ok (write_reg fw path v)"
  by (auto simp: keeps_def write_reg_def reg_text_def split: prod.split option.split)

lemma keeps_pack_values [keeping]: "keeps shadow_ok (pack_values address i vs w)"
proof (induction vs arbitrary: i w)
  case (Cons v vs)
  have "byte_ok (take_bit 8 v)" using take_bit_int_less_exp [of 8 v] by (simp add: byte_ok_def)
  then have "keeps shadow_ok (set_shadow j (take_bit 8 v))" for j
    by (auto simp: keeps_def set_shadow_def shadow_ok_def dest: set_update_subset_insert [THEN subsetD])
  then show ?case unfolding pack_values.simps Let_def by (intro keeps_seq Cons)
qed (simp add: keeping)

lemma keeps_setDMX [keeping]: "keeps shadow_ok (setDMX fw address vs)"
  unfolding setDMX_def by (intro keeping)

lemma keeps_setDMX_all [keeping]: "keeps shadow_ok (setDMX_all fw vs)" "keeps shadow_ok (clearDMX fw)"
  unfolding setDMX_all_def clearDMX_def by (intro keeping)+

text \<open>
  C26: The shadow array stays a DMX universe: 513 values, each from 0 to 255. No call of the
  driver's methods breaks this, whatever its arguments, whatever exception it ends with and
  whatever the files do; and reading a valid address gives a byte.
\<close>

theorem dmx_shadow_typed:
  assumes "shadow_ok d"
  shows "shadow_ok (snd (setDMX fw address vs d)) \<and> shadow_ok (snd (setDMX_all fw vs d)) \<and>
    shadow_ok (snd (clearDMX fw d)) \<and>
    (if 1 \<le> address \<and> address \<le> 512 then \<exists>v. getDMX address d = (Inr v, d) \<and> byte_ok v
     else getDMX address d = (Inl Illegal_argument, d))"
proof -
  have "byte_ok (dmxShadow d ! nat address)" if "1 \<le> address" "address \<le> 512"
    using assms that by (simp add: shadow_ok_def)
  then show ?thesis
    using keepsD [OF keeps_setDMX assms] keepsD [OF keeps_setDMX_all(1) assms] keepsD [OF keeps_setDMX_all(2) assms]
    by (auto simp: getDMX_def)
qed

definition fresh_dmx :: "ece453 driver default_dmx" where
  "fresh_dmx = \<lparr>dmxShadow = replicate 513 0, regs = \<lparr>hw = ece453_reset 0, pid = 0\<rparr>\<rparr>"

theorem dmx_shadow_typed_witness:
  "shadow_ok (snd (setDMX (sysfs_file 0 [0, 0]) 511 [1, 2, 3] fresh_dmx))"
proof -
  have "shadow_ok fresh_dmx" by (simp add: shadow_ok_def fresh_dmx_def byte_ok_def)
  from dmx_shadow_typed [OF this] show ?thesis by blast
qed

text \<open>The address check looks at the first value only: a block across the end changes the shadow and not the channels.\<close>

lemma setDMX_across_end:
  assumes "length (dmxShadow d) = 513"
  shows "setDMX fw 511 [1, 2, 3] d = (Inl Index_out_of_bounds, d\<lparr>dmxShadow := (dmxShadow d)[511 := 1, 512 := 2]\<rparr>)"
  using assms by (simp add: setDMX_def jseq_def jbind_def jcheck_def set_shadow_def take_bit_int_eq_self)

text \<open>
  C9: The driver's shadow mirrors the hardware. Over kernel driver and register block, with
  at least two clock cycles after each write, a write of one to four values inside the
  universe succeeds and changes exactly these channels in both; writing everything leaves
  the given 512 values in both, and clearing leaves zeros.
\<close>

theorem dmx_driver_mirrors_hardware:
  assumes "board_mirrored d"
  shows "(block_ok a vs \<longrightarrow> (\<exists>r. setDMX (sysfs_file garbage (p # q # ps)) (int a) vs d =
        (Inr (), \<lparr>dmxShadow = put_block a vs (dmxShadow d), regs = r\<rparr>) \<and>
        board_mirrored \<lparr>dmxShadow = put_block a vs (dmxShadow d), regs = r\<rparr>)) \<and>
    (length us = 513 \<and> (\<forall>u \<in> set us. byte_ok u) \<longrightarrow> (\<exists>r. setDMX_all (sysfs_file garbage (p # q # ps)) us d =
        (Inr (), \<lparr>dmxShadow = hd (dmxShadow d) # tl us, regs = r\<rparr>) \<and>
        tl (DMX_data (hw r)) = map word_of_int (tl us))) \<and>
    (\<exists>r. clearDMX (sysfs_file garbage (p # q # ps)) d =
        (Inr (), \<lparr>dmxShadow = hd (dmxShadow d) # replicate 512 0, regs = r\<rparr>) \<and>
        tl (DMX_data (hw r)) = replicate 512 0)"
proof (intro conjI impI)
  show "\<exists>r. setDMX (sysfs_file garbage (p # q # ps)) (int a) vs d =
        (Inr (), \<lparr>dmxShadow = put_block a vs (dmxShadow d), regs = r\<rparr>) \<and>
        board_mirrored \<lparr>dmxShadow = put_block a vs (dmxShadow d), regs = r\<rparr>" if "block_ok a vs"
    using board_dmx.setDMX_mirrored [OF that] assms by (simp add: board_mirrored_def)
  show "\<exists>r. setDMX_all (sysfs_file garbage (p # q # ps)) us d =
        (Inr (), \<lparr>dmxShadow = hd (dmxShadow d) # tl us, regs = r\<rparr>) \<and> tl (DMX_data (hw r)) = map word_of_int (tl us)"
    if "length us = 513 \<and> (\<forall>u \<in> set us. byte_ok u)"
    using board_dmx.setDMX_all_result [of d us garbage p q ps] assms that
    by (auto simp: board_mirrored_def board_ready_def mirrored_def map_tl)
  show "\<exists>r. clearDMX (sysfs_file garbage (p # q # ps)) d =
        (Inr (), \<lparr>dmxShadow = hd (dmxShadow d) # replicate 512 0, regs = r\<rparr>) \<and> tl (DMX_data (hw r)) = replicate 512 0"
    using board_dmx.clearDMX_result [of d garbage p q ps] assms by (auto simp: board_mirrored_def board_ready_def mirrored_def)
qed

lemma fresh_mirrored: "board_mirrored fresh_dmx"
  by (simp add: board_mirrored_def board_ready_def mirrored_def fresh_dmx_def settled_def ece453_reset_def byte_ok_def)

theorem dmx_driver_mirrors_hardware_witness:
  "\<exists>r. setDMX (sysfs_file 0 [0, 0]) (int 2) [255, 0, 7] fresh_dmx =
     (Inr (), \<lparr>dmxShadow = put_block 2 [255, 0, 7] (replicate 513 0), regs = r\<rparr>)"
proof -
  have "block_ok 2 [255, 0, 7]" by (simp add: block_ok_def byte_ok_def)
  with dmx_driver_mirrors_hardware [OF fresh_mirrored] show ?thesis by (fastforce simp: fresh_dmx_def)
qed

end
