(* ===== verification/Dmx_Race.thy ===== *)
theory Dmx_Race
  imports Dmx_Driver
begin

text \<open>
  Two threads that use the driver at the same time. A transfer is four writes to files, and nothing
  keeps the writes of two threads apart; here they run one by one, in any order that keeps the
  order of each thread.
\<close>

definition transfer_writes :: "nat \<Rightarrow> int list \<Rightarrow> (string \<times> u32) list" where
  "transfer_writes a vs =
     [(DMX_DATA, word_of_values vs), (DMX_ADDR, of_nat a), (DMX_SIZE, of_nat (length vs)), (CONTROL_REG, 1)]"

definition run_writes :: "'r file_write \<Rightarrow> (string \<times> u32) list \<Rightarrow> 'r \<Rightarrow> 'r" where
  "run_writes fw ws r = fold (\<lambda>(path, v) r. snd (fw path (reg_text v) r)) ws r"

lemma run_writes_simps [simp]:
  "run_writes fw [] r = r" "run_writes fw ((path, v) # ws) r = run_writes fw ws (snd (fw path (reg_text v) r))"
  by (simp_all add: run_writes_def)

lemma transfer_run: "transfer fw (word_of_values vs) a (length vs) r = run_writes fw (transfer_writes a vs) r"
  by (simp add: transfer_def transfer_writes_def)

subsection \<open>The board between the writes\<close>

text \<open>What the registers hold while no transfer runs.\<close>

definition board_holds :: "u32 \<Rightarrow> u32 \<Rightarrow> u32 \<Rightarrow> u8 list \<Rightarrow> ece453 driver \<Rightarrow> bool" where
  "board_holds w addr n mem s \<longleftrightarrow> settled (hw s) \<and> dmx_data_r (hw s) = w \<and> dmx_addr_r (hw s) = addr \<and>
     dmx_size_r (hw s) = n \<and> DMX_data (hw s) = mem"

lemma board_writes:
  assumes "board_holds w addr n mem s"
  shows "board_holds v addr n mem (snd (sysfs_file garbage gap DMX_DATA (reg_text v) s))"
    "board_holds w v n mem (snd (sysfs_file garbage gap DMX_ADDR (reg_text v) s))"
    "board_holds w addr v mem (snd (sysfs_file garbage gap DMX_SIZE (reg_text v) s))"
  using assms quiet_write [of "hw s" DMX_DATA_ADDR gap v] quiet_write [of "hw s" DMX_ADDR_ADDR gap v] quiet_write [of "hw s" DMX_SIZE_ADDR gap v]
  by (simp_all add: board_holds_def sysfs_file_register [OF four_files(1)] sysfs_file_register [OF four_files(2)]
      sysfs_file_register [OF four_files(3)] idle_dmx_regs) (simp_all add: iowrite32_def reg_in_def)

lemma board_starts:
  assumes "board_holds (word_of_values vs) (of_nat a) (of_nat (length vs)) mem s" "block_ok a vs"
  shows "board_holds (word_of_values vs) (of_nat a) (of_nat (length vs)) (put_block a (map word_of_int vs) mem)
    (snd (sysfs_file garbage (p # q # ps) CONTROL_REG (reg_text 1) s))"
proof -
  define gap where "gap = p # q # ps"
  let ?r = "iowrite32 CONTROL_ADDR 1 (hw s)"
  have r: "curr_state ?r = X_IDLE" "control_r ?r = 1" "dmx_addr_r ?r = of_nat a" "dmx_data_r ?r = word_of_values vs"
      "dmx_size_r ?r = of_nat (length vs)" "DMX_data ?r = mem"
    using assms(1)
    by (simp_all add: board_holds_def iowrite32_def reg_in_def settled_def next_state_def DMX_data_in_def write_en_def dmx_busy_def)
  have "settled (fold idle gap ?r)" "DMX_data (fold idle gap ?r) = put_block a (map word_of_int vs) mem"
    using transfer_block [OF assms(2) r(1-5), of p q ps] unfolding gap_def r(6) .
  then show ?thesis
    unfolding gap_def [symmetric] by (simp add: board_holds_def sysfs_file_register [OF four_files(4)] idle_dmx_regs r(3-5) [simplified])
qed

subsection \<open>Property\<close>

text \<open>The first thread is interrupted after its first write; the second runs through.\<close>

definition overtaken :: "nat \<Rightarrow> int \<Rightarrow> nat \<Rightarrow> int \<Rightarrow> (string \<times> u32) list" where
  "overtaken a v b w = hd (transfer_writes a [v]) # transfer_writes b [w] @ tl (transfer_writes a [v])"

lemma overtaken_shuffle: "overtaken a v b w \<in> shuffles (transfer_writes a [v]) (transfer_writes b [w])"
  by (simp add: overtaken_def transfer_writes_def Cons_in_shuffles_iff)

lemma overtaken_result:
  assumes "settled (hw s)" "block_ok a [v]" "block_ok b [w]"
  shows "board_holds (word_of_values [w]) (of_nat a) 1 (put_block a [word_of_int w] (put_block b [word_of_int w] (DMX_data (hw s))))
    (run_writes (sysfs_file garbage (p # q # ps)) (overtaken a v b w) s)"
proof -
  let ?fw = "sysfs_file garbage (p # q # ps)"
  have "board_holds (dmx_data_r (hw s)) (dmx_addr_r (hw s)) (dmx_size_r (hw s)) (DMX_data (hw s)) s"
    using assms(1) by (simp add: board_holds_def)
  note start = board_writes(1) [OF this, of "word_of_values [v]" garbage "p # q # ps"]
  note loaded = board_writes(3) [OF board_writes(2) [OF board_writes(1) [OF start, of "word_of_values [w]" garbage "p # q # ps"],
    of "of_nat b" garbage "p # q # ps"], of 1 garbage "p # q # ps"]
  note second = board_starts [of "[w]" b, simplified, OF loaded assms(3), of garbage p q ps]
  note reloaded = board_writes(3) [OF board_writes(2) [OF second, of "of_nat a" garbage "p # q # ps"], of 1 garbage "p # q # ps"]
  have "block_ok a [w]" using assms(2,3) by (simp add: block_ok_def)
  from board_starts [of "[w]" a, simplified, OF reloaded this, of garbage p q ps]
  show ?thesis by (simp add: overtaken_def transfer_writes_def)
qed

text \<open>
  C30: Two threads that write at the same time can leave the board wrong. A write of one channel is the four writes
  of \<open>setDMX\<close>; for any two writes of different values to different channels there is an
  order of their register writes, each thread's own order kept, after which the first channel
  shows the second value, while the shadow that both threads have updated says otherwise.
\<close>

theorem concurrent_writes_diverge:
  fixes garbage p q ps
  defines "fw \<equiv> sysfs_file garbage (p # q # ps)"
  assumes "board_mirrored d" "block_ok a [v]" "block_ok b [w]" "a \<noteq> b" "v \<noteq> w"
  shows "setDMX fw (int a) [v] d = (Inr (), \<lparr>dmxShadow = put_block a [v] (dmxShadow d), regs = run_writes fw (transfer_writes a [v]) (regs d)\<rparr>) \<and>
    (\<exists>ws \<in> shuffles (transfer_writes a [v]) (transfer_writes b [w]).
       DMX_data (hw (run_writes fw ws (regs d))) ! a = word_of_int w \<and>
       \<not> board_mirrored \<lparr>dmxShadow = put_block b [w] (put_block a [v] (dmxShadow d)), regs = run_writes fw ws (regs d)\<rparr>)"
proof -
  have d: "settled (hw (regs d))" "length (DMX_data (hw (regs d))) = 513" "length (dmxShadow d) = 513"
    using assms(2) by (simp_all add: board_mirrored_def mirrored_def board_ready_def)
  have alone: "setDMX fw (int a) [v] d =
      (Inr (), \<lparr>dmxShadow = put_block a [v] (dmxShadow d), regs = run_writes fw (transfer_writes a [v]) (regs d)\<rparr>)"
    using board_dmx.setDMX_result [OF assms(3) d(3), of garbage p q ps] transfer_run [of fw "[v]" a] by (simp add: fw_def)
  let ?s = "run_writes fw (overtaken a v b w) (regs d)"
  have at: "0 < a" "a < 513" "byte_ok v" "byte_ok w" using assms(3,4) by (simp_all add: block_ok_def)
  have mem: "DMX_data (hw ?s) ! a = word_of_int w"
    using overtaken_result [OF d(1) assms(3,4), of garbage p q ps] at(2) d(2)
    by (simp add: fw_def board_holds_def put_block.simps)
  have "\<not> board_mirrored \<lparr>dmxShadow = put_block b [w] (put_block a [v] (dmxShadow d)), regs = ?s\<rparr>"
  proof
    assume "board_mirrored \<lparr>dmxShadow = put_block b [w] (put_block a [v] (dmxShadow d)), regs = ?s\<rparr>"
    then have "map word_of_int (tl (put_block b [w] (put_block a [v] (dmxShadow d)))) ! (a - 1) = tl (DMX_data (hw ?s)) ! (a - 1)"
      by (simp add: board_mirrored_def mirrored_def map_tl)
    then have "(word_of_int v :: u8) = word_of_int w"
      using mem at(1,2) d(3) assms(5) overtaken_result [OF d(1) assms(3,4), of garbage p q ps] d(2)
      by (simp add: nth_tl put_block.simps fw_def board_holds_def)
    then have "take_bit 8 v = take_bit 8 w" by (simp add: word_of_int_eq_iff)
    with at(3,4) assms(6) show False by (simp add: byte_ok_take_bit)
  qed
  with alone mem overtaken_shuffle show ?thesis by blast
qed

theorem concurrent_writes_diverge_witness:
  "\<exists>ws \<in> shuffles (transfer_writes 5 [200]) (transfer_writes 9 [17]).
     DMX_data (hw (run_writes (sysfs_file 0 [0, 0]) ws (regs fresh_dmx))) ! 5 = 17"
proof -
  have "board_mirrored fresh_dmx" by (rule fresh_mirrored)
  moreover have "block_ok 5 [200]" "block_ok 9 [17]" by (simp_all add: block_ok_def byte_ok_def)
  ultimately show ?thesis using concurrent_writes_diverge [of fresh_dmx 5 200 9 17 0 0 0 "[]"] by auto
qed

end
