(* ===== verification/Fixtures.thy ===== *)
theory Fixtures
  imports Dmx_Driver
begin

text \<open>
  The lights of the base station, \<open>lighting/FixtureProfile.java\<close> and
  \<open>lighting/FixtureManager.java\<close>: a fixture maps channel names to offsets from its address,
  keeps a copy of its channel values and writes them through the DMX driver; the manager
  keeps the fixtures sorted by address and in a file.

  A method of a fixture works on the fixture and the driver it refers to. The hash map of
  the channels is the list of its entries.
\<close>

record fixture =
  fx_name :: string
  fx_address :: int
  defaultColorOffs :: int
  isSelected :: bool
  channelMap :: "(string \<times> int) list"
  dmxVals :: "int list"

record 'r light =
  fx :: fixture
  drv :: "'r default_dmx"

text \<open>\<open>java.awt.Color\<close>: red, green and blue.\<close>

type_synonym color = "int \<times> int \<times> int"

abbreviation (input) WHITE :: color where "WHITE \<equiv> (255, 255, 255)"

subsection \<open>Construction\<close>

definition COLOR_NAMES :: "string list" where
  "COLOR_NAMES = [''red'', ''green'', ''blue'', ''amber'', ''white'']"

definition getNumChannels :: "fixture \<Rightarrow> int" where
  "getNumChannels f = int (length (channelMap f))"

definition containsKey :: "fixture \<Rightarrow> string \<Rightarrow> bool" where
  "containsKey f c \<longleftrightarrow> map_of (channelMap f) c \<noteq> None"

text \<open>Entering the channel names with their numbers; \<open>e\<close> is the exception for an empty or repeated name.\<close>

fun put_channels :: "java_exception \<Rightarrow> string list \<Rightarrow> int \<Rightarrow> (string \<times> int) list \<Rightarrow> java_exception + (string \<times> int) list" where
  "put_channels e [] i m = Inr m"
| "put_channels e (c # cs) i m =
     (if c = [] \<or> map_of m c \<noteq> None then Inl e else put_channels e cs (i + 1) (m @ [(c, i)]))"

definition default_offset :: "(string \<times> int) list \<Rightarrow> int" where
  "default_offset m = (case find (\<lambda>c. map_of m c \<noteq> None) COLOR_NAMES of Some c \<Rightarrow> the (map_of m c) | None \<Rightarrow> -1)"

text \<open>
  The constructor. \<open>bad_ref\<close> says that the driver or the name is null or the name is the same
  object as the literal \<open>""\<close>: the code compares references. The bound at the end of the
  universe is checked with the field \<open>address\<close>, which is still zero.
\<close>

definition FixtureProfile :: "bool \<Rightarrow> string \<Rightarrow> int \<Rightarrow> string list \<Rightarrow> java_exception + fixture" where
  "FixtureProfile bad_ref fixtureName dmxAddress channels =
     (let address = 0 in
      if bad_ref then Inl Illegal_argument
      else if dmxAddress < 1 then Inl Illegal_argument
      else if length channels < 1 \<or> length channels > 512 then Inl Illegal_argument
      else if int (length channels) + address > 513 then Inl Index_out_of_bounds
      else case put_channels Illegal_argument channels 0 [] of
        Inl e \<Rightarrow> Inl e
      | Inr m \<Rightarrow> Inr \<lparr>fx_name = fixtureName, fx_address = dmxAddress, defaultColorOffs = default_offset m,
                     isSelected = False, channelMap = m, dmxVals = replicate (length channels) 0\<rparr>)"

text \<open>The sum is an \<open>int\<close> of Java.\<close>

definition setAddress :: "int \<Rightarrow> fixture \<Rightarrow> java_exception + fixture" where
  "setAddress address f =
     (if sint (word_of_int (address + getNumChannels f) :: u32) > 513 then Inl Illegal_argument
      else Inr (f\<lparr>fx_address := address\<rparr>))"

definition setFixtureName :: "string \<Rightarrow> fixture \<Rightarrow> fixture" where
  "setFixtureName name f = f\<lparr>fx_name := name\<rparr>"

definition setDMXDriver :: "'r default_dmx \<Rightarrow> 'r light \<Rightarrow> 'r light" where
  "setDMXDriver driver l = l\<lparr>drv := driver\<rparr>"

subsection \<open>Writing channels\<close>

definition dmx_set :: "'r file_write \<Rightarrow> int \<Rightarrow> int list \<Rightarrow> ('r light, unit) java" where
  "dmx_set fw address values = jon drv (\<lambda>d s. s\<lparr>drv := d\<rparr>) (setDMX fw address values)"

definition set_val :: "int \<Rightarrow> int \<Rightarrow> ('r light, unit) java" where
  "set_val i v s =
     (if 0 \<le> i \<and> i < int (length (dmxVals (fx s)))
      then (Inr (), s\<lparr>fx := (fx s)\<lparr>dmxVals := (dmxVals (fx s))[nat i := v]\<rparr>\<rparr>)
      else (Inl Index_out_of_bounds, s))"

definition write_val :: "'r file_write \<Rightarrow> int \<Rightarrow> int \<Rightarrow> ('r light, unit) java" where
  "write_val fw i v = jseq (set_val i v) (jbind (jread (fx_address \<circ> fx)) (\<lambda>address. dmx_set fw (address + i) [v]))"

definition setDMXVals :: "'r file_write \<Rightarrow> int list \<Rightarrow> ('r light, unit) java" where
  "setDMXVals fw dmxValueArray =
     jbind (jread (dmxVals \<circ> fx)) (\<lambda>vals.
     jseq (jcheck (length dmxValueArray = length vals) Illegal_argument)
     (jseq (jcheck (\<not> (\<exists>v \<in> set dmxValueArray. v < 0 \<or> v > 255)) Illegal_argument)
       (jfor [0..<length dmxValueArray] (\<lambda>i. write_val fw (int i) (dmxValueArray ! i)))))"

definition setChannelManual :: "'r file_write \<Rightarrow> int \<Rightarrow> int \<Rightarrow> ('r light, unit) java" where
  "setChannelManual fw channel v =
     jbind (jread (dmxVals \<circ> fx)) (\<lambda>vals.
     jseq (jcheck (\<not> (channel < 0 \<or> channel \<ge> int (length vals))) Illegal_argument)
     (jseq (jcheck (\<not> (v < 0 \<or> v > 255)) Illegal_argument)
       (write_val fw channel v)))"

definition setColor :: "'r file_write \<Rightarrow> color \<Rightarrow> ('r light, unit) java" where
  "setColor fw c =
     (case c of (r, g, b) \<Rightarrow>
      jbind (jread fx) (\<lambda>f.
      case (map_of (channelMap f) ''red'', map_of (channelMap f) ''green'', map_of (channelMap f) ''blue'') of
        (Some redOffs, Some greenOffs, Some blueOffs) \<Rightarrow>
          jseq (set_val redOffs r) (jseq (set_val greenOffs g) (jseq (set_val blueOffs b)
            (if redOffs = 1 \<and> greenOffs = 2 \<and> blueOffs = 3
             then dmx_set fw (fx_address f + redOffs) [r, g, b]
             else jseq (dmx_set fw (fx_address f + redOffs) [r])
                 (jseq (dmx_set fw (fx_address f + greenOffs) [g])
                   (dmx_set fw (fx_address f + blueOffs) [b])))))
      | _ \<Rightarrow> jthrow Unsupported_operation))"

definition setWhite :: "'r file_write \<Rightarrow> int \<Rightarrow> ('r light, unit) java" where
  "setWhite fw intensity =
     jbind (jread fx) (\<lambda>f. case map_of (channelMap f) ''white'' of
        Some i \<Rightarrow> setChannelManual fw i intensity
      | None \<Rightarrow> setColor fw WHITE)"

text \<open>A missing dimmer is a null reference that is unboxed.\<close>

definition setDimmerValue :: "'r file_write \<Rightarrow> int \<Rightarrow> ('r light, unit) java" where
  "setDimmerValue fw dimmerVal =
     jseq (jcheck (\<not> (dimmerVal < 0 \<or> dimmerVal > 255)) Illegal_argument)
       (jbind (jread fx) (\<lambda>f. case map_of (channelMap f) ''dimmer'' of
          Some i \<Rightarrow> write_val fw i dimmerVal
        | None \<Rightarrow> jthrow Null_pointer))"

definition clearLight :: "'r file_write \<Rightarrow> ('r light, unit) java" where
  "clearLight fw = jbind (jread fx) (\<lambda>f. jfor [0..<length (channelMap f)] (\<lambda>i. setChannelManual fw (int i) 0))"

definition hasColor :: "fixture \<Rightarrow> bool" where
  "hasColor f \<longleftrightarrow> (\<exists>c \<in> set COLOR_NAMES. containsKey f c \<and> dmxVals f ! nat (the (map_of (channelMap f) c)) \<noteq> 0)"

text \<open>\<open>System.arraycopy\<close> checks its bounds before it copies.\<close>

definition syncLight :: "('r light, unit) java" where
  "syncLight s =
     (let f = fx s; src = getDmx (drv s); n = length (channelMap f) in
      if fx_address f < 0 \<or> fx_address f + int n > int (length src) \<or> n > length (dmxVals f) then (Inl Index_out_of_bounds, s)
      else (Inr (), s\<lparr>fx := f\<lparr>dmxVals := take n (drop (nat (fx_address f)) src) @ drop n (dmxVals f)\<rparr>\<rparr>))"

definition compareTo :: "fixture \<Rightarrow> fixture \<Rightarrow> int" where
  "compareTo f light = sint (word_of_int (fx_address f - fx_address light) :: u32)"

subsection \<open>The set file\<close>

text \<open>
  An object stream holds the items an object wrote; reading past the end of the object's own
  items, or an item of another kind, is an \<open>IOException\<close>.
\<close>

datatype item = Item_string string | Item_null | Item_object | Item_int int

definition next_int :: "(item list, int) java" where
  "next_int s = (case s of Item_int v # r \<Rightarrow> (Inr v, r) | _ \<Rightarrow> (Inl IO_exception, s))"

text \<open>\<open>None\<close> is the null reference.\<close>

definition next_string :: "(item list, string option) java" where
  "next_string s = (case s of Item_string v # r \<Rightarrow> (Inr (Some v), r) | Item_null # r \<Rightarrow> (Inr None, r) | _ \<Rightarrow> (Inl IO_exception, s))"

definition writeObject :: "fixture \<Rightarrow> item list" where
  "writeObject f =
     [Item_string (fx_name f), Item_int (fx_address f), Item_int (defaultColorOffs f), Item_int (getNumChannels f)] @
     map (Item_string \<circ> fst) (sort_key snd (channelMap f))"

fun read_channels :: "nat \<Rightarrow> int \<Rightarrow> (string \<times> int) list \<Rightarrow> (item list, (string \<times> int) list) java" where
  "read_channels 0 i m = jret m"
| "read_channels (Suc n) i m =
     jbind next_string (\<lambda>s. case s of
        None \<Rightarrow> jthrow IO_exception
      | Some c \<Rightarrow> if c = [] \<or> map_of m c \<noteq> None then jthrow IO_exception else read_channels n (i + 1) (m @ [(c, i)]))"

definition readObject :: "(item list, fixture) java" where
  "readObject =
     jbind next_string (\<lambda>name. case name of
       None \<Rightarrow> jthrow Null_pointer
     | Some name \<Rightarrow>
        jseq (jcheck (name \<noteq> []) IO_exception)
       (jbind next_int (\<lambda>address.
        jbind next_int (\<lambda>offs.
        jbind next_int (\<lambda>numChannels.
        jbind (read_channels (nat numChannels) 0 []) (\<lambda>m.
        jseq (jcheck (\<not> (offs < 0 \<or> offs \<ge> numChannels)) IO_exception)
       (jseq (jcheck (\<not> sint (word_of_int (numChannels + address) :: u32) > 513) IO_exception)
         (jret \<lparr>fx_name = name, fx_address = address, defaultColorOffs = offs, isSelected = False,
                channelMap = m, dmxVals = replicate (length m) 0\<rparr>))))))))"

text \<open>The file: the number of objects, and the items of each object, \<open>None\<close> for one that is not a fixture.\<close>

type_synonym set_file = "int \<times> item list option list"

fun load_fixtures :: "nat \<Rightarrow> item list option list \<Rightarrow> java_exception + fixture list" where
  "load_fixtures 0 objs = Inr []"
| "load_fixtures (Suc n) objs =
     (case objs of
        [] \<Rightarrow> Inl IO_exception
      | None # _ \<Rightarrow> Inl IO_exception
      | Some items # objs \<Rightarrow>
          (case fst (readObject items) of
             Inl e \<Rightarrow> Inl e
           | Inr f \<Rightarrow> (case load_fixtures n objs of Inl e \<Rightarrow> Inl e | Inr fs \<Rightarrow> Inr (f # fs))))"

text \<open>
  The manager. \<open>inside\<close> tells whether a file name resolves to a file of the set directory.
  The set is kept in a stable order of the addresses.
\<close>

definition FixtureManager :: "(string \<Rightarrow> bool) \<Rightarrow> (string \<rightharpoonup> set_file) \<Rightarrow> string \<Rightarrow> java_exception + fixture list" where
  "FixtureManager inside files filename =
     (if \<not> inside filename then Inl Illegal_argument
      else case files filename of
        None \<Rightarrow> Inl IO_exception
      | Some (numFixtures, objs) \<Rightarrow>
          (case load_fixtures (nat numFixtures) objs of Inl e \<Rightarrow> Inl e | Inr fs \<Rightarrow> Inr (sort_key fx_address fs)))"

definition addFixture :: "fixture option \<Rightarrow> fixture list \<Rightarrow> fixture list" where
  "addFixture newFixture fs = (case newFixture of None \<Rightarrow> fs | Some f \<Rightarrow> sort_key fx_address (fs @ [f]))"

definition removeFixture :: "int \<Rightarrow> (fixture list, unit) java" where
  "removeFixture i fs =
     (if 0 \<le> i \<and> i < int (length fs) then (Inr (), take (nat i) fs @ drop (Suc (nat i)) fs) else (Inl Index_out_of_bounds, fs))"

definition set_file_name :: "string \<Rightarrow> string" where
  "set_file_name filename = (if drop (length filename - 4) filename = ''.set'' then filename else filename @ ''.set'')"

definition saveSetFile :: "(string \<Rightarrow> bool) \<Rightarrow> fixture list \<Rightarrow> string \<Rightarrow> (string \<rightharpoonup> set_file, unit) java" where
  "saveSetFile inside fs filename files =
     (let filename = set_file_name filename in
      if \<not> inside filename then (Inl Illegal_argument, files)
      else (Inr (), files(filename \<mapsto> (int (length fs), map (Some \<circ> writeObject) fs))))"

definition getLight :: "int \<Rightarrow> fixture list \<Rightarrow> java_exception + fixture" where
  "getLight i fs = (if 0 \<le> i \<and> i < int (length fs) then Inr (fs ! nat i) else Inl Index_out_of_bounds)"

subsection \<open>Well-formed fixtures\<close>

definition channels_ok :: "(string \<times> int) list \<Rightarrow> bool" where
  "channels_ok m \<longleftrightarrow> map snd m = map int [0..<length m] \<and> distinct (map fst m) \<and> [] \<notin> fst ` set m"

definition fixture_ok :: "fixture \<Rightarrow> bool" where
  "fixture_ok f \<longleftrightarrow> channels_ok (channelMap f) \<and> channelMap f \<noteq> [] \<and> 1 \<le> fx_address f \<and>
     fx_address f + getNumChannels f \<le> 513 \<and> length (dmxVals f) = length (channelMap f) \<and>
     (\<forall>v \<in> set (dmxVals f). byte_ok v) \<and> -1 \<le> defaultColorOffs f \<and> defaultColorOffs f < getNumChannels f"

lemma channels_ok_offset:
  assumes "channels_ok m" "map_of m c = Some i"
  shows "0 \<le> i \<and> i < int (length m)"
proof -
  have "i \<in> set (map snd m)" using map_of_SomeD [OF assms(2)] by force
  moreover have "set (map snd m) = int ` {0..<length m}" using assms(1) by (simp add: channels_ok_def)
  ultimately show ?thesis by auto
qed

lemma put_channels_result:
  assumes "channels_ok m" "i = int (length m)"
  shows "put_channels e cs i m =
    (if distinct (map fst m @ cs) \<and> [] \<notin> set cs then Inr (m @ zip cs (map int [length m..<length m + length cs])) else Inl e)"
  using assms
proof (induction cs arbitrary: i m)
  case Nil
  then show ?case by (simp add: channels_ok_def)
next
  case (Cons c cs)
  show ?case
  proof (cases "c = [] \<or> c \<in> fst ` set m")
    case True
    then show ?thesis using Cons.prems by (auto simp: map_of_eq_None_iff channels_ok_def)
  next
    case False
    then have "channels_ok (m @ [(c, i)])" using Cons.prems by (auto simp: channels_ok_def)
    from Cons.IH [OF this, of "i + 1"] Cons.prems(2)
    have "put_channels e cs (i + 1) (m @ [(c, i)]) = (if distinct (map fst (m @ [(c, i)]) @ cs) \<and> [] \<notin> set cs
        then Inr ((m @ [(c, i)]) @ zip cs (map int [Suc (length m)..<Suc (length m) + length cs])) else Inl e)"
      by simp
    moreover have "map int [length m..<length m + length (c # cs)] = i # map int [Suc (length m)..<Suc (length m) + length cs]"
      using Cons.prems(2) by (simp add: upt_conv_Cons del: upt_Suc)
    moreover have "distinct (map fst m)" "map_of m c = None"
      using Cons.prems(1) False by (auto simp: channels_ok_def map_of_eq_None_iff)
    ultimately show ?thesis using False by auto
  qed
qed

lemma put_channels_ok: "put_channels e cs 0 [] = Inr m \<Longrightarrow> channels_ok m \<and> map fst m = cs \<and> length m = length cs"
proof -
  assume "put_channels e cs 0 [] = Inr m"
  then have "distinct cs" "[] \<notin> set cs" "m = zip cs (map int [0..<length cs])"
    using put_channels_result [of "[]" 0 e cs] by (auto simp: channels_ok_def split: if_splits)
  then show ?thesis by (auto simp: channels_ok_def dest: set_zip_leftD)
qed

lemma put_channels_same:
  "channels_ok m \<Longrightarrow> put_channels e (map fst m) 0 [] = Inr m"
  using put_channels_result [of "[]" 0 e "map fst m"] zip_map_fst_snd [of m] by (auto simp: channels_ok_def)

lemma default_offset_range: "channels_ok m \<Longrightarrow> -1 \<le> default_offset m \<and> default_offset m < int (length m) \<or> default_offset m = -1"
  by (auto simp: default_offset_def find_Some_iff split: option.split dest: channels_ok_offset)

text \<open>The constructor makes a well-formed fixture, if the channels end inside the universe; the manager keeps the order.\<close>

lemma FixtureProfile_ok:
  assumes "FixtureProfile bad_ref name a channels = Inr f" "a + int (length channels) \<le> 513"
  shows "fixture_ok f \<and> map fst (channelMap f) = channels"
proof -
  obtain m where m: "put_channels Illegal_argument channels 0 [] = Inr m" "1 \<le> a" "channels \<noteq> []"
      "f = \<lparr>fx_name = name, fx_address = a, defaultColorOffs = default_offset m, isSelected = False, channelMap = m,
        dmxVals = replicate (length channels) 0\<rparr>"
    using assms(1) by (auto simp: FixtureProfile_def Let_def not_less split: if_splits sum.splits)
  note ok = put_channels_ok [OF m(1)]
  have "-1 \<le> default_offset m \<and> default_offset m < int (length m)" using default_offset_range [of m] ok by auto
  with ok m(2-4) assms(2) show ?thesis by (auto simp: fixture_ok_def getNumChannels_def byte_ok_def)
qed

lemma manager_sorted: "sorted (map fx_address fs) \<Longrightarrow> sorted (map fx_address (addFixture f fs))"
  by (simp add: addFixture_def split: option.split)

subsection \<open>What a method writes\<close>

text \<open>Values put at offsets from a base, one after the other.\<close>

definition puts :: "nat \<Rightarrow> (nat \<times> int) list \<Rightarrow> int list \<Rightarrow> int list" where
  "puts a cvs xs = fold (\<lambda>(c, v) ys. ys[a + c := v]) cvs xs"

definition lit_put :: "(nat \<times> int) list \<Rightarrow> 'r \<Rightarrow> 'r light \<Rightarrow> 'r light" where
  "lit_put cvs r s = \<lparr>fx = (fx s)\<lparr>dmxVals := puts 0 cvs (dmxVals (fx s))\<rparr>,
     drv = \<lparr>dmxShadow = puts (nat (fx_address (fx s))) cvs (dmxShadow (drv s)), regs = r\<rparr>\<rparr>"

lemma length_puts [simp]: "length (puts a cvs xs) = length xs"
  by (induction cvs arbitrary: xs) (auto simp: puts_def)

lemma puts_append: "puts a (cvs @ dvs) xs = puts a dvs (puts a cvs xs)"
  by (simp add: puts_def)

lemma lit_put_append [simp]: "lit_put dvs r' (lit_put cvs r s) = lit_put (cvs @ dvs) r' s"
  by (simp add: lit_put_def puts_append)

lemma lit_put_none: "lit_put [] (regs (drv s)) s = s"
  by (simp add: lit_put_def puts_def)

lemma puts_bytes: "\<lbrakk>\<forall>(c, v) \<in> set cvs. byte_ok v; \<forall>x \<in> set xs. byte_ok x\<rbrakk> \<Longrightarrow> \<forall>x \<in> set (puts a cvs xs). byte_ok x"
proof (induction cvs arbitrary: xs)
  case (Cons cv cvs)
  obtain c v where cv: "cv = (c, v)" by fastforce
  with Cons.prems have "\<forall>x \<in> set (xs[a + c := v]). byte_ok x" using set_update_subset_insert [of xs "a + c" v] by auto
  with Cons.IH [of "xs[a + c := v]"] Cons.prems(1) show ?case by (simp add: puts_def cv)
qed (simp add: puts_def)

text \<open>The copy is in step with the driver.\<close>

definition synced :: "'r light \<Rightarrow> bool" where
  "synced s \<longleftrightarrow> dmxVals (fx s) = take (length (channelMap (fx s))) (drop (nat (fx_address (fx s))) (dmxShadow (drv s)))"

lemma puts_take_drop: "take n (drop a (puts a cvs xs)) = puts 0 cvs (take n (drop a xs))"
proof (induction cvs arbitrary: xs)
  case (Cons cv cvs)
  obtain c v where cv: "cv = (c, v)" by fastforce
  have "take n (drop a (xs[a + c := v])) = (take n (drop a xs))[c := v]"
    by (simp add: drop_update_swap take_update_swap)
  with Cons.IH [of "xs[a + c := v]"] show ?case by (simp add: puts_def cv)
qed (simp add: puts_def)

lemma synced_lit_put: "synced s \<Longrightarrow> synced (lit_put cvs r s)"
  by (simp add: synced_def lit_put_def puts_take_drop)

definition light_ok :: "('r \<Rightarrow> u8 list) \<Rightarrow> ('r \<Rightarrow> bool) \<Rightarrow> 'r light \<Rightarrow> bool" where
  "light_ok channels ready s \<longleftrightarrow> fixture_ok (fx s) \<and> mirrored channels ready (drv s)"

text \<open>A method that returns normally and writes these values, in this order.\<close>

definition performs :: "('r \<Rightarrow> u8 list) \<Rightarrow> ('r \<Rightarrow> bool) \<Rightarrow> (nat \<times> int) list \<Rightarrow> ('r light, unit) java \<Rightarrow> 'r light \<Rightarrow> bool" where
  "performs channels ready cvs m s \<longleftrightarrow>
     (\<exists>r. m s = (Inr (), lit_put cvs r s) \<and> light_ok channels ready (lit_put cvs r s))"

lemma performs_seq:
  assumes "performs channels ready cvs m s"
    "\<And>r. light_ok channels ready (lit_put cvs r s) \<Longrightarrow> performs channels ready dvs n (lit_put cvs r s)"
  shows "performs channels ready (cvs @ dvs) (jseq m n) s"
proof -
  obtain r where r: "m s = (Inr (), lit_put cvs r s)" "light_ok channels ready (lit_put cvs r s)"
    using assms(1) by (auto simp: performs_def)
  from assms(2) [OF r(2)] obtain r' where "n (lit_put cvs r s) = (Inr (), lit_put (cvs @ dvs) r' s)"
      "light_ok channels ready (lit_put (cvs @ dvs) r' s)"
    by (auto simp: performs_def)
  with r(1) show ?thesis unfolding performs_def by (metis jbind_simps(3))
qed

lemma performs_for:
  assumes "light_ok channels ready s"
    "\<And>x cvs r. \<lbrakk>x \<in> set xs; light_ok channels ready (lit_put cvs r s)\<rbrakk> \<Longrightarrow> performs channels ready [g x] (f x) (lit_put cvs r s)"
  shows "performs channels ready (map g xs) (jfor xs f) s"
  using assms
proof (induction xs arbitrary: s)
  case Nil
  then show ?case by (auto simp: performs_def jret_def lit_put_none intro!: exI [of _ "regs (drv s)"])
next
  case (Cons x xs)
  have "performs channels ready [g x] (f x) s"
    using Cons.prems(2) [of x "[]" "regs (drv s)"] Cons.prems(1) by (simp add: lit_put_none)
  moreover have "performs channels ready (map g xs) (jfor xs f) (lit_put [g x] r s)"
    if "light_ok channels ready (lit_put [g x] r s)" for r
    using Cons.IH [OF that] Cons.prems(2) by simp
  ultimately have "performs channels ready ([g x] @ map g xs) (jseq (f x) (jfor xs f)) s" by (rule performs_seq)
  then show ?case by simp
qed

lemma light_ok_put:
  assumes "fixture_ok (fx s)" "\<forall>(c, v) \<in> set cvs. byte_ok v"
    "mirrored channels ready \<lparr>dmxShadow = puts (nat (fx_address (fx s))) cvs (dmxShadow (drv s)), regs = r\<rparr>"
  shows "light_ok channels ready (lit_put cvs r s)"
  using assms puts_bytes [OF assms(2), of "dmxVals (fx s)" 0]
  by (simp add: light_ok_def lit_put_def fixture_ok_def getNumChannels_def)

lemma light_ok_lengths:
  "light_ok channels ready s \<Longrightarrow> length (dmxVals (fx s)) = length (channelMap (fx s)) \<and> 1 \<le> fx_address (fx s) \<and>
     fx_address (fx s) + int (length (channelMap (fx s))) \<le> 513 \<and> channels_ok (channelMap (fx s)) \<and>
     length (dmxShadow (drv s)) = 513"
  by (simp add: light_ok_def fixture_ok_def mirrored_def getNumChannels_def)

lemma lit_put_keeps [simp]:
  "channelMap (fx (lit_put cvs r s)) = channelMap (fx s)" "fx_address (fx (lit_put cvs r s)) = fx_address (fx s)"
  by (simp_all add: lit_put_def)

text \<open>The offsets of red, green and blue.\<close>

definition rgb_offsets :: "fixture \<Rightarrow> (int \<times> int \<times> int) option" where
  "rgb_offsets f = (case (map_of (channelMap f) ''red'', map_of (channelMap f) ''green'', map_of (channelMap f) ''blue'') of
     (Some i, Some j, Some k) \<Rightarrow> Some (i, j, k) | _ \<Rightarrow> None)"

lemma rgb_offsets_range:
  assumes "channels_ok (channelMap f)" "rgb_offsets f = Some (i, j, k)"
  shows "0 \<le> i" "0 \<le> j" "0 \<le> k" "nat i < length (channelMap f)" "nat j < length (channelMap f)" "nat k < length (channelMap f)"
    "map_of (channelMap f) ''red'' = Some i" "map_of (channelMap f) ''green'' = Some j" "map_of (channelMap f) ''blue'' = Some k"
proof -
  show *: "map_of (channelMap f) ''red'' = Some i" "map_of (channelMap f) ''green'' = Some j" "map_of (channelMap f) ''blue'' = Some k"
    using assms(2) by (simp_all add: rgb_offsets_def split: option.splits)
  show "0 \<le> i" "0 \<le> j" "0 \<le> k" "nat i < length (channelMap f)" "nat j < length (channelMap f)" "nat k < length (channelMap f)"
    using *[THEN channels_ok_offset [OF assms(1)]] by (simp_all add: nat_less_iff)
qed

context dmx_channels
begin

lemma dmx_set_result:
  assumes "mirrored channels ready (drv s)" "block_ok a vs"
  shows "\<exists>r. dmx_set fw (int a) vs s = (Inr (), s\<lparr>drv := \<lparr>dmxShadow = put_block a vs (dmxShadow (drv s)), regs = r\<rparr>\<rparr>) \<and>
    mirrored channels ready \<lparr>dmxShadow = put_block a vs (dmxShadow (drv s)), regs = r\<rparr>"
  using setDMX_mirrored [OF assms(2,1)] by (auto simp: dmx_set_def jon_def)

lemma write_val_result:
  assumes "light_ok channels ready s" "c < length (channelMap (fx s))" "byte_ok v"
  shows "performs channels ready [(c, v)] (write_val fw (int c) v) s"
proof -
  note len = light_ok_lengths [OF assms(1)]
  let ?f = "(fx s)\<lparr>dmxVals := (dmxVals (fx s))[c := v]\<rparr>" and ?a = "nat (fx_address (fx s))"
  have "block_ok (?a + c) [v]" using assms len by (auto simp: block_ok_def)
  moreover have "mirrored channels ready (drv s)" using assms(1) by (simp add: light_ok_def)
  ultimately obtain r where r: "dmx_set fw (int (?a + c)) [v] (s\<lparr>fx := ?f\<rparr>) =
      (Inr (), s\<lparr>fx := ?f, drv := \<lparr>dmxShadow = (dmxShadow (drv s))[?a + c := v], regs = r\<rparr>\<rparr>)"
      "mirrored channels ready \<lparr>dmxShadow = (dmxShadow (drv s))[?a + c := v], regs = r\<rparr>"
    using dmx_set_result [of "s\<lparr>fx := ?f\<rparr>" "?a + c" "[v]"] by auto
  have "int (?a + c) = fx_address (fx s) + int c" using len by simp
  then have "write_val fw (int c) v s = (Inr (), lit_put [(c, v)] r s)"
    using r(1) assms(2) len by (simp add: write_val_def jseq_def jbind_def jread_def set_val_def lit_put_def puts_def)
  moreover have "light_ok channels ready (lit_put [(c, v)] r s)"
    using assms r(2) by (intro light_ok_put) (simp_all add: light_ok_def puts_def)
  ultimately show ?thesis by (auto simp: performs_def)
qed

lemma setChannelManual_result:
  assumes "light_ok channels ready s" "c < length (channelMap (fx s))" "byte_ok v"
  shows "performs channels ready [(c, v)] (setChannelManual fw (int c) v) s"
  using write_val_result [OF assms] assms light_ok_lengths [OF assms(1)]
  by (simp add: performs_def setChannelManual_def jseq_def jbind_def jread_def jcheck_def byte_ok_def not_less)

lemma clearLight_result:
  assumes "light_ok channels ready s"
  shows "performs channels ready (map (\<lambda>c. (c, 0)) [0..<length (channelMap (fx s))]) (clearLight fw) s"
proof -
  have "performs channels ready (map (\<lambda>c. (c, 0)) [0..<length (channelMap (fx s))])
      (jfor [0..<length (channelMap (fx s))] (\<lambda>i. setChannelManual fw (int i) 0)) s"
    by (rule performs_for [OF assms]) (simp add: setChannelManual_result byte_ok_def)
  then show ?thesis by (simp add: clearLight_def performs_def jbind_def jread_def)
qed

lemma setDMXVals_result:
  assumes "light_ok channels ready s" "length vs = length (channelMap (fx s))" "\<forall>v \<in> set vs. byte_ok v"
  shows "performs channels ready (map (\<lambda>c. (c, vs ! c)) [0..<length vs]) (setDMXVals fw vs) s"
proof -
  have "performs channels ready (map (\<lambda>c. (c, vs ! c)) [0..<length vs])
      (jfor [0..<length vs] (\<lambda>i. write_val fw (int i) (vs ! i))) s"
    by (rule performs_for [OF assms(1)]) (use assms(2,3) in \<open>simp add: write_val_result\<close>)
  moreover have "\<not> (\<exists>v \<in> set vs. v < 0 \<or> v > 255)" using assms(3) by (auto simp: byte_ok_def)
  ultimately show ?thesis using assms(2) light_ok_lengths [OF assms(1)]
    by (simp add: setDMXVals_def performs_def jseq_def jbind_def jread_def jcheck_def)
qed

lemma setDimmerValue_result:
  assumes "light_ok channels ready s" "map_of (channelMap (fx s)) ''dimmer'' = Some i" "byte_ok v"
  shows "performs channels ready [(nat i, v)] (setDimmerValue fw v) s"
proof -
  have "0 \<le> i" "nat i < length (channelMap (fx s))"
    using channels_ok_offset [OF _ assms(2)] light_ok_lengths [OF assms(1)] by (simp_all add: nat_less_iff)
  with write_val_result [OF assms(1) this(2) assms(3)] show ?thesis using assms(2,3)
    by (simp add: setDimmerValue_def performs_def jseq_def jbind_def jread_def jcheck_def byte_ok_def)
qed

text \<open>The two ways of writing a colour.\<close>

lemma three_values:
  assumes "light_ok channels ready s" "i < length (channelMap (fx s))" "j < length (channelMap (fx s))"
    "k < length (channelMap (fx s))"
  shows "jseq (set_val (int i) r) (jseq (set_val (int j) g) (jseq (set_val (int k) b) m)) s =
    m (s\<lparr>fx := (fx s)\<lparr>dmxVals := puts 0 [(i, r), (j, g), (k, b)] (dmxVals (fx s))\<rparr>\<rparr>)"
  using assms light_ok_lengths [OF assms(1)]
  by (simp add: jseq_def jbind_def set_val_def puts_def)

lemma separate_writes:
  assumes "light_ok channels ready s" "i < length (channelMap (fx s))" "j < length (channelMap (fx s))"
    "k < length (channelMap (fx s))" "byte_ok r" "byte_ok g" "byte_ok b"
  shows "performs channels ready [(i, r), (j, g), (k, b)] (jseq (set_val (int i) r) (jseq (set_val (int j) g) (jseq (set_val (int k) b)
    (jseq (dmx_set fw (fx_address (fx s) + int i) [r]) (jseq (dmx_set fw (fx_address (fx s) + int j) [g])
      (dmx_set fw (fx_address (fx s) + int k) [b])))))) s"
proof -
  note len = light_ok_lengths [OF assms(1)]
  let ?a = "nat (fx_address (fx s))" and ?cvs = "[(i, r), (j, g), (k, b)]" and ?sh = "dmxShadow (drv s)"
  define t where "t = s\<lparr>fx := (fx s)\<lparr>dmxVals := puts 0 ?cvs (dmxVals (fx s))\<rparr>\<rparr>"
  have b: "block_ok (?a + i) [r]" "block_ok (?a + j) [g]" "block_ok (?a + k) [b]"
    using assms len by (auto simp: block_ok_def)
  have a: "int (?a + c) = fx_address (fx s) + int c" for c using len by simp
  have "mirrored channels ready (drv t)" using assms(1) by (simp add: light_ok_def t_def)
  from dmx_set_result [OF this b(1)] obtain r1 where
    1: "dmx_set fw (int (?a + i)) [r] t = (Inr (), t\<lparr>drv := \<lparr>dmxShadow = ?sh[?a + i := r], regs = r1\<rparr>\<rparr>)"
      "mirrored channels ready (drv (t\<lparr>drv := \<lparr>dmxShadow = ?sh[?a + i := r], regs = r1\<rparr>\<rparr>))" by (auto simp: t_def)
  from dmx_set_result [OF 1(2) b(2)] obtain r2 where
    2: "dmx_set fw (int (?a + j)) [g] (t\<lparr>drv := \<lparr>dmxShadow = ?sh[?a + i := r], regs = r1\<rparr>\<rparr>) =
       (Inr (), t\<lparr>drv := \<lparr>dmxShadow = ?sh[?a + i := r, ?a + j := g], regs = r2\<rparr>\<rparr>)"
      "mirrored channels ready (drv (t\<lparr>drv := \<lparr>dmxShadow = ?sh[?a + i := r, ?a + j := g], regs = r2\<rparr>\<rparr>))" by auto
  from dmx_set_result [OF 2(2) b(3)] obtain r3 where
    3: "dmx_set fw (int (?a + k)) [b] (t\<lparr>drv := \<lparr>dmxShadow = ?sh[?a + i := r, ?a + j := g], regs = r2\<rparr>\<rparr>) =
       (Inr (), t\<lparr>drv := \<lparr>dmxShadow = ?sh[?a + i := r, ?a + j := g, ?a + k := b], regs = r3\<rparr>\<rparr>)"
      "mirrored channels ready \<lparr>dmxShadow = ?sh[?a + i := r, ?a + j := g, ?a + k := b], regs = r3\<rparr>" by auto
  have "t\<lparr>drv := \<lparr>dmxShadow = ?sh[?a + i := r, ?a + j := g, ?a + k := b], regs = r3\<rparr>\<rparr> = lit_put ?cvs r3 s"
    by (simp add: t_def lit_put_def puts_def)
  moreover have "light_ok channels ready (lit_put ?cvs r3 s)"
    using assms 3(2) by (intro light_ok_put) (simp_all add: light_ok_def puts_def)
  ultimately show ?thesis
    using 1(1) 2(1) 3(1) unfolding performs_def three_values [OF assms(1-4)] t_def [symmetric] a
    by (auto simp: jbind_simps)
qed

lemma combined_write:
  assumes "light_ok channels ready s" "3 < length (channelMap (fx s))" "byte_ok r" "byte_ok g" "byte_ok b"
  shows "performs channels ready [(1, r), (2, g), (3, b)] (jseq (set_val 1 r) (jseq (set_val 2 g) (jseq (set_val 3 b)
    (dmx_set fw (fx_address (fx s) + 1) [r, g, b])))) s"
proof -
  note len = light_ok_lengths [OF assms(1)]
  let ?a = "nat (fx_address (fx s))" and ?cvs = "[(1, r), (2, g), (3, b)]" and ?sh = "dmxShadow (drv s)"
  define t where "t = s\<lparr>fx := (fx s)\<lparr>dmxVals := puts 0 ?cvs (dmxVals (fx s))\<rparr>\<rparr>"
  have b: "block_ok (?a + 1) [r, g, b]" using assms len by (auto simp: block_ok_def)
  have t: "drv t = drv s" by (simp add: t_def)
  have "mirrored channels ready (drv t)" using assms(1) by (simp add: light_ok_def t)
  from dmx_set_result [OF this b] obtain r' where r': "dmx_set fw (int (?a + 1)) [r, g, b] t =
      (Inr (), t\<lparr>drv := \<lparr>dmxShadow = put_block (?a + 1) [r, g, b] ?sh, regs = r'\<rparr>\<rparr>)"
      "mirrored channels ready \<lparr>dmxShadow = put_block (?a + 1) [r, g, b] ?sh, regs = r'\<rparr>"
    unfolding t by blast
  have p: "put_block (?a + 1) [r, g, b] ?sh = puts ?a ?cvs ?sh" by (simp add: puts_def numeral_eq_Suc)
  have "t\<lparr>drv := \<lparr>dmxShadow = put_block (?a + 1) [r, g, b] ?sh, regs = r'\<rparr>\<rparr> = lit_put ?cvs r' s"
    by (simp only: p) (simp add: t_def lit_put_def)
  moreover have "light_ok channels ready (lit_put ?cvs r' s)"
    using assms r'(2) unfolding p by (intro light_ok_put) (simp_all add: light_ok_def)
  moreover have "int (?a + 1) = fx_address (fx s) + 1" using len by simp
  moreover have "jseq (set_val 1 r) (jseq (set_val 2 g) (jseq (set_val 3 b) m)) s = m t" for m
    using three_values [of s 1 2 3 r g b m] assms(1,2) by (simp add: t_def)
  ultimately show ?thesis using r'(1) unfolding performs_def by metis
qed

lemma setColor_result:
  assumes "light_ok channels ready s" "rgb_offsets (fx s) = Some (i, j, k)" "byte_ok r" "byte_ok g" "byte_ok b"
  shows "performs channels ready [(nat i, r), (nat j, g), (nat k, b)] (setColor fw (r, g, b)) s"
proof -
  have "channels_ok (channelMap (fx s))" using light_ok_lengths [OF assms(1)] by simp
  note o = rgb_offsets_range [OF this assms(2)]
  show ?thesis
  proof (cases "i = 1 \<and> j = 2 \<and> k = 3")
    case True
    then have "setColor fw (r, g, b) s = jseq (set_val 1 r) (jseq (set_val 2 g) (jseq (set_val 3 b)
        (dmx_set fw (fx_address (fx s) + 1) [r, g, b]))) s"
      using o(7-9) by (simp add: setColor_def jbind_def jread_def)
    with True combined_write [OF assms(1) _ assms(3-5)] o(6) show ?thesis by (simp add: performs_def)
  next
    case False
    then have "setColor fw (r, g, b) s = jseq (set_val i r) (jseq (set_val j g) (jseq (set_val k b)
        (jseq (dmx_set fw (fx_address (fx s) + i) [r]) (jseq (dmx_set fw (fx_address (fx s) + j) [g])
          (dmx_set fw (fx_address (fx s) + k) [b]))))) s"
      unfolding setColor_def using o(7-9) by (simp add: jbind_def jread_def if_not_P)
    with separate_writes [OF assms(1) o(4-6) assms(3-5)] o(1-3) show ?thesis by (simp add: performs_def)
  qed
qed

end

subsection \<open>The operations and what they promise\<close>

datatype fixture_op = Set_vals "int list" | Set_channel int int | Set_color color | Set_white int | Set_dimmer int | Clear

fun run_op :: "'r file_write \<Rightarrow> fixture_op \<Rightarrow> ('r light, unit) java" where
  "run_op fw (Set_vals vs) = setDMXVals fw vs"
| "run_op fw (Set_channel c v) = setChannelManual fw c v"
| "run_op fw (Set_color c) = setColor fw c"
| "run_op fw (Set_white v) = setWhite fw v"
| "run_op fw (Set_dimmer v) = setDimmerValue fw v"
| "run_op fw Clear = clearLight fw"

text \<open>The exception an operation ends with, or the offsets and values it writes.\<close>

definition channel_spec :: "fixture \<Rightarrow> int \<Rightarrow> int \<Rightarrow> java_exception + (nat \<times> int) list" where
  "channel_spec f c v = (if 0 \<le> c \<and> c < getNumChannels f \<and> byte_ok v then Inr [(nat c, v)] else Inl Illegal_argument)"

definition color_spec :: "fixture \<Rightarrow> color \<Rightarrow> java_exception + (nat \<times> int) list" where
  "color_spec f c = (case (rgb_offsets f, c) of
     (Some (i, j, k), (r, g, b)) \<Rightarrow> Inr [(nat i, r), (nat j, g), (nat k, b)]
   | _ \<Rightarrow> Inl Unsupported_operation)"

fun fixture_spec :: "fixture \<Rightarrow> fixture_op \<Rightarrow> java_exception + (nat \<times> int) list" where
  "fixture_spec f (Set_vals vs) =
     (if length vs = length (channelMap f) \<and> list_all byte_ok vs then Inr (map (\<lambda>c. (c, vs ! c)) [0..<length vs])
      else Inl Illegal_argument)"
| "fixture_spec f (Set_channel c v) = channel_spec f c v"
| "fixture_spec f (Set_color c) = color_spec f c"
| "fixture_spec f (Set_white v) = (case map_of (channelMap f) ''white'' of Some i \<Rightarrow> channel_spec f i v | None \<Rightarrow> color_spec f WHITE)"
| "fixture_spec f (Set_dimmer v) =
     (if byte_ok v then (case map_of (channelMap f) ''dimmer'' of Some i \<Rightarrow> Inr [(nat i, v)] | None \<Rightarrow> Inl Null_pointer)
      else Inl Illegal_argument)"
| "fixture_spec f Clear = Inr (map (\<lambda>c. (c, 0)) [0..<length (channelMap f)])"

text \<open>A \<open>Color\<close> has bytes.\<close>

fun op_typed :: "fixture_op \<Rightarrow> bool" where
  "op_typed (Set_color (r, g, b)) \<longleftrightarrow> byte_ok r \<and> byte_ok g \<and> byte_ok b"
| "op_typed _ \<longleftrightarrow> True"

context dmx_channels
begin

lemma setChannelManual_spec:
  assumes "light_ok channels ready s"
  shows "case channel_spec (fx s) c v of Inl e \<Rightarrow> setChannelManual fw c v s = (Inl e, s)
    | Inr cvs \<Rightarrow> performs channels ready cvs (setChannelManual fw c v) s"
proof (cases "0 \<le> c \<and> c < getNumChannels (fx s) \<and> byte_ok v")
  case True
  then have "nat c < length (channelMap (fx s))" by (simp add: getNumChannels_def nat_less_iff)
  with setChannelManual_result [OF assms this] True show ?thesis by (simp add: channel_spec_def)
next
  case False
  then show ?thesis using light_ok_lengths [OF assms]
    by (auto simp: channel_spec_def setChannelManual_def jseq_def jbind_def jread_def jcheck_def byte_ok_def getNumChannels_def)
qed

lemma setColor_spec:
  assumes "light_ok channels ready s" "op_typed (Set_color c)"
  shows "case color_spec (fx s) c of Inl e \<Rightarrow> setColor fw c s = (Inl e, s)
    | Inr cvs \<Rightarrow> performs channels ready cvs (setColor fw c) s"
proof (cases "rgb_offsets (fx s)")
  case None
  then show ?thesis
    by (cases c) (auto simp: color_spec_def setColor_def rgb_offsets_def jbind_def jread_def jthrow_def split: option.splits)
next
  case (Some ijk)
  then show ?thesis using setColor_result [OF assms(1)] assms(2) by (cases ijk; cases c) (simp add: color_spec_def)
qed

lemma run_op_spec:
  assumes "light_ok channels ready s" "op_typed oper"
  shows "case fixture_spec (fx s) oper of Inl e \<Rightarrow> run_op fw oper s = (Inl e, s)
    | Inr cvs \<Rightarrow> performs channels ready cvs (run_op fw oper) s"
proof (cases oper)
  case (Set_vals vs)
  have "setDMXVals fw vs s = (Inl Illegal_argument, s)" if "\<not> (length vs = length (channelMap (fx s)) \<and> list_all byte_ok vs)"
    using that light_ok_lengths [OF assms(1)]
    by (auto simp: setDMXVals_def jseq_def jbind_def jread_def jcheck_def list_all_iff byte_ok_def)
  with Set_vals setDMXVals_result [OF assms(1), of vs] show ?thesis by (auto simp: list_all_iff)
next
  case (Set_white v)
  have "setWhite fw v s = (case map_of (channelMap (fx s)) ''white'' of Some i \<Rightarrow> setChannelManual fw i v | None \<Rightarrow> setColor fw WHITE) s"
    by (simp add: setWhite_def jbind_def jread_def)
  then show ?thesis
    using setChannelManual_spec [OF assms(1), of "the (map_of (channelMap (fx s)) ''white'')" v]
      setColor_spec [OF assms(1), of WHITE] Set_white
    by (cases "map_of (channelMap (fx s)) ''white''") (simp_all add: byte_ok_def performs_def split: sum.splits)
next
  case (Set_dimmer v)
  then show ?thesis using setDimmerValue_result [OF assms(1)]
    by (cases "map_of (channelMap (fx s)) ''dimmer''")
      (auto simp: setDimmerValue_def jseq_def jbind_def jread_def jcheck_def jthrow_def byte_ok_def)
next
  case (Set_channel c v)
  show ?thesis unfolding Set_channel run_op.simps fixture_spec.simps by (rule setChannelManual_spec [OF assms(1)])
next
  case (Set_color c)
  show ?thesis unfolding Set_color run_op.simps fixture_spec.simps
    by (rule setColor_spec [OF assms(1)]) (use assms(2) Set_color in simp)
next
  case Clear
  then show ?thesis using clearLight_result [OF assms(1)] by simp
qed

end

lemma puts_outside:
  "\<lbrakk>\<forall>(c, v) \<in> set cvs. c < n; i < a \<or> a + n \<le> i\<rbrakk> \<Longrightarrow> puts a cvs xs ! i = xs ! i"
proof (induction cvs arbitrary: xs)
  case (Cons cv cvs)
  obtain c v where cv: "cv = (c, v)" by fastforce
  with Cons.prems have "c < n" by simp
  with Cons.prems(2) have "xs[a + c := v] ! i = xs ! i" by (auto intro: nth_list_update_neq)
  with Cons.IH [of "xs[a + c := v]"] Cons.prems show ?case by (simp add: puts_def cv)
qed (simp add: puts_def)

lemma fixture_spec_offsets:
  assumes "fixture_ok f" "fixture_spec f oper = Inr cvs"
  shows "\<forall>(c, v) \<in> set cvs. c < length (channelMap f)"
proof -
  have m: "channels_ok (channelMap f)" using assms(1) by (simp add: fixture_ok_def)
  have "rgb_offsets f = Some (i, j, k) \<Longrightarrow> nat i < length (channelMap f) \<and> nat j < length (channelMap f) \<and> nat k < length (channelMap f)" for i j k
    using rgb_offsets_range [OF m] by blast
  moreover have "map_of (channelMap f) c = Some i \<Longrightarrow> nat i < length (channelMap f)" for c i
    using channels_ok_offset [OF m] by (simp add: nat_less_iff)
  ultimately show ?thesis using assms(2)
    by (cases oper) (auto simp: channel_spec_def color_spec_def getNumChannels_def nat_less_iff split: if_splits option.splits)
qed

subsection \<open>The set file is read back\<close>

lemma read_channels_result:
  "put_channels e cs i m = Inr m' \<Longrightarrow> read_channels (length cs) i m (map Item_string cs @ r) = (Inr m', r)"
  by (induction cs arbitrary: i m) (auto simp: jret_def jbind_def jthrow_def next_string_def split: if_splits)

text \<open>A fixture as it is read: not selected, and all values zero.\<close>

definition as_stored :: "fixture \<Rightarrow> fixture" where
  "as_stored f = f\<lparr>isSelected := False, dmxVals := replicate (length (channelMap f)) 0\<rparr>"

lemma readObject_writeObject:
  assumes "fixture_ok f" "fx_name f \<noteq> []"
  shows "fst (readObject (writeObject f)) = (if 0 \<le> defaultColorOffs f then Inr (as_stored f) else Inl IO_exception)"
proof -
  let ?m = "channelMap f" and ?n = "length (channelMap f)"
  have ok: "channels_ok ?m" using assms(1) by (simp add: fixture_ok_def)
  have "sorted (map snd ?m)" using ok by (auto simp: channels_ok_def sorted_iff_nth_mono)
  then have "map (Item_string \<circ> fst) (sort_key snd ?m) = map Item_string (map fst ?m)"
    by (simp add: sort_key_id_if_sorted)
  then have "writeObject f = [Item_string (fx_name f), Item_int (fx_address f), Item_int (defaultColorOffs f), Item_int (int ?n)] @
      map Item_string (map fst ?m)"
    by (simp add: writeObject_def getNumChannels_def)
  moreover have "read_channels ?n 0 [] (map Item_string (map fst ?m)) = (Inr ?m, [])"
    using read_channels_result [OF put_channels_same [OF ok, of IO_exception], of "[]"] by simp
  moreover have "sint (word_of_int (int ?n + fx_address f) :: u32) \<le> 513"
    using assms(1) sint_of_int32 [of "int ?n + fx_address f"] by (simp add: fixture_ok_def getNumChannels_def int32_def)
  moreover have "defaultColorOffs f < int ?n" using assms(1) by (simp add: fixture_ok_def getNumChannels_def)
  ultimately show ?thesis using assms(2)
    by (cases f) (simp add: readObject_def jbind_def jseq_def jcheck_def jret_def next_string_def next_int_def as_stored_def not_less)
qed

lemma load_fixtures_saved:
  assumes "\<forall>f \<in> set fs. fixture_ok f \<and> fx_name f \<noteq> []"
  shows "load_fixtures (length fs) (map (Some \<circ> writeObject) fs) =
    (if \<forall>f \<in> set fs. 0 \<le> defaultColorOffs f then Inr (map as_stored fs) else Inl IO_exception)"
  using assms by (induction fs) (auto simp: readObject_writeObject)

subsection \<open>Properties\<close>

text \<open>
  C11: A fixture writes exactly what was asked for. On a working board every operation of a
  fixture either throws the exception its specification names and changes nothing, or
  writes the specified values at the specified offsets, to the fixture's copy, to the
  driver's shadow and to the hardware alike. No channel of another address changes, and a
  copy that was in step with the driver stays in step.
\<close>

theorem fixture_refines_spec:
  assumes "fixture_ok (fx s)" "board_mirrored (drv s)" "op_typed oper"
  shows "case fixture_spec (fx s) oper of
      Inl e \<Rightarrow> run_op (sysfs_file garbage (p # q # ps)) oper s = (Inl e, s)
    | Inr cvs \<Rightarrow> \<exists>r. run_op (sysfs_file garbage (p # q # ps)) oper s = (Inr (), lit_put cvs r s) \<and>
        fixture_ok (fx (lit_put cvs r s)) \<and> board_mirrored (drv (lit_put cvs r s)) \<and>
        (synced s \<longrightarrow> synced (lit_put cvs r s)) \<and>
        (\<forall>i. i < nat (fx_address (fx s)) \<or> nat (fx_address (fx s)) + length (channelMap (fx s)) \<le> i \<longrightarrow>
           dmxShadow (drv (lit_put cvs r s)) ! i = dmxShadow (drv s) ! i)"
proof -
  have "light_ok (\<lambda>s. DMX_data (hw s)) board_ready s" using assms(1,2) by (simp add: light_ok_def board_mirrored_def)
  note spec = board_dmx.run_op_spec [OF this assms(3), of garbage p q ps]
  show ?thesis
  proof (cases "fixture_spec (fx s) oper")
    case (Inl e)
    with spec show ?thesis by simp
  next
    case (Inr cvs)
    note out = puts_outside [OF fixture_spec_offsets [OF assms(1) Inr]]
    from spec Inr obtain r where r: "run_op (sysfs_file garbage (p # q # ps)) oper s = (Inr (), lit_put cvs r s)"
        "light_ok (\<lambda>s. DMX_data (hw s)) board_ready (lit_put cvs r s)"
      by (auto simp: performs_def)
    then show ?thesis using synced_lit_put [of s cvs r] out
      by (auto simp: Inr light_ok_def board_mirrored_def lit_put_def intro!: exI [of _ r])
  qed
qed

text \<open>A fixture as the channel list for one type of light makes it, on a board after reset.\<close>

definition demo_light :: "ece453 driver light" where
  "demo_light = \<lparr>fx = \<lparr>fx_name = ''l'', fx_address = 5, defaultColorOffs = 1, isSelected = False,
     channelMap = [(''dimmer'', 0), (''red'', 1), (''green'', 2), (''blue'', 3)], dmxVals = [0, 0, 0, 0]\<rparr>, drv = fresh_dmx\<rparr>"

lemma demo_light_ok: "fixture_ok (fx demo_light)" "board_mirrored (drv demo_light)"
proof -
  show "board_mirrored (drv demo_light)" using fresh_mirrored by (simp add: demo_light_def)
  have "[0..<4] = [0, 1, 2, 3::nat]" by (simp add: upt_rec)
  then show "fixture_ok (fx demo_light)"
    by (simp add: demo_light_def fixture_ok_def channels_ok_def getNumChannels_def byte_ok_def)
qed

theorem fixture_refines_spec_witness:
  "\<exists>r. run_op (sysfs_file 0 [0, 0]) (Set_color (9, 8, 7)) demo_light = (Inr (), lit_put [(1, 9), (2, 8), (3, 7)] r demo_light)"
proof -
  have "op_typed (Set_color (9, 8, 7))" by (simp add: byte_ok_def)
  moreover have "fixture_spec (fx demo_light) (Set_color (9, 8, 7)) = Inr [(1, 9), (2, 8), (3, 7)]"
    by (simp add: demo_light_def color_spec_def rgb_offsets_def)
  ultimately show ?thesis using fixture_refines_spec [OF demo_light_ok, of "Set_color (9, 8, 7)" 0 0 0 "[]"] by auto
qed

text \<open>
  C25: The combined write of a colour is the three single ones. Where red, green and blue lie
  at the offsets 1, 2 and 3, \<open>setColor\<close> sends them in one transfer of three bytes, otherwise
  in three transfers: either way fixture, driver and hardware end as after three calls of
  \<open>setChannelManual\<close>.
\<close>

theorem set_color_equals_single_writes:
  assumes "fixture_ok (fx s)" "board_mirrored (drv s)" "rgb_offsets (fx s) = Some (i, j, k)"
    "byte_ok r" "byte_ok g" "byte_ok b"
  shows "\<exists>s1 s2. setColor (sysfs_file garbage (p # q # ps)) (r, g, b) s = (Inr (), s1) \<and>
    jseq (setChannelManual (sysfs_file garbage (p # q # ps)) i r) (jseq (setChannelManual (sysfs_file garbage (p # q # ps)) j g)
      (setChannelManual (sysfs_file garbage (p # q # ps)) k b)) s = (Inr (), s2) \<and>
    fx s1 = fx s2 \<and> getDmx (drv s1) = getDmx (drv s2) \<and> tl (DMX_data (hw (regs (drv s1)))) = tl (DMX_data (hw (regs (drv s2))))"
proof -
  let ?C = "\<lambda>s. DMX_data (hw s)" and ?fw = "sysfs_file garbage (p # q # ps)" and ?cvs = "[(nat i, r), (nat j, g), (nat k, b)]"
  have ok: "light_ok ?C board_ready s" using assms(1,2) by (simp add: light_ok_def board_mirrored_def)
  have "channels_ok (channelMap (fx s))" using assms(1) by (simp add: fixture_ok_def)
  note o = rgb_offsets_range [OF this assms(3)]
  have 1: "performs ?C board_ready ?cvs (setColor ?fw (r, g, b)) s"
    by (rule board_dmx.setColor_result [OF ok assms(3-6)])
  have single: "performs ?C board_ready [(nat c, v)] (setChannelManual ?fw c v) t"
    if "light_ok ?C board_ready t" "channelMap (fx t) = channelMap (fx s)" "0 \<le> c" "nat c < length (channelMap (fx s))" "byte_ok v" for c v t
    using board_dmx.setChannelManual_result [OF that(1), of "nat c" v garbage p q ps] that(2-5) by simp
  have "performs ?C board_ready ([(nat i, r)] @ [(nat j, g)] @ [(nat k, b)]) (jseq (setChannelManual ?fw i r)
      (jseq (setChannelManual ?fw j g) (setChannelManual ?fw k b))) s"
    by (intro performs_seq single) (use ok o assms(4-6) in simp_all)
  then have 2: "performs ?C board_ready ?cvs (jseq (setChannelManual ?fw i r)
      (jseq (setChannelManual ?fw j g) (setChannelManual ?fw k b))) s" by simp
  from 1 2 obtain r1 r2 where
    "setColor ?fw (r, g, b) s = (Inr (), lit_put ?cvs r1 s)" "light_ok ?C board_ready (lit_put ?cvs r1 s)"
    "jseq (setChannelManual ?fw i r) (jseq (setChannelManual ?fw j g) (setChannelManual ?fw k b)) s = (Inr (), lit_put ?cvs r2 s)"
    "light_ok ?C board_ready (lit_put ?cvs r2 s)"
    unfolding performs_def by blast
  then show ?thesis by (auto simp: lit_put_def getDmx_def light_ok_def mirrored_def)
qed

theorem set_color_equals_single_writes_witness:
  "\<exists>s1 s2. setColor (sysfs_file 0 [0, 0]) (255, 0, 1) demo_light = (Inr (), s1) \<and>
    jseq (setChannelManual (sysfs_file 0 [0, 0]) 1 255) (jseq (setChannelManual (sysfs_file 0 [0, 0]) 2 0)
      (setChannelManual (sysfs_file 0 [0, 0]) 3 1)) demo_light = (Inr (), s2) \<and> fx s1 = fx s2"
proof -
  have "rgb_offsets (fx demo_light) = Some (1, 2, 3)" by (simp add: demo_light_def rgb_offsets_def)
  moreover have "byte_ok 255" "byte_ok 0" "byte_ok 1" by (simp_all add: byte_ok_def)
  ultimately show ?thesis using set_color_equals_single_writes [OF demo_light_ok, of 1 2 3 255 0 1 0 0 0 "[]"] by blast
qed

text \<open>
  A set file is read back, or refused. Saving a set of fixtures under a name and loading
  that file gives the same fixtures in the order of their addresses, not selected and with
  all values zero, if each of them has a colour channel. A set with a fixture that has
  none is saved all the same and can not be loaded again.
\<close>

theorem set_file_round_trip:
  assumes "\<forall>f \<in> set fs. fixture_ok f \<and> fx_name f \<noteq> []" "inside (set_file_name name)"
  shows "\<exists>files'. saveSetFile inside fs name files = (Inr (), files') \<and>
    FixtureManager inside files' (set_file_name name) =
      (if \<forall>f \<in> set fs. 0 \<le> defaultColorOffs f then Inr (sort_key fx_address (map as_stored fs)) else Inl IO_exception) \<and>
    (\<forall>other. other \<noteq> set_file_name name \<longrightarrow> files' other = files other)"
  using load_fixtures_saved [OF assms(1)] assms(2) by (simp add: saveSetFile_def FixtureManager_def Let_def)

theorem set_file_round_trip_witness:
  "\<exists>files'. saveSetFile (\<lambda>_. True) [fx demo_light] ''a'' Map.empty = (Inr (), files') \<and>
    FixtureManager (\<lambda>_. True) files' ''a.set'' = Inr [fx demo_light]"
proof -
  have "\<forall>f \<in> set [fx demo_light]. fixture_ok f \<and> fx_name f \<noteq> []" using demo_light_ok(1) by (simp add: demo_light_def)
  moreover have "as_stored (fx demo_light) = fx demo_light" "0 \<le> defaultColorOffs (fx demo_light)" "set_file_name ''a'' = ''a.set''"
    by (simp_all add: demo_light_def as_stored_def set_file_name_def numeral_eq_Suc)
  ultimately show ?thesis using set_file_round_trip [of "[fx demo_light]" "\<lambda>_. True" "''a''" Map.empty] by auto
qed

text \<open>
  The constructor does not check the end of the universe. A fixture whose channels go
  beyond address 512 is made without an exception, although \<open>setAddress\<close> refuses the
  same address; writing its last channel changes the fixture's copy, then ends with an
  \<open>IllegalArgumentException\<close> and nothing reaches the hardware.
\<close>

theorem fixture_end_unchecked:
  assumes "distinct channels" "[] \<notin> set channels" "channels \<noteq> []" "length channels \<le> 512"
    "513 < a + int (length channels)" "a \<le> 512" "1 \<le> a" "byte_ok v"
  shows "\<exists>f. FixtureProfile False name a channels = Inr f \<and> setAddress a f = Inl Illegal_argument \<and>
    setChannelManual fw (getNumChannels f - 1) v \<lparr>fx = f, drv = d\<rparr> =
      (Inl Illegal_argument, \<lparr>fx = f\<lparr>dmxVals := (replicate (length channels) 0)[length channels - 1 := v]\<rparr>, drv = d\<rparr>)"
proof -
  let ?n = "length channels"
  have "put_channels Illegal_argument channels 0 [] = Inr (zip channels (map int [0..<?n]))"
    using put_channels_result [of "[]" 0 Illegal_argument channels] assms(1,2) by (simp add: channels_ok_def)
  then obtain f where f: "FixtureProfile False name a channels = Inr f" "fx_address f = a" "getNumChannels f = int ?n"
      "dmxVals f = replicate ?n 0"
    using assms(3,4,7) by (auto simp: FixtureProfile_def Let_def getNumChannels_def Suc_le_eq)
  have "sint (word_of_int (a + int ?n) :: u32) = a + int ?n"
    using assms(4,6,7) by (intro sint_of_int32) (simp add: int32_def)
  then have "setAddress a f = Inl Illegal_argument" using assms(5) by (simp add: setAddress_def f)
  moreover have "0 \<le> int ?n - 1" "int ?n - 1 < int ?n" "nat (int ?n - 1) = ?n - 1" using assms(3) by (cases channels; simp)+
  then have "setChannelManual fw (int ?n - 1) v \<lparr>fx = f, drv = d\<rparr> =
      (Inl Illegal_argument, \<lparr>fx = f\<lparr>dmxVals := (replicate ?n 0)[?n - 1 := v]\<rparr>, drv = d\<rparr>)"
    using assms(5,8) f(2,4) by (simp add: setChannelManual_def write_val_def dmx_set_def setDMX_def java set_val_def jseq_def byte_ok_def)
  ultimately show ?thesis using f by auto
qed

theorem fixture_end_unchecked_witness:
  "\<exists>f. FixtureProfile False ''spot'' 512 [''dimmer'', ''red''] = Inr f \<and> setAddress 512 f = Inl Illegal_argument"
proof -
  have "byte_ok 0" by (simp add: byte_ok_def)
  then show ?thesis using fixture_end_unchecked [of "[''dimmer'', ''red'']" 512 0 "''spot''"] by auto
qed

end
