(* ===== verification/Scenes.thy ===== *)
theory Scenes
  imports Java_Prelude Hex_Text
begin

text \<open>
  The scenes of the base station, \<open>lighting/Scene.java\<close> and \<open>lighting/SceneManager.java\<close>: a
  list of saved channel values, the scene that is being worked on, an index into the list
  (-1 for the scene being worked on), and the file the list is kept in, one line of text for
  each scene. The constructors of \<open>Scene\<close> copy the array, so a scene is its list of values.
\<close>

record scene_manager =
  scenes :: "int list list"
  currentScene :: "int list"
  currentIndex :: int
  scene_file :: "string list option"

subsection \<open>Text\<close>

text \<open>\<open>String.split\<close> with a comma: trailing empty strings are dropped.\<close>

fun pieces :: "char \<Rightarrow> string \<Rightarrow> string list" where
  "pieces c [] = [[]]"
| "pieces c (x # xs) =
     (if x = c then [] # pieces c xs else (case pieces c xs of [] \<Rightarrow> [[x]] | w # ws \<Rightarrow> (x # w) # ws))"

definition java_split :: "char \<Rightarrow> string \<Rightarrow> string list" where
  "java_split c s = (if c \<notin> set s then [s] else rev (dropWhile (\<lambda>w. w = []) (rev (pieces c s))))"

text \<open>\<open>Integer.parseInt\<close>; \<open>None\<close> is a \<open>NumberFormatException\<close>.\<close>

definition parseDigits :: "bool \<Rightarrow> string \<Rightarrow> int option" where
  "parseDigits neg ds =
     (let v = (if neg then - int (dec_fold 0 ds) else int (dec_fold 0 ds)) in
      if ds = [] \<or> (\<exists>c \<in> set ds. dec_val c = None) \<or> \<not> int32 v then None else Some v)"

fun parseInt :: "string \<Rightarrow> int option" where
  "parseInt [] = None"
| "parseInt (c # cs) =
     (if c = CHR ''-'' then parseDigits True cs else if c = CHR ''+'' then parseDigits False cs
      else parseDigits False (c # cs))"

subsection \<open>Operations\<close>

definition addScene :: "int list \<Rightarrow> scene_manager \<Rightarrow> scene_manager" where
  "addScene v m = m\<lparr>scenes := scenes m @ [v]\<rparr>"

text \<open>\<open>deleteScene()\<close> and \<open>deleteScene(int)\<close>.\<close>

definition deleteScene :: "(scene_manager, unit) java" where
  "deleteScene m =
     (if currentIndex m \<noteq> -1 then
        if 0 \<le> currentIndex m \<and> currentIndex m < int (length (scenes m))
        then (Inr (), m\<lparr>scenes := take (nat (currentIndex m)) (scenes m) @ drop (Suc (nat (currentIndex m))) (scenes m),
                        currentIndex := -1\<rparr>)
        else (Inl Index_out_of_bounds, m)
      else (Inr (), m))"

definition deleteScene_at :: "int \<Rightarrow> scene_manager \<Rightarrow> scene_manager" where
  "deleteScene_at index m =
     (if index \<ge> int (length (scenes m)) \<or> index < 0 then m
      else m\<lparr>scenes := take (nat index) (scenes m) @ drop (Suc (nat index)) (scenes m)\<rparr>)"

definition getNextScene :: "scene_manager \<Rightarrow> int list \<times> scene_manager" where
  "getNextScene m =
     (let m = m\<lparr>currentIndex := currentIndex m + 1\<rparr> in
      if currentIndex m \<ge> int (length (scenes m)) \<or> length (scenes m) = 0
      then (currentScene m, m\<lparr>currentIndex := -1\<rparr>)
      else (scenes m ! nat (currentIndex m), m))"

definition getLastScene :: "scene_manager \<Rightarrow> int list \<times> scene_manager" where
  "getLastScene m =
     (if currentIndex m = -1 \<and> length (scenes m) \<noteq> 0 then
        let m = m\<lparr>currentIndex := int (length (scenes m)) - 1\<rparr> in (scenes m ! nat (currentIndex m), m)
      else
        let m = m\<lparr>currentIndex := currentIndex m - 1\<rparr> in
        if currentIndex m < 0 \<or> length (scenes m) = 0 then (currentScene m, m\<lparr>currentIndex := -1\<rparr>)
        else (scenes m ! nat (currentIndex m), m))"

definition setCurrentScene :: "int list \<Rightarrow> scene_manager \<Rightarrow> scene_manager" where
  "setCurrentScene v m = m\<lparr>currentIndex := -1, currentScene := v\<rparr>"

definition getSceneCount :: "scene_manager \<Rightarrow> int" where
  "getSceneCount m = int (length (scenes m))"

subsection \<open>The file\<close>

text \<open>
  One line of the file, and writing them all. The file is deleted first; an error of the
  file system deletes what was written so far and is passed on. \<open>io\<close> is the number of lines
  that can be written before such an error, \<open>None\<close> for no error.
\<close>

definition scene_line :: "int list \<Rightarrow> string" where
  "scene_line v = concat (map (\<lambda>i. sprintf_i (v ! i) @ (if i \<noteq> 512 then '','' else [])) [0..<513])"

fun write_scenes :: "nat option \<Rightarrow> int list list \<Rightarrow> string list \<Rightarrow> (java_exception + unit) \<times> string list option" where
  "write_scenes io [] lines = (Inr (), Some lines)"
| "write_scenes io (v # vs) lines =
     (if length v < 513 then (Inl Index_out_of_bounds, Some lines)
      else if io = Some 0 then (Inl IO_exception, None)
      else write_scenes (map_option (\<lambda>n. n - 1) io) vs (lines @ [scene_line v]))"

definition updateSceneFile :: "nat option \<Rightarrow> (scene_manager, unit) java" where
  "updateSceneFile io m = (case write_scenes io (scenes m) [] of (r, f) \<Rightarrow> (r, m\<lparr>scene_file := f\<rparr>))"

definition parse_fields :: "string list \<Rightarrow> java_exception + int list" where
  "parse_fields ws =
     (let ns = map parseInt (take 513 ws) in
      if None \<in> set ns then Inl Illegal_argument
      else if length ns < 513 then Inl Index_out_of_bounds
      else Inr (map the ns))"

fun parse_lines :: "string list \<Rightarrow> (scene_manager, unit) java" where
  "parse_lines [] = jret ()"
| "parse_lines (l # ls) =
     (case parse_fields (java_split (CHR '','') l) of
        Inl e \<Rightarrow> jthrow e
      | Inr v \<Rightarrow> jseq (jmodify (addScene v)) (parse_lines ls))"

text \<open>The constructor, given the values of the driver and the file as it is found.\<close>

definition SceneManager :: "int list \<Rightarrow> string list option \<Rightarrow> (java_exception + unit) \<times> scene_manager" where
  "SceneManager dmxVals file =
     (let m = \<lparr>scenes = [], currentScene = dmxVals, currentIndex = -1, scene_file = file\<rparr> in
      case file of
        None \<Rightarrow> (Inr (), m\<lparr>scene_file := Some []\<rparr>)
      | Some lines \<Rightarrow> parse_lines lines m)"

subsection \<open>Lemmas\<close>

lemma pieces_no_sep: "c \<notin> set w \<Longrightarrow> pieces c w = [w]"
  by (induction w) auto

lemma pieces_append: "c \<notin> set w \<Longrightarrow> pieces c (w @ c # s) = w # pieces c s"
proof (induction w)
  case (Cons x w)
  then show ?case by (auto split: list.splits)
qed simp

lemma pieces_joined:
  assumes "\<forall>i \<in> {j..n}. c \<notin> set (f i)" "j \<le> n"
  shows "pieces c (concat (map (\<lambda>i. f i @ (if i \<noteq> n then [c] else [])) [j..<Suc n])) = map f [j..<Suc n]"
  using assms
proof (induction "n - j" arbitrary: j)
  case 0
  then show ?case by (simp add: pieces_no_sep)
next
  case (Suc k)
  then have "j < n" by simp
  with Suc have "pieces c (concat (map (\<lambda>i. f i @ (if i \<noteq> n then [c] else [])) [Suc j..<Suc n])) = map f [Suc j..<Suc n]"
    by (intro Suc.hyps(1)) auto
  moreover have "[j..<Suc n] = j # [Suc j..<Suc n]" using \<open>j < n\<close> by (simp add: upt_conv_Cons)
  ultimately show ?case using Suc.prems \<open>j < n\<close> by (simp add: pieces_append del: upt_Suc)
qed

lemma sprintf_i_chars: "CHR '','' \<notin> set (sprintf_i v)" "sprintf_i v \<noteq> []"
proof -
  have "dec_val (CHR '','') = None" by (simp add: dec_val.simps)
  then have "CHR '','' \<notin> set (sprintf_nat n)" for n using sprintf_nat_digits [of n] by fastforce
  then show "CHR '','' \<notin> set (sprintf_i v)" "sprintf_i v \<noteq> []" by (simp_all add: sprintf_i_def sprintf_nat_nonempty)
qed

lemma parseInt_sprintf: "int32 v \<Longrightarrow> parseInt (sprintf_i v) = Some v"
proof -
  assume v: "int32 v"
  have d: "\<not> (\<exists>c \<in> set (sprintf_nat n). dec_val c = None)" "sprintf_nat n \<noteq> []" "dec_fold 0 (sprintf_nat n) = n" for n
    using sprintf_nat_digits [of n] by (simp_all add: sprintf_nat_nonempty dec_fold_sprintf)
  show ?thesis
  proof (cases "v < 0")
    case True
    then show ?thesis using v d [of "nat (- v)"] by (simp add: sprintf_i_def parseDigits_def Let_def)
  next
    case False
    obtain c cs where c: "sprintf_nat (nat v) = c # cs" by (meson d(2) list.exhaust)
    have "dec_val (CHR ''-'') = None" "dec_val (CHR ''+'') = None" by (simp_all add: dec_val.simps)
    then have "c \<noteq> CHR ''-''" "c \<noteq> CHR ''+''" using d(1) [of "nat v"] by (auto simp: c)
    then show ?thesis using v False d [of "nat v"] by (simp add: sprintf_i_def c parseDigits_def Let_def)
  qed
qed

text \<open>A line that was written is read back.\<close>

definition scene_ok :: "int list \<Rightarrow> bool" where
  "scene_ok v \<longleftrightarrow> length v = 513 \<and> (\<forall>x \<in> set v. int32 x)"

lemma scene_line_read_back:
  assumes "scene_ok v"
  shows "parse_fields (java_split (CHR '','') (scene_line v)) = Inr v"
proof -
  let ?f = "\<lambda>i. sprintf_i (v ! i)"
  have "pieces (CHR '','') (concat (map (\<lambda>i. ?f i @ (if i \<noteq> 512 then [CHR '',''] else [])) [0..<Suc 512])) = map ?f [0..<Suc 512]"
    by (rule pieces_joined) (simp_all add: sprintf_i_chars)
  then have p: "pieces (CHR '','') (scene_line v) = map ?f [0..<513]" by (simp add: scene_line_def del: upt_Suc)
  have "[0..<513] = [0..<512] @ [512]" using upt_Suc_append [of 0 512] by simp
  then have "rev (map ?f [0..<513]) = ?f 512 # rev (map ?f [0..<512])" by (simp del: upt_Suc)
  then have "dropWhile (\<lambda>w. w = []) (rev (map ?f [0..<513])) = rev (map ?f [0..<513])"
    by (simp add: sprintf_i_chars)
  then have "java_split (CHR '','') (scene_line v) = map ?f [0..<513]"
  proof (cases "CHR '','' \<in> set (scene_line v)")
    case False
    then show ?thesis using arg_cong [OF p, of length] by (simp add: pieces_no_sep)
  qed (simp add: java_split_def p)
  moreover have "map parseInt (map ?f [0..<513]) = map Some v"
    using assms by (intro nth_equalityI) (auto simp: scene_ok_def parseInt_sprintf)
  moreover have "map the (map Some v) = v" by simp
  ultimately show ?thesis using assms by (auto simp: parse_fields_def scene_ok_def Let_def simp del: map_map)
qed

lemma write_scenes_result:
  "\<forall>v \<in> set vs. scene_ok v \<Longrightarrow> write_scenes None vs lines = (Inr (), Some (lines @ map scene_line vs))"
  by (induction vs arbitrary: lines) (auto simp: scene_ok_def)

lemma parse_lines_result:
  "\<forall>v \<in> set vs. scene_ok v \<Longrightarrow> parse_lines (map scene_line vs) m = (Inr (), m\<lparr>scenes := scenes m @ vs\<rparr>)"
proof (induction vs arbitrary: m)
  case Nil
  then show ?case by (simp add: jret_def)
next
  case (Cons v vs)
  then show ?case by (simp add: scene_line_read_back jseq_def jbind_def jmodify_def addScene_def)
qed

text \<open>The index stays in the ring of the saved scenes and the one being worked on.\<close>

definition scenes_inv :: "scene_manager \<Rightarrow> bool" where
  "scenes_inv m \<longleftrightarrow> -1 \<le> currentIndex m \<and> currentIndex m < int (length (scenes m))"

text \<open>What a position shows: 0 is the scene being worked on.\<close>

definition shown :: "scene_manager \<Rightarrow> int \<Rightarrow> int list" where
  "shown m k = (if k = 0 then currentScene m else scenes m ! nat (k - 1))"

subsection \<open>Properties\<close>

text \<open>
  C23: The scene file is read back. Scenes of 513 numbers are written as text and a new scene
  manager on that file has the same scenes in the same order, with the driver's values as
  the scene being worked on.
\<close>

theorem scene_file_round_trip:
  assumes "\<forall>v \<in> set (scenes m). scene_ok v"
  shows "\<exists>m'. updateSceneFile None m = (Inr (), m') \<and> scenes m' = scenes m \<and>
    (\<exists>m''. SceneManager vals (scene_file m') = (Inr (), m'') \<and> scenes m'' = scenes m \<and>
       currentScene m'' = vals \<and> currentIndex m'' = -1 \<and> scene_file m'' = scene_file m')"
  using write_scenes_result [OF assms, of "[]"] parse_lines_result [OF assms]
  by (simp add: updateSceneFile_def SceneManager_def Let_def)

theorem scene_file_round_trip_witness:
  "\<exists>m'. updateSceneFile None \<lparr>scenes = [replicate 513 (-7), replicate 513 255], currentScene = [], currentIndex = 0,
     scene_file = None\<rparr> = (Inr (), m') \<and> (\<exists>m''. SceneManager [] (scene_file m') = (Inr (), m'') \<and>
       scenes m'' = [replicate 513 (-7), replicate 513 255])"
proof -
  have "\<forall>v \<in> set (scenes \<lparr>scenes = [replicate 513 (-7), replicate 513 255], currentScene = [], currentIndex = 0,
     scene_file = None\<rparr>). scene_ok v" by (simp add: scene_ok_def int32_def)
  from scene_file_round_trip [OF this, of "[]"] show ?thesis by auto
qed

text \<open>
  C24: The scenes form a ring. With n saved scenes the two keys walk a ring of n + 1
  positions, the extra one being the scene that is worked on: next and last move by one
  in opposite directions, each shows the scene at the new position, and one undoes the
  other. Saving, deleting and choosing the current scene keep the index in the ring.
\<close>

theorem scenes_form_a_ring:
  assumes "scenes_inv m"
  shows "getNextScene m = (shown m ((currentIndex m + 2) mod (getSceneCount m + 1)),
        m\<lparr>currentIndex := (currentIndex m + 2) mod (getSceneCount m + 1) - 1\<rparr>) \<and>
    getLastScene m = (shown m (currentIndex m mod (getSceneCount m + 1)),
        m\<lparr>currentIndex := currentIndex m mod (getSceneCount m + 1) - 1\<rparr>) \<and>
    snd (getLastScene (snd (getNextScene m))) = m \<and> snd (getNextScene (snd (getLastScene m))) = m \<and>
    scenes_inv (snd (getNextScene m)) \<and> scenes_inv (snd (getLastScene m)) \<and> scenes_inv (addScene v m) \<and>
    scenes_inv (setCurrentScene v m) \<and> fst (deleteScene m) = Inr () \<and> scenes_inv (snd (deleteScene m))"
proof -
  let ?n = "int (length (scenes m))"
  have i: "-1 \<le> currentIndex m" "currentIndex m < ?n" using assms by (simp_all add: scenes_inv_def)
  have next_mod: "(currentIndex m + 2) mod (?n + 1) = (if currentIndex m + 1 = ?n then 0 else currentIndex m + 2)"
  proof (cases "currentIndex m + 1 = ?n")
    case True
    then have "currentIndex m + 2 = ?n + 1" by simp
    with True show ?thesis by (simp only: mod_self) simp
  qed (use i in \<open>simp add: mod_pos_pos_trivial\<close>)
  have last_mod: "currentIndex m mod (?n + 1) = (if currentIndex m = -1 then ?n else currentIndex m)"
    using i by (auto simp: mod_pos_pos_trivial zmod_minus1)
  show ?thesis
    using i unfolding getSceneCount_def next_mod last_mod
    by (auto simp: getNextScene_def getLastScene_def shown_def scenes_inv_def addScene_def setCurrentScene_def
        deleteScene_def Let_def nat_diff_distrib add.commute)
qed

theorem scenes_form_a_ring_witness:
  "getNextScene \<lparr>scenes = [[1], [2]], currentScene = [3], currentIndex = 1, scene_file = None\<rparr> =
     ([3], \<lparr>scenes = [[1], [2]], currentScene = [3], currentIndex = -1, scene_file = None\<rparr>)"
proof -
  let ?m = "\<lparr>scenes = [[1], [2]], currentScene = [3], currentIndex = 1, scene_file = None\<rparr>"
  have "scenes_inv ?m" by (simp add: scenes_inv_def)
  from scenes_form_a_ring [OF this] show ?thesis by (simp add: getSceneCount_def shown_def)
qed

end
