(* ===== verification/Visuals.thy ===== *)
theory Visuals
  imports Fixtures Scenes
begin

text \<open>
  The threads that show something on the lights while a mode waits for a choice:
  \<open>HighlightThread\<close>, \<open>PresetVisualThread\<close>, \<open>RainbowThread\<close>, \<open>DMXVisualThread\<close> and
  \<open>ChaseThread\<close> under \<open>threads/\<close>, with \<open>LightingDefines\<close>. All of them share the rig: the driver, the
  lights and the scenes. A light is referred to by its position in the manager's set.

  A turn of a thread is one round of its loop, up to the sleep, on the thread's own
  variables and the rig. \<open>n\<close> is the number of lights that are visited before another
  thread's reset of \<open>running\<close> is seen.
\<close>

record 'r rig =
  dmx :: "'r default_dmx"
  profiles :: "fixture list"
  sceneManager :: scene_manager

abbreviation (input) MAX_CHASE_DELAY :: int where "MAX_CHASE_DELAY \<equiv> 10000"
abbreviation (input) MIN_CHASE_DELAY :: int where "MIN_CHASE_DELAY \<equiv> 30"
abbreviation (input) CHASE_STEP :: int where "CHASE_STEP \<equiv> 10"
abbreviation (input) HIGHLIGHT_DIMMER_STEP :: int where "HIGHLIGHT_DIMMER_STEP \<equiv> 5"
abbreviation (input) HIGHLIGHT_DIMMER_HIGH_VAL :: int where "HIGHLIGHT_DIMMER_HIGH_VAL \<equiv> 255"
abbreviation (input) HIGHLIGHT_DIMMER_LOW_VAL :: int where "HIGHLIGHT_DIMMER_LOW_VAL \<equiv> 25"
abbreviation (input) DMX_STEP :: int where "DMX_STEP \<equiv> 5"

definition PRESETS :: "color list" where
  "PRESETS = [(255, 255, 255), (255, 0, 0), (255, 255, 0), (0, 255, 0), (0, 255, 255), (0, 0, 255), (255, 0, 255), (0, 0, 0)]"

definition on_light :: "nat \<Rightarrow> ('r light, 'a) java \<Rightarrow> ('r rig, 'a) java" where
  "on_light i = jon (\<lambda>s. \<lparr>fx = profiles s ! i, drv = dmx s\<rparr>)
     (\<lambda>l s. s\<lparr>profiles := (profiles s)[i := fx l], dmx := drv l\<rparr>)"

definition on_dmx :: "('r default_dmx, 'a) java \<Rightarrow> ('r rig, 'a) java" where
  "on_dmx = jon dmx (\<lambda>d s. s\<lparr>dmx := d\<rparr>)"

text \<open>A thread with the rig it works on.\<close>

record ('t, 'r) turn =
  th :: 't
  rg :: "'r rig"

definition on_rig :: "('r rig, 'a) java \<Rightarrow> (('t, 'r) turn, 'a) java" where
  "on_rig = jon rg (\<lambda>r s. s\<lparr>rg := r\<rparr>)"

definition on_thread :: "('t \<Rightarrow> 't) \<Rightarrow> (('t, 'r) turn, unit) java" where
  "on_thread f = jmodify (\<lambda>s. s\<lparr>th := f (th s)\<rparr>)"

subsection \<open>Highlighting the chosen lights\<close>

record highlight_thread =
  h_lights :: "nat list"
  savedValues :: "int list list"
  updateDefaultColor :: bool
  semaphore :: bool
  h_direction :: int
  h_dimmer :: int

definition HighlightThread :: highlight_thread where
  "HighlightThread = \<lparr>h_lights = [], savedValues = [], updateDefaultColor = False, semaphore = True,
     h_direction = -1 * HIGHLIGHT_DIMMER_STEP, h_dimmer = 255\<rparr>"

text \<open>The semaphore: waiting for a permit that nobody gives back is for ever.\<close>

definition acquire :: "((highlight_thread, 'r) turn, unit) java" where
  "acquire = jbind (jread (semaphore \<circ> th)) (\<lambda>free. jseq (jcheck free Blocked) (on_thread (\<lambda>t. t\<lparr>semaphore := False\<rparr>)))"

definition release :: "((highlight_thread, 'r) turn, unit) java" where
  "release = on_thread (\<lambda>t. t\<lparr>semaphore := True\<rparr>)"

definition next_direction :: "int \<Rightarrow> int \<Rightarrow> int" where
  "next_direction direction dimmerValue =
     (if direction = -1 * HIGHLIGHT_DIMMER_STEP \<and> dimmerValue < HIGHLIGHT_DIMMER_LOW_VAL then HIGHLIGHT_DIMMER_STEP
      else if direction = HIGHLIGHT_DIMMER_STEP \<and> dimmerValue \<ge> HIGHLIGHT_DIMMER_HIGH_VAL then -1 * HIGHLIGHT_DIMMER_STEP
      else direction)"

definition default_color :: "'r file_write \<Rightarrow> nat \<Rightarrow> ('r rig, unit) java" where
  "default_color fw i =
     jseq (on_light i syncLight)
       (jbind (jread (\<lambda>s. profiles s ! i)) (\<lambda>light.
         jwhen (\<not> hasColor light) (exit_io (on_light i (setChannelManual fw (defaultColorOffs light) 255)))))"

definition highlight_light :: "'r file_write \<Rightarrow> nat \<Rightarrow> ((highlight_thread, 'r) turn, unit) java" where
  "highlight_light fw i =
     jseq (jbind (jread (updateDefaultColor \<circ> th)) (\<lambda>u. jwhen u (on_rig (default_color fw i))))
    (jseq (on_thread (\<lambda>t. t\<lparr>h_direction := next_direction (h_direction t) (h_dimmer t)\<rparr>))
    (jseq (on_thread (\<lambda>t. t\<lparr>h_dimmer := h_dimmer t + h_direction t\<rparr>))
      (jbind (jread (h_dimmer \<circ> th)) (\<lambda>v. try_io (on_rig (on_light i (setDimmerValue fw v)))))))"

definition highlight_turn :: "'r file_write \<Rightarrow> nat \<Rightarrow> ((highlight_thread, 'r) turn, unit) java" where
  "highlight_turn fw n =
     jseq acquire
    (jbind (jread (h_lights \<circ> th)) (\<lambda>lights.
     jseq (jfor (take n lights) (highlight_light fw))
    (jseq (on_thread (\<lambda>t. t\<lparr>updateDefaultColor := False\<rparr>)) release)))"

definition addLight :: "nat \<Rightarrow> ((highlight_thread, 'r) turn, unit) java" where
  "addLight i =
     jbind (jread (h_lights \<circ> th)) (\<lambda>lights.
     jwhen (i \<notin> set lights)
       (jseq acquire
       (jbind (jread (\<lambda>s. dmxVals (profiles (rg s) ! i))) (\<lambda>vals.
        jseq (on_thread (\<lambda>t. t\<lparr>h_lights := h_lights t @ [i], savedValues := savedValues t @ [vals], updateDefaultColor := True\<rparr>))
          release))))"

definition update_default_color :: "((highlight_thread, 'r) turn, unit) java" where
  "update_default_color = jseq acquire (jseq (on_thread (\<lambda>t. t\<lparr>updateDefaultColor := True\<rparr>)) release)"

text \<open>\<open>indexOf\<close>, and taking an element out of a list.\<close>

definition indexOf :: "'a \<Rightarrow> 'a list \<Rightarrow> nat" where
  "indexOf x xs = length (takeWhile (\<lambda>y. y \<noteq> x) xs)"

definition remove_at :: "nat \<Rightarrow> 'a list \<Rightarrow> 'a list" where
  "remove_at k xs = take k xs @ drop (Suc k) xs"

definition removeLight :: "'r file_write \<Rightarrow> nat \<Rightarrow> ((highlight_thread, 'r) turn, unit) java" where
  "removeLight fw i =
     jbind (jread th) (\<lambda>t.
     jwhen (i \<in> set (h_lights t))
       (let k = indexOf i (h_lights t) in
        jseq acquire
       (jseq (on_thread (\<lambda>t. t\<lparr>savedValues := remove_at k (savedValues t)\<rparr>))
       (jseq (exit_io (on_rig (on_light i (setDMXVals fw (savedValues t ! k)))))
       (jseq (on_thread (\<lambda>t. t\<lparr>h_lights := remove1 i (h_lights t)\<rparr>)) release)))))"

text \<open>\<open>redrum\<close>: the loop takes one light out in each round, so the length is enough.\<close>

fun remove_all :: "nat \<Rightarrow> 'r file_write \<Rightarrow> ((highlight_thread, 'r) turn, unit) java" where
  "remove_all 0 fw = jret ()"
| "remove_all (Suc n) fw =
     jbind (jread (h_lights \<circ> th)) (\<lambda>lights. jwhen (lights \<noteq> []) (jseq (removeLight fw (hd lights)) (remove_all n fw)))"

definition highlight_redrum :: "'r file_write \<Rightarrow> ((highlight_thread, 'r) turn, nat list) java" where
  "highlight_redrum fw =
     jbind (jread (h_lights \<circ> th)) (\<lambda>temp. jbind (remove_all (length temp) fw) (\<lambda>_. jret temp))"

definition clearHighlighted :: "((highlight_thread, 'r) turn, unit) java" where
  "clearHighlighted = jseq acquire (jseq (on_thread (\<lambda>t. t\<lparr>h_lights := [], savedValues := []\<rparr>)) release)"

subsection \<open>Showing the three kinds of control\<close>

definition show_color :: "'r file_write \<Rightarrow> color \<Rightarrow> nat \<Rightarrow> ('r rig, unit) java" where
  "show_color fw c i = try_io (jseq (on_light i (setColor fw c)) (on_light i (setDimmerValue fw 255)))"

record preset_thread =
  p_lights :: "nat list"
  p_index :: nat

definition PresetVisualThread :: "nat list \<Rightarrow> preset_thread" where
  "PresetVisualThread lights = \<lparr>p_lights = lights, p_index = 0\<rparr>"

text \<open>An interrupted sleep goes on with the same colour.\<close>

definition preset_turn :: "'r file_write \<Rightarrow> nat \<Rightarrow> bool \<Rightarrow> ((preset_thread, 'r) turn, unit) java" where
  "preset_turn fw n interrupted =
     jbind (jread th) (\<lambda>t.
     jseq (on_rig (jfor (take n (p_lights t)) (show_color fw (PRESETS ! p_index t))))
       (jwhen (\<not> interrupted)
         (on_thread (\<lambda>t. t\<lparr>p_index := (if p_index t + 1 \<ge> length PRESETS then 0 else p_index t + 1)\<rparr>))))"

record rainbow_thread =
  r_fixtures :: "nat list"
  r_colors :: "color list"

abbreviation (input) RAINBOW_RESOLUTION :: nat where "RAINBOW_RESOLUTION \<equiv> 50"

definition rainbow :: "color list" where
  "rainbow =
     map (\<lambda>r. (int r * 255 div int RAINBOW_RESOLUTION, 255, 0)) [0..<RAINBOW_RESOLUTION] @
     map (\<lambda>g. (255, int g * 255 div int RAINBOW_RESOLUTION, 0)) (rev [1..<Suc RAINBOW_RESOLUTION]) @
     map (\<lambda>b. (255, 0, int b * 255 div int RAINBOW_RESOLUTION)) [0..<RAINBOW_RESOLUTION] @
     map (\<lambda>r. (int r * 255 div int RAINBOW_RESOLUTION, 0, 255)) (rev [1..<Suc RAINBOW_RESOLUTION]) @
     map (\<lambda>g. (0, int g * 255 div int RAINBOW_RESOLUTION, 255)) [0..<RAINBOW_RESOLUTION] @
     map (\<lambda>b. (0, 255, int b * 255 div int RAINBOW_RESOLUTION)) (rev [1..<Suc RAINBOW_RESOLUTION]) @
     [(0, 255, 0)]"

definition RainbowThread :: "nat list \<Rightarrow> rainbow_thread" where
  "RainbowThread fixtures = \<lparr>r_fixtures = fixtures, r_colors = rainbow\<rparr>"

text \<open>\<open>r_colors\<close> is what the iterator has left.\<close>

definition rainbow_turn :: "'r file_write \<Rightarrow> ((rainbow_thread, 'r) turn, unit) java" where
  "rainbow_turn fw =
     jseq (on_thread (\<lambda>t. if r_colors t = [] then t\<lparr>r_colors := rainbow\<rparr> else t))
    (jbind (jread th) (\<lambda>t.
     jseq (on_thread (\<lambda>t. t\<lparr>r_colors := tl (r_colors t)\<rparr>))
       (on_rig (jfor (r_fixtures t) (show_color fw (hd (r_colors t)))))))"

record dmx_thread =
  d_lights :: "nat list"
  d_direction :: int
  d_dimmer :: int

definition DMXVisualThread :: "nat list \<Rightarrow> dmx_thread" where
  "DMXVisualThread lights = \<lparr>d_lights = lights, d_direction = -1 * HIGHLIGHT_DIMMER_STEP, d_dimmer = 255\<rparr>"

text \<open>The new dimmer value is computed after \<open>setWhite\<close>, so an exception of that leaves it.\<close>

definition dmx_light :: "'r file_write \<Rightarrow> nat \<Rightarrow> ((dmx_thread, 'r) turn, unit) java" where
  "dmx_light fw i =
     try_io (jseq (on_rig (on_light i (setWhite fw 255)))
       (jseq (on_thread (\<lambda>t. t\<lparr>d_dimmer := d_dimmer t + d_direction t\<rparr>))
         (jbind (jread (d_dimmer \<circ> th)) (\<lambda>v. on_rig (on_light i (setDimmerValue fw v))))))"

definition dmx_turn :: "'r file_write \<Rightarrow> nat \<Rightarrow> ((dmx_thread, 'r) turn, unit) java" where
  "dmx_turn fw n =
     jbind (jread (d_lights \<circ> th)) (\<lambda>lights.
     jseq (jfor (take n lights) (dmx_light fw))
       (on_thread (\<lambda>t. t\<lparr>d_direction := next_direction (d_direction t) (d_dimmer t)\<rparr>)))"

subsection \<open>Playing the scenes\<close>

text \<open>The thread plays the list of the scene manager itself; a turn plays one scene.\<close>

record chase_thread =
  sceneDelay :: int
  c_pos :: nat

definition ChaseThread :: "int \<Rightarrow> chase_thread" where
  "ChaseThread delay = \<lparr>sceneDelay = delay, c_pos = 0\<rparr>"

definition chase_turn :: "'r file_write \<Rightarrow> ((chase_thread, 'r) turn, unit) java" where
  "chase_turn fw =
     jbind (jread (\<lambda>s. scenes (sceneManager (rg s)))) (\<lambda>scenes.
     jbind (jread (c_pos \<circ> th)) (\<lambda>pos.
     jwhen (\<not> length scenes \<le> 1)
       (jseq (on_rig (try_io (on_dmx (setDMX_all fw (scenes ! pos)))))
         (on_thread (\<lambda>t. t\<lparr>c_pos := (if Suc pos \<ge> length scenes then 0 else Suc pos)\<rparr>)))))"

subsection \<open>Operations of one light on the rig\<close>

text \<open>A light that can be shown: it has the three colours and a dimmer.\<close>

definition lit_ready :: "fixture \<Rightarrow> bool" where
  "lit_ready f \<longleftrightarrow> fixture_ok f \<and> rgb_offsets f \<noteq> None \<and> containsKey f ''dimmer'' \<and> 0 \<le> defaultColorOffs f"

definition scene_bytes :: "int list \<Rightarrow> bool" where
  "scene_bytes v \<longleftrightarrow> length v = 513 \<and> (\<forall>x \<in> set v. byte_ok x)"

definition scenes_ok :: "scene_manager \<Rightarrow> bool" where
  "scenes_ok m \<longleftrightarrow> scene_bytes (currentScene m) \<and> (\<forall>v \<in> set (scenes m). scene_bytes v) \<and> scenes_inv m"

definition rig_ok :: "('r \<Rightarrow> u8 list) \<Rightarrow> ('r \<Rightarrow> bool) \<Rightarrow> 'r rig \<Rightarrow> bool" where
  "rig_ok channels ready s \<longleftrightarrow> mirrored channels ready (dmx s) \<and> profiles s \<noteq> [] \<and> (\<forall>f \<in> set (profiles s). lit_ready f) \<and>
     scenes_ok (sceneManager s)"

text \<open>What showing something leaves as it is: the scenes, and everything of the lights but their values.\<close>

definition plan :: "fixture \<Rightarrow> fixture" where
  "plan f = f\<lparr>dmxVals := []\<rparr>"

definition good :: "('r \<Rightarrow> u8 list) \<Rightarrow> ('r \<Rightarrow> bool) \<Rightarrow> scene_manager \<Rightarrow> fixture list \<Rightarrow> 'r rig \<Rightarrow> bool" where
  "good channels ready m plans s \<longleftrightarrow> rig_ok channels ready s \<and> sceneManager s = m \<and> map plan (profiles s) = plans"

lemma plan_values [simp]: "plan (f\<lparr>dmxVals := v\<rparr>) = plan f"
  by (simp add: plan_def)

lemma plan_of:
  assumes "plan f = p"
  shows "channelMap f = channelMap p" "fx_address f = fx_address p" "isSelected f = isSelected p" "defaultColorOffs f = defaultColorOffs p"
  using assms by (auto simp: plan_def)

lemma lit_ready_values: "lit_ready f \<Longrightarrow> fixture_ok (f\<lparr>dmxVals := v\<rparr>) \<Longrightarrow> lit_ready (f\<lparr>dmxVals := v\<rparr>)"
  by (simp add: lit_ready_def rgb_offsets_def containsKey_def)

lemma good_light:
  assumes "good channels ready m plans s" "i < length plans"
  shows "light_ok channels ready \<lparr>fx = profiles s ! i, drv = dmx s\<rparr>" "lit_ready (profiles s ! i)" "plan (profiles s ! i) = plans ! i"
    "i < length (profiles s)"
proof -
  show i: "i < length (profiles s)" using assms by (auto simp: good_def)
  then show r: "lit_ready (profiles s ! i)" using assms(1) by (simp add: good_def rig_ok_def)
  show "light_ok channels ready \<lparr>fx = profiles s ! i, drv = dmx s\<rparr>"
    using r assms(1) by (simp add: light_ok_def lit_ready_def good_def rig_ok_def)
  show "plan (profiles s ! i) = plans ! i" using i assms(1) by (auto simp: good_def)
qed

lemma good_put:
  assumes "good channels ready m plans s" "i < length plans" "plan f = plans ! i" "lit_ready f" "mirrored channels ready d"
  shows "good channels ready m plans (s\<lparr>profiles := (profiles s)[i := f], dmx := d\<rparr>)"
proof -
  have "map plan ((profiles s)[i := f]) = plans"
    using assms(1-3) by (simp add: good_def map_update)
  moreover have "\<forall>g \<in> set ((profiles s)[i := f]). lit_ready g"
    using assms(1,4) set_update_subset_insert [of "profiles s" i f] by (auto simp: good_def rig_ok_def)
  ultimately show ?thesis using assms(1,5) by (auto simp: good_def rig_ok_def)
qed

lemma spec_color: "lit_ready f \<Longrightarrow> \<exists>cvs. fixture_spec f (Set_color c) = Inr cvs"
  by (cases c) (auto simp: lit_ready_def color_spec_def)

lemma spec_dimmer: "lit_ready f \<Longrightarrow> byte_ok v \<Longrightarrow> \<exists>cvs. fixture_spec f (Set_dimmer v) = Inr cvs"
  by (auto simp: lit_ready_def containsKey_def)

lemma spec_channel: "byte_ok v \<Longrightarrow> 0 \<le> c \<Longrightarrow> c < getNumChannels f \<Longrightarrow> \<exists>cvs. fixture_spec f (Set_channel c v) = Inr cvs"
  by (simp add: channel_spec_def)

lemma spec_white: "lit_ready f \<Longrightarrow> byte_ok v \<Longrightarrow> \<exists>cvs. fixture_spec f (Set_white v) = Inr cvs"
proof (cases "map_of (channelMap f) ''white''")
  case None
  then show "lit_ready f \<Longrightarrow> ?thesis" by (auto simp: lit_ready_def color_spec_def)
next
  case (Some i)
  assume "lit_ready f" "byte_ok v"
  then show ?thesis using channels_ok_offset [OF _ Some] Some
    by (simp add: lit_ready_def fixture_ok_def channel_spec_def getNumChannels_def)
qed

lemma spec_values:
  "length vs = length (channelMap f) \<Longrightarrow> \<forall>v \<in> set vs. byte_ok v \<Longrightarrow> \<exists>cvs. fixture_spec f (Set_vals vs) = Inr cvs"
  by (simp add: list_all_iff)

context dmx_channels
begin

lemma on_light_op:
  assumes "i < length plans" "op_typed oper"
    "\<And>f. lit_ready f \<Longrightarrow> plan f = plans ! i \<Longrightarrow> \<exists>cvs. fixture_spec f oper = Inr cvs"
  shows "succeeds (good channels ready m plans) (on_light i (run_op fw oper)) (\<lambda>_. good channels ready m plans)"
  unfolding on_light_def
proof (rule succeeds_on)
  fix s assume s: "good channels ready m plans s"
  let ?l = "\<lparr>fx = profiles s ! i, drv = dmx s\<rparr>"
  note l = good_light [OF s assms(1)]
  obtain cvs where "fixture_spec (profiles s ! i) oper = Inr cvs" using assms(3) [OF l(2,3)] by blast
  with run_op_spec [OF l(1) assms(2)] obtain r where
    r: "run_op fw oper ?l = (Inr (), lit_put cvs r ?l)" "light_ok channels ready (lit_put cvs r ?l)"
    by (auto simp: performs_def)
  have "plan (fx (lit_put cvs r ?l)) = plans ! i" using l(3) by (simp add: lit_put_def)
  moreover have "lit_ready (fx (lit_put cvs r ?l))"
    using lit_ready_values [OF l(2)] r(2) by (simp add: light_ok_def lit_put_def)
  ultimately have "good channels ready m plans (s\<lparr>profiles := (profiles s)[i := fx (lit_put cvs r ?l)], dmx := drv (lit_put cvs r ?l)\<rparr>)"
    using r(2) by (intro good_put [OF s assms(1)]) (simp_all add: light_ok_def)
  with r(1) show "\<exists>x t. run_op fw oper ?l = (Inr x, t) \<and> good channels ready m plans (s\<lparr>profiles := (profiles s)[i := fx t], dmx := drv t\<rparr>)"
    by blast
qed

lemma on_light_color: "i < length plans \<Longrightarrow> op_typed (Set_color c) \<Longrightarrow>
    succeeds (good channels ready m plans) (on_light i (setColor fw c)) (\<lambda>_. good channels ready m plans)"
  using on_light_op [of i plans "Set_color c" m] spec_color by simp

lemma on_light_dimmer: "i < length plans \<Longrightarrow> byte_ok v \<Longrightarrow>
    succeeds (good channels ready m plans) (on_light i (setDimmerValue fw v)) (\<lambda>_. good channels ready m plans)"
  using on_light_op [of i plans "Set_dimmer v" m] spec_dimmer by simp

lemma on_light_white: "i < length plans \<Longrightarrow> byte_ok v \<Longrightarrow>
    succeeds (good channels ready m plans) (on_light i (setWhite fw v)) (\<lambda>_. good channels ready m plans)"
  using on_light_op [of i plans "Set_white v" m] spec_white by simp

lemma on_light_channel:
  assumes "i < length plans" "byte_ok v" "0 \<le> c" "c < getNumChannels (plans ! i)"
  shows "succeeds (good channels ready m plans) (on_light i (setChannelManual fw c v)) (\<lambda>_. good channels ready m plans)"
proof -
  have "\<exists>cvs. fixture_spec f (Set_channel c v) = Inr cvs" if "plan f = plans ! i" for f
    using assms(4) plan_of(1) [OF that] by (intro spec_channel assms) (simp add: getNumChannels_def)
  with on_light_op [of i plans "Set_channel c v" m] assms(1) show ?thesis by simp
qed

lemma on_light_values:
  assumes "i < length plans" "length vs = length (channelMap (plans ! i))" "\<forall>v \<in> set vs. byte_ok v"
  shows "succeeds (good channels ready m plans) (on_light i (setDMXVals fw vs)) (\<lambda>_. good channels ready m plans)"
proof -
  have "\<exists>cvs. fixture_spec f (Set_vals vs) = Inr cvs" if "plan f = plans ! i" for f
    using assms(2) plan_of(1) [OF that] by (intro spec_values assms) simp
  with on_light_op [of i plans "Set_vals vs" m] assms(1) show ?thesis by simp
qed

lemma on_light_clear: "i < length plans \<Longrightarrow>
    succeeds (good channels ready m plans) (on_light i (clearLight fw)) (\<lambda>_. good channels ready m plans)"
  using on_light_op [of i plans Clear m] by simp

lemma on_light_sync:
  assumes "i < length plans"
  shows "succeeds (good channels ready m plans) (on_light i syncLight) (\<lambda>_. good channels ready m plans)"
  unfolding on_light_def
proof (rule succeeds_on)
  fix s assume s: "good channels ready m plans s"
  let ?f = "profiles s ! i" and ?sh = "dmxShadow (dmx s)"
  let ?n = "length (channelMap ?f)" and ?a = "nat (fx_address ?f)"
  note l = good_light [OF s assms]
  note len = light_ok_lengths [OF l(1), simplified]
  have bytes: "\<forall>v \<in> set ?sh. byte_ok v" using l(1) by (simp add: light_ok_def mirrored_def)
  have run: "syncLight \<lparr>fx = ?f, drv = dmx s\<rparr> = (Inr (), \<lparr>fx = ?f\<lparr>dmxVals := take ?n (drop ?a ?sh)\<rparr>, drv = dmx s\<rparr>)"
    using len by (simp add: syncLight_def Let_def getDmx_def)
  have "\<forall>v \<in> set (take ?n (drop ?a ?sh)). byte_ok v" using bytes by (auto dest: in_set_takeD in_set_dropD)
  then have "lit_ready (?f\<lparr>dmxVals := take ?n (drop ?a ?sh)\<rparr>)"
    using len l(1,2) by (intro lit_ready_values) (auto simp: light_ok_def fixture_ok_def getNumChannels_def)
  then have "good channels ready m plans (s\<lparr>profiles := (profiles s)[i := ?f\<lparr>dmxVals := take ?n (drop ?a ?sh)\<rparr>], dmx := dmx s\<rparr>)"
    using l s by (intro good_put [OF s assms]) (simp_all add: light_ok_def)
  then show "\<exists>x t. syncLight \<lparr>fx = ?f, drv = dmx s\<rparr> = (Inr x, t) \<and> good channels ready m plans (s\<lparr>profiles := (profiles s)[i := fx t], dmx := drv t\<rparr>)"
    unfolding run by auto
qed

lemma on_dmx_all:
  assumes "scene_bytes v"
  shows "succeeds (good channels ready m plans) (on_dmx (setDMX_all fw v))
    (\<lambda>_ s. good channels ready m plans s \<and> tl (dmxShadow (dmx s)) = tl v)"
  unfolding on_dmx_def
proof (rule succeeds_on)
  fix s assume s: "good channels ready m plans s"
  then have "mirrored channels ready (dmx s)" by (simp add: good_def rig_ok_def)
  from setDMX_all_result [OF this] assms obtain r where
    "setDMX_all fw v (dmx s) = (Inr (), \<lparr>dmxShadow = hd (dmxShadow (dmx s)) # tl v, regs = r\<rparr>)"
    "mirrored channels ready \<lparr>dmxShadow = hd (dmxShadow (dmx s)) # tl v, regs = r\<rparr>"
    by (auto simp: scene_bytes_def)
  with s show "\<exists>x t. setDMX_all fw v (dmx s) = (Inr x, t) \<and>
      good channels ready m plans (s\<lparr>dmx := t\<rparr>) \<and> tl (dmxShadow (dmx (s\<lparr>dmx := t\<rparr>))) = tl v"
    by (auto simp: good_def rig_ok_def)
qed

lemma on_dmx_clear: "succeeds (good channels ready m plans) (on_dmx (clearDMX fw)) (\<lambda>_. good channels ready m plans)"
  unfolding on_dmx_def
proof (rule succeeds_on)
  fix s assume s: "good channels ready m plans s"
  then have "mirrored channels ready (dmx s)" by (simp add: good_def rig_ok_def)
  from clearDMX_result [OF this] s
  show "\<exists>x t. clearDMX fw (dmx s) = (Inr x, t) \<and> good channels ready m plans (s\<lparr>dmx := t\<rparr>)"
    by (auto simp: good_def rig_ok_def)
qed

end

subsection \<open>The highlight thread keeps its invariant\<close>

text \<open>The dimmer moves in steps of five between 20 and 255.\<close>

definition dim_ok :: "int \<Rightarrow> int \<Rightarrow> bool" where
  "dim_ok d v \<longleftrightarrow> (d = 5 \<or> d = -5) \<and> 20 \<le> v \<and> v \<le> 255 \<and> 5 dvd v"

lemma dim_step: "dim_ok d v \<Longrightarrow> dim_ok (next_direction d v) (v + next_direction d v)"
proof -
  assume d: "dim_ok d v"
  then obtain k where "v = 5 * k" by (auto simp: dim_ok_def dvd_def)
  with d show ?thesis by (auto simp: dim_ok_def next_direction_def)
qed

definition saved_ok :: "fixture list \<Rightarrow> nat list \<Rightarrow> int list list \<Rightarrow> bool" where
  "saved_ok plans = list_all2 (\<lambda>i v. i < length plans \<and> length v = length (channelMap (plans ! i)) \<and> (\<forall>x \<in> set v. byte_ok x))"

definition hl_core :: "fixture list \<Rightarrow> nat list \<Rightarrow> highlight_thread \<Rightarrow> bool" where
  "hl_core plans L t \<longleftrightarrow> h_lights t = L \<and> distinct L \<and> saved_ok plans L (savedValues t) \<and> dim_ok (h_direction t) (h_dimmer t)"

definition hl_st :: "('r \<Rightarrow> u8 list) \<Rightarrow> ('r \<Rightarrow> bool) \<Rightarrow> scene_manager \<Rightarrow> fixture list \<Rightarrow> nat list \<Rightarrow> bool \<Rightarrow>
    (highlight_thread, 'r) turn \<Rightarrow> bool" where
  "hl_st channels ready m plans L free s \<longleftrightarrow>
     good channels ready m plans (rg s) \<and> hl_core plans L (th s) \<and> semaphore (th s) = free"

lemma hl_core_in: "hl_core plans L t \<Longrightarrow> i \<in> set L \<Longrightarrow> i < length plans"
  by (auto simp: hl_core_def saved_ok_def list_all2_conv_all_nth in_set_conv_nth)

lemma hl_core_new: "hl_core plans [] HighlightThread"
  by (simp add: hl_core_def saved_ok_def dim_ok_def HighlightThread_def)

lemma saved_ok_remove:
  assumes "saved_ok plans L vs" "i \<in> set L" "distinct L"
  shows "saved_ok plans (remove1 i L) (remove_at (indexOf i L) vs)" "indexOf i L < length L"
    "i < length plans" "length (vs ! indexOf i L) = length (channelMap (plans ! i))" "\<forall>x \<in> set (vs ! indexOf i L). byte_ok x"
proof -
  obtain xs ys where L: "L = xs @ i # ys" "i \<notin> set xs" "i \<notin> set ys" using assms(2,3) by (metis distinct_append distinct.simps(2) split_list not_distinct_conv_prefix)
  have k: "indexOf i (xs @ i # ys) = length xs" unfolding indexOf_def by (subst takeWhile_append2) (use L(2) in auto)
  obtain us v ws where vs: "vs = us @ v # ws" "length us = length xs" "saved_ok plans xs us" "saved_ok plans ys ws" "saved_ok plans [i] [v]"
    using assms(1) unfolding L(1) saved_ok_def by (auto simp: list_all2_append1 list_all2_Cons1 list_all2_lengthD)
  show "saved_ok plans (remove1 i L) (remove_at (indexOf i L) vs)" "indexOf i L < length L"
    "i < length plans" "length (vs ! indexOf i L) = length (channelMap (plans ! i))" "\<forall>x \<in> set (vs ! indexOf i L). byte_ok x"
    using vs L by (simp_all add: k remove_at_def remove1_append saved_ok_def list_all2_appendI nth_append)
qed

lemma succeeds_on_rig:
  assumes "succeeds P m Q"
  shows "succeeds (\<lambda>s. P (rg s) \<and> R (th s)) (on_rig m) (\<lambda>x s. Q x (rg s) \<and> R (th s))"
  unfolding on_rig_def using succeedsD [OF assms] by (intro succeeds_on) fastforce

lemma succeeds_on_thread: "(\<And>s. P s \<Longrightarrow> Q (s\<lparr>th := f (th s)\<rparr>)) \<Longrightarrow> succeeds P (on_thread f) (\<lambda>_. Q)"
  unfolding on_thread_def by (rule succeeds_modify)

lemma succeeds_acquire: "succeeds (hl_st channels ready m plans L True) acquire (\<lambda>_. hl_st channels ready m plans L False)"
  by (auto simp: succeeds_def acquire_def java on_thread_def jseq_def hl_st_def hl_core_def)

lemma succeeds_release: "succeeds (hl_st channels ready m plans L False) release (\<lambda>_. hl_st channels ready m plans L True)"
  unfolding release_def by (rule succeeds_on_thread) (simp add: hl_st_def hl_core_def)

context dmx_channels
begin

lemma default_color_good:
  assumes "i < length plans"
  shows "succeeds (good channels ready m plans) (default_color fw i) (\<lambda>_. good channels ready m plans)"
proof -
  have body: "succeeds (\<lambda>s. (lit_ready f \<and> plan f = plans ! i) \<and> good channels ready m plans s)
      (jwhen (\<not> hasColor f) (exit_io (on_light i (setChannelManual fw (defaultColorOffs f) 255)))) (\<lambda>_. good channels ready m plans)" for f
  proof (rule succeeds_fact, rule succeeds_when)
    assume f: "lit_ready f \<and> plan f = plans ! i"
    then have "0 \<le> defaultColorOffs f" "defaultColorOffs f < getNumChannels (plans ! i)"
      using plan_of(1) [of f "plans ! i"] by (auto simp: lit_ready_def fixture_ok_def getNumChannels_def)
    then show "succeeds (good channels ready m plans) (exit_io (on_light i (setChannelManual fw (defaultColorOffs f) 255)))
        (\<lambda>_. good channels ready m plans)"
      by (intro succeeds_try on_light_channel assms) (simp_all add: byte_ok_def)
  qed
  show ?thesis unfolding default_color_def
    by (rule succeeds_seq [OF on_light_sync [OF assms]], rule succeeds_bind [OF _ body])
      (intro succeeds_read, use good_light assms in blast)
qed

lemma highlight_light_good:
  assumes "i < length plans"
  shows "succeeds (hl_st channels ready m plans L free) (highlight_light fw i) (\<lambda>_. hl_st channels ready m plans L free)"
proof -
  let ?P = "hl_st channels ready m plans L free"
  have rig: "succeeds ?P (on_rig n) (\<lambda>_. ?P)" if "succeeds (good channels ready m plans) n (\<lambda>_. good channels ready m plans)" for n
    unfolding hl_st_def using succeeds_on_rig [OF that] .
  have 1: "succeeds ?P (jbind (jread (updateDefaultColor \<circ> th)) (\<lambda>u. jwhen u (on_rig (default_color fw i)))) (\<lambda>_. ?P)"
    by (rule succeeds_bind, rule succeeds_read [where Q = "\<lambda>_. ?P"], assumption, rule succeeds_when)
      (simp_all add: rig default_color_good assms)
  define R where "R s \<longleftrightarrow> good channels ready m plans (rg s) \<and> semaphore (th s) = free \<and>
     hl_core plans L (th s\<lparr>h_dimmer := h_dimmer (th s) + h_direction (th s)\<rparr>)"
    for s :: "(highlight_thread, 'r) turn"
  have 2: "succeeds ?P (on_thread (\<lambda>t. t\<lparr>h_direction := next_direction (h_direction t) (h_dimmer t)\<rparr>)) (\<lambda>_. R)"
    by (rule succeeds_on_thread) (use dim_step in \<open>simp add: R_def hl_st_def hl_core_def\<close>)
  have 3: "succeeds R (on_thread (\<lambda>t. t\<lparr>h_dimmer := h_dimmer t + h_direction t\<rparr>)) (\<lambda>_. ?P)"
    by (rule succeeds_on_thread) (simp add: R_def hl_st_def)
  have 4: "succeeds (\<lambda>s. byte_ok v \<and> ?P s) (try_io (on_rig (on_light i (setDimmerValue fw v)))) (\<lambda>_. ?P)" for v
    by (rule succeeds_fact) (intro succeeds_try rig on_light_dimmer assms)
  show ?thesis unfolding highlight_light_def
    by (rule succeeds_seq [OF 1 succeeds_seq [OF 2 succeeds_seq [OF 3 succeeds_bind [OF _ 4]]]])
      (rule succeeds_read, simp add: hl_st_def hl_core_def dim_ok_def byte_ok_def)
qed

lemma highlight_turn_good:
  "succeeds (hl_st channels ready m plans L True) (highlight_turn fw n) (\<lambda>_. hl_st channels ready m plans L True)"
proof -
  let ?P = "hl_st channels ready m plans L False"
  have "succeeds (\<lambda>s. lights = L \<and> (\<forall>i \<in> set L. i < length plans) \<and> ?P s) (jseq (jfor (take n lights) (highlight_light fw))
      (jseq (on_thread (\<lambda>t. t\<lparr>updateDefaultColor := False\<rparr>)) release)) (\<lambda>_. hl_st channels ready m plans L True)" for lights
  proof (intro succeeds_fact succeeds_seq)
    assume "lights = L" "\<forall>i \<in> set L. i < length plans"
    then show "succeeds ?P (jfor (take n lights) (highlight_light fw)) (\<lambda>_. ?P)"
      by (intro succeeds_for highlight_light_good) (auto dest: in_set_takeD)
    show "succeeds ?P (on_thread (\<lambda>t. t\<lparr>updateDefaultColor := False\<rparr>)) (\<lambda>_. ?P)"
      by (rule succeeds_on_thread) (simp add: hl_st_def hl_core_def)
    show "succeeds ?P release (\<lambda>_. hl_st channels ready m plans L True)" by (rule succeeds_release)
  qed
  note body = this
  show ?thesis unfolding highlight_turn_def
    by (rule succeeds_seq [OF succeeds_acquire succeeds_bind [OF _ body]])
      (rule succeeds_read, auto simp: hl_st_def dest: hl_core_in, simp add: hl_core_def)
qed

end

subsection \<open>Taking lights in and out\<close>

definition th_at :: "('r \<Rightarrow> u8 list) \<Rightarrow> ('r \<Rightarrow> bool) \<Rightarrow> scene_manager \<Rightarrow> fixture list \<Rightarrow> 't \<Rightarrow> ('t, 'r) turn \<Rightarrow> bool" where
  "th_at channels ready m plans u s \<longleftrightarrow> good channels ready m plans (rg s) \<and> th s = u"

lemma succeeds_hl:
  assumes "\<And>u. hl_core plans L u \<Longrightarrow> semaphore u = free \<Longrightarrow> succeeds (th_at channels ready m plans u) n Q"
  shows "succeeds (hl_st channels ready m plans L free) n Q"
  using assms unfolding succeeds_def hl_st_def th_at_def by blast

lemma at_read: "succeeds (th_at channels ready m plans u) (f (g u)) Q \<Longrightarrow> succeeds (th_at channels ready m plans u) (jbind (jread (g \<circ> th)) f) Q"
  by (auto simp: succeeds_def th_at_def jbind_def jread_def)

lemma at_thread: "succeeds (th_at channels ready m plans u) (on_thread f) (\<lambda>_. th_at channels ready m plans (f u))"
  by (rule succeeds_on_thread) (simp add: th_at_def)

lemma at_acquire: "semaphore u \<Longrightarrow> succeeds (th_at channels ready m plans u) acquire (\<lambda>_. th_at channels ready m plans (u\<lparr>semaphore := False\<rparr>))"
  unfolding acquire_def by (intro at_read) (auto simp: succeeds_def java on_thread_def jseq_def th_at_def)

lemma at_rig:
  "succeeds (good channels ready m plans) n (\<lambda>_. good channels ready m plans) \<Longrightarrow>
     succeeds (th_at channels ready m plans u) (on_rig n) (\<lambda>_. th_at channels ready m plans u)"
  unfolding th_at_def using succeeds_on_rig [where R = "\<lambda>t. t = u"] .

lemma hl_at:
  "succeeds P n (\<lambda>_. th_at channels ready m plans u) \<Longrightarrow> hl_core plans L u \<Longrightarrow> semaphore u = free \<Longrightarrow>
     succeeds P n (\<lambda>_. hl_st channels ready m plans L free)"
  by (erule succeeds_conseq) (auto simp: th_at_def hl_st_def)

lemma saved_ok_append:
  "saved_ok plans L vs \<Longrightarrow> i < length plans \<Longrightarrow> length v = length (channelMap (plans ! i)) \<Longrightarrow> \<forall>x \<in> set v. byte_ok x \<Longrightarrow>
     saved_ok plans (L @ [i]) (vs @ [v])"
  by (simp add: saved_ok_def list_all2_appendI)

lemma addLight_good:
  assumes "i < length plans"
  shows "succeeds (hl_st channels ready m plans L True) (addLight i)
    (\<lambda>_. hl_st channels ready m plans (if i \<in> set L then L else L @ [i]) True)"
proof (rule succeeds_hl)
  fix u assume u: "hl_core plans L u" "semaphore u = True"
  then have L: "h_lights u = L" by (simp add: hl_core_def)
  let ?P = "th_at channels ready m plans" and ?v = "\<lambda>t v. t\<lparr>h_lights := h_lights t @ [i], savedValues := savedValues t @ [v], updateDefaultColor := True\<rparr>"
  have add: "succeeds (\<lambda>s. (length v = length (channelMap (plans ! i)) \<and> (\<forall>x \<in> set v. byte_ok x)) \<and> ?P (u\<lparr>semaphore := False\<rparr>) s)
      (jseq (on_thread (\<lambda>t. ?v t v)) release) (\<lambda>_. hl_st channels ready m plans (L @ [i]) True)" if "i \<notin> set L" for v
  proof (rule succeeds_fact, rule hl_at)
    show "succeeds (?P (u\<lparr>semaphore := False\<rparr>)) (jseq (on_thread (\<lambda>t. ?v t v)) release) (\<lambda>_. ?P ((?v (u\<lparr>semaphore := False\<rparr>) v)\<lparr>semaphore := True\<rparr>))"
      unfolding release_def by (rule succeeds_seq [OF at_thread at_thread])
    assume "length v = length (channelMap (plans ! i)) \<and> (\<forall>x \<in> set v. byte_ok x)"
    then show "hl_core plans (L @ [i]) ((?v (u\<lparr>semaphore := False\<rparr>) v)\<lparr>semaphore := True\<rparr>)"
      using u that saved_ok_append [OF _ assms] by (simp add: hl_core_def)
  qed simp
  show "succeeds (?P u) (addLight i) (\<lambda>_. hl_st channels ready m plans (if i \<in> set L then L else L @ [i]) True)"
    unfolding addLight_def
  proof (rule at_read, rule succeeds_when)
    assume i: "i \<notin> set (h_lights u)"
    have rd: "succeeds (?P (u\<lparr>semaphore := False\<rparr>)) (jread (\<lambda>s. dmxVals (profiles (rg s) ! i)))
      (\<lambda>v s. (length v = length (channelMap (plans ! i)) \<and> (\<forall>x \<in> set v. byte_ok x)) \<and> ?P (u\<lparr>semaphore := False\<rparr>) s)"
    proof (rule succeeds_read)
      fix s assume s: "?P (u\<lparr>semaphore := False\<rparr>) s"
      then have l: "lit_ready (profiles (rg s) ! i)" "plan (profiles (rg s) ! i) = plans ! i"
        using good_light [OF _ assms] by (auto simp: th_at_def)
      show "(length (dmxVals (profiles (rg s) ! i)) = length (channelMap (plans ! i)) \<and>
          (\<forall>x \<in> set (dmxVals (profiles (rg s) ! i)). byte_ok x)) \<and> ?P (u\<lparr>semaphore := False\<rparr>) s"
        using s l(1) plan_of(1) [OF l(2)] by (simp add: lit_ready_def fixture_ok_def)
    qed
    have "i \<notin> set L" using i L by simp
    from succeeds_seq [OF at_acquire succeeds_bind [OF rd add [OF this]]] u this
    show "succeeds (?P u) (jseq acquire (jbind (jread (\<lambda>s. dmxVals (profiles (rg s) ! i)))
        (\<lambda>vals. jseq (on_thread (\<lambda>t. ?v t vals)) release))) (\<lambda>_. hl_st channels ready m plans (if i \<in> set L then L else L @ [i]) True)"
      by simp
  next
    fix s assume "\<not> i \<notin> set (h_lights u)" "?P u s"
    with L u show "hl_st channels ready m plans (if i \<in> set L then L else L @ [i]) True s" by (simp add: hl_st_def th_at_def)
  qed
qed

lemma update_default_color_good:
  "succeeds (hl_st channels ready m plans L True) update_default_color (\<lambda>_. hl_st channels ready m plans L True)"
proof (rule succeeds_hl)
  fix u assume u: "hl_core plans L u" "semaphore u = True"
  show "succeeds (th_at channels ready m plans u) update_default_color (\<lambda>_. hl_st channels ready m plans L True)"
    unfolding update_default_color_def release_def
    by (rule hl_at [OF succeeds_seq [OF at_acquire succeeds_seq [OF at_thread at_thread]]]) (use u in \<open>simp_all add: hl_core_def\<close>)
qed

context dmx_channels
begin

lemma removeLight_good:
  assumes "i \<in> set L"
  shows "succeeds (hl_st channels ready m plans L True) (removeLight fw i) (\<lambda>_. hl_st channels ready m plans (remove1 i L) True)"
proof (rule succeeds_hl)
  fix u assume u: "hl_core plans L u" "semaphore u = True"
  then have L: "h_lights u = L" "distinct L" and saved: "saved_ok plans L (savedValues u)" by (simp_all add: hl_core_def)
  note rem = saved_ok_remove [OF saved assms L(2)]
  let ?P = "th_at channels ready m plans" and ?k = "indexOf i L"
  show "succeeds (?P u) (removeLight fw i) (\<lambda>_. hl_st channels ready m plans (remove1 i L) True)"
    unfolding removeLight_def Let_def release_def
  proof (rule at_read [where g = "\<lambda>t. t", simplified comp_def], rule succeeds_when)
    show "succeeds (?P u) (jseq acquire (jseq (on_thread (\<lambda>t. t\<lparr>savedValues := remove_at (indexOf i (h_lights u)) (savedValues t)\<rparr>))
        (jseq (exit_io (on_rig (on_light i (setDMXVals fw (savedValues u ! indexOf i (h_lights u))))))
          (jseq (on_thread (\<lambda>t. t\<lparr>h_lights := remove1 i (h_lights t)\<rparr>)) (on_thread (\<lambda>t. t\<lparr>semaphore := True\<rparr>))))))
      (\<lambda>_. hl_st channels ready m plans (remove1 i L) True)"
    proof (rule hl_at [OF succeeds_seq [OF at_acquire succeeds_seq [OF at_thread succeeds_seq [OF succeeds_try(2) [OF at_rig]
            succeeds_seq [OF at_thread at_thread]]]]])
      show "succeeds (good channels ready m plans) (on_light i (setDMXVals fw (savedValues u ! indexOf i (h_lights u)))) (\<lambda>_. good channels ready m plans)"
        unfolding L(1) by (rule on_light_values [OF rem(3-5)])
    qed (use u L rem(1) in \<open>simp_all add: hl_core_def\<close>)
  qed (use assms L in simp_all)
qed

lemma remove_all_good:
  "length L \<le> n \<Longrightarrow> succeeds (hl_st channels ready m plans L True) (remove_all n fw) (\<lambda>_. hl_st channels ready m plans [] True)"
proof (induction n arbitrary: L)
  case 0
  then show ?case by (auto intro: succeeds_ret)
next
  case (Suc n)
  show ?case unfolding remove_all.simps
  proof (rule succeeds_bind, rule succeeds_read [where Q = "\<lambda>x s. x = L \<and> hl_st channels ready m plans L True s"])
    show "succeeds (\<lambda>s. x = L \<and> hl_st channels ready m plans L True s) (jwhen (x \<noteq> []) (jseq (removeLight fw (hd x)) (remove_all n fw)))
        (\<lambda>_. hl_st channels ready m plans [] True)" for x
    proof (rule succeeds_fact, rule succeeds_when)
      assume x: "x = L" "x \<noteq> []"
      then have "length (remove1 (hd L) L) \<le> n" "hd x \<in> set L" using Suc.prems by (cases L; simp)+
      then show "succeeds (hl_st channels ready m plans L True) (jseq (removeLight fw (hd x)) (remove_all n fw)) (\<lambda>_. hl_st channels ready m plans [] True)"
        using x(1) by (intro succeeds_seq [OF removeLight_good] Suc.IH) simp_all
    qed simp
  qed (simp add: hl_st_def hl_core_def)
qed

lemma highlight_redrum_good:
  "succeeds (hl_st channels ready m plans L True) (highlight_redrum fw) (\<lambda>r s. r = L \<and> hl_st channels ready m plans [] True s)"
proof -
  have "succeeds (\<lambda>s. x = L \<and> hl_st channels ready m plans L True s) (jbind (remove_all (length x) fw) (\<lambda>_. jret x))
      (\<lambda>r s. r = L \<and> hl_st channels ready m plans [] True s)" for x
    by (rule succeeds_fact, rule succeeds_bind, rule remove_all_good) (auto intro: succeeds_ret)
  then show ?thesis unfolding highlight_redrum_def
    by (rule succeeds_bind [OF succeeds_read, rotated]) (simp add: hl_st_def hl_core_def)
qed

end

subsection \<open>The other threads\<close>

definition lights_in :: "fixture list \<Rightarrow> nat list \<Rightarrow> bool" where
  "lights_in plans L \<longleftrightarrow> (\<forall>i \<in> set L. i < length plans)"

lemma lights_in_take: "lights_in plans L \<Longrightarrow> lights_in plans (take n L)"
  by (auto simp: lights_in_def dest: in_set_takeD)

lemma presets_typed: "n < length PRESETS \<Longrightarrow> op_typed (Set_color (PRESETS ! n))"
proof -
  assume "n < length PRESETS"
  then have "PRESETS ! n \<in> set PRESETS" by simp
  then show ?thesis by (auto simp: PRESETS_def byte_ok_def)
qed

lemma rainbow_typed: "c \<in> set rainbow \<Longrightarrow> op_typed (Set_color c)"
  by (auto simp: rainbow_def byte_ok_def simp del: upt_Suc)

lemma rainbow_nonempty: "rainbow \<noteq> []"
  by (simp add: rainbow_def)

definition preset_ok :: "fixture list \<Rightarrow> preset_thread \<Rightarrow> bool" where
  "preset_ok plans t \<longleftrightarrow> lights_in plans (p_lights t) \<and> p_index t < length PRESETS"

definition rainbow_ok :: "fixture list \<Rightarrow> rainbow_thread \<Rightarrow> bool" where
  "rainbow_ok plans t \<longleftrightarrow> lights_in plans (r_fixtures t) \<and> set (r_colors t) \<subseteq> set rainbow"

definition chase_ok :: "scene_manager \<Rightarrow> chase_thread \<Rightarrow> bool" where
  "chase_ok m t \<longleftrightarrow> c_pos t = 0 \<or> c_pos t < length (scenes m)"

context dmx_channels
begin

lemma show_color_good:
  assumes "i < length plans" "op_typed (Set_color c)"
  shows "succeeds (good channels ready m plans) (show_color fw c i) (\<lambda>_. good channels ready m plans)"
  unfolding show_color_def
  by (intro succeeds_try succeeds_seq [OF on_light_color on_light_dimmer] assms) (simp add: byte_ok_def)

lemma preset_turn_good:
  assumes "preset_ok plans t"
  shows "succeeds (th_at channels ready m plans t) (preset_turn fw n interrupted)
    (\<lambda>_ s. good channels ready m plans (rg s) \<and> preset_ok plans (th s))"
  unfolding preset_turn_def
proof (rule at_read [where g = "\<lambda>t. t", simplified comp_def], rule succeeds_seq [OF at_rig])
  have "lights_in plans (take n (p_lights t))" using assms by (simp add: preset_ok_def lights_in_take)
  then show "succeeds (good channels ready m plans) (jfor (take n (p_lights t)) (show_color fw (PRESETS ! p_index t))) (\<lambda>_. good channels ready m plans)"
    using assms by (intro succeeds_for show_color_good presets_typed) (auto simp: lights_in_def preset_ok_def)
  show "succeeds (th_at channels ready m plans t) (jwhen (\<not> interrupted)
      (on_thread (\<lambda>t. t\<lparr>p_index := (if p_index t + 1 \<ge> length PRESETS then 0 else p_index t + 1)\<rparr>)))
      (\<lambda>_ s. good channels ready m plans (rg s) \<and> preset_ok plans (th s))"
    using assms by (intro succeeds_when succeeds_on_thread) (auto simp: th_at_def preset_ok_def PRESETS_def)
qed

lemma rainbow_turn_good:
  assumes "rainbow_ok plans t"
  shows "succeeds (th_at channels ready m plans t) (rainbow_turn fw) (\<lambda>_ s. good channels ready m plans (rg s) \<and> rainbow_ok plans (th s))"
proof -
  define u where "u = (if r_colors t = [] then t\<lparr>r_colors := rainbow\<rparr> else t)"
  have u: "rainbow_ok plans u" "r_colors u \<noteq> []" using assms rainbow_nonempty by (auto simp: u_def rainbow_ok_def)
  have 1: "succeeds (th_at channels ready m plans t) (on_thread (\<lambda>t. if r_colors t = [] then t\<lparr>r_colors := rainbow\<rparr> else t)) (\<lambda>_. th_at channels ready m plans u)"
    unfolding u_def by (rule at_thread)
  have "op_typed (Set_color (hd (r_colors u)))" using u by (intro rainbow_typed) (auto simp: rainbow_ok_def)
  then have 2: "succeeds (good channels ready m plans) (jfor (r_fixtures u) (show_color fw (hd (r_colors u)))) (\<lambda>_. good channels ready m plans)"
    using u by (intro succeeds_for show_color_good) (auto simp: rainbow_ok_def lights_in_def)
  have "rainbow_ok plans (u\<lparr>r_colors := tl (r_colors u)\<rparr>)"
    using u by (auto simp: rainbow_ok_def dest: list.set_sel(2))
  then show ?thesis unfolding rainbow_turn_def
    by (intro succeeds_seq [OF 1] at_read [where g = "\<lambda>t. t", simplified comp_def]
        succeeds_conseq [OF succeeds_seq [OF at_thread at_rig [OF 2]]]) (auto simp: th_at_def)
qed

lemma chase_turn_good:
  assumes "chase_ok m t" "scenes_ok m"
  shows "succeeds (th_at channels ready m plans t) (chase_turn fw) (\<lambda>_ s. good channels ready m plans (rg s) \<and> chase_ok m (th s))"
proof -
  have body: "succeeds (th_at channels ready m plans t) (jwhen (\<not> length (scenes m) \<le> 1)
      (jseq (on_rig (try_io (on_dmx (setDMX_all fw (scenes m ! c_pos t)))))
        (on_thread (\<lambda>t. t\<lparr>c_pos := (if Suc (c_pos t) \<ge> length (scenes m) then 0 else Suc (c_pos t))\<rparr>))))
      (\<lambda>_ s. good channels ready m plans (rg s) \<and> chase_ok m (th s))"
  proof (rule succeeds_when, rule succeeds_seq [OF at_rig])
    assume "\<not> length (scenes m) \<le> 1"
    with assms(1) have "c_pos t < length (scenes m)" by (auto simp: chase_ok_def)
    then have "scene_bytes (scenes m ! c_pos t)" using assms(2) by (simp add: scenes_ok_def)
    then show "succeeds (good channels ready m plans) (try_io (on_dmx (setDMX_all fw (scenes m ! c_pos t)))) (\<lambda>_. good channels ready m plans)"
      by (intro succeeds_try succeeds_conseq [OF on_dmx_all]) auto
    show "succeeds (th_at channels ready m plans t) (on_thread (\<lambda>t. t\<lparr>c_pos := (if Suc (c_pos t) \<ge> length (scenes m) then 0 else Suc (c_pos t))\<rparr>))
        (\<lambda>_ s. good channels ready m plans (rg s) \<and> chase_ok m (th s))"
      by (rule succeeds_on_thread) (auto simp: th_at_def chase_ok_def)
  qed (use assms in \<open>simp add: th_at_def\<close>)
  show ?thesis unfolding succeeds_def
  proof (intro allI impI)
    fix s assume s: "th_at channels ready m plans t s"
    then have "sceneManager (rg s) = m" "th s = t" by (simp_all add: th_at_def good_def)
    then have "chase_turn fw s = jwhen (\<not> length (scenes m) \<le> 1)
      (jseq (on_rig (try_io (on_dmx (setDMX_all fw (scenes m ! c_pos t)))))
        (on_thread (\<lambda>u. u\<lparr>c_pos := (if Suc (c_pos t) \<ge> length (scenes m) then 0 else Suc (c_pos t))\<rparr>))) s"
      by (simp add: chase_turn_def jbind_def jread_def)
    also have "\<dots> = jwhen (\<not> length (scenes m) \<le> 1)
      (jseq (on_rig (try_io (on_dmx (setDMX_all fw (scenes m ! c_pos t)))))
        (on_thread (\<lambda>t. t\<lparr>c_pos := (if Suc (c_pos t) \<ge> length (scenes m) then 0 else Suc (c_pos t))\<rparr>))) s"
      using \<open>th s = t\<close> by (auto simp: jwhen_def jseq_def jbind_def on_rig_def on_thread_def java split: prod.splits sum.splits)
    finally show "\<exists>x u. chase_turn fw s = (Inr x, u) \<and> good channels ready m plans (rg u) \<and> chase_ok m (th u)"
      using succeedsD [OF body s] by simp
  qed
qed

lemma on_light_keeps:
  assumes "i < length plans" "op_typed oper"
  shows "keeps (good channels ready m plans) (on_light i (run_op fw oper))"
  unfolding on_light_def
proof (rule keeps_on)
  fix s assume s: "good channels ready m plans s"
  let ?l = "\<lparr>fx = profiles s ! i, drv = dmx s\<rparr>"
  note l = good_light [OF s assms(1)]
  have "light_ok channels ready (snd (run_op fw oper ?l)) \<and> (\<exists>v. fx (snd (run_op fw oper ?l)) = (profiles s ! i)\<lparr>dmxVals := v\<rparr>)"
    using run_op_spec [OF l(1) assms(2)] l(1)
    by (auto simp: performs_def lit_put_def split: sum.splits intro: exI [of _ "dmxVals (profiles s ! i)"])
  then have "light_ok channels ready (snd (run_op fw oper ?l))" "plan (fx (snd (run_op fw oper ?l))) = plans ! i"
      "lit_ready (fx (snd (run_op fw oper ?l)))"
    using l(3) lit_ready_values [OF l(2)] by (auto simp: light_ok_def)
  then show "good channels ready m plans (s\<lparr>profiles := (profiles s)[i := fx (snd (run_op fw oper ?l))], dmx := drv (snd (run_op fw oper ?l))\<rparr>)"
    by (intro good_put [OF s assms(1)]) (simp_all add: light_ok_def)
qed

end

subsection \<open>The dimmer of the DMX visual\<close>

context dmx_channels
begin

lemma dmx_light_good:
  assumes "i < length plans" "byte_ok (d_dimmer u + d_direction u)"
  shows "succeeds (th_at channels ready m plans u) (dmx_light fw i) (\<lambda>_. th_at channels ready m plans (u\<lparr>d_dimmer := d_dimmer u + d_direction u\<rparr>))"
  unfolding dmx_light_def
  by (intro succeeds_try succeeds_seq [OF at_rig [OF on_light_white]] succeeds_seq [OF at_thread] at_read at_rig on_light_dimmer)
    (use assms in \<open>simp_all add: byte_ok_def\<close>)

lemma dmx_light_dies:
  assumes "i < length plans" "\<not> byte_ok (d_dimmer u + d_direction u)" "th_at channels ready m plans u s"
  shows "fst (dmx_light fw i s) = Inl Illegal_argument"
proof -
  have "byte_ok 255" by (simp add: byte_ok_def)
  from succeedsD [OF at_rig [OF on_light_white [OF assms(1) this]] assms(3)] obtain t where
    "on_rig (on_light i (setWhite fw 255)) s = (Inr (), t)" "th t = u" by (auto simp: th_at_def)
  then show ?thesis using assms(2)
    by (auto simp: dmx_light_def try_io_def jseq_def jbind_def on_thread_def on_rig_def on_light_def setDimmerValue_def java byte_ok_def not_le)
qed

lemma dmx_lights_good:
  assumes "lights_in plans K" "\<And>k. k \<le> length K \<Longrightarrow> byte_ok (d_dimmer u + int k * d_direction u)"
  shows "succeeds (th_at channels ready m plans u) (jfor K (dmx_light fw))
    (\<lambda>_. th_at channels ready m plans (u\<lparr>d_dimmer := d_dimmer u + int (length K) * d_direction u\<rparr>))"
  using assms
proof (induction K arbitrary: u)
  case Nil
  then show ?case by (auto intro: succeeds_ret)
next
  case (Cons i K)
  let ?u = "u\<lparr>d_dimmer := d_dimmer u + d_direction u\<rparr>"
  have "byte_ok (d_dimmer ?u + int k * d_direction ?u)" if "k \<le> length K" for k
    using Cons.prems(2) [of "Suc k"] that by (simp add: algebra_simps)
  from Cons.IH [OF _ this] Cons.prems(1)
  have "succeeds (th_at channels ready m plans ?u) (jfor K (dmx_light fw))
      (\<lambda>_. th_at channels ready m plans (u\<lparr>d_dimmer := d_dimmer u + int (length (i # K)) * d_direction u\<rparr>))"
    by (simp add: lights_in_def algebra_simps)
  moreover have "succeeds (th_at channels ready m plans u) (dmx_light fw i) (\<lambda>_. th_at channels ready m plans ?u)"
    using Cons.prems(1) Cons.prems(2) [of 1] by (intro dmx_light_good) (simp_all add: lights_in_def)
  ultimately show ?case unfolding jfor.simps by (rule succeeds_seq [rotated])
qed

lemma dmx_lights_die:
  assumes "lights_in plans K" "d_direction u = -5" "0 \<le> d_dimmer u" "d_dimmer u \<le> 255" "d_dimmer u < 5 * int (length K)"
    "th_at channels ready m plans u s"
  shows "fst (jfor K (dmx_light fw) s) = Inl Illegal_argument"
  using assms
proof (induction K arbitrary: u s)
  case (Cons i K)
  have i: "i < length plans" using Cons.prems(1) by (simp add: lights_in_def)
  show ?case
  proof (cases "5 \<le> d_dimmer u")
    case True
    let ?u = "u\<lparr>d_dimmer := d_dimmer u + d_direction u\<rparr>"
    have "byte_ok (d_dimmer u + d_direction u)" using True Cons.prems by (simp add: byte_ok_def)
    from succeedsD [OF dmx_light_good [OF i this] Cons.prems(6)] obtain t where
      t: "dmx_light fw i s = (Inr (), t)" "th_at channels ready m plans ?u t" by auto
    have "fst (jfor K (dmx_light fw) t) = Inl Illegal_argument"
      using Cons.prems True by (intro Cons.IH [OF _ _ _ _ _ t(2)]) (simp_all add: lights_in_def)
    with t(1) show ?thesis by (simp add: jbind_simps(3))
  next
    case False
    then have "\<not> byte_ok (d_dimmer u + d_direction u)" using Cons.prems(2) by (simp add: byte_ok_def)
    from dmx_light_dies [OF i this Cons.prems(6)] show ?thesis
      by (cases "dmx_light fw i s") (simp add: jseq_def jbind_def)
  qed
qed simp

lemma dmx_turn_good:
  assumes "lights_in plans (d_lights u)" "byte_ok (d_dimmer u)" "d_direction u = 5 \<or> d_direction u = -5"
    "byte_ok (d_dimmer u + int (length (d_lights u)) * d_direction u)"
  defines "v \<equiv> d_dimmer u + int (length (d_lights u)) * d_direction u"
  shows "succeeds (th_at channels ready m plans u) (dmx_turn fw (length (d_lights u)))
    (\<lambda>_. th_at channels ready m plans (u\<lparr>d_dimmer := v, d_direction := next_direction (d_direction u) v\<rparr>))"
proof -
  have "byte_ok (d_dimmer u + int k * d_direction u)" if "k \<le> length (d_lights u)" for k
    using assms(2-4) that by (auto simp: byte_ok_def)
  from dmx_lights_good [OF assms(1) this]
  have "succeeds (th_at channels ready m plans u) (jfor (d_lights u) (dmx_light fw)) (\<lambda>_. th_at channels ready m plans (u\<lparr>d_dimmer := v\<rparr>))"
    by (simp add: v_def)
  then show ?thesis unfolding dmx_turn_def
    by (intro at_read) (use succeeds_conseq [OF succeeds_seq [OF _ at_thread]] in fastforce)
qed

lemma dmx_turn_keeps:
  "lights_in plans L \<Longrightarrow> keeps (\<lambda>s. good channels ready m plans (rg s) \<and> d_lights (th s) = L) (dmx_turn fw n)"
proof -
  let ?P = "\<lambda>s :: (dmx_thread, 'r) turn. good channels ready m plans (rg s) \<and> d_lights (th s) = L"
  assume L: "lights_in plans L"
  have rig: "keeps ?P (on_rig x)" if "keeps (good channels ready m plans) x" for x :: "('r rig, unit) java"
    unfolding on_rig_def by (rule keeps_on) (use keepsD [OF that] in simp)
  have thread: "keeps ?P (on_thread (\<lambda>t. t\<lparr>d_dimmer := f t\<rparr>))" "keeps ?P (on_thread (\<lambda>t. t\<lparr>d_direction := f t\<rparr>))" for f
    unfolding on_thread_def by (rule keeps_modify, simp)+
  have light: "keeps ?P (dmx_light fw i)" if "i < length plans" for i
    unfolding dmx_light_def
    using on_light_keeps [OF that, of "Set_white 255"] on_light_keeps [OF that, of "Set_dimmer v" for v]
    by (intro keeping rig thread) simp_all
  show "keeps ?P (dmx_turn fw n)"
    unfolding keeps_def
  proof (intro allI impI)
    fix s assume s: "?P s"
    have "keeps ?P (jseq (jfor (take n L) (dmx_light fw)) (on_thread (\<lambda>t. t\<lparr>d_direction := next_direction (d_direction t) (d_dimmer t)\<rparr>)))"
      using L by (intro keeping light thread) (auto simp: lights_in_def dest: in_set_takeD)
    from keepsD [OF this s] s show "?P (snd (dmx_turn fw n s))" by (simp add: dmx_turn_def jbind_def jread_def)
  qed
qed

end

text \<open>A state of the thread it can reach with up to five lights.\<close>

definition dmx_fit :: "int \<Rightarrow> int \<Rightarrow> int \<Rightarrow> bool" where
  "dmx_fit n d v \<longleftrightarrow> (d = 5 \<or> d = -5) \<and> byte_ok v \<and> 5 * n dvd 255 - v \<and> (d = 5 \<longrightarrow> v < 255) \<and> (d = -5 \<longrightarrow> 25 \<le> v)"

lemma dmx_fit_step:
  assumes "1 \<le> n" "n \<le> 5" "dmx_fit n d v"
  shows "byte_ok (v + n * d)" "dmx_fit n (next_direction d (v + n * d)) (v + n * d)"
proof -
  obtain c where c: "255 - v = 5 * n * c" using assms(3) by (auto simp: dmx_fit_def dvd_def)
  have d: "d = 5 \<or> d = -5" using assms(3) by (simp add: dmx_fit_def)
  then have "255 - (v + n * d) = 5 * n * (c - (if d = 5 then 1 else -1))" using c by (auto simp: algebra_simps)
  then have dvd: "5 * n dvd 255 - (v + n * d)" by (metis dvd_triv_left)
  have up: "v + 5 * n \<le> 255" if "d = 5"
  proof -
    have "0 < 255 - v" using assms(3) that by (simp add: dmx_fit_def)
    then have "0 < 5 * n * c" by (simp only: c)
    then have "1 \<le> c" using assms(1) by (simp add: zero_less_mult_iff)
    then have "5 * n * 1 \<le> 5 * n * c" using assms(1) by (intro mult_left_mono) simp_all
    then show ?thesis using c by simp
  qed
  then show "byte_ok (v + n * d)" using assms d by (auto simp: byte_ok_def dmx_fit_def)
  with up show "dmx_fit n (next_direction d (v + n * d)) (v + n * d)"
    using assms(1,2) d dvd by (auto simp: dmx_fit_def next_direction_def)
qed

context dmx_channels
begin

lemma dmx_visual_runs:
  assumes "lights_in plans L" "L \<noteq> []" "length L \<le> 5"
  shows "succeeds (th_at channels ready m plans (DMXVisualThread L)) (jrepeat k (dmx_turn fw (length L)))
    (\<lambda>_ s. byte_ok (d_dimmer (th s)) \<and> good channels ready m plans (rg s))"
proof -
  let ?at = "\<lambda>d v. th_at channels ready m plans \<lparr>d_lights = L, d_direction = d, d_dimmer = v\<rparr>" and ?n = "int (length L)"
  let ?P = "\<lambda>s. \<exists>d v. dmx_fit ?n d v \<and> ?at d v s"
  have n: "1 \<le> ?n" "?n \<le> 5" using assms(2,3) by (cases L; simp)+
  have "succeeds ?P (dmx_turn fw (length L)) (\<lambda>_. ?P)"
    unfolding succeeds_def
  proof (intro allI impI)
    fix s assume "?P s"
    then obtain d v where s: "dmx_fit ?n d v" "?at d v s" by blast
    then have "d = 5 \<or> d = -5" "byte_ok v" by (simp_all add: dmx_fit_def)
    with succeedsD [OF dmx_turn_good s(2)] dmx_fit_step [OF n s(1)] assms(1)
    show "\<exists>x t. dmx_turn fw (length L) s = (Inr x, t) \<and> ?P t" by fastforce
  qed
  from succeeds_repeat [OF this] show ?thesis
    by (rule succeeds_conseq)
      (auto simp: th_at_def DMXVisualThread_def dmx_fit_def byte_ok_def)
qed

lemma dmx_visual_nine:
  assumes "lights_in plans L" "length L = 9" "th_at channels ready m plans (DMXVisualThread L) s"
  shows "fst (jrepeat 5 (dmx_turn fw 9) s) = Inr () \<and> fst (jrepeat 6 (dmx_turn fw 9) s) = Inl Illegal_argument"
proof -
  let ?at = "\<lambda>v. th_at channels ready m plans \<lparr>d_lights = L, d_direction = -5, d_dimmer = v\<rparr>" and ?T = "dmx_turn fw 9"
  have turn: "succeeds (?at v) ?T (\<lambda>_. ?at (v - 45))" if "70 \<le> v" "v \<le> 255" for v
    using dmx_turn_good [of plans "\<lparr>d_lights = L, d_direction = -5, d_dimmer = v\<rparr>" m] assms(1,2) that
    by (simp add: byte_ok_def next_direction_def)
  have down: "succeeds (?at 255) (jrepeat k ?T) (\<lambda>_. ?at (255 - 45 * int k))" if "k \<le> 5" for k
    using that
  proof (induction k)
    case (Suc k)
    then have "succeeds (?at (255 - 45 * int k)) ?T (\<lambda>_. ?at (255 - 45 * int (Suc k)))"
      using turn [of "255 - 45 * int k"] by simp
    with Suc show ?case by (auto intro: succeeds_seq)
  qed (auto intro: succeeds_ret)
  have "?at 255 s" using assms(3) by (simp add: DMXVisualThread_def)
  from succeedsD [OF down [of 5] this] obtain t where t: "jrepeat 5 ?T s = (Inr (), t)" "?at 30 t" by auto
  have "jrepeat 6 ?T s = ?T t" using t(1) by (simp add: eval_nat_numeral jbind_simps(3))
  moreover have "fst (?T t) = Inl Illegal_argument"
    using dmx_lights_die [OF assms(1) _ _ _ _ t(2)] assms(2) t(2)
    by (cases "jfor L (dmx_light fw) t") (simp add: dmx_turn_def jbind_def jread_def jseq_def th_at_def)
  ultimately show ?thesis using t(1) by simp
qed

end

subsection \<open>Properties\<close>

definition rig_good :: "ece453 driver rig \<Rightarrow> bool" where
  "rig_good = rig_ok (\<lambda>s. DMX_data (hw s)) board_ready"

lemma rig_good_self: "rig_good r \<Longrightarrow> good (\<lambda>s. DMX_data (hw s)) board_ready (sceneManager r) (map plan (profiles r)) r"
  by (simp add: rig_good_def good_def)

text \<open>A small rig: one light, the driver after reset, no scenes.\<close>

definition demo_rig :: "ece453 driver rig" where
  "demo_rig = \<lparr>dmx = fresh_dmx, profiles = [fx demo_light],
     sceneManager = \<lparr>scenes = [], currentScene = replicate 513 0, currentIndex = -1, scene_file = Some []\<rparr>\<rparr>"

lemma demo_rig_good: "rig_good demo_rig"
proof -
  have "lit_ready (fx demo_light)"
    using demo_light_ok(1) by (simp add: lit_ready_def) (simp add: demo_light_def rgb_offsets_def containsKey_def)
  then show ?thesis using fresh_mirrored
    by (simp add: rig_good_def rig_ok_def demo_rig_def board_mirrored_def scenes_ok_def scene_bytes_def scenes_inv_def byte_ok_def)
qed

text \<open>
  C40: The dimmer of the DMX visual. The thread that dims its lights turns back at the end of a
  round only. With up to five lights it runs for ever and its dimmer stays a byte; with
  nine lights it falls below zero in the sixth round, and the thread ends with an
  \<open>IllegalArgumentException\<close>.
\<close>

theorem dmx_visual_dimmer:
  fixes garbage p q ps L r
  assumes "rig_good r" "lights_in (profiles r) L" "L \<noteq> []"
  defines "turns \<equiv> \<lambda>k. jrepeat k (dmx_turn (sysfs_file garbage (p # q # ps)) (length L)) \<lparr>th = DMXVisualThread L, rg = r\<rparr>"
  shows "(length L \<le> 5 \<longrightarrow> (\<exists>s. turns k = (Inr (), s) \<and> byte_ok (d_dimmer (th s)) \<and> rig_good (rg s))) \<and>
    (length L = 9 \<longrightarrow> fst (turns 5) = Inr () \<and> fst (turns 6) = Inl Illegal_argument)"
proof -
  let ?m = "sceneManager r" and ?plans = "map plan (profiles r)"
  have start: "th_at (\<lambda>s. DMX_data (hw s)) board_ready ?m ?plans (DMXVisualThread L) \<lparr>th = DMXVisualThread L, rg = r\<rparr>"
    using rig_good_self [OF assms(1)] by (simp add: th_at_def)
  have L: "lights_in ?plans L" using assms(2) by (simp add: lights_in_def)
  have "\<exists>s. turns k = (Inr (), s) \<and> byte_ok (d_dimmer (th s)) \<and> rig_good (rg s)" if "length L \<le> 5"
    using succeedsD [OF board_dmx.dmx_visual_runs [OF L assms(3) that] start, of k garbage p q ps]
    by (auto simp: turns_def good_def rig_good_def)
  then show ?thesis using board_dmx.dmx_visual_nine [OF L _ start, of garbage p q ps] by (auto simp: turns_def)
qed

theorem dmx_visual_dimmer_witness:
  "fst (jrepeat 6 (dmx_turn (sysfs_file 0 [0, 0]) 9) \<lparr>th = DMXVisualThread (replicate 9 0), rg = demo_rig\<rparr>) = Inl Illegal_argument"
proof -
  have "lights_in (profiles demo_rig) (replicate 9 0)" by (simp add: lights_in_def demo_rig_def)
  from dmx_visual_dimmer [OF demo_rig_good this, of 0 0 0 0 "[]"] show ?thesis by simp
qed

subsection \<open>What the highlight gives back\<close>

text \<open>The values of the lights and what the driver believes of the channels; giving a light its values back.\<close>

definition rig_values :: "'r rig \<Rightarrow> fixture list \<times> int list" where
  "rig_values r = (profiles r, dmxShadow (dmx r))"

definition give_back :: "nat \<times> int list \<Rightarrow> fixture list \<times> int list \<Rightarrow> fixture list \<times> int list" where
  "give_back = (\<lambda>(i, v) (fs, shadow). (fs[i := (fs ! i)\<lparr>dmxVals := v\<rparr>], put_block (nat (fx_address (fs ! i))) v shadow))"

lemma puts_block: "puts a (map (\<lambda>c. (c, vs ! c)) [0..<length vs]) xs = put_block a vs xs"
proof (induction vs rule: rev_induct)
  case (snoc v vs)
  have e: "map (\<lambda>c. (c, (vs @ [v]) ! c)) [0..<length (vs @ [v])] = map (\<lambda>c. (c, vs ! c)) [0..<length vs] @ [(length vs, v)]"
    by (simp add: nth_append)
  show ?case unfolding e puts_append snoc put_block_append by (simp add: puts_def)
qed (simp add: puts_def)

lemma put_block_all: "length vs = length xs \<Longrightarrow> put_block 0 vs xs = vs"
  by (rule nth_equalityI) (simp_all add: nth_put_block)

lemma take_put_block: "a + length vs \<le> length xs \<Longrightarrow> take (length vs) (drop a (put_block a vs xs)) = vs"
  by (rule nth_equalityI) (simp_all add: nth_put_block)

lemma saved_ok_length: "saved_ok plans L vs \<Longrightarrow> length vs = length L"
  by (simp add: saved_ok_def list_all2_lengthD)

lemma savedValues_kept [keeping]: "keeps (\<lambda>s. savedValues (th s) = vs) (on_rig n)"
  unfolding on_rig_def by (rule keeps_on) simp

lemma savedValues_thread: "(\<And>t. savedValues (f t) = savedValues t) \<Longrightarrow> keeps (\<lambda>s. savedValues (th s) = vs) (on_thread f)"
  unfolding on_thread_def by (rule keeps_modify) simp

lemma highlight_turn_saved: "keeps (\<lambda>s. savedValues (th s) = vs) (highlight_turn fw n)"
  unfolding highlight_turn_def highlight_light_def acquire_def release_def
  by (intro keeping savedValues_thread) simp_all

text \<open>The calls that only touch the thread, computed.\<close>

lemma update_default_color_result:
  "semaphore (th s) \<Longrightarrow> \<exists>t. update_default_color s = (Inr (), t) \<and> savedValues (th t) = savedValues (th s) \<and> rg t = rg s"
  by (simp add: update_default_color_def acquire_def release_def on_thread_def java)

lemma addLight_result:
  "semaphore (th s) \<Longrightarrow> \<exists>t. addLight i s = (Inr (), t) \<and> rg t = rg s \<and>
     savedValues (th t) = savedValues (th s) @ (if i \<in> set (h_lights (th s)) then [] else [dmxVals (profiles (rg s) ! i)])"
  by (simp add: addLight_def acquire_def release_def on_thread_def jwhen_def java)

context dmx_channels
begin

lemma on_light_restore:
  assumes "good channels ready m plans r" "i < length plans" "length v = length (channelMap (plans ! i))" "\<forall>x \<in> set v. byte_ok x"
  shows "\<exists>r'. on_light i (setDMXVals fw v) r = (Inr (), r') \<and> rig_values r' = give_back (i, v) (rig_values r)"
proof -
  let ?l = "\<lparr>fx = profiles r ! i, drv = dmx r\<rparr>"
  note l = good_light [OF assms(1,2)]
  have len: "length v = length (channelMap (fx ?l))" using assms(3) plan_of(1) [OF l(3)] by simp
  from setDMXVals_result [OF l(1) this assms(4)] obtain d where
    "setDMXVals fw v ?l = (Inr (), lit_put (map (\<lambda>c. (c, v ! c)) [0..<length v]) d ?l)" by (auto simp: performs_def)
  moreover have "put_block 0 v (dmxVals (profiles r ! i)) = v" using len light_ok_lengths [OF l(1)] by (intro put_block_all) simp
  ultimately show ?thesis
    by (simp add: on_light_def jon_def lit_put_def puts_block rig_values_def give_back_def)
qed

lemma removeLight_result:
  assumes "hl_st channels ready m plans L True s" "i \<in> set L"
  defines "k \<equiv> indexOf i L"
  shows "\<exists>t. removeLight fw i s = (Inr (), t) \<and> savedValues (th t) = remove_at k (savedValues (th s)) \<and>
    rig_values (rg t) = give_back (i, savedValues (th s) ! k) (rig_values (rg s))"
proof -
  have L: "h_lights (th s) = L" "distinct L" "saved_ok plans L (savedValues (th s))" "semaphore (th s)"
    and g: "good channels ready m plans (rg s)" using assms(1) by (simp_all add: hl_st_def hl_core_def)
  note rem = saved_ok_remove [OF L(3) assms(2) L(2)]
  from on_light_restore [OF g rem(3-5)] obtain r where
    "on_light i (setDMXVals fw (savedValues (th s) ! k)) (rg s) = (Inr (), r)"
    "rig_values r = give_back (i, savedValues (th s) ! k) (rig_values (rg s))" by (auto simp: k_def)
  then show ?thesis using assms(2) L(1,4)
    by (simp add: removeLight_def acquire_def release_def on_thread_def on_rig_def exit_io_def jwhen_def Let_def java k_def)
qed

lemma remove_all_result:
  "hl_st channels ready m plans L True s \<Longrightarrow> length L \<le> n \<Longrightarrow>
     \<exists>t. remove_all n fw s = (Inr (), t) \<and> hl_st channels ready m plans [] True t \<and>
       rig_values (rg t) = fold give_back (zip L (savedValues (th s))) (rig_values (rg s))"
proof (induction n arbitrary: L s)
  case 0
  then show ?case by (simp add: jret_def)
next
  case (Suc n)
  show ?case
  proof (cases L)
    case Nil
    then show ?thesis using Suc.prems by (simp add: jbind_def jread_def jwhen_def jret_def hl_st_def hl_core_def)
  next
    case (Cons i K)
    have L: "h_lights (th s) = L" "saved_ok plans L (savedValues (th s))" using Suc.prems(1) by (simp_all add: hl_st_def hl_core_def)
    then obtain v vs where v: "savedValues (th s) = v # vs" using Cons by (auto simp: saved_ok_def list_all2_Cons1)
    have i: "i \<in> set L" "indexOf i L = 0" "remove1 i L = K" by (simp_all add: Cons indexOf_def)
    from removeLight_result [OF Suc.prems(1) i(1)] succeedsD [OF removeLight_good [OF i(1)] Suc.prems(1)] obtain u where
      u: "removeLight fw i s = (Inr (), u)" "hl_st channels ready m plans K True u" "savedValues (th u) = vs"
        "rig_values (rg u) = give_back (i, v) (rig_values (rg s))"
      by (auto simp: i v remove_at_def)
    from Suc.IH [OF u(2)] Suc.prems(2) obtain t where
      "remove_all n fw u = (Inr (), t)" "hl_st channels ready m plans [] True t"
      "rig_values (rg t) = fold give_back (zip K vs) (rig_values (rg u))" by (auto simp: Cons u(3))
    then show ?thesis using L(1) u(1,4) by (simp add: jbind_def jread_def jwhen_def jseq_def Cons v)
  qed
qed

lemma highlight_redrum_result:
  assumes "hl_st channels ready m plans L True s"
  shows "\<exists>t. highlight_redrum fw s = (Inr L, t) \<and> hl_st channels ready m plans [] True t \<and>
    rig_values (rg t) = fold give_back (zip L (savedValues (th s))) (rig_values (rg s))"
proof -
  have "h_lights (th s) = L" using assms by (simp add: hl_st_def hl_core_def)
  then show ?thesis using remove_all_result [OF assms, of "length L"]
    by (auto simp: highlight_redrum_def jbind_def jread_def jret_def)
qed

end

text \<open>The highlight between two calls: on lights \<open>L\<close>, whose values it keeps as \<open>vs\<close>.\<close>

definition highlight_inv :: "scene_manager \<Rightarrow> fixture list \<Rightarrow> nat list \<Rightarrow> int list list \<Rightarrow> (highlight_thread, ece453 driver) turn \<Rightarrow> bool" where
  "highlight_inv m plans L vs s \<longleftrightarrow> hl_st (\<lambda>s. DMX_data (hw s)) board_ready m plans L True s \<and> savedValues (th s) = vs"

lemma highlight_inv_calls:
  fixes s :: "(highlight_thread, ece453 driver) turn" and garbage p q ps
  assumes "highlight_inv m plans L vs s" "i < length plans"
  defines "fw \<equiv> sysfs_file garbage (p # q # ps)"
  shows "\<exists>t. highlight_turn fw n s = (Inr (), t) \<and> highlight_inv m plans L vs t"
    "\<exists>t. update_default_color s = (Inr (), t) \<and> highlight_inv m plans L vs t \<and> rg t = rg s"
    "i \<in> set L \<Longrightarrow> \<exists>t. addLight i s = (Inr (), t) \<and> highlight_inv m plans L vs t \<and> rg t = rg s"
    "i \<notin> set L \<Longrightarrow> \<exists>t. addLight i s = (Inr (), t) \<and> highlight_inv m plans (L @ [i]) (vs @ [dmxVals (profiles (rg s) ! i)]) t \<and> rg t = rg s"
    "i \<in> set L \<Longrightarrow> \<exists>t. removeLight fw i s = (Inr (), t) \<and> highlight_inv m plans (remove1 i L) (remove_at (indexOf i L) vs) t \<and>
       rig_values (rg t) = give_back (i, vs ! indexOf i L) (rig_values (rg s))"
    "\<exists>t. highlight_redrum fw s = (Inr L, t) \<and> highlight_inv m plans [] [] t \<and> rig_values (rg t) = fold give_back (zip L vs) (rig_values (rg s))"
proof -
  have st: "hl_st (\<lambda>s. DMX_data (hw s)) board_ready m plans L True s" and vs: "savedValues (th s) = vs"
    and L: "semaphore (th s)" "h_lights (th s) = L"
    using assms(1) by (auto simp: highlight_inv_def hl_st_def hl_core_def)
  show "\<exists>t. highlight_turn fw n s = (Inr (), t) \<and> highlight_inv m plans L vs t"
    using succeedsD [OF board_dmx.highlight_turn_good st, of garbage p q ps n] keepsD [OF highlight_turn_saved vs, of fw n]
    by (auto simp: highlight_inv_def fw_def)
  show "\<exists>t. update_default_color s = (Inr (), t) \<and> highlight_inv m plans L vs t \<and> rg t = rg s"
    using succeedsD [OF update_default_color_good st] update_default_color_result [OF L(1)] vs by (auto simp: highlight_inv_def)
  show "i \<in> set L \<Longrightarrow> \<exists>t. addLight i s = (Inr (), t) \<and> highlight_inv m plans L vs t \<and> rg t = rg s"
    "i \<notin> set L \<Longrightarrow> \<exists>t. addLight i s = (Inr (), t) \<and> highlight_inv m plans (L @ [i]) (vs @ [dmxVals (profiles (rg s) ! i)]) t \<and> rg t = rg s"
    using succeedsD [OF addLight_good [OF assms(2)] st] addLight_result [OF L(1), of i] L(2) vs by (auto simp: highlight_inv_def)
  show "i \<in> set L \<Longrightarrow> \<exists>t. removeLight fw i s = (Inr (), t) \<and> highlight_inv m plans (remove1 i L) (remove_at (indexOf i L) vs) t \<and>
       rig_values (rg t) = give_back (i, vs ! indexOf i L) (rig_values (rg s))"
    using succeedsD [OF board_dmx.removeLight_good st, of i garbage p q ps] board_dmx.removeLight_result [OF st, of i garbage p q ps] vs
    by (auto simp: highlight_inv_def fw_def)
  obtain t where t: "highlight_redrum fw s = (Inr L, t)" "hl_st (\<lambda>s. DMX_data (hw s)) board_ready m plans [] True t"
      "rig_values (rg t) = fold give_back (zip L vs) (rig_values (rg s))"
    using board_dmx.highlight_redrum_result [OF st, of garbage p q ps] vs by (auto simp: fw_def)
  moreover have "savedValues (th t) = []" using t(2) by (simp add: hl_st_def hl_core_def saved_ok_def)
  ultimately show "\<exists>t. highlight_redrum fw s = (Inr L, t) \<and> highlight_inv m plans [] [] t \<and>
      rig_values (rg t) = fold give_back (zip L vs) (rig_values (rg s))"
    by (auto simp: highlight_inv_def)
qed

lemma highlight_rounds:
  assumes "highlight_inv m plans L vs s" "i < length plans"
  shows "\<exists>t. jfor ns (highlight_turn (sysfs_file garbage (p # q # ps))) s = (Inr (), t) \<and> highlight_inv m plans L vs t"
  using assms(1)
proof (induction ns arbitrary: s)
  case (Cons n ns)
  from highlight_inv_calls(1) [OF Cons.prems assms(2)] obtain t where
    "highlight_turn (sysfs_file garbage (p # q # ps)) n s = (Inr (), t)" "highlight_inv m plans L vs t" by blast
  with Cons.IH [of t] show ?case by (simp add: jbind_simps(3))
qed (simp add: jret_def)

lemma highlight_inv_saved:
  assumes "highlight_inv m plans L vs s"
  shows "saved_ok plans L vs" "h_lights (th s) = L" "distinct L" "20 \<le> h_dimmer (th s)" "h_dimmer (th s) \<le> 255" "5 dvd h_dimmer (th s)"
  using assms by (auto simp: highlight_inv_def hl_st_def hl_core_def dim_ok_def)

text \<open>Taking a light in, any rounds, and taking it out: the light has its values again, and so has the board.\<close>

lemma highlight_in_and_out:
  fixes garbage p q ps
  assumes "highlight_inv m plans L vs s" "i < length plans" "i \<notin> set L"
  defines "fw \<equiv> sysfs_file garbage (p # q # ps)" and "v \<equiv> dmxVals (profiles (rg s) ! i)"
  shows "\<exists>t. jseq (addLight i) (jseq (jfor ns (highlight_turn fw)) (removeLight fw i)) s = (Inr (), t) \<and> highlight_inv m plans L vs t \<and>
    dmxVals (profiles (rg t) ! i) = v \<and> take (length v) (drop (nat (fx_address (plans ! i))) (dmxShadow (dmx (rg t)))) = v"
proof -
  from highlight_inv_calls(4) [OF assms(1-3)] obtain t1 where
    t1: "addLight i s = (Inr (), t1)" "highlight_inv m plans (L @ [i]) (vs @ [v]) t1" by (auto simp: v_def)
  from highlight_rounds [OF t1(2) assms(2)] obtain t2 where
    t2: "jfor ns (highlight_turn fw) t1 = (Inr (), t2)" "highlight_inv m plans (L @ [i]) (vs @ [v]) t2" unfolding fw_def by blast
  have k: "indexOf i (L @ [i]) = length L" unfolding indexOf_def by (subst takeWhile_append2) (use assms(3) in auto)
  have len: "length vs = length L" using saved_ok_length [OF highlight_inv_saved(1) [OF assms(1)]] .
  from highlight_inv_calls(5) [OF t2(2) assms(2), of garbage p q ps] obtain t3 where
    t3: "removeLight fw i t2 = (Inr (), t3)" "highlight_inv m plans L vs t3" "rig_values (rg t3) = give_back (i, v) (rig_values (rg t2))"
    using assms(3) by (auto simp: fw_def k remove1_append remove_at_def nth_append simp flip: len)
  have good: "good (\<lambda>s. DMX_data (hw s)) board_ready m plans (rg t2)" using t2(2) by (simp add: highlight_inv_def hl_st_def)
  note l = good_light [OF good assms(2)]
  have "saved_ok plans (L @ [i]) (vs @ [v])" by (rule highlight_inv_saved(1) [OF t2(2)])
  then have "length v = length (channelMap (profiles (rg t2) ! i))"
    using plan_of(1) [OF l(3)] by (simp add: saved_ok_def list_all2_append len)
  moreover note light_ok_lengths [OF l(1), simplified]
  ultimately have "nat (fx_address (profiles (rg t2) ! i)) + length v \<le> length (dmxShadow (dmx (rg t2)))"
    by (elim conjE) linarith
  from take_put_block [OF this] plan_of(2) [OF l(3)] l(4)
  have "dmxVals (profiles (rg t3) ! i) = v" "take (length v) (drop (nat (fx_address (plans ! i))) (dmxShadow (dmx (rg t3)))) = v"
    using t3(3) by (simp_all add: rig_values_def give_back_def)
  with t1(1) t2(1) t3(1,2) show ?thesis by (auto simp: jseq_def jbind_def)
qed

text \<open>
  C27: The highlight keeps its dimmer in range and gives back what it took. Every call on a highlight
  between two calls returns normally and leaves it between two calls: a round keeps the chosen
  lights, the values it has saved, and a dimmer between 20 and 255 in steps of five; taking a light
  in saves the light's values, once; taking it out, and ending the thread, write the saved
  values back to the lights and the channels, and change nothing else of them. So a light that is taken in
  and, after any rounds, out again has the values it had, and the board shows them. The scenes and
  the lights' descriptions are never touched.
\<close>

theorem highlight_dimmer_in_range:
  fixes s :: "(highlight_thread, ece453 driver) turn" and garbage p q ps
  assumes "highlight_inv m plans L vs s" "i < length plans"
  defines "fw \<equiv> sysfs_file garbage (p # q # ps)" and "v \<equiv> dmxVals (profiles (rg s) ! i)"
  shows "(\<exists>t. highlight_turn fw n s = (Inr (), t) \<and> highlight_inv m plans L vs t \<and>
      20 \<le> h_dimmer (th t) \<and> h_dimmer (th t) \<le> 255 \<and> 5 dvd h_dimmer (th t)) \<and>
    (\<exists>t. update_default_color s = (Inr (), t) \<and> highlight_inv m plans L vs t \<and> rg t = rg s) \<and>
    (\<exists>t. addLight i s = (Inr (), t) \<and> rg t = rg s \<and>
      (if i \<in> set L then highlight_inv m plans L vs t else highlight_inv m plans (L @ [i]) (vs @ [v]) t)) \<and>
    (i \<in> set L \<longrightarrow> (\<exists>t. removeLight fw i s = (Inr (), t) \<and> highlight_inv m plans (remove1 i L) (remove_at (indexOf i L) vs) t \<and>
      rig_values (rg t) = give_back (i, vs ! indexOf i L) (rig_values (rg s)))) \<and>
    (\<exists>t. highlight_redrum fw s = (Inr L, t) \<and> highlight_inv m plans [] [] t \<and>
      rig_values (rg t) = fold give_back (zip L vs) (rig_values (rg s))) \<and>
    (i \<notin> set L \<longrightarrow> (\<exists>t. jseq (addLight i) (jseq (jfor ns (highlight_turn fw)) (removeLight fw i)) s = (Inr (), t) \<and>
      highlight_inv m plans L vs t \<and> dmxVals (profiles (rg t) ! i) = v \<and>
      take (length v) (drop (nat (fx_address (plans ! i))) (dmxShadow (dmx (rg t)))) = v))"
proof (intro conjI)
  show "\<exists>t. highlight_turn fw n s = (Inr (), t) \<and> highlight_inv m plans L vs t \<and>
      20 \<le> h_dimmer (th t) \<and> h_dimmer (th t) \<le> 255 \<and> 5 dvd h_dimmer (th t)"
    using highlight_inv_calls(1) [OF assms(1,2), of garbage p q ps n] highlight_inv_saved(4-6) unfolding fw_def by fast
  show "\<exists>t. addLight i s = (Inr (), t) \<and> rg t = rg s \<and>
      (if i \<in> set L then highlight_inv m plans L vs t else highlight_inv m plans (L @ [i]) (vs @ [v]) t)"
    using highlight_inv_calls(3,4) [OF assms(1,2)] by (auto simp: v_def)
  show "i \<notin> set L \<longrightarrow> (\<exists>t. jseq (addLight i) (jseq (jfor ns (highlight_turn fw)) (removeLight fw i)) s = (Inr (), t) \<and>
      highlight_inv m plans L vs t \<and> dmxVals (profiles (rg t) ! i) = v \<and>
      take (length v) (drop (nat (fx_address (plans ! i))) (dmxShadow (dmx (rg t)))) = v)"
    using highlight_in_and_out [OF assms(1,2)] by (simp add: fw_def v_def)
qed (simp_all only: fw_def, (intro impI highlight_inv_calls(2,5,6) [OF assms(1,2)]; assumption)+)

lemma new_highlight: "rig_good r \<Longrightarrow> highlight_inv (sceneManager r) (map plan (profiles r)) [] [] \<lparr>th = HighlightThread, rg = r\<rparr>"
  using rig_good_self hl_core_new by (simp add: highlight_inv_def hl_st_def) (simp add: HighlightThread_def)

theorem highlight_dimmer_in_range_witness:
  "\<exists>t. jseq (addLight 0) (jseq (jfor [1, 1, 0] (highlight_turn (sysfs_file 0 [0, 0]))) (removeLight (sysfs_file 0 [0, 0]) 0))
     \<lparr>th = HighlightThread, rg = demo_rig\<rparr> = (Inr (), t) \<and> dmxVals (profiles (rg t) ! 0) = [0, 0, 0, 0]"
proof -
  have "0 < length (map plan (profiles demo_rig))" by (simp add: demo_rig_def)
  from highlight_dimmer_in_range [OF new_highlight [OF demo_rig_good] this, of 0 0 0 "[]" 0 "[1, 1, 0]"] show ?thesis
    by (auto simp: demo_rig_def demo_light_def)
qed

end
