(* ===== verification/Server_App.thy ===== *)
theory Server_App
  imports Visuals Base_Station "HOL-Library.While_Combinator"
begin

text \<open>
  The server itself, \<open>threads/ServerAppThread.java\<close>: the state machine that reacts to the
  controller's commands, with \<open>HeartBeatThread\<close> and \<open>XYConverter.getColor\<close>. There is one
  definition for each mode; its result says whether a heartbeat is due. The threads that are shown
  in a mode are fields of the server, and a field that is overwritten leaves its old thread
  running: \<open>leaked\<close>.

  A thread is kept with its flag \<open>running\<close>, which \<open>run\<close> sets before its loop and \<open>redrum\<close>
  resets, and with what the virtual machine knows of it: whether \<open>run\<close> has \<open>begun\<close>, whether it was
  \<open>interrupted\<close>, and whether it is \<open>alive\<close>, that is, started and not over. \<open>RainbowThread\<close>
  declares the flag \<open>static\<close>; the model gives each thread its own, which is the same as long as
  no rainbow has been leaked.
\<close>

record 't started =
  body :: 't
  begun :: bool
  running :: bool
  interrupted :: bool
  alive :: bool

datatype leak =
  Leaked_highlight "highlight_thread started" | Leaked_preset "preset_thread started" | Leaked_rainbow "rainbow_thread started"
| Leaked_dmx "dmx_thread started" | Leaked_chase "chase_thread started"

record heartbeat_thread =
  hb_running :: bool
  hb_currentState :: u8
  hb_data :: "u8 list option"
  hb_address :: "string option"
  hb_connected :: bool

record 'r server =
  rig :: "'r rig"
  currentState :: u8
  serverRunning :: bool
  chaseSceneDelay :: int
  selectedLights :: "nat list option"
  heartbeat_thr :: heartbeat_thread
  chase :: "chase_thread started option"
  highlight :: "highlight_thread started option"
  presetVisual :: "preset_thread started option"
  rainbowVisual :: "rainbow_thread started option"
  dmxVisual :: "dmx_thread started option"
  leaked :: "leak list"
  currentLightIndex :: int
  currentPresetIndex :: int
  currentControlIndex :: int
  currentChannelIndex :: int
  canChangeDMX :: bool
  datagrams :: "u8 list list"

type_synonym ('r, 'a) handler = "('r server, 'a) java"

definition in_rig :: "('r rig, 'a) java \<Rightarrow> ('r, 'a) handler" where
  "in_rig = jon rig (\<lambda>r s. s\<lparr>rig := r\<rparr>)"

definition update :: "('r server \<Rightarrow> 'r server) \<Rightarrow> ('r, unit) handler" where
  "update = jmodify"

subsection \<open>The heartbeat\<close>

definition HeartBeatThread :: "u8 \<Rightarrow> heartbeat_thread" where
  "HeartBeatThread state = \<lparr>hb_running = False, hb_currentState = state, hb_data = None, hb_address = None, hb_connected = False\<rparr>"

text \<open>\<open>run\<close> up to its loop, in the order of its assignments, then \<open>sendHeartbeat\<close>.\<close>

definition heartbeat_begin :: "heartbeat_thread \<Rightarrow> heartbeat_thread" where
  "heartbeat_begin h = h\<lparr>hb_running := True, hb_address := Some ''255.255.255.255''\<rparr>"

definition heartbeat_data :: "heartbeat_thread \<Rightarrow> heartbeat_thread" where
  "heartbeat_data h = h\<lparr>hb_data := Some (ID @ [POLL_PACKET_ID, 0])\<rparr>"

definition sendHeartbeat :: "bool \<Rightarrow> ('r, unit) handler" where
  "sendHeartbeat io_ok s =
     (let h = heartbeat_thr s in
      if hb_running h then
        case hb_data h of
          None \<Rightarrow> (Inl Null_pointer, s)
        | Some data \<Rightarrow>
            let data = data[9 := hb_currentState h]; s = s\<lparr>heartbeat_thr := h\<lparr>hb_data := Some data\<rparr>\<rparr> in
            if io_ok then (Inr (), s\<lparr>datagrams := datagrams s @ [data]\<rparr>) else (Inl System_exit, s)
      else (Inr (), s))"

definition setCurrentState :: "u8 \<Rightarrow> 'r server \<Rightarrow> 'r server" where
  "setCurrentState m s = s\<lparr>heartbeat_thr := (heartbeat_thr s)\<lparr>hb_currentState := m\<rparr>\<rparr>"

text \<open>The other setters; nothing but the getter reads \<open>connected\<close>.\<close>

definition heartbeat_redrum :: "heartbeat_thread \<Rightarrow> heartbeat_thread" where
  "heartbeat_redrum h = h\<lparr>hb_running := False, hb_connected := False\<rparr>"

definition heartbeat_setAddress :: "string option \<Rightarrow> heartbeat_thread \<Rightarrow> heartbeat_thread" where
  "heartbeat_setAddress a h = h\<lparr>hb_address := a\<rparr>"

definition setConnected :: "bool \<Rightarrow> heartbeat_thread \<Rightarrow> heartbeat_thread" where
  "setConnected c h = h\<lparr>hb_connected := c\<rparr>"

subsection \<open>The threads of the server\<close>

definition get_light :: "int \<Rightarrow> ('r, nat) handler" where
  "get_light i = jbind (jread (\<lambda>s. length (profiles (rig s)))) (\<lambda>n.
     jseq (jcheck (0 \<le> i \<and> i < int n) Index_out_of_bounds) (jret (nat i)))"

definition is_selected :: "nat \<Rightarrow> ('r, bool) handler" where
  "is_selected i = jread (\<lambda>s. isSelected (profiles (rig s) ! i))"

definition setSelected :: "nat \<Rightarrow> bool \<Rightarrow> ('r, unit) handler" where
  "setSelected i b = update (\<lambda>s. s\<lparr>rig := (rig s)\<lparr>profiles := (profiles (rig s))[i := (profiles (rig s) ! i)\<lparr>isSelected := b\<rparr>]\<rparr>\<rparr>)"

definition clearSelected :: "('r, unit) handler" where
  "clearSelected = jbind (jread (\<lambda>s. length (profiles (rig s)))) (\<lambda>n. jfor [0..<n] (\<lambda>i. setSelected i False))"

text \<open>A call on a thread object.\<close>

definition on_highlight :: "((highlight_thread, 'r) turn, 'a) java \<Rightarrow> ('r, 'a) handler" where
  "on_highlight m s =
     (case highlight s of
        None \<Rightarrow> (Inl Null_pointer, s)
      | Some h \<Rightarrow> (case m \<lparr>th = body h, rg = rig s\<rparr> of (r, t) \<Rightarrow> (r, s\<lparr>highlight := Some (h\<lparr>body := th t\<rparr>), rig := rg t\<rparr>)))"

text \<open>\<open>start()\<close>: a thread whose list of lights is null ends in its first round.\<close>

definition start :: "bool \<Rightarrow> 't \<Rightarrow> 't started" where
  "start ok t = \<lparr>body = t, begun = False, running = False, interrupted = False, alive = ok\<rparr>"

text \<open>
  What a thread does, one piece at a time: \<open>run\<close> sets the flag, whatever it was, and goes to the loop
  or, if not \<open>goes\<close>, returns; then each test of the flag ends the thread or is followed by a
  round, after which an interrupt has been used up. An exception ends the thread.
\<close>

definition begin_thread :: "bool \<Rightarrow> 't started \<Rightarrow> 't started" where
  "begin_thread goes h = (if begun h then h else h\<lparr>begun := True, running := True, alive := alive h \<and> goes\<rparr>)"

definition thread_round :: "('t started \<Rightarrow> (('t, 'r) turn, unit) java) \<Rightarrow> 't started \<times> 'r rig \<Rightarrow> 't started \<times> 'r rig" where
  "thread_round round = (\<lambda>(h, r). case round h \<lparr>th = body h, rg = r\<rparr> of (x, t) \<Rightarrow> (h\<lparr>body := th t, interrupted := False, alive := \<not> isl x\<rparr>, rg t))"

definition thread_next :: "('r rig \<Rightarrow> bool) \<Rightarrow> ('t started \<Rightarrow> (('t, 'r) turn, unit) java) \<Rightarrow> 't started \<times> 'r rig \<Rightarrow> 't started \<times> 'r rig" where
  "thread_next goes round = (\<lambda>(h, r).
     if \<not> begun h then (begin_thread (goes r) h, r)
     else if \<not> running h then (h\<lparr>alive := False\<rparr>, r)
     else thread_round round (h, r))"

text \<open>\<open>redrum\<close> and \<open>interrupt\<close>, and \<open>join\<close>: the caller waits while the thread runs on, for ever if it never ends.\<close>

definition stop :: "('r server \<Rightarrow> 't started option) \<Rightarrow> ('t started option \<Rightarrow> 'r server \<Rightarrow> 'r server) \<Rightarrow> ('r, unit) handler" where
  "stop get put s = (case get s of
     None \<Rightarrow> (Inl Null_pointer, s)
   | Some h \<Rightarrow> (Inr (), put (Some (h\<lparr>running := False, interrupted := True\<rparr>)) s))"

definition join :: "('r rig \<Rightarrow> bool) \<Rightarrow> ('t started \<Rightarrow> (('t, 'r) turn, unit) java) \<Rightarrow> ('r server \<Rightarrow> 't started option) \<Rightarrow> ('r, unit) handler" where
  "join goes round get s = (case get s of
     None \<Rightarrow> (Inl Null_pointer, s)
   | Some h \<Rightarrow> (case while_option (\<lambda>(h, r). alive h) (thread_next goes round) (h, rig s) of
       None \<Rightarrow> (Inl Blocked, s)
     | Some (h, r) \<Rightarrow> (Inr (), s\<lparr>rig := r\<rparr>)))"

text \<open>The rounds of the five threads; a chase returns before its loop when there are fewer than two scenes.\<close>

definition always :: "'r rig \<Rightarrow> bool" where
  "always r = True"

definition can_chase :: "'r rig \<Rightarrow> bool" where
  "can_chase r = (\<not> length (scenes (sceneManager r)) \<le> 1)"

definition highlight_round :: "'r file_write \<Rightarrow> highlight_thread started \<Rightarrow> ((highlight_thread, 'r) turn, unit) java" where
  "highlight_round fw h = highlight_turn fw (length (h_lights (body h)))"

definition preset_round :: "'r file_write \<Rightarrow> preset_thread started \<Rightarrow> ((preset_thread, 'r) turn, unit) java" where
  "preset_round fw h = preset_turn fw (length (p_lights (body h))) (interrupted h)"

definition rainbow_round :: "'r file_write \<Rightarrow> rainbow_thread started \<Rightarrow> ((rainbow_thread, 'r) turn, unit) java" where
  "rainbow_round fw h = rainbow_turn fw"

definition dmx_round :: "'r file_write \<Rightarrow> dmx_thread started \<Rightarrow> ((dmx_thread, 'r) turn, unit) java" where
  "dmx_round fw h = dmx_turn fw (length (d_lights (body h)))"

definition chase_round :: "'r file_write \<Rightarrow> chase_thread started \<Rightarrow> ((chase_thread, 'r) turn, unit) java" where
  "chase_round fw h = chase_turn fw"

definition leak :: "('t started \<Rightarrow> leak) \<Rightarrow> 't started option \<Rightarrow> leak list" where
  "leak f h = (case h of None \<Rightarrow> [] | Some t \<Rightarrow> [f t])"

definition startHighlight :: "('r, unit) handler" where
  "startHighlight =
     jseq (update (\<lambda>s. s\<lparr>leaked := leak Leaked_highlight (highlight s) @ leaked s, highlight := Some (start False HighlightThread)\<rparr>))
    (jbind (jread currentLightIndex) (\<lambda>i.
     jbind (get_light i) (\<lambda>l.
     jseq (on_highlight (addLight l))
       (update (\<lambda>s. s\<lparr>highlight := map_option (\<lambda>h. start True (body h)) (highlight s)\<rparr>)))))"

definition redrumHighlight :: "'r file_write \<Rightarrow> ('r, nat list) handler" where
  "redrumHighlight fw =
     jseq (update (\<lambda>s. s\<lparr>highlight := map_option (\<lambda>h. h\<lparr>running := False\<rparr>) (highlight s)\<rparr>))
    (jbind (on_highlight (highlight_redrum fw)) (\<lambda>temp.
     jseq (update (\<lambda>s. s\<lparr>highlight := map_option (\<lambda>h. h\<lparr>interrupted := True\<rparr>) (highlight s)\<rparr>))
    (jseq (join always (highlight_round fw) highlight)
    (jseq (update (\<lambda>s. s\<lparr>highlight := None\<rparr>))
      (jret temp)))))"

definition lights_of :: "nat list option \<Rightarrow> nat list" where
  "lights_of L = (case L of None \<Rightarrow> [] | Some L \<Rightarrow> L)"

definition startPresetVisual :: "('r, unit) handler" where
  "startPresetVisual = update (\<lambda>s. s\<lparr>leaked := leak Leaked_preset (presetVisual s) @ leaked s,
     presetVisual := Some (start (selectedLights s \<noteq> None) (PresetVisualThread (lights_of (selectedLights s))))\<rparr>)"

definition redrumPresetVisual :: "'r file_write \<Rightarrow> ('r, unit) handler" where
  "redrumPresetVisual fw =
     jseq (stop presetVisual (\<lambda>h s. s\<lparr>presetVisual := h\<rparr>))
    (jseq (join always (preset_round fw) presetVisual)
      (update (\<lambda>s. s\<lparr>presetVisual := None\<rparr>)))"

definition startRainbow :: "('r, unit) handler" where
  "startRainbow = update (\<lambda>s. s\<lparr>leaked := leak Leaked_rainbow (rainbowVisual s) @ leaked s,
     rainbowVisual := Some (start (selectedLights s \<noteq> None) (RainbowThread (lights_of (selectedLights s))))\<rparr>)"

definition redrumRainbow :: "'r file_write \<Rightarrow> ('r, unit) handler" where
  "redrumRainbow fw =
     jseq (stop rainbowVisual (\<lambda>h s. s\<lparr>rainbowVisual := h\<rparr>))
    (jseq (join always (rainbow_round fw) rainbowVisual)
      (update (\<lambda>s. s\<lparr>rainbowVisual := None\<rparr>)))"

definition startDMXVisual :: "('r, unit) handler" where
  "startDMXVisual = update (\<lambda>s. s\<lparr>leaked := leak Leaked_dmx (dmxVisual s) @ leaked s,
     dmxVisual := Some (start (selectedLights s \<noteq> None) (DMXVisualThread (lights_of (selectedLights s))))\<rparr>)"

definition redrumDMXVisual :: "'r file_write \<Rightarrow> ('r, unit) handler" where
  "redrumDMXVisual fw =
     jseq (stop dmxVisual (\<lambda>h s. s\<lparr>dmxVisual := h\<rparr>))
    (jseq (join always (dmx_round fw) dmxVisual)
      (update (\<lambda>s. s\<lparr>dmxVisual := None\<rparr>)))"

definition startChase :: "('r, unit) handler" where
  "startChase = update (\<lambda>s. s\<lparr>leaked := leak Leaked_chase (chase s) @ leaked s,
     chase := Some (start True (ChaseThread (chaseSceneDelay s)))\<rparr>)"

definition redrumChase :: "'r file_write \<Rightarrow> ('r, unit) handler" where
  "redrumChase fw =
     jseq (stop chase (\<lambda>h s. s\<lparr>chase := h\<rparr>))
    (jseq (join can_chase (chase_round fw) chase)
      (update (\<lambda>s. s\<lparr>chase := None\<rparr>)))"

definition setSceneDelay :: "int \<Rightarrow> ('r, unit) handler" where
  "setSceneDelay delay = jbind (jread chase) (\<lambda>h. case h of
     None \<Rightarrow> jthrow Null_pointer
   | Some t \<Rightarrow> update (\<lambda>s. s\<lparr>chase := Some (t\<lparr>body := (body t)\<lparr>sceneDelay := delay\<rparr>\<rparr>)\<rparr>))"

subsection \<open>Helpers\<close>

definition dmx_all :: "'r file_write \<Rightarrow> int list \<Rightarrow> ('r, unit) handler" where
  "dmx_all fw v = in_rig (on_dmx (setDMX_all fw v))"

definition revertScene :: "'r file_write \<Rightarrow> ('r, unit) handler" where
  "revertScene fw =
     jseq (try_io (jbind (jread (\<lambda>s. currentScene (sceneManager (rig s)))) (dmx_all fw)))
       (jbind (jread selectedLights) (\<lambda>lights. jfor (lights_of lights) (\<lambda>i. in_rig (on_light i syncLight))))"

text \<open>A loop over the selected lights; over null it throws.\<close>

definition for_selected :: "(nat \<Rightarrow> ('r, unit) handler) \<Rightarrow> ('r, unit) handler" where
  "for_selected f = jbind (jread selectedLights) (\<lambda>lights. case lights of None \<Rightarrow> jthrow Null_pointer | Some L \<Rightarrow> jfor L f)"

definition on_scenes :: "(scene_manager \<Rightarrow> scene_manager) \<Rightarrow> ('r, unit) handler" where
  "on_scenes f = update (\<lambda>s. s\<lparr>rig := (rig s)\<lparr>sceneManager := f (sceneManager (rig s))\<rparr>\<rparr>)"

definition with_scenes :: "(scene_manager, 'a) java \<Rightarrow> ('r, 'a) handler" where
  "with_scenes m = in_rig (jon sceneManager (\<lambda>m r. r\<lparr>sceneManager := m\<rparr>) m)"

text \<open>\<open>sceneManager.setCurrentScene(dmx.getDmx())\<close>\<close>

definition save_current :: "('r, unit) handler" where
  "save_current = jbind (jread (\<lambda>s. getDmx (dmx (rig s)))) (\<lambda>v. on_scenes (setCurrentScene v))"

definition set_state :: "u8 \<Rightarrow> ('r, unit) handler" where
  "set_state m = update (\<lambda>s. s\<lparr>currentState := m\<rparr>)"

abbreviation (input) due :: "('r, bool) handler" where "due \<equiv> jret True"
abbreviation (input) quiet :: "('r, bool) handler" where "quiet \<equiv> jret False"

text \<open>\<open>XYConverter.getColor\<close>; \<open>wheel\<close> is the table its constructor computes with floating point.\<close>

definition getColor :: "(int \<Rightarrow> int \<Rightarrow> color) \<Rightarrow> int \<Rightarrow> int \<Rightarrow> ('r, color) handler" where
  "getColor wheel x y =
     jseq (jcheck (\<not> (x \<ge> 4096 \<or> y \<ge> 4096)) Illegal_argument)
       (let i = c_div x 4; j = c_div y 4 in
        jseq (jcheck (0 \<le> i \<and> 0 \<le> j) Index_out_of_bounds) (jret (wheel i j)))"

subsection \<open>The modes\<close>

text \<open>
  \<open>u\<close> is the user action; every mode but the colour wheel, the presets and the last two answers other data
  with a heartbeat. \<open>ios\<close> says how many lines of the scene file can be written before an
  error of the file system.
\<close>

definition chase_mode :: "'r file_write \<Rightarrow> u8 \<Rightarrow> ('r, bool) handler" where
  "chase_mode fw u =
     jbind (jread chaseSceneDelay) (\<lambda>delay.
     if u = UP then
       jseq (jwhen (delay < MAX_CHASE_DELAY)
         (jseq (update (\<lambda>s. s\<lparr>chaseSceneDelay := delay + CHASE_STEP\<rparr>)) (setSceneDelay (delay + CHASE_STEP)))) quiet
     else if u = DOWN then
       jseq (jwhen (delay > MIN_CHASE_DELAY)
         (jseq (update (\<lambda>s. s\<lparr>chaseSceneDelay := delay - CHASE_STEP\<rparr>)) (setSceneDelay (delay - CHASE_STEP)))) quiet
     else if u = B2 then
       jseq (set_state IDLE_MODE) (jseq (redrumChase fw) (jseq (revertScene fw) due))
     else quiet)"

definition show_scene :: "'r file_write \<Rightarrow> (scene_manager \<Rightarrow> int list \<times> scene_manager) \<Rightarrow> ('r, unit) handler" where
  "show_scene fw pick =
     try_io (jbind (jread (\<lambda>s. pick (sceneManager (rig s)))) (\<lambda>(v, m). jseq (on_scenes (\<lambda>_. m)) (dmx_all fw v)))"

definition save_scene :: "nat option \<Rightarrow> ('r, unit) handler" where
  "save_scene ios =
     jbind (jread (\<lambda>s. currentIndex (sceneManager (rig s)))) (\<lambda>i.
     jwhen (i = -1)
       (jseq (jbind (jread (\<lambda>s. getDmx (dmx (rig s)))) (\<lambda>v. on_scenes (addScene v)))
         (exit_io (with_scenes (updateSceneFile ios)))))"

definition delete_scene :: "'r file_write \<Rightarrow> nat option \<Rightarrow> ('r, unit) handler" where
  "delete_scene fw ios =
     jbind (jread (\<lambda>s. currentIndex (sceneManager (rig s)))) (\<lambda>i.
     if i \<noteq> -1 then
       jseq (with_scenes deleteScene) (jseq (exit_io (with_scenes (updateSceneFile ios))) (revertScene fw))
     else
       jseq (on_scenes (\<lambda>m. deleteScene_at (getSceneCount m - 1) m)) (try_io (in_rig (on_dmx (clearDMX fw)))))"

definition server_idle_mode :: "'r file_write \<Rightarrow> nat option \<Rightarrow> u8 \<Rightarrow> ('r, bool) handler" where
  "server_idle_mode fw ios u =
     (if u = LEFT then jseq (show_scene fw getLastScene) quiet
      else if u = RIGHT then jseq (show_scene fw getNextScene) quiet
      else if u = DOWN then
        jseq (try_io (jbind (jread (\<lambda>s. currentScene (sceneManager (rig s)))) (\<lambda>v.
          jseq (dmx_all fw v) (on_scenes (setCurrentScene v))))) quiet
      else if u = B1 then
        jseq (set_state LIGHT_SELECTION_MODE) (jseq save_current (jseq startHighlight due))
      else if u = B2 then
        jbind (jread (\<lambda>s. getSceneCount (sceneManager (rig s)))) (\<lambda>n.
          if n > 1 then jseq (set_state CHASE_MODE) (jseq startChase due) else quiet)
      else if u = PS2_B then jseq (save_scene ios) quiet
      else if u = PS2_LONG then jseq (delete_scene fw ios) quiet
      else if u = KONAMI_COMPLETE then jseq (set_state PARTY_MODE) due
      else if u = REV_KONAMI_COMPLETE then jseq (set_state SCARY_MODE) due
      else quiet)"

text \<open>Both directions step to the light before.\<close>

definition step_light :: "'r file_write \<Rightarrow> ('r, unit) handler" where
  "step_light fw =
     jbind (jread currentLightIndex) (\<lambda>i.
     jbind (get_light i) (\<lambda>l.
     jbind (is_selected l) (\<lambda>selected.
     jseq (jwhen (\<not> selected)
       (jseq (on_highlight (removeLight fw l)) (jseq (revertScene fw) (on_highlight update_default_color))))
    (jseq (update (\<lambda>s. s\<lparr>currentLightIndex := (if i - 1 < 0 then int (length (profiles (rig s))) - 1 else i - 1)\<rparr>))
    (jbind (jread currentLightIndex) (\<lambda>i.
     jbind (get_light i) (\<lambda>l.
     jbind (is_selected l) (\<lambda>selected.
     jwhen (\<not> selected) (on_highlight (addLight l))))))))))"

text \<open>The loop that compares the numbers of channels, with its early exit.\<close>

fun channels_agree :: "int \<Rightarrow> int list \<Rightarrow> bool \<Rightarrow> bool" where
  "channels_agree temp [] can = can"
| "channels_agree temp (n # ns) can = (if temp \<noteq> n then False else channels_agree n ns True)"

definition choose_lights :: "'r file_write \<Rightarrow> ('r, unit) handler" where
  "choose_lights fw =
     jbind (redrumHighlight fw) (\<lambda>L.
     jseq (update (\<lambda>s. s\<lparr>selectedLights := Some L\<rparr>))
    (jseq (jcheck (L \<noteq> []) Index_out_of_bounds)
    (jseq (update (\<lambda>s. let ns = map (\<lambda>i. getNumChannels (profiles (rig s) ! i)) L in
             s\<lparr>canChangeDMX := channels_agree (hd ns) ns (canChangeDMX s)\<rparr>))
    (jseq clearSelected
    (jseq (revertScene fw)
    (jseq (update (\<lambda>s. s\<lparr>currentControlIndex := 1\<rparr>))
      startPresetVisual))))))"

definition light_selection_mode :: "'r file_write \<Rightarrow> u8 \<Rightarrow> ('r, bool) handler" where
  "light_selection_mode fw u =
     (if u = LEFT \<or> u = RIGHT then jseq (step_light fw) quiet
      else if u = PS2_B then
        jseq (jbind (jread currentLightIndex) (\<lambda>i. jbind (get_light i) (\<lambda>l.
          jbind (is_selected l) (\<lambda>selected. setSelected l (\<not> selected))))) quiet
      else if u = PS2_LONG then
        jseq clearSelected (jseq (jbind (jread currentLightIndex) (\<lambda>i. jbind (get_light i) (\<lambda>l. on_highlight (addLight l)))) quiet)
      else if u = B1 then jseq (set_state CONTROL_SELECTION_MODE) (jseq (choose_lights fw) due)
      else if u = B2 then
        jseq (jbind (redrumHighlight fw) (\<lambda>_. jseq clearSelected (jseq (revertScene fw) (set_state IDLE_MODE)))) due
      else quiet)"

definition set_control :: "int \<Rightarrow> ('r, unit) handler" where
  "set_control k = update (\<lambda>s. s\<lparr>currentControlIndex := k\<rparr>)"

definition control_left :: "'r file_write \<Rightarrow> ('r, unit) handler" where
  "control_left fw =
     jbind (jread currentControlIndex) (\<lambda>k.
     if k = -1 then jseq (redrumDMXVisual fw) (jseq (set_control 1) (jseq (revertScene fw) startPresetVisual))
     else if k = 0 then
       jseq (redrumRainbow fw) (jbind (jread canChangeDMX) (\<lambda>can.
         if can then jseq (set_control (-1)) (jseq (revertScene fw) startDMXVisual)
         else jseq (set_control 1) startPresetVisual))
     else if k = 1 then jseq (redrumPresetVisual fw) (jseq (set_control 0) (jseq (revertScene fw) startRainbow))
     else jret ())"

definition control_right :: "'r file_write \<Rightarrow> ('r, unit) handler" where
  "control_right fw =
     jbind (jread currentControlIndex) (\<lambda>k.
     if k = -1 then jseq (redrumDMXVisual fw) (jseq (set_control 0) (jseq (revertScene fw) startRainbow))
     else if k = 0 then jseq (redrumRainbow fw) (jseq (set_control 1) (jseq (revertScene fw) startPresetVisual))
     else if k = 1 then
       jseq (redrumPresetVisual fw) (jbind (jread canChangeDMX) (\<lambda>can.
         if can then jseq (set_control (-1)) (jseq (revertScene fw) startDMXVisual)
         else jseq (set_control 0) startRainbow))
     else jret ())"

definition control_choose :: "'r file_write \<Rightarrow> ('r, unit) handler" where
  "control_choose fw =
     jbind (jread currentControlIndex) (\<lambda>k.
     if k = -1 then
       jseq (redrumDMXVisual fw) (jseq (revertScene fw) (jseq (update (\<lambda>s. s\<lparr>currentChannelIndex := 0\<rparr>)) (set_state DMX_MODE)))
     else if k = 0 then jseq (redrumRainbow fw) (set_state COLOR_WHEEL_MODE)
     else if k = 1 then jseq (redrumPresetVisual fw) (set_state PRESET_MODE)
     else jret ())"

definition control_back :: "'r file_write \<Rightarrow> ('r, unit) handler" where
  "control_back fw =
     jseq (set_state LIGHT_SELECTION_MODE)
    (jseq (jbind (jread currentControlIndex) (\<lambda>k.
       if k = -1 then redrumDMXVisual fw else if k = 0 then redrumRainbow fw else if k = 1 then redrumPresetVisual fw else jret ()))
    (jseq (revertScene fw) startHighlight))"

definition control_selection_mode :: "'r file_write \<Rightarrow> u8 \<Rightarrow> ('r, bool) handler" where
  "control_selection_mode fw u =
     (if u = LEFT then jseq (control_left fw) quiet
      else if u = RIGHT then jseq (control_right fw) quiet
      else if u = B1 then jseq (control_choose fw) due
      else if u = B2 then jseq (control_back fw) due
      else quiet)"

text \<open>Keeping what is shown, as the last three modes do.\<close>

definition keep_scene :: "('r, bool) handler" where
  "keep_scene = jseq save_current (jseq (set_state LIGHT_SELECTION_MODE) (jseq startHighlight due))"

definition color_wheel_mode :: "'r file_write \<Rightarrow> (int \<Rightarrow> int \<Rightarrow> color) \<Rightarrow> wirelessCommand \<Rightarrow> ('r, bool) handler" where
  "color_wheel_mode fw wheel c =
     (if dataType c = USER_ACTION_DATA then
        if userActionData c = B1 then keep_scene
        else if userActionData c = B2 then jseq (set_state CONTROL_SELECTION_MODE) (jseq startRainbow due)
        else quiet
      else if dataType c = JOYSTICK_DATA then
        (case joystickData c of
           None \<Rightarrow> jthrow Null_pointer
         | Some (x, y) \<Rightarrow>
             jseq (for_selected (\<lambda>i. try_io (jbind (getColor wheel x y) (\<lambda>col. in_rig (on_light i (setColor fw col)))))) quiet)
      else due)"

text \<open>One channel of every selected light up or down; a light that would leave the range is passed over.\<close>

definition change_channel :: "'r file_write \<Rightarrow> int \<Rightarrow> ('r, unit) handler" where
  "change_channel fw step =
     jbind (jread currentChannelIndex) (\<lambda>k.
     for_selected (\<lambda>i.
       jbind (jread (\<lambda>s. dmxVals (profiles (rig s) ! i))) (\<lambda>vals.
       jseq (jcheck (0 \<le> k \<and> k < int (length vals)) Index_out_of_bounds)
         (let v = vals ! nat k + step in
          jwhen (\<not> (if step > 0 then v > 255 else v < 0)) (try_io (in_rig (on_light i (setChannelManual fw k v))))))))"

text \<open>\<open>selectedLights.get(0).getNumChannels()\<close>\<close>

definition first_channels :: "('r, int) handler" where
  "first_channels =
     jbind (jread selectedLights) (\<lambda>lights. case lights of
       None \<Rightarrow> jthrow Null_pointer
     | Some L \<Rightarrow> jseq (jcheck (L \<noteq> []) Index_out_of_bounds) (jread (\<lambda>s. getNumChannels (profiles (rig s) ! hd L))))"

definition set_channel :: "int \<Rightarrow> ('r, unit) handler" where
  "set_channel k = update (\<lambda>s. s\<lparr>currentChannelIndex := k\<rparr>)"

definition dmx_mode :: "'r file_write \<Rightarrow> u8 \<Rightarrow> ('r, bool) handler" where
  "dmx_mode fw u =
     jbind (jread currentChannelIndex) (\<lambda>k.
     if u = LEFT then
       jseq (set_channel (k - 1)) (jseq (jwhen (k - 1 < 0) (jbind first_channels (\<lambda>n. set_channel (n - 1)))) quiet)
     else if u = RIGHT then
       jseq (set_channel (k + 1)) (jbind first_channels (\<lambda>n. jseq (jwhen (k + 1 \<ge> n) (set_channel 0)) quiet))
     else if u = UP then jseq (change_channel fw DMX_STEP) quiet
     else if u = DOWN then jseq (change_channel fw (- DMX_STEP)) quiet
     else if u = B1 then keep_scene
     else if u = B2 then
       jseq (set_state CONTROL_SELECTION_MODE) (jseq (revertScene fw) (jseq startDMXVisual due))
     else if u = PS2_B then jseq (for_selected (\<lambda>i. try_io (in_rig (on_light i (clearLight fw))))) quiet
     else quiet)"

definition show_preset :: "'r file_write \<Rightarrow> int \<Rightarrow> ('r, unit) handler" where
  "show_preset fw k =
     jseq (update (\<lambda>s. s\<lparr>currentPresetIndex := k\<rparr>))
       (for_selected (\<lambda>i. exit_io (in_rig (on_light i (setColor fw (PRESETS ! nat k))))))"

definition preset_mode :: "'r file_write \<Rightarrow> u8 \<Rightarrow> ('r, bool) handler" where
  "preset_mode fw u =
     jbind (jread currentPresetIndex) (\<lambda>k.
     if u = LEFT then jseq (show_preset fw (if k - 1 < 0 then int (length PRESETS) - 1 else k - 1)) quiet
     else if u = RIGHT then jseq (show_preset fw (if k + 1 \<ge> int (length PRESETS) then 0 else k + 1)) quiet
     else if u = B1 then keep_scene
     else if u = B2 then jseq (set_state CONTROL_SELECTION_MODE) (jseq startPresetVisual due)
     else quiet)"

text \<open>The dimmer for a rotation rate: the last threshold that is exceeded counts.\<close>

definition last_above :: "int \<Rightarrow> int \<Rightarrow> (int \<times> int) list \<Rightarrow> int" where
  "last_above g dv table = foldl (\<lambda>dv (limit, v). if g > limit then v else dv) dv table"

definition party_dimmer :: "int \<Rightarrow> int" where
  "party_dimmer g = last_above g 0 [(300, 10), (350, 30), (400, 45), (600, 90), (670, 100), (900, 120), (950, 175),
     (1000, 200), (1100, 225), (1400, 240), (1700, 250), (2000, 255)]"

definition scary_dimmer :: "int \<Rightarrow> int" where
  "scary_dimmer g = last_above g 247 [(300, 230), (320, 220), (340, 200), (360, 170), (370, 130), (390, 110), (410, 100),
     (420, 70), (450, 50), (460, 33), (465, 20), (477, 3)]"

definition show_all :: "'r file_write \<Rightarrow> int \<Rightarrow> (nat \<Rightarrow> color) \<Rightarrow> ('r, unit) handler" where
  "show_all fw dv col =
     jbind (jread (\<lambda>s. length (profiles (rig s)))) (\<lambda>n.
       jfor [0..<n] (\<lambda>i. try_io (jseq (in_rig (on_light i (setDimmerValue fw dv))) (in_rig (on_light i (setColor fw (col i)))))))"

definition gyro_mode :: "'r file_write \<Rightarrow> int \<Rightarrow> (nat \<Rightarrow> color) \<Rightarrow> wirelessCommand \<Rightarrow> ('r, bool) handler" where
  "gyro_mode fw dv col c =
     (if dataType c = USER_ACTION_DATA then
        if userActionData c = PS2_LONG then jseq (set_state IDLE_MODE) due else quiet
      else if dataType c = GYRO_DATA then jseq (show_all fw dv col) quiet
      else due)"

text \<open>\<open>rnd i\<close> is the random colour of light \<open>i\<close>.\<close>

definition party_mode :: "'r file_write \<Rightarrow> (nat \<Rightarrow> color) \<Rightarrow> wirelessCommand \<Rightarrow> ('r, bool) handler" where
  "party_mode fw rnd c = gyro_mode fw (party_dimmer (gyroData c)) rnd c"

definition scary_mode :: "'r file_write \<Rightarrow> wirelessCommand \<Rightarrow> ('r, bool) handler" where
  "scary_mode fw c = gyro_mode fw (scary_dimmer (gyroData c)) (\<lambda>_. WHITE) c"

subsection \<open>One command\<close>

text \<open>What the environment supplies to a command: the colour table, the random colours, and the errors of files and network.\<close>

record surroundings =
  wheel :: "int \<Rightarrow> int \<Rightarrow> color"
  rnd :: "nat \<Rightarrow> color"
  scene_io :: "nat option"
  net_ok :: bool

definition or_due :: "bool \<Rightarrow> ('r, bool) handler \<Rightarrow> ('r, bool) handler" where
  "or_due b m = jbind m (\<lambda>r. jret (b \<or> r))"

definition state_machine :: "'r file_write \<Rightarrow> surroundings \<Rightarrow> wirelessCommand \<Rightarrow> ('r, bool) handler" where
  "state_machine fw w c =
     jbind (jread currentState) (\<lambda>m.
     let user = (\<lambda>h. if dataType c \<noteq> USER_ACTION_DATA then due else h (userActionData c)) in
     if m = CHASE_MODE then user (chase_mode fw)
     else if m = IDLE_MODE then user (server_idle_mode fw (scene_io w))
     else if m = LIGHT_SELECTION_MODE then user (light_selection_mode fw)
     else if m = CONTROL_SELECTION_MODE then user (control_selection_mode fw)
     else if m = COLOR_WHEEL_MODE then color_wheel_mode fw (wheel w) c
     else if m = DMX_MODE then user (dmx_mode fw)
     else if m = PRESET_MODE then preset_mode fw (userActionData c)
     else if m = PARTY_MODE then party_mode fw (rnd w) c
     else if m = SCARY_MODE then scary_mode fw c
     else quiet)"

text \<open>The code that ends in a party is looked at before the state machine, whatever the mode.\<close>

definition run_command :: "'r file_write \<Rightarrow> surroundings \<Rightarrow> wirelessCommand \<Rightarrow> ('r, unit) handler" where
  "run_command fw w c =
     jbind
       (if packetType c = DATA_PACKET_ID then
          if userActionData c = KONAMI_COMPLETE then jseq (set_state PARTY_MODE) (or_due True (state_machine fw w c))
          else state_machine fw w c
        else quiet)
       (\<lambda>send.
     jwhen send (jbind (jread currentState) (\<lambda>m. jseq (update (setCurrentState m)) (sendHeartbeat (net_ok w)))))"

text \<open>A datagram from the queue; one that can not be parsed is ignored.\<close>

definition run_packet :: "'r file_write \<Rightarrow> surroundings \<Rightarrow> u8 list \<Rightarrow> ('r, unit) handler" where
  "run_packet fw w buf =
     (case parse buf new_command of
        Inr (True, c) \<Rightarrow> run_command fw w c
      | Inr (False, c) \<Rightarrow> jret ()
      | Inl e \<Rightarrow> jthrow Index_out_of_bounds)"

subsection \<open>Starting and stopping\<close>

text \<open>
  \<open>run\<close> up to its loop, on a driver and a set of lights: the fields as the constructor leaves
  them, the heartbeat, and the scenes, read from their file and written back.
\<close>

definition ServerAppThread :: "'r default_dmx \<Rightarrow> fixture list \<Rightarrow> scene_manager \<Rightarrow> 'r server" where
  "ServerAppThread d fs m =
     \<lparr>rig = \<lparr>dmx = d, profiles = fs, sceneManager = m\<rparr>, currentState = IDLE_MODE, serverRunning = False,
      chaseSceneDelay = 100, selectedLights = None, heartbeat_thr = HeartBeatThread IDLE_MODE, chase = None, highlight = None,
      presetVisual = None, rainbowVisual = None, dmxVisual = None, leaked = [], currentLightIndex = 0, currentPresetIndex = 0,
      currentControlIndex = 0, currentChannelIndex = 0, canChangeDMX = False, datagrams = []\<rparr>"

definition server_run :: "nat option \<Rightarrow> string list option \<Rightarrow> 'r default_dmx \<Rightarrow> fixture list \<Rightarrow> (java_exception + unit) \<times> 'r server" where
  "server_run ios file d fs =
     (case SceneManager (getDmx d) file of (r, m) \<Rightarrow>
        case r of
          Inl e \<Rightarrow> (Inl (if e = IO_exception then System_exit else e), ServerAppThread d fs m)
        | Inr _ \<Rightarrow>
            jseq (exit_io (with_scenes (updateSceneFile ios))) (update (\<lambda>s. s\<lparr>serverRunning := True\<rparr>)) (ServerAppThread d fs m))"

text \<open>
  \<open>stopServer\<close>, up to the waits for the two network threads, which end by themselves. The
  chase is not among the threads it ends.
\<close>

definition stopServer :: "'r file_write \<Rightarrow> ('r, unit) handler" where
  "stopServer fw =
     jbind (jread id) (\<lambda>s.
     jseq (jwhen (highlight s \<noteq> None) (jbind (redrumHighlight fw) (\<lambda>_. jret ())))
    (jseq (jwhen (presetVisual s \<noteq> None) (redrumPresetVisual fw))
    (jseq (jwhen (rainbowVisual s \<noteq> None) (redrumRainbow fw))
    (jseq (jwhen (dmxVisual s \<noteq> None) (redrumDMXVisual fw))
    (jseq (update (\<lambda>s. s\<lparr>heartbeat_thr := heartbeat_redrum (heartbeat_thr s)\<rparr>))
      (update (\<lambda>s. s\<lparr>serverRunning := False\<rparr>)))))))"

end
