(* ===== verification/Server_Modes.thy ===== *)
theory Server_Modes
  imports Server_App
begin

text \<open>
  The modes of the server keep its invariant. \<open>sat m ps u\<close> describes a server by its scenes \<open>m\<close>,
  the descriptions \<open>ps\<close> of its lights and its remaining fields \<open>u\<close>; the rules for it run a
  handler on such a description.
\<close>

definition sat :: "('r \<Rightarrow> u8 list) \<Rightarrow> ('r \<Rightarrow> bool) \<Rightarrow> scene_manager \<Rightarrow> fixture list \<Rightarrow> 'r server \<Rightarrow> 'r server \<Rightarrow> bool" where
  "sat channels ready m ps u s \<longleftrightarrow> (\<exists>r. s = u\<lparr>rig := r\<rparr> \<and> good channels ready m ps r)"

lemma sat_rig_update [simp]: "sat channels ready m ps u (u\<lparr>rig := r\<rparr>) \<longleftrightarrow> good channels ready m ps r"
  unfolding sat_def by (metis server.select_convs(1) server.surjective server.update_convs(1))

lemma sat_update:
  assumes "\<And>r. f (u\<lparr>rig := r\<rparr>) = (f u)\<lparr>rig := r\<rparr>"
  shows "succeeds (sat channels ready m ps u) (update f) (\<lambda>_. sat channels ready m ps (f u))"
  unfolding update_def sat_def by (rule succeeds_modify) (use assms in blast)

lemma sat_read:
  assumes "\<And>r. g (u\<lparr>rig := r\<rparr>) = g u" "succeeds (sat channels ready m ps u) (k (g u)) Q"
  shows "succeeds (sat channels ready m ps u) (jbind (jread g) k) Q"
  using assms by (auto simp: succeeds_def jbind_def jread_def sat_def)

lemma sat_count:
  "succeeds (sat channels ready m ps u) (k (length ps)) Q \<Longrightarrow>
     succeeds (sat channels ready m ps u) (jbind (jread (\<lambda>s. length (profiles (rig s)))) k) Q"
  by (auto simp: succeeds_def jbind_def jread_def sat_def good_def)

lemma sat_scene_read:
  "succeeds (sat channels ready m ps u) (k (g m)) Q \<Longrightarrow>
     succeeds (sat channels ready m ps u) (jbind (jread (\<lambda>s. g (sceneManager (rig s)))) k) Q"
  by (auto simp: succeeds_def jbind_def jread_def sat_def good_def)

lemma sat_get_light:
  "0 \<le> i \<Longrightarrow> i < int (length ps) \<Longrightarrow> succeeds (sat channels ready m ps u) (k (nat i)) Q \<Longrightarrow>
     succeeds (sat channels ready m ps u) (jbind (get_light i) k) Q"
  by (auto simp: succeeds_def get_light_def jseq_def jbind_def jread_def jcheck_def jret_def sat_def good_def)

lemma sat_is_selected:
  "i < length ps \<Longrightarrow> succeeds (sat channels ready m ps u) (k (isSelected (ps ! i))) Q \<Longrightarrow>
     succeeds (sat channels ready m ps u) (jbind (is_selected i) k) Q"
  by (auto simp: succeeds_def is_selected_def jbind_def jread_def sat_def good_def plan_def)

lemma sat_rig:
  assumes "succeeds (good channels ready m ps) n (\<lambda>_. good channels ready m ps)"
  shows "succeeds (sat channels ready m ps u) (in_rig n) (\<lambda>_. sat channels ready m ps u)"
  unfolding in_rig_def
proof (rule succeeds_on)
  fix s assume "sat channels ready m ps u s"
  then obtain r where r: "s = u\<lparr>rig := r\<rparr>" "good channels ready m ps r" by (auto simp: sat_def)
  from succeedsD [OF assms r(2)] show "\<exists>x t. n (rig s) = (Inr x, t) \<and> sat channels ready m ps u (s\<lparr>rig := t\<rparr>)"
    by (auto simp: r(1) sat_def)
qed

lemma sat_scenes:
  assumes "scenes_ok (f m)"
  shows "succeeds (sat channels ready m ps u) (on_scenes f) (\<lambda>_. sat channels ready (f m) ps u)"
  unfolding on_scenes_def update_def
  by (rule succeeds_modify) (use assms in \<open>auto simp: sat_def good_def rig_ok_def\<close>)

lemma sat_with_scenes:
  assumes "n m = (Inr x, m')" "scenes_ok m'"
  shows "succeeds (sat channels ready m ps u) (with_scenes n) (\<lambda>_. sat channels ready m' ps u)"
  unfolding with_scenes_def in_rig_def
proof (rule succeeds_on)
  fix s assume "sat channels ready m ps u s"
  then obtain r where r: "s = u\<lparr>rig := r\<rparr>" "good channels ready m ps r" by (auto simp: sat_def)
  then have "good channels ready m' ps (r\<lparr>sceneManager := m'\<rparr>)" "sceneManager r = m"
    using assms(2) by (auto simp: good_def rig_ok_def)
  with assms(1) show "\<exists>x t. jon sceneManager (\<lambda>m r. r\<lparr>sceneManager := m\<rparr>) n (rig s) = (Inr x, t) \<and>
      sat channels ready m' ps u (s\<lparr>rig := t\<rparr>)"
    by (simp add: r(1) jon_def)
qed

lemma fixture_ok_selected [simp]: "lit_ready (f\<lparr>isSelected := b\<rparr>) = lit_ready f"
  by (simp add: lit_ready_def fixture_ok_def rgb_offsets_def containsKey_def getNumChannels_def)

lemma plan_selected: "plan (f\<lparr>isSelected := b\<rparr>) = (plan f)\<lparr>isSelected := b\<rparr>"
  by (simp add: plan_def)

lemma sat_select:
  assumes "i < length ps"
  shows "succeeds (sat channels ready m ps u) (setSelected i b) (\<lambda>_. sat channels ready m (ps[i := (ps ! i)\<lparr>isSelected := b\<rparr>]) u)"
  unfolding setSelected_def update_def
proof (rule succeeds_modify)
  fix s assume "sat channels ready m ps u s"
  then obtain r where r: "s = u\<lparr>rig := r\<rparr>" and good: "good channels ready m ps r" by (auto simp: sat_def)
  let ?f = "(profiles r ! i)\<lparr>isSelected := b\<rparr>"
  note l = good_light [OF good assms]
  have "map plan ((profiles r)[i := ?f]) = ps[i := (ps ! i)\<lparr>isSelected := b\<rparr>]"
    using good l(3) by (simp add: map_update plan_selected good_def)
  moreover have "\<forall>g \<in> set ((profiles r)[i := ?f]). lit_ready g"
    using good l(2) set_update_subset_insert [of "profiles r" i ?f] by (auto simp: good_def rig_ok_def)
  ultimately show "sat channels ready m (ps[i := (ps ! i)\<lparr>isSelected := b\<rparr>]) u
      (s\<lparr>rig := (rig s)\<lparr>profiles := (profiles (rig s))[i := (profiles (rig s) ! i)\<lparr>isSelected := b\<rparr>]\<rparr>\<rparr>)"
    using good by (auto simp: r sat_def good_def rig_ok_def)
qed

definition unselected :: "fixture list \<Rightarrow> fixture list" where
  "unselected ps = map (\<lambda>p. p\<lparr>isSelected := False\<rparr>) ps"

lemma sat_clearSelected:
  "succeeds (sat channels ready m ps u) clearSelected (\<lambda>_. sat channels ready m (unselected ps) u)"
  unfolding clearSelected_def
proof (rule sat_count)
  have "n \<le> length ps \<Longrightarrow> succeeds (sat channels ready m ps u) (jfor [0..<n] (\<lambda>i. setSelected i False))
      (\<lambda>_. sat channels ready m (unselected (take n ps) @ drop n ps) u)" for n
  proof (induction n)
    case 0
    then show ?case by (auto intro: succeeds_ret simp: unselected_def)
  next
    case (Suc n)
    let ?qs = "unselected (take n ps) @ drop n ps"
    have n: "n < length ?qs" "length (unselected (take n ps)) = n" using Suc.prems by (simp_all add: unselected_def)
    have "?qs[n := (?qs ! n)\<lparr>isSelected := False\<rparr>] = unselected (take (Suc n) ps) @ drop (Suc n) ps"
      using Suc.prems n by (simp add: unselected_def list_update_append nth_append take_Suc_conv_app_nth Cons_nth_drop_Suc [symmetric])
    with Suc sat_select [OF n(1), of channels ready m u False] show ?case
      by (auto intro: succeeds_snoc)
  qed
  from this [of "length ps"] show "succeeds (sat channels ready m ps u) (jfor [0..<length ps] (\<lambda>i. setSelected i False))
      (\<lambda>_. sat channels ready m (unselected ps) u)" by simp
qed

subsection \<open>The invariant\<close>

definition handles :: "'r server \<Rightarrow> chase_thread started option \<times> highlight_thread started option \<times> preset_thread started option \<times>
    rainbow_thread started option \<times> dmx_thread started option" where
  "handles s = (chase s, highlight s, presetVisual s, rainbowVisual s, dmxVisual s)"

text \<open>Every thread that was started has reached its loop.\<close>

definition all_begun :: "'r server \<Rightarrow> bool" where
  "all_begun s \<longleftrightarrow> pred_option (\<lambda>t. alive t \<longrightarrow> begun t) (chase s) \<and> pred_option (\<lambda>t. alive t \<longrightarrow> begun t) (highlight s) \<and>
     pred_option (\<lambda>t. alive t \<longrightarrow> begun t) (presetVisual s) \<and> pred_option (\<lambda>t. alive t \<longrightarrow> begun t) (rainbowVisual s) \<and>
     pred_option (\<lambda>t. alive t \<longrightarrow> begun t) (dmxVisual s)"

definition chosen_ok :: "fixture list \<Rightarrow> nat list \<Rightarrow> bool \<Rightarrow> bool" where
  "chosen_ok ps L can \<longleftrightarrow> L \<noteq> [] \<and> lights_in ps L \<and> (can \<longrightarrow> (\<forall>i \<in> set L. getNumChannels (ps ! i) = getNumChannels (ps ! hd L)))"

definition selection_inv :: "fixture list \<Rightarrow> highlight_thread \<Rightarrow> int \<Rightarrow> bool" where
  "selection_inv ps h i \<longleftrightarrow> (\<exists>L. hl_core ps L h \<and> semaphore h \<and> nat i \<in> set L \<and> (\<forall>j < length ps. isSelected (ps ! j) \<longrightarrow> j \<in> set L))"

text \<open>A thread that runs, or will: it is not over, and nobody has reset its flag.\<close>

definition live :: "'t started \<Rightarrow> bool" where
  "live h \<longleftrightarrow> alive h \<and> (begun h \<longrightarrow> running h)"

lemma live_simps [simp]: "live (h\<lparr>body := b\<rparr>) = live h" "live (start ok t) = ok"
  by (simp_all add: live_def start_def)

definition mode_inv :: "scene_manager \<Rightarrow> fixture list \<Rightarrow> 'r server \<Rightarrow> bool" where
  "mode_inv m ps s \<longleftrightarrow>
     (let st = currentState s; k = currentControlIndex s in
      if st = CHASE_MODE then \<exists>t. handles s = (Some t, None, None, None, None) \<and> live t \<and> chase_ok m (body t) \<and> 1 < length (scenes m)
      else if st = LIGHT_SELECTION_MODE then
        \<exists>t. handles s = (None, Some t, None, None, None) \<and> live t \<and> selection_inv ps (body t) (currentLightIndex s)
      else if st = CONTROL_SELECTION_MODE then selectedLights s \<noteq> None \<and>
        (k = 1 \<and> (\<exists>t. handles s = (None, None, Some t, None, None) \<and> live t \<and> preset_ok ps (body t)) \<or>
         k = 0 \<and> (\<exists>t. handles s = (None, None, None, Some t, None) \<and> live t \<and> rainbow_ok ps (body t)) \<or>
         k = -1 \<and> canChangeDMX s \<and> (\<exists>t. handles s = (None, None, None, None, Some t) \<and> (begun t \<longrightarrow> running t) \<and> lights_in ps (d_lights (body t))))
      else handles s = (None, None, None, None, None) \<and>
        (st = COLOR_WHEEL_MODE \<longrightarrow> selectedLights s \<noteq> None \<and> k = 0) \<and>
        (st = PRESET_MODE \<longrightarrow> selectedLights s \<noteq> None \<and> k = 1) \<and>
        (st = DMX_MODE \<longrightarrow> k = -1 \<and> canChangeDMX s \<and>
           (\<exists>L. selectedLights s = Some L \<and> 0 \<le> currentChannelIndex s \<and> currentChannelIndex s < getNumChannels (ps ! hd L))))"

definition ctl_inv :: "scene_manager \<Rightarrow> fixture list \<Rightarrow> 'r server \<Rightarrow> bool" where
  "ctl_inv m ps s \<longleftrightarrow> leaked s = [] \<and> MIN_CHASE_DELAY \<le> chaseSceneDelay s \<and> chaseSceneDelay s \<le> MAX_CHASE_DELAY \<and> 10 dvd chaseSceneDelay s \<and>
     0 \<le> currentLightIndex s \<and> currentLightIndex s < int (length ps) \<and>
     0 \<le> currentPresetIndex s \<and> currentPresetIndex s < int (length PRESETS) \<and>
     pred_option (\<lambda>L. chosen_ok ps L (canChangeDMX s)) (selectedLights s) \<and>
     hb_running (heartbeat_thr s) \<and> (\<exists>b. hb_data (heartbeat_thr s) = Some (ID @ [POLL_PACKET_ID, b])) \<and>
     (currentState s \<noteq> LIGHT_SELECTION_MODE \<longrightarrow> (\<forall>p \<in> set ps. \<not> isSelected p)) \<and> mode_inv m ps s"

definition server_inv :: "('r \<Rightarrow> u8 list) \<Rightarrow> ('r \<Rightarrow> bool) \<Rightarrow> 'r server \<Rightarrow> bool" where
  "server_inv channels ready s \<longleftrightarrow>
     rig_ok channels ready (rig s) \<and> ctl_inv (sceneManager (rig s)) (map plan (profiles (rig s))) s"

lemma ctl_inv_rig [simp]: "ctl_inv m ps (s\<lparr>rig := r\<rparr>) = ctl_inv m ps s"
  by (simp add: ctl_inv_def mode_inv_def handles_def)

lemma sat_inv: "sat channels ready m ps u s \<Longrightarrow> ctl_inv m ps u \<Longrightarrow> server_inv channels ready s"
  by (auto simp: sat_def server_inv_def good_def)

lemma inv_sat:
  assumes "\<And>m ps u. \<lbrakk>ctl_inv m ps u; scenes_ok m; ps \<noteq> []; \<forall>p \<in> set ps. channels_ok (channelMap p) \<and> channelMap p \<noteq> []; all_begun u; P u\<rbrakk> \<Longrightarrow>
    succeeds (sat channels ready m ps u) n Q"
  shows "succeeds (\<lambda>s. server_inv channels ready s \<and> all_begun s \<and> P s) n Q"
  unfolding succeeds_def
proof (intro allI impI)
  fix s assume s: "server_inv channels ready s \<and> all_begun s \<and> P s"
  let ?m = "sceneManager (rig s)" and ?ps = "map plan (profiles (rig s))"
  have g: "good channels ready ?m ?ps (rig s)" "ctl_inv ?m ?ps s" using s by (simp_all add: server_inv_def good_def)
  have "sat channels ready ?m ?ps s s" using g(1) by (simp add: sat_def) (metis server.surjective server.update_convs(1))
  moreover have "channels_ok (channelMap (plan f)) \<and> channelMap (plan f) \<noteq> []" if "f \<in> set (profiles (rig s))" for f
    using g(1) that by (simp add: plan_def good_def rig_ok_def lit_ready_def fixture_ok_def)
  ultimately show "\<exists>x t. n s = (Inr x, t) \<and> Q x t"
    using s g by (intro succeedsD [OF assms [OF g(2)]]) (auto simp: good_def rig_ok_def)
qed

text \<open>A handler that ends in a description that satisfies the invariant.\<close>

lemma sat_end:
  "succeeds P n (\<lambda>_. sat channels ready m ps u) \<Longrightarrow> ctl_inv m ps u \<Longrightarrow> succeeds P n (\<lambda>_. server_inv channels ready)"
  by (erule succeeds_conseq) (auto intro: sat_inv)

lemma sat_return: "ctl_inv m ps u \<Longrightarrow> succeeds (sat channels ready m ps u) (jret x) (\<lambda>_. server_inv channels ready)"
  by (rule succeeds_ret) (rule sat_inv)

subsection \<open>Threads\<close>

text \<open>A thread whose flag is reset once it has begun ends at its next test of the flag.\<close>

lemma join_ended:
  assumes "get s = Some h" "alive h \<longrightarrow> begun h" "\<not> running h"
  shows "join goes round get s = (Inr (), s)"
proof -
  let ?W = "while_option (\<lambda>(h, r). alive h) (thread_next goes round)"
  have over: "?W (k, r) = Some (k, r)" if "\<not> alive k" for k r
    by (subst while_option_unfold) (simp add: that)
  have "?W (h, rig s) = ?W (h\<lparr>alive := False\<rparr>, rig s)" if "alive h"
    by (subst while_option_unfold) (use that assms(2,3) in \<open>simp add: thread_next_def\<close>)
  with over [of "h\<lparr>alive := False\<rparr>"] over [of h] have "\<exists>k. ?W (h, rig s) = Some (k, rig s)" by (cases "alive h") auto
  then show ?thesis using assms(1) by (auto simp: join_def)
qed

lemma sat_join:
  assumes "get u = Some h" "alive h \<longrightarrow> begun h" "\<not> running h" "\<And>r. get (u\<lparr>rig := r\<rparr>) = get u"
  shows "succeeds (sat channels ready m ps u) (join goes round get) (\<lambda>_. sat channels ready m ps u)"
  unfolding succeeds_def
proof (intro allI impI)
  fix s assume s: "sat channels ready m ps u s"
  then have "get s = Some h" using assms(1,4) by (auto simp: sat_def)
  from join_ended [of get, OF this assms(2,3)] s show "\<exists>x t. join goes round get s = (Inr x, t) \<and> sat channels ready m ps u t" by blast
qed

lemma sat_stop:
  assumes "get u = Some h" "\<And>r. get (u\<lparr>rig := r\<rparr>) = get u" "\<And>x r. put x (u\<lparr>rig := r\<rparr>) = (put x u)\<lparr>rig := r\<rparr>"
  shows "succeeds (sat channels ready m ps u) (stop get put) (\<lambda>_. sat channels ready m ps (put (Some (h\<lparr>running := False, interrupted := True\<rparr>)) u))"
  using assms by (auto simp: succeeds_def sat_def stop_def)

lemma sat_ended:
  assumes "get u = Some h" "alive h \<longrightarrow> begun h" "\<And>u r. get (u\<lparr>rig := r\<rparr>) = get u" "\<And>x u. get (put x u) = x"
    "\<And>x u r. put x (u\<lparr>rig := r\<rparr>) = (put x u)\<lparr>rig := r\<rparr>" "\<And>x u. put None (put x u) = put None u"
  shows "succeeds (sat channels ready m ps u) (jseq (stop get put) (jseq (join goes round get) (update (put None)))) (\<lambda>_. sat channels ready m ps (put None u))"
proof (rule succeeds_seq [OF sat_stop succeeds_seq [OF sat_join]])
  let ?h = "h\<lparr>running := False, interrupted := True\<rparr>"
  show "get u = Some h" "get (put (Some ?h) u) = Some ?h" "alive ?h \<longrightarrow> begun ?h" "\<not> running ?h" using assms by simp_all
  from sat_update [where f = "put None" and u = "put (Some ?h) u", OF assms(5)]
  show "succeeds (sat channels ready m ps (put (Some ?h) u)) (update (put None)) (\<lambda>_. sat channels ready m ps (put None u))"
    by (rule succeeds_conseq) (simp_all add: assms(6))
qed (simp_all add: assms flip: assms(5))

lemma sat_redrum:
  assumes "all_begun u"
  shows "presetVisual u \<noteq> None \<Longrightarrow> succeeds (sat channels ready m ps u) (redrumPresetVisual fw) (\<lambda>_. sat channels ready m ps (u\<lparr>presetVisual := None\<rparr>))"
    "rainbowVisual u \<noteq> None \<Longrightarrow> succeeds (sat channels ready m ps u) (redrumRainbow fw) (\<lambda>_. sat channels ready m ps (u\<lparr>rainbowVisual := None\<rparr>))"
    "dmxVisual u \<noteq> None \<Longrightarrow> succeeds (sat channels ready m ps u) (redrumDMXVisual fw) (\<lambda>_. sat channels ready m ps (u\<lparr>dmxVisual := None\<rparr>))"
    "chase u \<noteq> None \<Longrightarrow> succeeds (sat channels ready m ps u) (redrumChase fw) (\<lambda>_. sat channels ready m ps (u\<lparr>chase := None\<rparr>))"
  unfolding redrumPresetVisual_def redrumRainbow_def redrumDMXVisual_def redrumChase_def
  using assms sat_ended [where get = presetVisual and put = "\<lambda>h s. s\<lparr>presetVisual := h\<rparr>" and u = u]
    sat_ended [where get = rainbowVisual and put = "\<lambda>h s. s\<lparr>rainbowVisual := h\<rparr>" and u = u]
    sat_ended [where get = dmxVisual and put = "\<lambda>h s. s\<lparr>dmxVisual := h\<rparr>" and u = u]
    sat_ended [where get = chase and put = "\<lambda>h s. s\<lparr>chase := h\<rparr>" and u = u]
  by (auto simp: all_begun_def)

text \<open>A call on the highlight thread.\<close>

definition hsat :: "('r \<Rightarrow> u8 list) \<Rightarrow> ('r \<Rightarrow> bool) \<Rightarrow> scene_manager \<Rightarrow> fixture list \<Rightarrow> 'r server \<Rightarrow> highlight_thread started \<Rightarrow> nat list \<Rightarrow> 'r server \<Rightarrow> bool" where
  "hsat channels ready m ps u h L s \<longleftrightarrow>
     (\<exists>b. hl_core ps L b \<and> semaphore b \<and> sat channels ready m ps (u\<lparr>highlight := Some (h\<lparr>body := b\<rparr>)\<rparr>) s)"

lemma hsatI:
  "\<lbrakk>hl_core ps L b; semaphore b; good channels ready m ps r; s = u\<lparr>highlight := Some (h\<lparr>body := b\<rparr>), rig := r\<rparr>\<rbrakk> \<Longrightarrow>
     hsat channels ready m ps u h L s"
  by (auto simp: hsat_def)

lemma hsatE:
  assumes "hsat channels ready m ps u h L s"
  obtains b r where "hl_core ps L b" "semaphore b" "good channels ready m ps r"
    "s = u\<lparr>highlight := Some (h\<lparr>body := b\<rparr>), rig := r\<rparr>"
  using assms by (auto simp: hsat_def sat_def)

lemma on_highlight_hsat:
  assumes "succeeds (hl_st channels ready m ps L True) n (\<lambda>x s. Q x \<and> hl_st channels ready m ps K True s)"
  shows "succeeds (hsat channels ready m ps u h L) (on_highlight n) (\<lambda>x s. Q x \<and> hsat channels ready m ps u h K s)"
  unfolding succeeds_def
proof (intro allI impI)
  fix s assume "hsat channels ready m ps u h L s"
  then obtain b r where b: "hl_core ps L b" "semaphore b" "s = u\<lparr>highlight := Some (h\<lparr>body := b\<rparr>), rig := r\<rparr>"
      "good channels ready m ps r" by (auto simp: hsat_def sat_def)
  then have "hl_st channels ready m ps L True \<lparr>th = b, rg = r\<rparr>" by (simp add: hl_st_def)
  from succeedsD [OF assms this] obtain x t where
    t: "n \<lparr>th = b, rg = r\<rparr> = (Inr x, t)" "Q x" "hl_st channels ready m ps K True t" by auto
  then have "on_highlight n s = (Inr x, u\<lparr>highlight := Some (h\<lparr>body := th t\<rparr>), rig := rg t\<rparr>)"
    using b(3) by (simp add: on_highlight_def)
  with t(2,3) show "\<exists>x t. on_highlight n s = (Inr x, t) \<and> Q x \<and> hsat channels ready m ps u h K t"
    by (auto simp: hsat_def hl_st_def intro!: exI [of _ "th t"])
qed

lemma hsat_sat:
  "(\<And>b. hl_core ps L b \<Longrightarrow> semaphore b \<Longrightarrow>
      succeeds (sat channels ready m ps (u\<lparr>highlight := Some (h\<lparr>body := b\<rparr>)\<rparr>)) n Q) \<Longrightarrow>
   succeeds (hsat channels ready m ps u h L) n Q"
  unfolding succeeds_def hsat_def by blast

lemma hsat_same:
  assumes "\<And>b. succeeds (sat channels ready m ps (u\<lparr>highlight := b\<rparr>)) n (\<lambda>_. sat channels ready m ps (v\<lparr>highlight := b\<rparr>))"
  shows "succeeds (hsat channels ready m ps u h L) n (\<lambda>_. hsat channels ready m ps v h L)"
  by (rule hsat_sat, rule succeeds_conseq [OF assms]) (auto simp: hsat_def)

lemma hsat_end:
  assumes "succeeds P n (\<lambda>_. hsat channels ready m ps u h L)"
    "\<And>b. hl_core ps L b \<Longrightarrow> semaphore b \<Longrightarrow> ctl_inv m ps (u\<lparr>highlight := Some (h\<lparr>body := b\<rparr>)\<rparr>)"
  shows "succeeds P n (\<lambda>_. server_inv channels ready)"
  using assms(1) by (rule succeeds_conseq) (auto simp: hsat_def intro: sat_inv assms(2))

lemma hsat_good: "hsat channels ready m ps u h L s \<Longrightarrow> good channels ready m ps (rig s)"
  by (auto simp: hsat_def sat_def)

lemma hsat_read:
  assumes "\<And>r x. g (u\<lparr>highlight := x, rig := r\<rparr>) = g u" "succeeds (hsat channels ready m ps u h L) (k (g u)) Q"
  shows "succeeds (hsat channels ready m ps u h L) (jbind (jread g) k) Q"
  by (rule succeeds_bind_read [where a = "g u"]) (use assms in \<open>auto simp: hsat_def sat_def\<close>)

lemma hsat_get_light:
  assumes "0 \<le> i" "i < int (length ps)" "succeeds (hsat channels ready m ps u h L) (k (nat i)) Q"
  shows "succeeds (hsat channels ready m ps u h L) (jbind (get_light i) k) Q"
proof -
  have "get_light i s = (Inr (nat i), s)" if "hsat channels ready m ps u h L s" for s
    using hsat_good [OF that] assms(1,2) by (auto simp: get_light_def jseq_def jbind_def jread_def jcheck_def jret_def good_def)
  then show ?thesis using assms(3) by (auto simp: succeeds_def jbind_def)
qed

lemma hsat_is_selected:
  assumes "i < length ps" "succeeds (hsat channels ready m ps u h L) (k (isSelected (ps ! i))) Q"
  shows "succeeds (hsat channels ready m ps u h L) (jbind (is_selected i) k) Q"
  unfolding is_selected_def
proof (rule succeeds_bind_read [where a = "isSelected (ps ! i)"])
  show "succeeds (hsat channels ready m ps u h L) (k (isSelected (ps ! i))) Q" by (rule assms(2))
  fix s assume "hsat channels ready m ps u h L s"
  from plan_of(3) [OF good_light(3) [OF hsat_good [OF this] assms(1)]] show "isSelected (profiles (rig s) ! i) = isSelected (ps ! i)" .
qed

lemma hsat_update:
  "(\<And>r x. f (u\<lparr>highlight := x, rig := r\<rparr>) = (f u)\<lparr>highlight := x, rig := r\<rparr>) \<Longrightarrow>
     succeeds (hsat channels ready m ps u h L) (update f) (\<lambda>_. hsat channels ready m ps (f u) h L)"
  unfolding update_def by (rule succeeds_modify) (auto simp: hsat_def sat_def)

lemma on_highlight_unit:
  assumes "succeeds (hl_st channels ready m ps L True) n (\<lambda>_. hl_st channels ready m ps K True)"
  shows "succeeds (hsat channels ready m ps u h L) (on_highlight n) (\<lambda>_. hsat channels ready m ps u h K)"
  using on_highlight_hsat [of channels ready m ps L n "\<lambda>_. True" K] assms by simp

lemma hsat_start:
  assumes "highlight u = None" "0 \<le> currentLightIndex u" "currentLightIndex u < int (length ps)"
  shows "succeeds (sat channels ready m ps u) startHighlight (\<lambda>_. hsat channels ready m ps u (start True HighlightThread) [nat (currentLightIndex u)])"
proof -
  let ?i = "nat (currentLightIndex u)"
  have new: "succeeds (sat channels ready m ps u)
      (update (\<lambda>s. s\<lparr>leaked := leak Leaked_highlight (highlight s) @ leaked s, highlight := Some (start False HighlightThread)\<rparr>))
      (\<lambda>_. hsat channels ready m ps u (start False HighlightThread) [])"
    unfolding update_def
  proof (rule succeeds_modify)
    fix s assume "sat channels ready m ps u s"
    then obtain r where r: "s = u\<lparr>rig := r\<rparr>" "good channels ready m ps r" by (auto simp: sat_def)
    have "s\<lparr>leaked := leak Leaked_highlight (highlight s) @ leaked s, highlight := Some (start False HighlightThread)\<rparr> =
        u\<lparr>highlight := Some ((start False HighlightThread)\<lparr>body := HighlightThread\<rparr>), rig := r\<rparr>"
      using assms(1) by (simp add: r(1) leak_def start_def)
    then show "hsat channels ready m ps u (start False HighlightThread) []
        (s\<lparr>leaked := leak Leaked_highlight (highlight s) @ leaked s, highlight := Some (start False HighlightThread)\<rparr>)"
      using hl_core_new [of ps] r(2) by (intro hsatI [of ps "[]" HighlightThread]) (simp_all add: HighlightThread_def)
  qed
  have add: "succeeds (hsat channels ready m ps u (start False HighlightThread) []) (on_highlight (addLight ?i)) (\<lambda>_. hsat channels ready m ps u (start False HighlightThread) [?i])"
    using addLight_good [of ?i ps channels ready m "[]"] assms by (intro on_highlight_unit) (simp add: nat_less_iff)
  have go: "succeeds (hsat channels ready m ps u (start False HighlightThread) L) (update (\<lambda>s. s\<lparr>highlight := map_option (\<lambda>h. start True (body h)) (highlight s)\<rparr>))
      (\<lambda>_. hsat channels ready m ps u (start True HighlightThread) L)" for L
    unfolding update_def by (rule succeeds_modify, erule hsatE, rule hsatI) (auto simp: start_def)
  show ?thesis unfolding startHighlight_def
    by (rule succeeds_seq [OF new], rule hsat_read, simp, rule hsat_get_light)
      (use assms in \<open>simp_all add: succeeds_seq [OF add go]\<close>)
qed

context dmx_channels
begin

lemma hsat_redrum:
  assumes "alive h \<longrightarrow> begun h"
  shows "succeeds (hsat channels ready m ps u h L) (redrumHighlight fw) (\<lambda>x s. x = L \<and> sat channels ready m ps (u\<lparr>highlight := None\<rparr>) s)"
proof -
  have flag: "succeeds (hsat channels ready m ps u h L) (update (\<lambda>s. s\<lparr>highlight := map_option (\<lambda>h. h\<lparr>running := False\<rparr>) (highlight s)\<rparr>))
      (\<lambda>_. hsat channels ready m ps u (h\<lparr>running := False\<rparr>) L)"
    unfolding update_def by (rule succeeds_modify, erule hsatE, rule hsatI) auto
  have rest: "succeeds (\<lambda>s. x = L \<and> hsat channels ready m ps u (h\<lparr>running := False\<rparr>) [] s)
      (jseq (update (\<lambda>s. s\<lparr>highlight := map_option (\<lambda>h. h\<lparr>interrupted := True\<rparr>) (highlight s)\<rparr>))
        (jseq (join always (highlight_round fw) highlight) (jseq (update (\<lambda>s. s\<lparr>highlight := None\<rparr>)) (jret x))))
      (\<lambda>x s. x = L \<and> sat channels ready m ps (u\<lparr>highlight := None\<rparr>) s)" for x
  proof (rule succeeds_fact, rule hsat_sat)
    fix b assume "x = L"
    then show "succeeds (sat channels ready m ps (u\<lparr>highlight := Some ((h\<lparr>running := False\<rparr>)\<lparr>body := b\<rparr>)\<rparr>))
        (jseq (update (\<lambda>s. s\<lparr>highlight := map_option (\<lambda>h. h\<lparr>interrupted := True\<rparr>) (highlight s)\<rparr>))
          (jseq (join always (highlight_round fw) highlight) (jseq (update (\<lambda>s. s\<lparr>highlight := None\<rparr>)) (jret x))))
        (\<lambda>x s. x = L \<and> sat channels ready m ps (u\<lparr>highlight := None\<rparr>) s)"
      using assms by (intro succeeds_seq [OF sat_update succeeds_seq [OF sat_join [where h = "h\<lparr>running := False, body := b, interrupted := True\<rparr>"]
            succeeds_seq [OF sat_update succeeds_ret]]]) simp_all
  qed
  show ?thesis unfolding redrumHighlight_def
    by (rule succeeds_seq [OF flag succeeds_bind [OF on_highlight_hsat [OF highlight_redrum_good] rest]])
qed

lemma dmx_all_good:
  "scene_bytes v \<Longrightarrow> succeeds (sat channels ready m ps u) (dmx_all fw v) (\<lambda>_. sat channels ready m ps u)"
  unfolding dmx_all_def by (intro sat_rig succeeds_conseq [OF on_dmx_all]) auto

lemma revertScene_good:
  assumes "scenes_ok m" "pred_option (lights_in ps) (selectedLights u)"
  shows "succeeds (sat channels ready m ps u) (revertScene fw) (\<lambda>_. sat channels ready m ps u)"
  unfolding revertScene_def
proof (rule succeeds_seq [OF succeeds_try(1) [OF sat_scene_read]])
  show "succeeds (sat channels ready m ps u) (dmx_all fw (currentScene m)) (\<lambda>_. sat channels ready m ps u)"
    using assms(1) by (intro dmx_all_good) (simp add: scenes_ok_def)
  have "i < length ps" if "i \<in> set (lights_of (selectedLights u))" for i
    using assms(2) that by (cases "selectedLights u") (auto simp: lights_of_def lights_in_def)
  then show "succeeds (sat channels ready m ps u)
      (jbind (jread selectedLights) (\<lambda>lights. jfor (lights_of lights) (\<lambda>i. in_rig (on_light i syncLight)))) (\<lambda>_. sat channels ready m ps u)"
    by (intro sat_read succeeds_for sat_rig on_light_sync) simp_all
qed

lemma save_current_good:
  assumes "scenes_ok m"
  shows "succeeds (sat channels ready m ps u) save_current (\<lambda>_ s. \<exists>v. scene_bytes v \<and> sat channels ready (setCurrentScene v m) ps u s)"
  unfolding save_current_def
proof (rule succeeds_bind)
  show "succeeds (sat channels ready m ps u) (jread (\<lambda>s. getDmx (dmx (rig s)))) (\<lambda>v s. scene_bytes v \<and> sat channels ready m ps u s)"
    by (rule succeeds_read) (auto simp: sat_def good_def rig_ok_def mirrored_def getDmx_def scene_bytes_def)
  show "succeeds (\<lambda>s. scene_bytes v \<and> sat channels ready m ps u s) (on_scenes (setCurrentScene v))
      (\<lambda>_ s. \<exists>v. scene_bytes v \<and> sat channels ready (setCurrentScene v m) ps u s)" for v
  proof (rule succeeds_fact)
    assume "scene_bytes v"
    moreover from this assms have "scenes_ok (setCurrentScene v m)" by (simp add: scenes_ok_def setCurrentScene_def scenes_inv_def)
    ultimately show "succeeds (sat channels ready m ps u) (on_scenes (setCurrentScene v))
      (\<lambda>_ s. \<exists>v. scene_bytes v \<and> sat channels ready (setCurrentScene v m) ps u s)"
      by (intro succeeds_conseq [OF sat_scenes]) auto
  qed
qed

end

subsection \<open>The handlers\<close>

definition in_mode :: "('r \<Rightarrow> u8 list) \<Rightarrow> ('r \<Rightarrow> bool) \<Rightarrow> u8 \<Rightarrow> 'r server \<Rightarrow> bool" where
  "in_mode channels ready mode s \<longleftrightarrow> server_inv channels ready s \<and> all_begun s \<and> currentState s = mode"

lemma in_mode_sat:
  assumes "\<And>m ps u. \<lbrakk>ctl_inv m ps u; scenes_ok m; ps \<noteq> []; \<forall>p \<in> set ps. channels_ok (channelMap p) \<and> channelMap p \<noteq> []; all_begun u; currentState u = mode\<rbrakk> \<Longrightarrow>
    succeeds (sat channels ready m ps u) n Q"
  shows "succeeds (in_mode channels ready mode) n Q"
  unfolding in_mode_def by (rule inv_sat) (rule assms)

lemmas inv_defs = ctl_inv_def mode_inv_def handles_def Let_def

lemma chosen_lights: "ctl_inv m ps u \<Longrightarrow> pred_option (lights_in ps) (selectedLights u)"
  by (auto simp: ctl_inv_def chosen_ok_def elim!: option.pred_mono_strong)

lemma setSceneDelay_good:
  assumes "chase u = Some t"
  shows "succeeds (sat channels ready m ps u) (setSceneDelay d) (\<lambda>_. sat channels ready m ps (u\<lparr>chase := Some (t\<lparr>body := (body t)\<lparr>sceneDelay := d\<rparr>\<rparr>)\<rparr>))"
  unfolding setSceneDelay_def by (rule sat_read) (use assms in \<open>simp_all add: sat_update\<close>)

context dmx_channels
begin

lemma chase_mode_good: "succeeds (in_mode channels ready CHASE_MODE) (chase_mode fw u) (\<lambda>_. server_inv channels ready)"
proof (rule in_mode_sat)
  fix m ps and s :: "'r server"
  assume inv: "ctl_inv m ps s" and m: "scenes_ok m" and begun: "all_begun s" and st: "currentState s = CHASE_MODE"
  obtain t where t: "chase s = Some t" "chase_ok m (body t)" using inv st by (auto simp: inv_defs)
  have step: "succeeds (sat channels ready m ps s) (jseq (update (\<lambda>s. s\<lparr>chaseSceneDelay := d\<rparr>)) (setSceneDelay d)) (\<lambda>_. server_inv channels ready)"
    if "MIN_CHASE_DELAY \<le> d" "d \<le> MAX_CHASE_DELAY" "10 dvd d" for d
    by (rule sat_end [OF succeeds_seq [OF sat_update setSceneDelay_good]])
      (use inv t st that in \<open>auto simp: inv_defs chase_ok_def\<close>)
  have leave: "succeeds (sat channels ready m ps s) (jseq (set_state IDLE_MODE) (jseq (redrumChase fw) (jseq (revertScene fw) (jret True))))
      (\<lambda>_. server_inv channels ready)"
    unfolding set_state_def
    by (rule succeeds_seq [OF sat_update succeeds_seq [OF sat_redrum(4) succeeds_then_ret [OF sat_end [OF revertScene_good]]]])
      (use inv t st m begun chosen_lights [OF inv] in \<open>auto simp: inv_defs all_begun_def\<close>)
  have stay: "succeeds (sat channels ready m ps s) (jret False) (\<lambda>_. server_inv channels ready)"
    by (rule sat_return [OF inv])
  obtain k where k: "chaseSceneDelay s = 10 * k" using inv by (auto simp: ctl_inv_def dvd_def)
  have cond: "succeeds (sat channels ready m ps s) (jwhen b n) (\<lambda>_. server_inv channels ready)"
    if "b \<Longrightarrow> succeeds (sat channels ready m ps s) n (\<lambda>_. server_inv channels ready)" for b n
    using that inv by (intro succeeds_when) (auto intro: sat_inv)
  show "succeeds (sat channels ready m ps s) (chase_mode fw u) (\<lambda>_. server_inv channels ready)"
    unfolding chase_mode_def using k inv
    by (intro sat_read succeeds_if succeeds_then_ret leave stay step cond) (auto simp: ctl_inv_def)
qed

end

text \<open>Scenes.\<close>

lemma ctl_inv_scenes: "ctl_inv m ps u \<Longrightarrow> currentState u \<noteq> CHASE_MODE \<Longrightarrow> ctl_inv m' ps u"
  by (simp add: ctl_inv_def mode_inv_def Let_def)

lemma scenes_ok_step:
  assumes "scenes_ok m"
  shows "scene_bytes (fst (getNextScene m))" "scenes_ok (snd (getNextScene m))"
    "scene_bytes (fst (getLastScene m))" "scenes_ok (snd (getLastScene m))"
  using assms
  by (auto simp: scenes_ok_def getNextScene_def getLastScene_def scenes_inv_def Let_def nat_less_iff intro!: nth_mem)

lemma scenes_ok_edit:
  assumes "scenes_ok m"
  shows "scene_bytes v \<Longrightarrow> scenes_ok (addScene v m)" "scene_bytes v \<Longrightarrow> scenes_ok (setCurrentScene v m)"
    "currentIndex m = -1 \<Longrightarrow> scenes_ok (deleteScene_at i m)"
    "currentIndex m \<noteq> -1 \<Longrightarrow> \<exists>m'. deleteScene m = (Inr (), m') \<and> scenes_ok m'"
    "\<exists>m'. updateSceneFile None m = (Inr (), m') \<and> scenes_ok m'"
proof -
  have "\<forall>v \<in> set (scenes m). scene_ok v"
    using assms by (force simp: scenes_ok_def scene_bytes_def scene_ok_def byte_ok_def int32_def)
  from write_scenes_result [OF this, of "[]"] show "\<exists>m'. updateSceneFile None m = (Inr (), m') \<and> scenes_ok m'"
    using assms by (simp add: updateSceneFile_def scenes_ok_def scenes_inv_def)
qed (use assms in \<open>auto simp: scenes_ok_def addScene_def setCurrentScene_def deleteScene_at_def deleteScene_def scenes_inv_def
      dest: in_set_takeD in_set_dropD\<close>)

lemma startHighlight_good:
  assumes "ctl_inv m ps u" "handles u = (None, None, None, None, None)" "\<forall>p \<in> set ps. \<not> isSelected p"
  shows "succeeds (sat channels ready m' ps (u\<lparr>currentState := LIGHT_SELECTION_MODE\<rparr>)) startHighlight (\<lambda>_. server_inv channels ready)"
proof (rule hsat_end [OF hsat_start])
  show "ctl_inv m' ps (u\<lparr>currentState := LIGHT_SELECTION_MODE, highlight := Some ((start True HighlightThread)\<lparr>body := b\<rparr>)\<rparr>)"
    if "hl_core ps [nat (currentLightIndex (u\<lparr>currentState := LIGHT_SELECTION_MODE\<rparr>))] b" "semaphore b" for b
    using assms that by (auto simp: inv_defs selection_inv_def)
qed (use assms in \<open>auto simp: inv_defs\<close>)

lemma stay_good:
  "ctl_inv m ps u \<Longrightarrow> succeeds (sat channels ready m ps u) (jret x) (\<lambda>_. server_inv channels ready)"
  by (rule sat_return)

context dmx_channels
begin

lemma show_scene_good:
  assumes "ctl_inv m ps u" "currentState u \<noteq> CHASE_MODE" "scene_bytes (fst (pick m))" "scenes_ok (snd (pick m))"
  shows "succeeds (sat channels ready m ps u) (show_scene fw pick) (\<lambda>_. server_inv channels ready)"
  unfolding show_scene_def
proof (rule succeeds_try, rule sat_scene_read, rule sat_end)
  show "succeeds (sat channels ready m ps u) (case pick m of (v, m) \<Rightarrow> jseq (on_scenes (\<lambda>_. m)) (dmx_all fw v)) (\<lambda>_. sat channels ready (snd (pick m)) ps u)"
    using assms(3,4) by (cases "pick m") (auto intro!: succeeds_seq [OF sat_scenes dmx_all_good])
  show "ctl_inv (snd (pick m)) ps u" using assms(1,2) by (rule ctl_inv_scenes)
qed

lemma update_file_good:
  assumes "scenes_ok m" "ctl_inv m ps u" "currentState u \<noteq> CHASE_MODE"
  shows "\<exists>m'. succeeds (sat channels ready m ps u) (exit_io (with_scenes (updateSceneFile None))) (\<lambda>_. sat channels ready m' ps u) \<and>
    scenes_ok m' \<and> ctl_inv m' ps u"
proof -
  obtain m' where m': "updateSceneFile None m = (Inr (), m')" "scenes_ok m'" using scenes_ok_edit(5) [OF assms(1)] by auto
  then show ?thesis using succeeds_try(2) [OF sat_with_scenes [where n = "updateSceneFile None", OF m']] ctl_inv_scenes [OF assms(2,3)] by blast
qed

lemma save_scene_good:
  assumes "scenes_ok m" "ctl_inv m ps u" "currentState u \<noteq> CHASE_MODE"
  shows "succeeds (sat channels ready m ps u) (save_scene None) (\<lambda>_. server_inv channels ready)"
  unfolding save_scene_def
proof (rule sat_scene_read, rule succeeds_when)
  have 1: "succeeds (sat channels ready m ps u) (jread (\<lambda>s. getDmx (dmx (rig s)))) (\<lambda>v s. scene_bytes v \<and> sat channels ready m ps u s)"
    by (rule succeeds_read) (auto simp: sat_def good_def rig_ok_def mirrored_def getDmx_def scene_bytes_def)
  have 2: "succeeds (\<lambda>s. scene_bytes v \<and> sat channels ready m ps u s) (on_scenes (addScene v)) (\<lambda>_ s. \<exists>v. scene_bytes v \<and> sat channels ready (addScene v m) ps u s)" for v
  proof (rule succeeds_fact)
    assume "scene_bytes v"
    with sat_scenes [where f = "addScene v", OF scenes_ok_edit(1) [OF assms(1) this]]
    show "succeeds (sat channels ready m ps u) (on_scenes (addScene v)) (\<lambda>_ s. \<exists>v. scene_bytes v \<and> sat channels ready (addScene v m) ps u s)"
      by (blast intro: succeeds_conseq)
  qed
  have 3: "succeeds (\<lambda>s. \<exists>v. scene_bytes v \<and> sat channels ready (addScene v m) ps u s) (exit_io (with_scenes (updateSceneFile None))) (\<lambda>_. server_inv channels ready)"
  proof (rule succeeds_ex, rule succeeds_fact)
    fix v :: "int list" assume "scene_bytes v"
    from update_file_good [OF scenes_ok_edit(1) [OF assms(1) this] ctl_inv_scenes [OF assms(2,3)] assms(3)]
    show "succeeds (sat channels ready (addScene v m) ps u) (exit_io (with_scenes (updateSceneFile None))) (\<lambda>_. server_inv channels ready)"
      by (blast intro: sat_end)
  qed
  show "succeeds (sat channels ready m ps u) (jseq (jbind (jread (\<lambda>s. getDmx (dmx (rig s)))) (\<lambda>v. on_scenes (addScene v)))
      (exit_io (with_scenes (updateSceneFile None)))) (\<lambda>_. server_inv channels ready)"
    by (rule succeeds_seq [OF succeeds_bind [OF 1 2] 3])
qed (use assms(2) in \<open>auto intro: sat_inv\<close>)

lemma delete_scene_good:
  assumes "scenes_ok m" "ctl_inv m ps u" "currentState u \<noteq> CHASE_MODE"
  shows "succeeds (sat channels ready m ps u) (delete_scene fw None) (\<lambda>_. server_inv channels ready)"
  unfolding delete_scene_def
proof (rule sat_scene_read, rule succeeds_if)
  assume "currentIndex m \<noteq> -1"
  then obtain m1 where m1: "deleteScene m = (Inr (), m1)" "scenes_ok m1" using scenes_ok_edit(4) [OF assms(1)] by blast
  from update_file_good [OF m1(2) ctl_inv_scenes [OF assms(2,3)] assms(3)] obtain m2 where
    m2: "succeeds (sat channels ready m1 ps u) (exit_io (with_scenes (updateSceneFile None))) (\<lambda>_. sat channels ready m2 ps u)"
      "scenes_ok m2" "ctl_inv m2 ps u" by blast
  show "succeeds (sat channels ready m ps u) (jseq (with_scenes deleteScene) (jseq (exit_io (with_scenes (updateSceneFile None))) (revertScene fw)))
      (\<lambda>_. server_inv channels ready)"
    by (rule sat_end [OF succeeds_seq [OF sat_with_scenes [where n = deleteScene, OF m1] succeeds_seq [OF m2(1) revertScene_good [OF m2(2) chosen_lights [OF assms(2)]]]] m2(3)])
next
  assume "\<not> currentIndex m \<noteq> -1"
  then have "scenes_ok (deleteScene_at (getSceneCount m - 1) m)" using scenes_ok_edit(3) [OF assms(1)] by simp
  then show "succeeds (sat channels ready m ps u) (jseq (on_scenes (\<lambda>m. deleteScene_at (getSceneCount m - 1) m)) (try_io (in_rig (on_dmx (clearDMX fw)))))
      (\<lambda>_. server_inv channels ready)"
    by (intro sat_end [OF succeeds_seq [OF sat_scenes succeeds_try(1) [OF sat_rig [OF on_dmx_clear]]] ctl_inv_scenes [OF assms(2,3)]])
qed

lemma server_idle_mode_good: "succeeds (in_mode channels ready IDLE_MODE) (server_idle_mode fw None u) (\<lambda>_. server_inv channels ready)"
proof (rule in_mode_sat)
  fix m ps and s :: "'r server"
  assume inv: "ctl_inv m ps s" and m: "scenes_ok m" and st: "currentState s = IDLE_MODE"
  let ?sat = "\<lambda>m u. sat channels ready m ps u"
  have none: "handles s = (None, None, None, None, None)" "\<forall>p \<in> set ps. \<not> isSelected p" and c: "currentState s \<noteq> CHASE_MODE"
    using inv st by (auto simp: inv_defs)
  have down: "succeeds (?sat m s) (try_io (jbind (jread (\<lambda>s. currentScene (sceneManager (rig s)))) (\<lambda>v.
      jseq (dmx_all fw v) (on_scenes (setCurrentScene v))))) (\<lambda>_. server_inv channels ready)"
    using m scenes_ok_edit(2) [OF m] ctl_inv_scenes [OF inv c]
    by (intro succeeds_try sat_scene_read sat_end [OF succeeds_seq [OF dmx_all_good sat_scenes]]) (auto simp: scenes_ok_def)
  have select: "succeeds (?sat m s) (jseq (set_state LIGHT_SELECTION_MODE) (jseq save_current (jseq startHighlight (jret True)))) (\<lambda>_. server_inv channels ready)"
    unfolding set_state_def
    by (intro succeeds_seq [OF sat_update succeeds_seq [OF save_current_good [OF m] succeeds_ex]] succeeds_fact
        succeeds_then_ret startHighlight_good [OF inv none]) simp
  have play: "succeeds (?sat m s) (jseq (set_state CHASE_MODE) (jseq startChase (jret True))) (\<lambda>_. server_inv channels ready)"
    if "getSceneCount m > 1"
    unfolding set_state_def startChase_def
    by (intro succeeds_seq [OF sat_update succeeds_then_ret [OF sat_end [OF sat_update]]])
      (use inv none st that in \<open>auto simp: inv_defs leak_def start_def live_def ChaseThread_def chase_ok_def getSceneCount_def\<close>)
  have to: "succeeds (?sat m s) (jseq (set_state k) (jret True)) (\<lambda>_. server_inv channels ready)" if "k \<in> {PARTY_MODE, SCARY_MODE}" for k
    unfolding set_state_def by (intro succeeds_then_ret sat_end [OF sat_update]) (use inv none st that in \<open>auto simp: inv_defs\<close>)
  show "succeeds (?sat m s) (server_idle_mode fw None u) (\<lambda>_. server_inv channels ready)"
    unfolding server_idle_mode_def
    by (intro succeeds_if succeeds_then_ret [OF show_scene_good [OF inv c]] succeeds_then_ret [OF down] select sat_scene_read play to
        stay_good [OF inv] succeeds_then_ret [OF save_scene_good [OF m inv c]] succeeds_then_ret [OF delete_scene_good [OF m inv c]]
        scenes_ok_step [OF m]) simp_all
qed

end

text \<open>Selecting lights. What the invariant says of the lights depends on their channels only.\<close>

definition same_lights :: "fixture list \<Rightarrow> fixture list \<Rightarrow> bool" where
  "same_lights ps qs \<longleftrightarrow> map channelMap ps = map channelMap qs"

lemma same_lights_length: "same_lights ps qs \<Longrightarrow> length ps = length qs"
  unfolding same_lights_def by (metis length_map)

lemma same_lights_nth: "same_lights ps qs \<Longrightarrow> i < length ps \<Longrightarrow> channelMap (ps ! i) = channelMap (qs ! i)"
  unfolding same_lights_def by (metis length_map nth_map)

lemma same_lights_inv:
  assumes "same_lights ps qs"
  shows "lights_in ps L \<Longrightarrow> lights_in qs L" "chosen_ok ps L can \<Longrightarrow> chosen_ok qs L can" "hl_core ps L h \<Longrightarrow> hl_core qs L h"
    "preset_ok ps p \<Longrightarrow> preset_ok qs p" "rainbow_ok ps r \<Longrightarrow> rainbow_ok qs r"
proof -
  show L: "lights_in ps L \<Longrightarrow> lights_in qs L" for L using same_lights_length [OF assms] by (simp add: lights_in_def)
  then show "preset_ok ps p \<Longrightarrow> preset_ok qs p" "rainbow_ok ps r \<Longrightarrow> rainbow_ok qs r" by (simp_all add: preset_ok_def rainbow_ok_def)
  show "chosen_ok qs L can" if c: "chosen_ok ps L can"
  proof -
    have e: "getNumChannels (qs ! i) = getNumChannels (ps ! i)" if i: "i \<in> set L" for i
    proof -
      have "i < length ps" using c i by (simp add: chosen_ok_def lights_in_def)
      from same_lights_nth [OF assms this] show ?thesis by (simp only: getNumChannels_def)
    qed
    have "\<forall>i \<in> set L. getNumChannels (qs ! i) = getNumChannels (qs ! hd L)" if can
    proof
      fix i assume i: "i \<in> set L"
      have L: "hd L \<in> set L" using c by (simp add: chosen_ok_def)
      have "getNumChannels (ps ! i) = getNumChannels (ps ! hd L)" using c i that unfolding chosen_ok_def by blast
      then show "getNumChannels (qs ! i) = getNumChannels (qs ! hd L)" by (simp only: e [OF i] e [OF L])
    qed
    then show ?thesis using c L unfolding chosen_ok_def by blast
  qed
  show "hl_core qs L h" if "hl_core ps L h"
  proof -
    have "saved_ok qs L (savedValues h)" if "saved_ok ps L (savedValues h)"
      using that unfolding saved_ok_def
      by (rule list_all2_mono) (simp add: same_lights_length [OF assms, symmetric] same_lights_nth [OF assms, symmetric])
    then show ?thesis using that by (simp add: hl_core_def)
  qed
qed

lemma same_unselected: "same_lights ps (unselected ps)"
  by (simp add: same_lights_def unselected_def)

lemma same_select: "i < length ps \<Longrightarrow> same_lights ps (ps[i := (ps ! i)\<lparr>isSelected := b\<rparr>])"
  by (auto simp: same_lights_def map_update intro!: nth_equalityI simp: nth_list_update)

lemma unselected_none: "\<forall>p \<in> set (unselected ps). \<not> isSelected p"
  by (auto simp: unselected_def)

lemma chosen_same: "same_lights ps qs \<Longrightarrow> pred_option (\<lambda>L. chosen_ok ps L can) x \<Longrightarrow> pred_option (\<lambda>L. chosen_ok qs L can) x"
  by (erule option.pred_mono_strong) (rule same_lights_inv(2))

lemma channels_agree_result:
  "channels_agree k ns can = (if ns = [] then can else \<forall>n \<in> set ns. n = k)"
  by (induction k ns can rule: channels_agree.induct) auto

text \<open>The description of a server while lights are selected.\<close>

lemma same_highlight: "highlight u = Some t \<Longrightarrow> u\<lparr>highlight := Some t\<rparr> = u"
  by (cases u) simp

lemma set_state_good:
  "ctl_inv m ps (u\<lparr>currentState := k\<rparr>) \<Longrightarrow> succeeds (sat channels ready m ps u) (set_state k) (\<lambda>_. server_inv channels ready)"
  unfolding set_state_def by (rule sat_end, rule sat_update) simp_all

lemma sat_to_hsat:
  assumes "highlight u = Some t" "hl_core ps L (body t)" "semaphore (body t)"
    "succeeds (hsat channels ready m ps u t L) n Q"
  shows "succeeds (sat channels ready m ps u) n Q"
proof (rule succeeds_conseq [OF assms(4)])
  fix s assume "sat channels ready m ps u s"
  then obtain r where r: "s = u\<lparr>rig := r\<rparr>" "good channels ready m ps r" by (auto simp: sat_def)
  show "hsat channels ready m ps u t L s"
  proof (rule hsatI [OF assms(2,3) r(2)])
    have "t\<lparr>body := body t\<rparr> = t" by (cases t) simp
    then show "s = u\<lparr>highlight := Some (t\<lparr>body := body t\<rparr>), rig := r\<rparr>"
      using assms(1) by (simp add: r(1))
  qed
qed

lemma selecting:
  assumes "ctl_inv m ps u" "currentState u = LIGHT_SELECTION_MODE"
  obtains t L where "handles u = (None, Some t, None, None, None)" "hl_core ps L (body t)" "semaphore (body t)"
    "nat (currentLightIndex u) \<in> set L" "\<forall>j < length ps. isSelected (ps ! j) \<longrightarrow> j \<in> set L"
  using assms by (auto simp: ctl_inv_def mode_inv_def Let_def selection_inv_def)

lemma hsat_step_index:
  "succeeds (hsat channels ready m ps u h L)
     (update (\<lambda>s. s\<lparr>currentLightIndex := (if c then int (length (profiles (rig s))) - 1 else x)\<rparr>))
     (\<lambda>_. hsat channels ready m ps (u\<lparr>currentLightIndex := (if c then int (length ps) - 1 else x)\<rparr>) h L)"
  unfolding update_def by (rule succeeds_modify, erule hsatE, rule hsatI) (auto simp: good_def)

lemma hsat_inv:
  assumes "ctl_inv m ps u" "currentState u = LIGHT_SELECTION_MODE" "handles u = (None, Some t, None, None, None)" "same_lights ps qs"
    "0 \<le> i" "i < int (length ps)" "nat i \<in> set L" "\<forall>j < length qs. isSelected (qs ! j) \<longrightarrow> j \<in> set L" "hl_core qs L b" "semaphore b"
  shows "ctl_inv m qs (u\<lparr>currentLightIndex := i, highlight := Some (t\<lparr>body := b\<rparr>)\<rparr>)"
  using assms chosen_same [OF assms(4)] same_lights_length [OF assms(4)]
  by (auto simp: ctl_inv_def mode_inv_def Let_def handles_def selection_inv_def)

text \<open>Leaving the selection: the fields that stay, and the mode that is entered.\<close>

lemma ctl_inv_enter:
  assumes "ctl_inv m ps u" "same_lights ps qs" "\<forall>p \<in> set qs. \<not> isSelected p" "leaked v = []" "chaseSceneDelay v = chaseSceneDelay u"
    "currentLightIndex v = currentLightIndex u" "currentPresetIndex v = currentPresetIndex u" "heartbeat_thr v = heartbeat_thr u"
    "pred_option (\<lambda>L. chosen_ok qs L (canChangeDMX v)) (selectedLights v)" "mode_inv m' qs v"
  shows "ctl_inv m' qs v"
  using assms same_lights_length [OF assms(2)] unfolding ctl_inv_def by auto

text \<open>The lights that are chosen can be changed together exactly when they have the same number of channels.\<close>

definition agree :: "fixture list \<Rightarrow> nat list \<Rightarrow> bool" where
  "agree ps L \<longleftrightarrow> (\<forall>i \<in> set L. getNumChannels (ps ! i) = getNumChannels (ps ! hd L))"

context dmx_channels
begin

lemma step_light_good:
  assumes "ctl_inv m ps s" "scenes_ok m" "currentState s = LIGHT_SELECTION_MODE"
  shows "succeeds (sat channels ready m ps s) (step_light fw) (\<lambda>_. server_inv channels ready)"
proof -
  obtain t L where h: "handles s = (None, Some t, None, None, None)" "hl_core ps L (body t)" "semaphore (body t)"
    "nat (currentLightIndex s) \<in> set L" "\<forall>j < length ps. isSelected (ps ! j) \<longrightarrow> j \<in> set L" by (rule selecting [OF assms(1,3)])
  let ?i = "currentLightIndex s" and ?H = "\<lambda>u L. hsat channels ready m ps u t L"
  have i: "0 \<le> ?i" "?i < int (length ps)" "nat ?i < length ps" using assms(1) by (auto simp: ctl_inv_def nat_less_iff)
  define L1 where "L1 = (if isSelected (ps ! nat ?i) then L else remove1 (nat ?i) L)"
  define j where "j = (if ?i - 1 < 0 then int (length ps) - 1 else ?i - 1)"
  define L2 where "L2 = (if isSelected (ps ! nat j) then L1 else if nat j \<in> set L1 then L1 else L1 @ [nat j])"
  have j: "0 \<le> j" "j < int (length ps)" using i by (auto simp: j_def)
  then have j': "nat j < length ps" by (simp add: nat_less_iff)
  have revert: "succeeds (?H s K) (revertScene fw) (\<lambda>_. ?H s K)" for K
    using chosen_lights [OF assms(1)] by (intro hsat_same revertScene_good assms(2)) simp
  have off: "succeeds (?H s L) (jwhen (\<not> isSelected (ps ! nat ?i)) (jseq (on_highlight (removeLight fw (nat ?i)))
      (jseq (revertScene fw) (on_highlight update_default_color)))) (\<lambda>_. ?H s L1)"
    using h(4) by (intro succeeds_when succeeds_seq [OF on_highlight_unit [OF removeLight_good] succeeds_seq [OF revert]]
        on_highlight_unit [OF update_default_color_good, THEN succeeds_conseq]) (auto simp: L1_def)
  have on: "succeeds (?H (s\<lparr>currentLightIndex := j\<rparr>) L1) (jwhen (\<not> isSelected (ps ! nat j)) (on_highlight (addLight (nat j))))
      (\<lambda>_. ?H (s\<lparr>currentLightIndex := j\<rparr>) L2)"
  proof (rule succeeds_when)
    assume "\<not> isSelected (ps ! nat j)"
    then have "L2 = (if nat j \<in> set L1 then L1 else L1 @ [nat j])" by (simp add: L2_def)
    then show "succeeds (?H (s\<lparr>currentLightIndex := j\<rparr>) L1) (on_highlight (addLight (nat j))) (\<lambda>_. ?H (s\<lparr>currentLightIndex := j\<rparr>) L2)"
      by (simp only: on_highlight_unit [OF addLight_good [OF j']])
  qed (simp add: L2_def)
  have "\<forall>k < length ps. isSelected (ps ! k) \<longrightarrow> k \<in> set L1" "nat j \<in> set L2"
    using h(2,5) j' by (auto simp: L1_def L2_def hl_core_def)
  then have sel: "\<forall>k < length ps. isSelected (ps ! k) \<longrightarrow> k \<in> set L2" "nat j \<in> set L2" by (auto simp: L2_def)
  have "succeeds (?H s L) (step_light fw) (\<lambda>_. ?H (s\<lparr>currentLightIndex := j\<rparr>) L2)"
    unfolding step_light_def
    by (rule hsat_read, simp, rule hsat_get_light [OF i(1,2)], rule hsat_is_selected [OF i(3)], rule succeeds_seq [OF off],
        rule succeeds_seq [OF hsat_step_index], fold j_def, rule hsat_read, simp, simp, rule hsat_get_light [OF j(1,2)],
        rule hsat_is_selected [OF j'], rule on)
  then have "succeeds (?H s L) (step_light fw) (\<lambda>_. server_inv channels ready)"
  proof (rule hsat_end)
    show "ctl_inv m ps (s\<lparr>currentLightIndex := j, highlight := Some (t\<lparr>body := b\<rparr>)\<rparr>)"
      if "hl_core ps L2 b" "semaphore b" for b
      by (rule hsat_inv [OF assms(1,3) h(1) _ j(1,2) sel(2,1) that]) (simp add: same_lights_def)
  qed
  then show ?thesis using h(1-3) by (intro sat_to_hsat [of s t ps L]) (simp_all add: handles_def)
qed

lemma toggle_good:
  assumes "ctl_inv m ps s" "currentState s = LIGHT_SELECTION_MODE"
  shows "succeeds (sat channels ready m ps s) (jbind (jread currentLightIndex) (\<lambda>i. jbind (get_light i) (\<lambda>l.
    jbind (is_selected l) (\<lambda>selected. setSelected l (\<not> selected))))) (\<lambda>_. server_inv channels ready)"
proof -
  obtain t L where h: "handles s = (None, Some t, None, None, None)" "hl_core ps L (body t)" "semaphore (body t)"
    "nat (currentLightIndex s) \<in> set L" "\<forall>j < length ps. isSelected (ps ! j) \<longrightarrow> j \<in> set L" by (rule selecting [OF assms])
  let ?i = "nat (currentLightIndex s)"
  let ?qs = "ps[?i := (ps ! ?i)\<lparr>isSelected := \<not> isSelected (ps ! ?i)\<rparr>]"
  have i: "0 \<le> currentLightIndex s" "currentLightIndex s < int (length ps)" "?i < length ps"
    using assms(1) by (auto simp: ctl_inv_def nat_less_iff)
  have same: "same_lights ps ?qs" by (rule same_select [OF i(3)])
  have "j \<in> set L" if "j < length ?qs" "isSelected (?qs ! j)" for j
    using h(4,5) that by (cases "?i = j") (auto simp: nth_list_update_neq)
  then have "\<forall>j < length ?qs. isSelected (?qs ! j) \<longrightarrow> j \<in> set L" by blast
  note hsat_inv [OF assms h(1) same i(1,2) h(4) this same_lights_inv(3) [OF same h(2)] h(3)]
  moreover have "s\<lparr>highlight := Some t\<rparr> = s" using h(1) by (intro same_highlight) (simp add: handles_def)
  ultimately have "ctl_inv m ?qs s" by simp
  then show ?thesis
    by (intro sat_read sat_get_light sat_is_selected sat_end [OF sat_select]) (use i in simp_all)
qed

lemma unselect_good:
  assumes "ctl_inv m ps s" "currentState s = LIGHT_SELECTION_MODE"
  shows "succeeds (sat channels ready m ps s) (jseq clearSelected
    (jbind (jread currentLightIndex) (\<lambda>i. jbind (get_light i) (\<lambda>l. on_highlight (addLight l))))) (\<lambda>_. server_inv channels ready)"
proof (rule succeeds_seq [OF sat_clearSelected])
  obtain t L where h: "handles s = (None, Some t, None, None, None)" "hl_core ps L (body t)" "semaphore (body t)"
    "nat (currentLightIndex s) \<in> set L" "\<forall>j < length ps. isSelected (ps ! j) \<longrightarrow> j \<in> set L" by (rule selecting [OF assms])
  let ?i = "nat (currentLightIndex s)" and ?qs = "unselected ps" and ?H = "\<lambda>L. hsat channels ready m (unselected ps) s t L"
  note core = same_lights_inv(3) [OF same_unselected h(2)]
  have i: "0 \<le> currentLightIndex s" "currentLightIndex s < int (length ps)" "?i < length ?qs" "length ?qs = length ps"
    using assms(1) by (auto simp: ctl_inv_def nat_less_iff unselected_def)
  have inv: "ctl_inv m ?qs (s\<lparr>currentLightIndex := currentLightIndex s, highlight := Some (t\<lparr>body := b\<rparr>)\<rparr>)"
    if "hl_core ?qs L b" "semaphore b" for b
    by (rule hsat_inv [OF assms h(1) same_unselected i(1,2) h(4) _ that]) (use unselected_none [of ps] in auto)
  have "succeeds (?H L) (on_highlight (addLight ?i)) (\<lambda>_. ?H (if ?i \<in> set L then L else L @ [?i]))"
    by (rule on_highlight_unit [OF addLight_good [OF i(3)]])
  then have "succeeds (?H L) (on_highlight (addLight ?i)) (\<lambda>_. ?H L)" using h(4) by simp
  then have "succeeds (?H L) (jbind (jread currentLightIndex) (\<lambda>i. jbind (get_light i) (\<lambda>l. on_highlight (addLight l)))) (\<lambda>_. server_inv channels ready)"
    by (intro hsat_read hsat_get_light hsat_end) (use i inv in simp_all)
  then show "succeeds (sat channels ready m ?qs s) (jbind (jread currentLightIndex) (\<lambda>i. jbind (get_light i) (\<lambda>l. on_highlight (addLight l))))
      (\<lambda>_. server_inv channels ready)"
    using h(1,3) core by (intro sat_to_hsat [of s t ?qs L]) (simp_all add: handles_def)
qed

lemma sat_can_change:
  assumes "lights_in ps L"
  shows "succeeds (sat channels ready m ps u)
    (update (\<lambda>s. let ns = map (\<lambda>i. getNumChannels (profiles (rig s) ! i)) L in s\<lparr>canChangeDMX := channels_agree (hd ns) ns (canChangeDMX s)\<rparr>))
    (\<lambda>_. sat channels ready m ps (let ns = map (\<lambda>i. getNumChannels (ps ! i)) L in u\<lparr>canChangeDMX := channels_agree (hd ns) ns (canChangeDMX u)\<rparr>))"
  unfolding update_def
proof (rule succeeds_modify)
  fix s assume "sat channels ready m ps u s"
  then obtain r where r: "s = u\<lparr>rig := r\<rparr>" "good channels ready m ps r" by (auto simp: sat_def)
  have e: "map (\<lambda>i. getNumChannels (profiles r ! i)) L = map (\<lambda>i. getNumChannels (ps ! i)) L"
    using assms plan_of(1) [OF good_light(3) [OF r(2)]] by (auto simp: lights_in_def getNumChannels_def)
  have "(let ns = map (\<lambda>i. getNumChannels (profiles (rig s) ! i)) L in s\<lparr>canChangeDMX := channels_agree (hd ns) ns (canChangeDMX s)\<rparr>) =
      (let ns = map (\<lambda>i. getNumChannels (ps ! i)) L in u\<lparr>canChangeDMX := channels_agree (hd ns) ns (canChangeDMX u)\<rparr>)\<lparr>rig := r\<rparr>"
    by (simp add: r(1) e Let_def del: map_eq_conv)
  with r(2) show "sat channels ready m ps (let ns = map (\<lambda>i. getNumChannels (ps ! i)) L in u\<lparr>canChangeDMX := channels_agree (hd ns) ns (canChangeDMX u)\<rparr>)
      (let ns = map (\<lambda>i. getNumChannels (profiles (rig s) ! i)) L in s\<lparr>canChangeDMX := channels_agree (hd ns) ns (canChangeDMX s)\<rparr>)"
    by simp
qed

lemma choose_lights_good:
  assumes "ctl_inv m ps s" "scenes_ok m" "currentState s = LIGHT_SELECTION_MODE" "all_begun s"
  shows "succeeds (sat channels ready m ps (s\<lparr>currentState := CONTROL_SELECTION_MODE\<rparr>)) (choose_lights fw) (\<lambda>_. server_inv channels ready)"
proof -
  let ?s = "s\<lparr>currentState := CONTROL_SELECTION_MODE\<rparr>"
  obtain t L where h: "handles s = (None, Some t, None, None, None)" "hl_core ps L (body t)" "semaphore (body t)"
    "nat (currentLightIndex s) \<in> set L" "\<forall>j < length ps. isSelected (ps ! j) \<longrightarrow> j \<in> set L" by (rule selecting [OF assms(1,3)])
  have L: "L \<noteq> []" "lights_in ps L" using h(4) hl_core_in [OF h(2)] by (auto simp: lights_in_def)
  have can: "channels_agree (hd (map (\<lambda>i. getNumChannels (ps ! i)) L)) (map (\<lambda>i. getNumChannels (ps ! i)) L) b = agree ps L" for b
    using L(1) by (auto simp: channels_agree_result agree_def hd_map)
  define u where "u = s\<lparr>currentState := CONTROL_SELECTION_MODE, highlight := None, selectedLights := Some L, canChangeDMX := agree ps L\<rparr>"
  have alive: "alive t \<longrightarrow> begun t" using assms(4) h(1) by (simp add: all_begun_def handles_def)
  have "chosen_ok ps L (agree ps L)" using L unfolding chosen_ok_def agree_def by blast
  then have qs: "lights_in (unselected ps) L" "chosen_ok (unselected ps) L (agree ps L)"
    using same_lights_inv(1,2) [OF same_unselected] L(2) by blast+
  have inv: "ctl_inv m (unselected ps) (u\<lparr>currentControlIndex := 1, leaked := leak Leaked_preset (presetVisual u) @ leaked u,
      presetVisual := Some (start (selectedLights u \<noteq> None) (PresetVisualThread (lights_of (selectedLights u))))\<rparr>)"
  proof (rule ctl_inv_enter [OF assms(1) same_unselected unselected_none])
    show "mode_inv m (unselected ps) (u\<lparr>currentControlIndex := 1, leaked := leak Leaked_preset (presetVisual u) @ leaked u,
      presetVisual := Some (start (selectedLights u \<noteq> None) (PresetVisualThread (lights_of (selectedLights u))))\<rparr>)"
      using h(1) qs(1) by (simp add: u_def mode_inv_def handles_def start_def live_def preset_ok_def PresetVisualThread_def lights_of_def PRESETS_def)
  qed (use assms(1) h(1) qs(2) in \<open>simp_all add: u_def leak_def handles_def ctl_inv_def\<close>)
  have rest: "succeeds (\<lambda>s'. x = L \<and> sat channels ready m ps (?s\<lparr>highlight := None\<rparr>) s')
      (jseq (update (\<lambda>s. s\<lparr>selectedLights := Some x\<rparr>)) (jseq (jcheck (x \<noteq> []) Index_out_of_bounds)
      (jseq (update (\<lambda>s. let ns = map (\<lambda>i. getNumChannels (profiles (rig s) ! i)) x in s\<lparr>canChangeDMX := channels_agree (hd ns) ns (canChangeDMX s)\<rparr>))
      (jseq clearSelected (jseq (revertScene fw) (jseq (update (\<lambda>s. s\<lparr>currentControlIndex := 1\<rparr>)) startPresetVisual))))))
      (\<lambda>_. server_inv channels ready)" for x
  proof (rule succeeds_fact)
    assume x: "x = L"
    have 1: "succeeds (sat channels ready m ps (?s\<lparr>highlight := None\<rparr>)) (update (\<lambda>s. s\<lparr>selectedLights := Some L\<rparr>))
        (\<lambda>_. sat channels ready m ps (?s\<lparr>highlight := None, selectedLights := Some L\<rparr>))"
      by (rule sat_update) simp
    have 2: "succeeds (sat channels ready m ps (?s\<lparr>highlight := None, selectedLights := Some L\<rparr>))
        (update (\<lambda>s. let ns = map (\<lambda>i. getNumChannels (profiles (rig s) ! i)) L in s\<lparr>canChangeDMX := channels_agree (hd ns) ns (canChangeDMX s)\<rparr>))
        (\<lambda>_. sat channels ready m ps u)"
      using sat_can_change [OF L(2), of m "?s\<lparr>highlight := None, selectedLights := Some L\<rparr>"] by (simp add: Let_def can u_def)
    have 3: "succeeds (sat channels ready m (unselected ps) u) (revertScene fw) (\<lambda>_. sat channels ready m (unselected ps) u)"
      by (rule revertScene_good [OF assms(2)]) (simp add: u_def qs)
    have 4: "succeeds (sat channels ready m (unselected ps) u) (jseq (update (\<lambda>s. s\<lparr>currentControlIndex := 1\<rparr>)) startPresetVisual) (\<lambda>_. server_inv channels ready)"
      unfolding startPresetVisual_def
      by (rule sat_end [OF succeeds_seq [OF sat_update sat_update]]) (use inv in \<open>simp_all add: u_def\<close>)
    show "succeeds (sat channels ready m ps (?s\<lparr>highlight := None\<rparr>))
      (jseq (update (\<lambda>s. s\<lparr>selectedLights := Some x\<rparr>)) (jseq (jcheck (x \<noteq> []) Index_out_of_bounds)
      (jseq (update (\<lambda>s. let ns = map (\<lambda>i. getNumChannels (profiles (rig s) ! i)) x in s\<lparr>canChangeDMX := channels_agree (hd ns) ns (canChangeDMX s)\<rparr>))
      (jseq clearSelected (jseq (revertScene fw) (jseq (update (\<lambda>s. s\<lparr>currentControlIndex := 1\<rparr>)) startPresetVisual))))))
      (\<lambda>_. server_inv channels ready)"
      unfolding x by (rule succeeds_seq [OF 1 succeeds_seq [OF succeeds_check succeeds_seq [OF 2 succeeds_seq [OF sat_clearSelected succeeds_seq [OF 3 4]]]]]) (rule L(1))
  qed
  have "succeeds (hsat channels ready m ps ?s t L) (choose_lights fw) (\<lambda>_. server_inv channels ready)"
    unfolding choose_lights_def by (rule succeeds_bind [OF hsat_redrum [OF alive] rest])
  then show ?thesis using h(1-3) by (intro sat_to_hsat [of ?s t ps L]) (simp_all add: handles_def)
qed

lemma cancel_selection_good:
  assumes "ctl_inv m ps s" "scenes_ok m" "currentState s = LIGHT_SELECTION_MODE" "all_begun s"
  shows "succeeds (sat channels ready m ps s) (jbind (redrumHighlight fw) (\<lambda>_. jseq clearSelected (jseq (revertScene fw) (set_state IDLE_MODE))))
    (\<lambda>_. server_inv channels ready)"
proof -
  obtain t L where h: "handles s = (None, Some t, None, None, None)" "hl_core ps L (body t)" "semaphore (body t)"
    "nat (currentLightIndex s) \<in> set L" "\<forall>j < length ps. isSelected (ps ! j) \<longrightarrow> j \<in> set L" by (rule selecting [OF assms(1,3)])
  let ?u = "s\<lparr>highlight := None\<rparr>"
  have alive: "alive t \<longrightarrow> begun t" using assms(4) h(1) by (simp add: all_begun_def handles_def)
  have inv: "ctl_inv m (unselected ps) (?u\<lparr>currentState := IDLE_MODE\<rparr>)"
  proof (rule ctl_inv_enter [OF assms(1) same_unselected unselected_none])
    show "mode_inv m (unselected ps) (?u\<lparr>currentState := IDLE_MODE\<rparr>)" using h(1) by (simp add: mode_inv_def handles_def)
    have "pred_option (\<lambda>L. chosen_ok ps L (canChangeDMX s)) (selectedLights s)" using assms(1) by (simp add: ctl_inv_def)
    from chosen_same [OF same_unselected this]
    show "pred_option (\<lambda>L. chosen_ok (unselected ps) L (canChangeDMX (?u\<lparr>currentState := IDLE_MODE\<rparr>))) (selectedLights (?u\<lparr>currentState := IDLE_MODE\<rparr>))"
      by simp
  qed (use assms(1) in \<open>simp_all add: ctl_inv_def\<close>)
  have "pred_option (lights_in (unselected ps)) (selectedLights s)"
    using chosen_lights [OF assms(1)] same_lights_inv(1) [OF same_unselected] by (auto elim!: option.pred_mono_strong)
  then have "succeeds (\<lambda>s'. x = L \<and> sat channels ready m ps ?u s') (jseq clearSelected (jseq (revertScene fw) (set_state IDLE_MODE)))
      (\<lambda>_. server_inv channels ready)" for x
    by (intro succeeds_fact succeeds_seq [OF sat_clearSelected succeeds_seq [OF revertScene_good [OF assms(2)] set_state_good [OF inv]]]) simp_all
  note rest = this
  have "succeeds (hsat channels ready m ps s t L)
      (jbind (redrumHighlight fw) (\<lambda>_. jseq clearSelected (jseq (revertScene fw) (set_state IDLE_MODE)))) (\<lambda>_. server_inv channels ready)"
    by (rule succeeds_bind [OF hsat_redrum [OF alive] rest])
  then show ?thesis using h(1-3) by (intro sat_to_hsat [of s t ps L]) (simp_all add: handles_def)
qed

lemma light_selection_mode_good:
  "succeeds (in_mode channels ready LIGHT_SELECTION_MODE) (light_selection_mode fw u) (\<lambda>_. server_inv channels ready)"
proof (rule in_mode_sat)
  fix m ps and s :: "'r server"
  assume inv: "ctl_inv m ps s" and m: "scenes_ok m" and st: "currentState s = LIGHT_SELECTION_MODE" and begun: "all_begun s"
  have choose: "succeeds (sat channels ready m ps s) (jseq (set_state CONTROL_SELECTION_MODE) (jseq (choose_lights fw) (jret True))) (\<lambda>_. server_inv channels ready)"
    unfolding set_state_def
    by (rule succeeds_seq, rule sat_update, simp, rule succeeds_then_ret, rule choose_lights_good [OF inv m st begun])
  have unselect: "succeeds (sat channels ready m ps s) (jseq clearSelected (jseq (jbind (jread currentLightIndex) (\<lambda>i. jbind (get_light i)
      (\<lambda>l. on_highlight (addLight l)))) (jret False))) (\<lambda>_. server_inv channels ready)"
    using succeeds_then_ret [OF unselect_good [OF inv st], of False] unfolding jseq_assoc .
  show "succeeds (sat channels ready m ps s) (light_selection_mode fw u) (\<lambda>_. server_inv channels ready)"
    unfolding light_selection_mode_def
    by (intro succeeds_if choose unselect stay_good [OF inv] succeeds_then_ret [OF step_light_good [OF inv m st]]
        succeeds_then_ret [OF toggle_good [OF inv st]] succeeds_then_ret [OF cancel_selection_good [OF inv m st begun]])
qed

end

subsection \<open>Choosing and using a control\<close>

text \<open>The fields that only the light selection and the chase change.\<close>

definition agrees :: "'r server \<Rightarrow> 'r server \<Rightarrow> bool" where
  "agrees s u \<longleftrightarrow> leaked u = leaked s \<and> chaseSceneDelay u = chaseSceneDelay s \<and> currentLightIndex u = currentLightIndex s \<and>
     currentPresetIndex u = currentPresetIndex s \<and> heartbeat_thr u = heartbeat_thr s \<and> selectedLights u = selectedLights s \<and>
     canChangeDMX u = canChangeDMX s"

lemma agrees_inv:
  assumes "ctl_inv m ps s" "agrees s u" "\<forall>p \<in> set ps. \<not> isSelected p" "mode_inv m' ps u"
  shows "ctl_inv m' ps u"
proof (rule ctl_inv_enter [OF assms(1) _ assms(3)])
  have "pred_option (\<lambda>L. chosen_ok ps L (canChangeDMX s)) (selectedLights s)" "leaked s = []" using assms(1) by (simp_all add: ctl_inv_def)
  with assms(2) show "pred_option (\<lambda>L. chosen_ok ps L (canChangeDMX u)) (selectedLights u)" "leaked u = []" by (simp_all add: agrees_def)
qed (use assms(2,4) in \<open>simp_all add: same_lights_def agrees_def\<close>)

lemma chosen_in:
  assumes "ctl_inv m ps s" "selectedLights s = Some L"
  shows "L \<noteq> []" "lights_in ps L" "canChangeDMX s \<Longrightarrow> agree ps L" "pred_option (lights_in ps) (selectedLights s)"
proof -
  have "chosen_ok ps L (canChangeDMX s)" using assms by (simp add: ctl_inv_def)
  then show c: "L \<noteq> []" "lights_in ps L" "canChangeDMX s \<Longrightarrow> agree ps L"
    unfolding chosen_ok_def agree_def by blast+
  show "pred_option (lights_in ps) (selectedLights s)" using assms(2) c(2) by simp
qed

lemma start_visual:
  assumes "ctl_inv m ps s" "agrees s u" "\<forall>p \<in> set ps. \<not> isSelected p" "selectedLights s = Some L"
    "handles u = (None, None, None, None, None)" "currentState u = CONTROL_SELECTION_MODE"
  shows "currentControlIndex u = 1 \<Longrightarrow> succeeds (sat channels ready m ps u) startPresetVisual (\<lambda>_. server_inv channels ready)"
    "currentControlIndex u = 0 \<Longrightarrow> succeeds (sat channels ready m ps u) startRainbow (\<lambda>_. server_inv channels ready)"
    "currentControlIndex u = -1 \<Longrightarrow> canChangeDMX s \<Longrightarrow> succeeds (sat channels ready m ps u) startDMXVisual (\<lambda>_. server_inv channels ready)"
proof -
  have sel: "selectedLights u = Some L" "canChangeDMX u = canChangeDMX s" using assms(2,4) by (simp_all add: agrees_def)
  have none: "chase u = None" "highlight u = None" "presetVisual u = None" "rainbowVisual u = None" "dmxVisual u = None"
    using assms(5) by (simp_all add: handles_def)
  note simps = sel none assms(4,6) leak_def start_def live_def lights_of_def mode_inv_def handles_def chosen_in(2) [OF assms(1,4)]
    preset_ok_def PresetVisualThread_def rainbow_ok_def RainbowThread_def DMXVisualThread_def PRESETS_def
  note agr = assms(2) [unfolded agrees_def]
  show "currentControlIndex u = 1 \<Longrightarrow> succeeds (sat channels ready m ps u) startPresetVisual (\<lambda>_. server_inv channels ready)"
    unfolding startPresetVisual_def
    by (rule sat_end, rule sat_update, simp, rule agrees_inv [OF assms(1) _ assms(3)]) (simp_all add: agrees_def agr simps)
  show "currentControlIndex u = 0 \<Longrightarrow> succeeds (sat channels ready m ps u) startRainbow (\<lambda>_. server_inv channels ready)"
    unfolding startRainbow_def
    by (rule sat_end, rule sat_update, simp, rule agrees_inv [OF assms(1) _ assms(3)]) (simp_all add: agrees_def agr simps)
  show "currentControlIndex u = -1 \<Longrightarrow> canChangeDMX s \<Longrightarrow> succeeds (sat channels ready m ps u) startDMXVisual (\<lambda>_. server_inv channels ready)"
    unfolding startDMXVisual_def
    by (rule sat_end, rule sat_update, simp, rule agrees_inv [OF assms(1) _ assms(3)]) (simp_all add: agrees_def agr simps)
qed

lemma sat_set_control: "succeeds (sat channels ready m ps u) (set_control k) (\<lambda>_. sat channels ready m ps (u\<lparr>currentControlIndex := k\<rparr>))"
  unfolding set_control_def by (rule sat_update) simp

lemma sat_set_state: "succeeds (sat channels ready m ps u) (set_state k) (\<lambda>_. sat channels ready m ps (u\<lparr>currentState := k\<rparr>))"
  unfolding set_state_def by (rule sat_update) simp

context dmx_channels
begin

text \<open>The mode with the facts its handlers use.\<close>

lemma control_mode:
  assumes "ctl_inv m ps s" "currentState s = CONTROL_SELECTION_MODE"
  obtains L where "selectedLights s = Some L" "\<forall>p \<in> set ps. \<not> isSelected p" "currentControlIndex s \<in> {-1, 0, 1}"
    "currentControlIndex s = 1 \<Longrightarrow> presetVisual s \<noteq> None \<and> handles (s\<lparr>presetVisual := None\<rparr>) = (None, None, None, None, None)"
    "currentControlIndex s = 0 \<Longrightarrow> rainbowVisual s \<noteq> None \<and> handles (s\<lparr>rainbowVisual := None\<rparr>) = (None, None, None, None, None)"
    "currentControlIndex s = -1 \<Longrightarrow> dmxVisual s \<noteq> None \<and> handles (s\<lparr>dmxVisual := None\<rparr>) = (None, None, None, None, None) \<and> canChangeDMX s"
proof -
  obtain L where "selectedLights s = Some L" using assms by (auto simp: ctl_inv_def mode_inv_def Let_def)
  moreover have "\<forall>p \<in> set ps. \<not> isSelected p" using assms by (simp add: ctl_inv_def)
  moreover have "mode_inv m ps s" using assms(1) by (simp add: ctl_inv_def)
  ultimately show thesis using assms(2) by (intro that) (auto simp: mode_inv_def Let_def handles_def)
qed

lemma control_step_good:
  assumes "ctl_inv m ps s" "scenes_ok m" "currentState s = CONTROL_SELECTION_MODE" "all_begun s"
  shows "succeeds (sat channels ready m ps s) (control_left fw) (\<lambda>_. server_inv channels ready)"
    "succeeds (sat channels ready m ps s) (control_right fw) (\<lambda>_. server_inv channels ready)"
proof -
  obtain L where L: "selectedLights s = Some L" "\<forall>p \<in> set ps. \<not> isSelected p" "currentControlIndex s \<in> {-1, 0, 1}"
    and k: "currentControlIndex s = 1 \<Longrightarrow> presetVisual s \<noteq> None \<and> handles (s\<lparr>presetVisual := None\<rparr>) = (None, None, None, None, None)"
    "currentControlIndex s = 0 \<Longrightarrow> rainbowVisual s \<noteq> None \<and> handles (s\<lparr>rainbowVisual := None\<rparr>) = (None, None, None, None, None)"
    "currentControlIndex s = -1 \<Longrightarrow> dmxVisual s \<noteq> None \<and> handles (s\<lparr>dmxVisual := None\<rparr>) = (None, None, None, None, None) \<and> canChangeDMX s"
    by (rule control_mode [OF assms(1,3)]) blast
  note start = start_visual [OF assms(1) _ L(2,1)] and stop = sat_redrum [OF assms(4)]
  have revert: "succeeds (sat channels ready m ps u) (revertScene fw) (\<lambda>_. sat channels ready m ps u)" if "selectedLights u = selectedLights s" for u
    by (rule revertScene_good [OF assms(2)]) (simp add: that chosen_in(4) [OF assms(1) L(1)])
  have stay: "succeeds (sat channels ready m ps s) (jret ()) (\<lambda>_. server_inv channels ready)" by (rule stay_good [OF assms(1)])
  show "succeeds (sat channels ready m ps s) (control_left fw) (\<lambda>_. server_inv channels ready)"
    unfolding control_left_def
    by (rule sat_read, simp, intro succeeds_if stay succeeds_seq [OF stop(1)] succeeds_seq [OF stop(2)] succeeds_seq [OF stop(3)] sat_read
        succeeds_seq [OF sat_set_control] succeeds_seq [OF revert] start)
      (use k assms(3) in \<open>simp_all add: agrees_def handles_def\<close>)
  show "succeeds (sat channels ready m ps s) (control_right fw) (\<lambda>_. server_inv channels ready)"
    unfolding control_right_def
    by (rule sat_read, simp, intro succeeds_if stay succeeds_seq [OF stop(1)] succeeds_seq [OF stop(2)] succeeds_seq [OF stop(3)] sat_read
        succeeds_seq [OF sat_set_control] succeeds_seq [OF revert] start)
      (use k assms(3) in \<open>simp_all add: agrees_def handles_def\<close>)
qed

lemma control_choose_good:
  assumes "ctl_inv m ps s" "scenes_ok m" "currentState s = CONTROL_SELECTION_MODE" "all_begun s" "\<forall>p \<in> set ps. channelMap p \<noteq> []"
  shows "succeeds (sat channels ready m ps s) (control_choose fw) (\<lambda>_. server_inv channels ready)"
proof -
  obtain L where L: "selectedLights s = Some L" "\<forall>p \<in> set ps. \<not> isSelected p" "currentControlIndex s \<in> {-1, 0, 1}"
    and k: "currentControlIndex s = 1 \<Longrightarrow> presetVisual s \<noteq> None \<and> handles (s\<lparr>presetVisual := None\<rparr>) = (None, None, None, None, None)"
    "currentControlIndex s = 0 \<Longrightarrow> rainbowVisual s \<noteq> None \<and> handles (s\<lparr>rainbowVisual := None\<rparr>) = (None, None, None, None, None)"
    "currentControlIndex s = -1 \<Longrightarrow> dmxVisual s \<noteq> None \<and> handles (s\<lparr>dmxVisual := None\<rparr>) = (None, None, None, None, None) \<and> canChangeDMX s"
    by (rule control_mode [OF assms(1,3)]) blast
  note stop = sat_redrum [OF assms(4)]
  have "hd L \<in> set L" using chosen_in(1) [OF assms(1) L(1)] by simp
  then have "ps ! hd L \<in> set ps" using chosen_in(2) [OF assms(1) L(1)] by (auto simp: lights_in_def)
  then have n: "0 < getNumChannels (ps ! hd L)" using assms(5) by (auto simp: getNumChannels_def)
  have revert: "succeeds (sat channels ready m ps u) (revertScene fw) (\<lambda>_. sat channels ready m ps u)" if "selectedLights u = selectedLights s" for u
    by (rule revertScene_good [OF assms(2)]) (simp add: that chosen_in(4) [OF assms(1) L(1)])
  have to: "succeeds (sat channels ready m ps u) (set_state v) (\<lambda>_. server_inv channels ready)"
    if "agrees s u" "mode_inv m ps (u\<lparr>currentState := v\<rparr>)" for u v
    by (rule set_state_good, rule agrees_inv [OF assms(1) _ L(2) that(2)]) (use that(1) in \<open>simp add: agrees_def\<close>)
  show ?thesis
    unfolding control_choose_def
    by (rule sat_read, simp, intro succeeds_if stay_good [OF assms(1)] succeeds_seq [OF stop(1)] succeeds_seq [OF stop(2)] succeeds_seq [OF stop(3)]
        succeeds_seq [OF revert] succeeds_seq [OF sat_update] to)
      (use k L n in \<open>simp_all add: agrees_def handles_def mode_inv_def\<close>)
qed

lemma control_back_good:
  assumes "ctl_inv m ps s" "scenes_ok m" "currentState s = CONTROL_SELECTION_MODE" "all_begun s"
  shows "succeeds (sat channels ready m ps s) (control_back fw) (\<lambda>_. server_inv channels ready)"
proof -
  obtain L where L: "selectedLights s = Some L" "\<forall>p \<in> set ps. \<not> isSelected p" "currentControlIndex s \<in> {-1, 0, 1}"
    and k: "currentControlIndex s = 1 \<Longrightarrow> presetVisual s \<noteq> None \<and> handles (s\<lparr>presetVisual := None\<rparr>) = (None, None, None, None, None)"
    "currentControlIndex s = 0 \<Longrightarrow> rainbowVisual s \<noteq> None \<and> handles (s\<lparr>rainbowVisual := None\<rparr>) = (None, None, None, None, None)"
    "currentControlIndex s = -1 \<Longrightarrow> dmxVisual s \<noteq> None \<and> handles (s\<lparr>dmxVisual := None\<rparr>) = (None, None, None, None, None) \<and> canChangeDMX s"
    by (rule control_mode [OF assms(1,3)]) blast
  let ?s = "s\<lparr>currentState := LIGHT_SELECTION_MODE\<rparr>"
  have begun: "all_begun ?s" using assms(4) by (simp add: all_begun_def)
  note stop = sat_redrum [OF begun]
  have fin: "succeeds (sat channels ready m ps u) (jseq (revertScene fw) startHighlight) (\<lambda>_. server_inv channels ready)"
    if u: "agrees s u" "handles u = (None, None, None, None, None)" "currentState u = LIGHT_SELECTION_MODE" for u
  proof (rule succeeds_seq [OF revertScene_good [OF assms(2)]])
    show "pred_option (lights_in ps) (selectedLights u)" using chosen_in(4) [OF assms(1) L(1)] u(1) by (simp add: agrees_def)
    have "mode_inv m ps (u\<lparr>currentState := IDLE_MODE\<rparr>)" using u(2) by (simp add: mode_inv_def handles_def)
    then have "ctl_inv m ps (u\<lparr>currentState := IDLE_MODE\<rparr>)"
      using u(1) by (intro agrees_inv [OF assms(1) _ L(2)]) (simp_all add: agrees_def)
    from startHighlight_good [OF this _ L(2), of channels ready m] u(2,3)
    show "succeeds (sat channels ready m ps u) startHighlight (\<lambda>_. server_inv channels ready)"
      by (cases u) (simp add: handles_def)
  qed
  have "succeeds (sat channels ready m ps ?s) (jseq (jbind (jread currentControlIndex) (\<lambda>k. if k = -1 then redrumDMXVisual fw else
      if k = 0 then redrumRainbow fw else if k = 1 then redrumPresetVisual fw else jret ())) (jseq (revertScene fw) startHighlight)) (\<lambda>_. server_inv channels ready)"
  proof -
    consider "currentControlIndex s = -1" | "currentControlIndex s = 0" | "currentControlIndex s = 1" using L(3) by auto
    then show ?thesis
    proof cases
      case 1
      then show ?thesis using k(3)
        by (intro succeeds_seq [OF _ fin [of "?s\<lparr>dmxVisual := None\<rparr>"]] sat_read) (simp_all add: stop(3) agrees_def handles_def)
    next
      case 2
      then show ?thesis using k(2)
        by (intro succeeds_seq [OF _ fin [of "?s\<lparr>rainbowVisual := None\<rparr>"]] sat_read) (simp_all add: stop(2) agrees_def handles_def)
    next
      case 3
      then show ?thesis using k(1)
        by (intro succeeds_seq [OF _ fin [of "?s\<lparr>presetVisual := None\<rparr>"]] sat_read) (simp_all add: stop(1) agrees_def handles_def)
    qed
  qed
  then show ?thesis unfolding control_back_def by (rule succeeds_seq [OF sat_set_state])
qed

lemma control_selection_mode_good:
  "succeeds (in_mode channels ready CONTROL_SELECTION_MODE) (control_selection_mode fw u) (\<lambda>_. server_inv channels ready)"
proof (rule in_mode_sat)
  fix m ps and s :: "'r server"
  assume inv: "ctl_inv m ps s" and m: "scenes_ok m" and st: "currentState s = CONTROL_SELECTION_MODE" and begun: "all_begun s"
    and ps: "\<forall>p \<in> set ps. channels_ok (channelMap p) \<and> channelMap p \<noteq> []"
  show "succeeds (sat channels ready m ps s) (control_selection_mode fw u) (\<lambda>_. server_inv channels ready)"
    unfolding control_selection_mode_def
    by (intro succeeds_if succeeds_then_ret control_step_good [OF inv m st begun] control_back_good [OF inv m st begun] stay_good [OF inv]
        control_choose_good [OF inv m st begun]) (use ps in simp)
qed

lemma keep_scene_good:
  assumes "ctl_inv m ps s" "scenes_ok m" "handles s = (None, None, None, None, None)" "\<forall>p \<in> set ps. \<not> isSelected p"
  shows "succeeds (sat channels ready m ps s) keep_scene (\<lambda>_. server_inv channels ready)"
  unfolding keep_scene_def
  by (rule succeeds_seq [OF save_current_good [OF assms(2)] succeeds_ex], rule succeeds_fact,
      rule succeeds_seq [OF sat_set_state succeeds_then_ret [OF startHighlight_good [OF assms(1,3,4)]]])

text \<open>A loop over the chosen lights.\<close>

lemma for_selected_good:
  assumes "ctl_inv m ps s" "selectedLights s = Some L" "\<And>i. i \<in> set L \<Longrightarrow> i < length ps \<Longrightarrow> succeeds (sat channels ready m ps u) (f i) (\<lambda>_. sat channels ready m ps u)"
    "selectedLights u = Some L" "ctl_inv m ps u"
  shows "succeeds (sat channels ready m ps u) (for_selected f) (\<lambda>_. server_inv channels ready)"
  unfolding for_selected_def
  by (rule sat_read, simp, rule sat_end [OF _ assms(5)])
    (use assms(3,4) chosen_in(2) [OF assms(1,2)] in \<open>auto simp: lights_in_def intro!: succeeds_for\<close>)

end

end
