(* ===== verification/Server_Commands.thy ===== *)
theory Server_Commands
  imports Server_Modes
begin

text \<open>
  The remaining modes of the server, which change the lights, and what one command and one
  datagram do: with a stick position the colour wheel covers, a working network and no code
  for the party in a mode that has a thread running, they return and keep the invariant.
\<close>

subsection \<open>Modes without a thread\<close>

text \<open>The stick positions \<open>getColor\<close> accepts: those above -4 are rounded to zero.\<close>

definition stick_in_range :: "int \<Rightarrow> bool" where
  "stick_in_range x \<longleftrightarrow> -4 < x \<and> x < 4096"

lemma sat_getColor:
  fixes channels :: "'r \<Rightarrow> u8 list"
  assumes "stick_in_range x" "stick_in_range y" "\<And>i j. succeeds (sat channels ready m ps u) (k (table i j)) Q"
  shows "succeeds (sat channels ready m ps u) (jbind (getColor table x y) k) Q"
proof -
  have "0 \<le> c_div z 4" if "stick_in_range z" for z
    using that by (cases "0 \<le> z") (auto simp: stick_in_range_def c_div_nonneg c_div_neg)
  then have "getColor table x y s = (Inr (table (c_div x 4) (c_div y 4)), s)" for s :: "'r server"
    using assms(1,2) by (simp add: getColor_def java Let_def stick_in_range_def not_le)
  with assms(3) show ?thesis by (simp add: succeeds_def jbind_def)
qed

lemma sat_vals:
  assumes "i < length ps" "\<And>vals. length vals = length (channelMap (ps ! i)) \<Longrightarrow> \<forall>v \<in> set vals. byte_ok v \<Longrightarrow>
      succeeds (sat channels ready m ps u) (k vals) Q"
  shows "succeeds (sat channels ready m ps u) (jbind (jread (\<lambda>s. dmxVals (profiles (rig s) ! i))) k) Q"
  unfolding succeeds_def
proof (intro allI impI)
  fix s assume s: "sat channels ready m ps u s"
  then obtain r where r: "s = u\<lparr>rig := r\<rparr>" "good channels ready m ps r" by (auto simp: sat_def)
  note l = good_light [OF r(2) assms(1)]
  have "length (dmxVals (profiles r ! i)) = length (channelMap (ps ! i))" "\<forall>v \<in> set (dmxVals (profiles r ! i)). byte_ok v"
    using l(2) plan_of(1) [OF l(3)] by (simp_all add: lit_ready_def fixture_ok_def)
  from succeedsD [OF assms(2) [OF this] s]
  show "\<exists>x t. jbind (jread (\<lambda>s. dmxVals (profiles (rig s) ! i))) k s = (Inr x, t) \<and> Q x t"
    by (simp add: r(1) java)
qed

lemma sat_first_channels:
  assumes "selectedLights u = Some L" "L \<noteq> []" "lights_in ps L" "succeeds (sat channels ready m ps u) (k (getNumChannels (ps ! hd L))) Q"
  shows "succeeds (sat channels ready m ps u) (jbind first_channels k) Q"
  unfolding succeeds_def
proof (intro allI impI)
  fix s assume s: "sat channels ready m ps u s"
  then obtain r where r: "s = u\<lparr>rig := r\<rparr>" "good channels ready m ps r" by (auto simp: sat_def)
  have "hd L < length ps" using assms(2,3) by (simp add: lights_in_def)
  from plan_of(1) [OF good_light(3) [OF r(2) this]]
  have "getNumChannels (profiles r ! hd L) = getNumChannels (ps ! hd L)" by (simp add: getNumChannels_def)
  then have "first_channels s = (Inr (getNumChannels (ps ! hd L)), s)"
    using assms(1,2) by (simp add: first_channels_def java r(1))
  with succeedsD [OF assms(4) s] show "\<exists>x t. jbind first_channels k s = (Inr x, t) \<and> Q x t"
    by (simp add: jbind_def)
qed

lemma sat_set_channel: "succeeds (sat channels ready m ps u) (set_channel k) (\<lambda>_. sat channels ready m ps (u\<lparr>currentChannelIndex := k\<rparr>))"
  unfolding set_channel_def by (rule sat_update) simp

lemma no_thread:
  assumes "ctl_inv m ps s" "currentState s \<notin> {CHASE_MODE, LIGHT_SELECTION_MODE, CONTROL_SELECTION_MODE}"
  shows "handles s = (None, None, None, None, None)" "\<forall>p \<in> set ps. \<not> isSelected p"
  using assms by (auto simp: ctl_inv_def mode_inv_def Let_def)

context dmx_channels
begin

lemma color_wheel_mode_good:
  assumes "\<And>i j. op_typed (Set_color (table i j))"
    "dataType c = JOYSTICK_DATA \<Longrightarrow> \<exists>x y. joystickData c = Some (x, y) \<and> stick_in_range x \<and> stick_in_range y"
  shows "succeeds (in_mode channels ready COLOR_WHEEL_MODE) (color_wheel_mode fw table c) (\<lambda>_. server_inv channels ready)"
proof (rule in_mode_sat)
  fix m ps and s :: "'r server"
  assume inv: "ctl_inv m ps s" and m: "scenes_ok m" and st: "currentState s = COLOR_WHEEL_MODE"
  obtain L where L: "selectedLights s = Some L" and k: "currentControlIndex s = 0"
    using inv st by (auto simp: inv_defs)
  have no: "handles s = (None, None, None, None, None)" "\<forall>p \<in> set ps. \<not> isSelected p"
    using no_thread [OF inv] st by simp_all
  have cancel: "succeeds (sat channels ready m ps s) (jseq (set_state CONTROL_SELECTION_MODE) (jseq startRainbow (jret True)))
      (\<lambda>_. server_inv channels ready)"
    by (rule succeeds_seq [OF sat_set_state succeeds_then_ret [OF start_visual(2) [OF inv _ no(2) L]]])
      (use no(1) k in \<open>simp_all add: agrees_def handles_def\<close>)
  have stick: "succeeds (sat channels ready m ps s) (for_selected (\<lambda>i. try_io (jbind (getColor table x y) (\<lambda>col. in_rig (on_light i (setColor fw col))))))
      (\<lambda>_. server_inv channels ready)" if "stick_in_range x" "stick_in_range y" for x y
    by (rule for_selected_good [OF inv L _ L inv], intro succeeds_try(1) sat_getColor that sat_rig on_light_color assms(1))
  show "succeeds (sat channels ready m ps s) (color_wheel_mode fw table c) (\<lambda>_. server_inv channels ready)"
    unfolding color_wheel_mode_def
    by (intro succeeds_if keep_scene_good [OF inv m no] cancel stay_good [OF inv])
      (use assms(2) stick in \<open>force intro: succeeds_then_ret\<close>)
qed

lemma channel_inv:
  assumes "ctl_inv m ps s" "currentState s = DMX_MODE" "selectedLights s = Some L" "0 \<le> k" "k < getNumChannels (ps ! hd L)"
  shows "ctl_inv m ps (s\<lparr>currentChannelIndex := k\<rparr>)"
  using assms by (auto simp: inv_defs)

lemma change_channel_good:
  assumes "ctl_inv m ps s" "currentState s = DMX_MODE" "\<bar>step\<bar> \<le> 255" "step \<noteq> 0"
  shows "succeeds (sat channels ready m ps s) (change_channel fw step) (\<lambda>_. server_inv channels ready)"
proof -
  obtain L where L: "selectedLights s = Some L" and can: "canChangeDMX s"
    and k: "0 \<le> currentChannelIndex s" "currentChannelIndex s < getNumChannels (ps ! hd L)"
    using assms(1,2) by (auto simp: inv_defs)
  let ?k = "currentChannelIndex s"
  have n: "?k < getNumChannels (ps ! i)" if "i \<in> set L" for i
    using chosen_in(3) [OF assms(1) L can] k(2) that by (simp add: agree_def)
  have light: "succeeds (sat channels ready m ps s) (jseq (jcheck (0 \<le> ?k \<and> ?k < int (length vals)) Index_out_of_bounds)
      (let v = vals ! nat ?k + step in jwhen (\<not> (if step > 0 then v > 255 else v < 0)) (try_io (in_rig (on_light i (setChannelManual fw ?k v))))))
      (\<lambda>_. sat channels ready m ps s)"
    if i: "i \<in> set L" "i < length ps" and vals: "length vals = length (channelMap (ps ! i))" "\<forall>v \<in> set vals. byte_ok v" for i vals
  proof -
    have in_vals: "?k < int (length vals)" using n [OF i(1)] vals(1) by (simp add: getNumChannels_def)
    then have "byte_ok (vals ! nat ?k)" using vals(2) k(1) by (simp add: nat_less_iff)
    then have byte: "byte_ok (vals ! nat ?k + step)" if "\<not> (if step > 0 then vals ! nat ?k + step > 255 else vals ! nat ?k + step < 0)"
      using that assms(3,4) by (auto simp: byte_ok_def split: if_splits)
    show ?thesis unfolding Let_def
      by (rule succeeds_seq [OF succeeds_check succeeds_when [OF succeeds_try(1) [OF sat_rig [OF on_light_channel]]]])
        (use in_vals k(1) byte n [OF i(1)] i in simp_all)
  qed
  show ?thesis unfolding change_channel_def
    by (rule sat_read, simp, rule for_selected_good [OF assms(1) L _ L assms(1)], rule sat_vals, assumption, rule light)
qed

lemma dmx_mode_good: "succeeds (in_mode channels ready DMX_MODE) (dmx_mode fw u) (\<lambda>_. server_inv channels ready)"
proof (rule in_mode_sat)
  fix m ps and s :: "'r server"
  assume inv: "ctl_inv m ps s" and m: "scenes_ok m" and st: "currentState s = DMX_MODE"
    and ps: "\<forall>p \<in> set ps. channels_ok (channelMap p) \<and> channelMap p \<noteq> []"
  obtain L where L: "selectedLights s = Some L" and can: "canChangeDMX s" "currentControlIndex s = -1"
    and k: "0 \<le> currentChannelIndex s" "currentChannelIndex s < getNumChannels (ps ! hd L)"
    using inv st by (auto simp: inv_defs)
  let ?k = "currentChannelIndex s" and ?n = "getNumChannels (ps ! hd L)"
  note c = chosen_in [OF inv L]
  have no: "handles s = (None, None, None, None, None)" "\<forall>p \<in> set ps. \<not> isSelected p"
    using no_thread [OF inv] st by simp_all
  note chan = channel_inv [OF inv st L]
  have left: "succeeds (sat channels ready m ps s) (jseq (set_channel (?k - 1)) (jseq (jwhen (?k - 1 < 0)
      (jbind first_channels (\<lambda>n. set_channel (n - 1)))) (jret False))) (\<lambda>_. server_inv channels ready)"
  proof (rule succeeds_seq [OF sat_set_channel succeeds_then_ret [OF succeeds_when]])
    show "succeeds (sat channels ready m ps (s\<lparr>currentChannelIndex := ?k - 1\<rparr>)) (jbind first_channels (\<lambda>n. set_channel (n - 1)))
        (\<lambda>_. server_inv channels ready)"
      by (rule sat_first_channels [OF _ c(1,2)], simp add: L, rule sat_end, rule sat_set_channel) (use chan [of "?n - 1"] k in simp)
    fix t assume "\<not> ?k - 1 < 0" "sat channels ready m ps (s\<lparr>currentChannelIndex := ?k - 1\<rparr>) t"
    then show "server_inv channels ready t" using chan [of "?k - 1"] k by (auto intro: sat_inv)
  qed
  have right: "succeeds (sat channels ready m ps s) (jseq (set_channel (?k + 1)) (jbind first_channels (\<lambda>n.
      jseq (jwhen (?k + 1 \<ge> n) (set_channel 0)) (jret False)))) (\<lambda>_. server_inv channels ready)"
  proof (rule succeeds_seq [OF sat_set_channel sat_first_channels [OF _ c(1,2) succeeds_then_ret [OF succeeds_when]]])
    show "selectedLights (s\<lparr>currentChannelIndex := ?k + 1\<rparr>) = Some L" by (simp add: L)
    show "succeeds (sat channels ready m ps (s\<lparr>currentChannelIndex := ?k + 1\<rparr>)) (set_channel 0) (\<lambda>_. server_inv channels ready)"
      by (rule sat_end, rule sat_set_channel) (use chan [of 0] k in simp)
    fix t assume "\<not> ?k + 1 \<ge> ?n" "sat channels ready m ps (s\<lparr>currentChannelIndex := ?k + 1\<rparr>) t"
    then show "server_inv channels ready t" using chan [of "?k + 1"] k by (auto intro: sat_inv)
  qed
  have cancel: "succeeds (sat channels ready m ps s) (jseq (set_state CONTROL_SELECTION_MODE) (jseq (revertScene fw) (jseq startDMXVisual (jret True))))
      (\<lambda>_. server_inv channels ready)"
    by (rule succeeds_seq [OF sat_set_state succeeds_seq [OF revertScene_good [OF m] succeeds_then_ret [OF start_visual(3) [OF inv _ no(2) L]]]])
      (use no(1) can L c in \<open>simp_all add: agrees_def handles_def\<close>)
  have clear: "succeeds (sat channels ready m ps s) (for_selected (\<lambda>i. try_io (in_rig (on_light i (clearLight fw))))) (\<lambda>_. server_inv channels ready)"
    by (rule for_selected_good [OF inv L _ L inv], intro succeeds_try(1) sat_rig on_light_clear)
  show "succeeds (sat channels ready m ps s) (dmx_mode fw u) (\<lambda>_. server_inv channels ready)"
    unfolding dmx_mode_def
    by (rule sat_read, simp, intro succeeds_if left right cancel keep_scene_good [OF inv m no] stay_good [OF inv] succeeds_then_ret [OF clear]
        succeeds_then_ret [OF change_channel_good [OF inv st]]) simp_all
qed

lemma preset_mode_good: "succeeds (in_mode channels ready PRESET_MODE) (preset_mode fw u) (\<lambda>_. server_inv channels ready)"
proof (rule in_mode_sat)
  fix m ps and s :: "'r server"
  assume inv: "ctl_inv m ps s" and m: "scenes_ok m" and st: "currentState s = PRESET_MODE"
  obtain L where L: "selectedLights s = Some L" and k: "currentControlIndex s = 1"
    using inv st by (auto simp: inv_defs)
  have no: "handles s = (None, None, None, None, None)" "\<forall>p \<in> set ps. \<not> isSelected p"
    using no_thread [OF inv] st by simp_all
  have i: "0 \<le> currentPresetIndex s" "currentPresetIndex s < int (length PRESETS)" using inv by (simp_all add: ctl_inv_def)
  have cancel: "succeeds (sat channels ready m ps s) (jseq (set_state CONTROL_SELECTION_MODE) (jseq startPresetVisual (jret True)))
      (\<lambda>_. server_inv channels ready)"
    by (rule succeeds_seq [OF sat_set_state succeeds_then_ret [OF start_visual(1) [OF inv _ no(2) L]]])
      (use no(1) k in \<open>simp_all add: agrees_def handles_def\<close>)
  have preset: "succeeds (sat channels ready m ps s) (show_preset fw j) (\<lambda>_. server_inv channels ready)"
    if j: "0 \<le> j" "j < int (length PRESETS)" for j
    unfolding show_preset_def
  proof (rule succeeds_seq [OF sat_update])
    let ?u = "s\<lparr>currentPresetIndex := j\<rparr>"
    have inv': "ctl_inv m ps ?u" using inv j by (auto simp: inv_defs)
    have "nat j < length PRESETS" using j by (simp add: nat_less_iff)
    from presets_typed [OF this]
    show "succeeds (sat channels ready m ps ?u) (for_selected (\<lambda>i. exit_io (in_rig (on_light i (setColor fw (PRESETS ! nat j)))))) (\<lambda>_. server_inv channels ready)"
      using L by (intro for_selected_good [OF inv L _ _ inv'] succeeds_try(2) sat_rig on_light_color) simp_all
  qed simp
  show "succeeds (sat channels ready m ps s) (preset_mode fw u) (\<lambda>_. server_inv channels ready)"
    unfolding preset_mode_def
    by (rule sat_read, simp, intro succeeds_if cancel keep_scene_good [OF inv m no] stay_good [OF inv] succeeds_then_ret [OF preset])
      (use i in \<open>simp_all add: PRESETS_def\<close>)
qed

end

text \<open>The two modes that follow the rotation rate. Their dimmer values are bytes for every rate.\<close>

lemma last_above_byte: "byte_ok dv \<Longrightarrow> \<forall>(limit, v) \<in> set table. byte_ok v \<Longrightarrow> byte_ok (last_above g dv table)"
  unfolding last_above_def by (induction table arbitrary: dv) auto

lemma gyro_dimmers: "byte_ok (party_dimmer g)" "byte_ok (scary_dimmer g)"
  unfolding party_dimmer_def scary_dimmer_def by (rule last_above_byte; simp add: byte_ok_def)+

context dmx_channels
begin

lemma gyro_mode_good:
  assumes "\<And>i. op_typed (Set_color (col i))" "byte_ok dv" "k \<in> {PARTY_MODE, SCARY_MODE}"
  shows "succeeds (in_mode channels ready k) (gyro_mode fw dv col c) (\<lambda>_. server_inv channels ready)"
proof (rule in_mode_sat)
  fix m ps and s :: "'r server"
  assume inv: "ctl_inv m ps s" and st: "currentState s = k"
  have "ctl_inv m ps (s\<lparr>currentState := IDLE_MODE\<rparr>)" using inv st assms(3) by (auto simp: inv_defs)
  then have leave: "succeeds (sat channels ready m ps s) (jseq (set_state IDLE_MODE) (jret True)) (\<lambda>_. server_inv channels ready)"
    by (rule succeeds_then_ret [OF set_state_good])
  have shine: "succeeds (sat channels ready m ps s) (show_all fw dv col) (\<lambda>_. server_inv channels ready)"
    unfolding show_all_def
    by (rule sat_count, rule sat_end [OF _ inv], intro succeeds_for succeeds_try(1) succeeds_seq [OF sat_rig [OF on_light_dimmer]]
        sat_rig [OF on_light_color]) (use assms in simp_all)
  show "succeeds (sat channels ready m ps s) (gyro_mode fw dv col c) (\<lambda>_. server_inv channels ready)"
    unfolding gyro_mode_def by (intro succeeds_if leave stay_good [OF inv] succeeds_then_ret [OF shine])
qed

end

subsection \<open>A command\<close>

text \<open>
  Surroundings without errors, whose colours are colours; and the commands a mode can take: in the
  colour wheel the stick within its square, and no code for the party while a thread is running.
\<close>

definition calm :: "surroundings \<Rightarrow> bool" where
  "calm w \<longleftrightarrow> (\<forall>i j. op_typed (Set_color (wheel w i j))) \<and> (\<forall>i. op_typed (Set_color (rnd w i))) \<and> scene_io w = None \<and> net_ok w"

definition busy :: "u8 \<Rightarrow> bool" where
  "busy m \<longleftrightarrow> m = CHASE_MODE \<or> m = LIGHT_SELECTION_MODE \<or> m = CONTROL_SELECTION_MODE"

definition stick_ok :: "u8 \<Rightarrow> wirelessCommand \<Rightarrow> bool" where
  "stick_ok m c \<longleftrightarrow> (m = COLOR_WHEEL_MODE \<and> dataType c = JOYSTICK_DATA \<longrightarrow>
     (\<exists>x y. joystickData c = Some (x, y) \<and> stick_in_range x \<and> stick_in_range y))"

definition command_ok :: "u8 \<Rightarrow> wirelessCommand \<Rightarrow> bool" where
  "command_ok m c \<longleftrightarrow> (packetType c = DATA_PACKET_ID \<longrightarrow> stick_ok m c \<and> (userActionData c = KONAMI_COMPLETE \<longrightarrow> \<not> busy m))"

lemma in_mode_cases:
  "(\<And>k. R k \<Longrightarrow> succeeds (in_mode channels ready k) (f k) Q) \<Longrightarrow>
     succeeds (\<lambda>s. server_inv channels ready s \<and> all_begun s \<and> R (currentState s)) (jbind (jread currentState) f) Q"
  by (fastforce simp: succeeds_def java in_mode_def)

context dmx_channels
begin

lemma keep_in_mode: "succeeds (in_mode channels ready k) (jret b) (\<lambda>_. server_inv channels ready)"
  by (rule succeeds_ret) (simp add: in_mode_def)

lemma state_machine_good:
  assumes "calm w"
  shows "succeeds (\<lambda>s. server_inv channels ready s \<and> all_begun s \<and> stick_ok (currentState s) c) (state_machine fw w c) (\<lambda>_. server_inv channels ready)"
proof -
  have "succeeds (in_mode channels ready k) (party_mode fw (rnd w) c) (\<lambda>_. server_inv channels ready)"
    "succeeds (in_mode channels ready j) (scary_mode fw c) (\<lambda>_. server_inv channels ready)"
    if "k = PARTY_MODE" "j = SCARY_MODE" for k j
    using assms that unfolding party_mode_def scary_mode_def
    by (intro gyro_mode_good gyro_dimmers; simp add: calm_def byte_ok_def)+
  note gyro = this
  have io: "scene_io w = None" using assms by (simp add: calm_def)
  have colors: "op_typed (Set_color (wheel w i j))" for i j using assms by (simp add: calm_def)
  note modes = chase_mode_good server_idle_mode_good light_selection_mode_good control_selection_mode_good dmx_mode_good preset_mode_good
  show ?thesis unfolding state_machine_def Let_def io
    by (rule in_mode_cases, intro succeeds_if;
        (simp add: keep_in_mode modes gyro color_wheel_mode_good [OF colors] stick_ok_def; fail))
qed

lemma sendHeartbeat_good:
  "succeeds (server_inv channels ready) (jbind (jread currentState) (\<lambda>m. jseq (update (setCurrentState m)) (sendHeartbeat True)))
     (\<lambda>_. server_inv channels ready)"
proof -
  have "\<exists>t. jbind (jread currentState) (\<lambda>m. jseq (update (setCurrentState m)) (sendHeartbeat True)) s = (Inr (), t) \<and> server_inv channels ready t"
    if s: "server_inv channels ready s" for s :: "'r server"
  proof -
    obtain b where b: "hb_running (heartbeat_thr s)" "hb_data (heartbeat_thr s) = Some (ID @ [POLL_PACKET_ID, b])"
      using s by (auto simp: server_inv_def ctl_inv_def)
    show ?thesis
      using s b by (auto simp: java update_def setCurrentState_def sendHeartbeat_def Let_def ID_def server_inv_def ctl_inv_def mode_inv_def handles_def)
  qed
  then show ?thesis by (auto simp: succeeds_def)
qed

lemma enter_party:
  "succeeds (\<lambda>s. server_inv channels ready s \<and> all_begun s \<and> \<not> busy (currentState s)) (set_state PARTY_MODE)
     (\<lambda>_ s. server_inv channels ready s \<and> all_begun s \<and> stick_ok (currentState s) c)"
  unfolding set_state_def update_def
  by (rule succeeds_modify) (auto simp: server_inv_def busy_def inv_defs all_begun_def stick_ok_def)

lemma run_command_good:
  assumes "calm w"
  shows "succeeds (\<lambda>s. server_inv channels ready s \<and> all_begun s \<and> command_ok (currentState s) c) (run_command fw w c)
    (\<lambda>_. server_inv channels ready)"
proof -
  let ?P = "\<lambda>s. server_inv channels ready s \<and> all_begun s \<and> command_ok (currentState s) c"
  note machine = state_machine_good [OF assms]
  have "succeeds ?P (if packetType c = DATA_PACKET_ID then
      if userActionData c = KONAMI_COMPLETE then jseq (set_state PARTY_MODE) (or_due True (state_machine fw w c)) else state_machine fw w c
      else jret False) (\<lambda>_. server_inv channels ready)"
  proof (intro succeeds_if)
    assume p: "packetType c = DATA_PACKET_ID"
    have party: "succeeds (\<lambda>s. server_inv channels ready s \<and> all_begun s \<and> stick_ok (currentState s) c) (or_due True (state_machine fw w c))
        (\<lambda>_. server_inv channels ready)"
      unfolding or_due_def by (rule succeeds_bind [OF machine succeeds_ret])
    show "succeeds ?P (jseq (set_state PARTY_MODE) (or_due True (state_machine fw w c))) (\<lambda>_. server_inv channels ready)"
      if "userActionData c = KONAMI_COMPLETE"
      using p that by (intro succeeds_conseq [OF succeeds_seq [OF enter_party party]]) (auto simp: command_ok_def)
    show "succeeds ?P (state_machine fw w c) (\<lambda>_. server_inv channels ready)"
      using p by (intro succeeds_conseq [OF machine]) (auto simp: command_ok_def)
  qed (auto intro: succeeds_ret)
  note first = this
  show ?thesis unfolding run_command_def
    using assms by (intro succeeds_bind [OF first] succeeds_when) (simp_all add: calm_def sendHeartbeat_good)
qed

end

end
