(* ===== verification/Server_Announce.thy ===== *)
theory Server_Announce
  imports Server_App
begin

text \<open>
  The heartbeat tells the controller the mode. Whatever a command does, in any state of the
  server, a change of the mode is followed by exactly one datagram, which carries the new mode
  and puts the controller into it; and no other command sends more than one.

  \<open>framed\<close> fixes what a handler must leave alone until the heartbeat is sent. \<open>sends\<close> says that
  a handler answers that a heartbeat is due, and \<open>announces\<close> that it does or has not changed the mode.
\<close>

definition unsent :: "u8 list list \<Rightarrow> heartbeat_thread \<Rightarrow> 'r server \<Rightarrow> bool" where
  "unsent D H s \<longleftrightarrow> datagrams s = D \<and> heartbeat_thr s = H"

definition framed :: "u8 list list \<Rightarrow> heartbeat_thread \<Rightarrow> u8 \<Rightarrow> 'r server \<Rightarrow> bool" where
  "framed D H k s \<longleftrightarrow> unsent D H s \<and> currentState s = k"

definition sends :: "('r, bool) handler \<Rightarrow> bool" where
  "sends n \<longleftrightarrow> (\<forall>D H s t b. unsent D H s \<longrightarrow> n s = (Inr b, t) \<longrightarrow> b \<and> unsent D H t)"

definition announces :: "('r, bool) handler \<Rightarrow> bool" where
  "announces n \<longleftrightarrow> (\<forall>D H k s t b. framed D H k s \<longrightarrow> n s = (Inr b, t) \<longrightarrow> unsent D H t \<and> (b \<or> currentState t = k))"

subsection \<open>Handlers that leave the mode\<close>

named_theorems frame "handlers that keep \<open>framed\<close>"

lemma framed_update:
  "(\<And>s. datagrams (f s) = datagrams s \<and> heartbeat_thr (f s) = heartbeat_thr s \<and> currentState (f s) = currentState s) \<Longrightarrow>
     keeps (framed D H k) (update f)"
  unfolding update_def by (rule keeps_modify) (simp add: framed_def unsent_def)

lemma framed_rig [frame]: "keeps (framed D H k) (in_rig m)"
  unfolding in_rig_def by (rule keeps_on) (simp add: framed_def unsent_def)

lemma framed_highlight [frame]: "keeps (framed D H k) (on_highlight m)"
  by (auto simp: keeps_def on_highlight_def framed_def unsent_def split: option.splits prod.splits)

lemma framed_get [frame]: "keeps (framed D H k) (get_light i)" "keeps (framed D H k) (is_selected l)" "keeps (framed D H k) first_channels"
  by (auto simp: get_light_def is_selected_def first_channels_def keeping split: option.split intro!: keeping)

lemma framed_fields [frame]:
  "keeps (framed D H k) (setSelected l b)" "keeps (framed D H k) (on_scenes f)" "keeps (framed D H k) (set_control i)"
  "keeps (framed D H k) (set_channel j)" "keeps (framed D H k) startPresetVisual" "keeps (framed D H k) startRainbow"
  "keeps (framed D H k) startDMXVisual" "keeps (framed D H k) startChase"
  unfolding setSelected_def on_scenes_def set_control_def set_channel_def startPresetVisual_def startRainbow_def startDMXVisual_def startChase_def
  by (rule framed_update; simp)+

lemma framed_join [frame]: "keeps (framed D H k) (join goes round get)"
  by (auto simp: keeps_def join_def framed_def unsent_def split: option.split)

lemma framed_stop [frame]:
  "keeps (framed D H k) (stop presetVisual (\<lambda>h s. s\<lparr>presetVisual := h\<rparr>))" "keeps (framed D H k) (stop rainbowVisual (\<lambda>h s. s\<lparr>rainbowVisual := h\<rparr>))"
  "keeps (framed D H k) (stop dmxVisual (\<lambda>h s. s\<lparr>dmxVisual := h\<rparr>))" "keeps (framed D H k) (stop chase (\<lambda>h s. s\<lparr>chase := h\<rparr>))"
  by (auto simp: keeps_def stop_def framed_def unsent_def split: option.split)

lemma framed_with_scenes [frame]: "keeps (framed D H k) (with_scenes m)"
  unfolding with_scenes_def by (rule framed_rig)

lemma framed_for_selected [frame]: "(\<And>i. keeps (framed D H k) (f i)) \<Longrightarrow> keeps (framed D H k) (for_selected f)"
  unfolding for_selected_def by (auto intro!: keeping split: option.split)

lemma framed_calls [frame]:
  "keeps (framed D H k) clearSelected" "keeps (framed D H k) startHighlight" "keeps (framed D H k) (redrumHighlight fw)"
  "keeps (framed D H k) (redrumPresetVisual fw)" "keeps (framed D H k) (redrumRainbow fw)" "keeps (framed D H k) (redrumDMXVisual fw)"
  "keeps (framed D H k) (redrumChase fw)" "keeps (framed D H k) (setSceneDelay d)" "keeps (framed D H k) (dmx_all fw v)"
  unfolding clearSelected_def startHighlight_def redrumHighlight_def redrumPresetVisual_def redrumRainbow_def redrumDMXVisual_def
    redrumChase_def setSceneDelay_def dmx_all_def
  by (auto intro!: keeping frame framed_update split: option.split)

lemma framed_scenes [frame]:
  "keeps (framed D H k) (revertScene fw)" "keeps (framed D H k) save_current" "keeps (framed D H k) (show_scene fw pick)"
  "keeps (framed D H k) (save_scene ios)" "keeps (framed D H k) (delete_scene fw ios)"
  unfolding revertScene_def save_current_def show_scene_def save_scene_def delete_scene_def
  by (auto intro!: keeping frame framed_update split: prod.split)

lemma framed_modes [frame]:
  "keeps (framed D H k) (step_light fw)" "keeps (framed D H k) (choose_lights fw)" "keeps (framed D H k) (control_left fw)"
  "keeps (framed D H k) (control_right fw)" "keeps (framed D H k) (change_channel fw d)" "keeps (framed D H k) (show_preset fw j)"
  "keeps (framed D H k) (show_all fw v col)" "keeps (framed D H k) (getColor table x y)"
  unfolding step_light_def choose_lights_def control_left_def control_right_def change_channel_def show_preset_def show_all_def getColor_def Let_def
  by (auto intro!: keeping frame framed_update)

subsection \<open>Handlers that change it\<close>

named_theorems announcing "rules and facts for \<open>sends\<close> and \<open>announces\<close>"

lemma unsent_set_state [announcing]: "keeps (unsent D H) (set_state m)"
  unfolding set_state_def update_def by (rule keeps_modify) (simp add: unsent_def)

lemma unsent_framed [announcing]: "(\<And>k. keeps (framed D H k) m) \<Longrightarrow> keeps (unsent D H) m"
  by (auto simp: keeps_def framed_def)

lemma announces_basic [announcing]: "announces (jret b)" "announces (jthrow e)" "sends (jret True)"
  by (auto simp: announces_def sends_def java framed_def)

lemma sends_seq [announcing]: "(\<And>D H. keeps (unsent D H) m) \<Longrightarrow> sends n \<Longrightarrow> sends (jseq m n)"
  by (fastforce simp: sends_def keeps_def jseq_def jbind_def split: prod.splits sum.splits)

lemma announces_seq: "(\<And>D H k. keeps (framed D H k) m) \<Longrightarrow> announces n \<Longrightarrow> announces (jseq m n)"
  by (fastforce simp: announces_def keeps_def jseq_def jbind_def split: prod.splits sum.splits)

lemma announces_bind: "(\<And>D H k. keeps (framed D H k) m) \<Longrightarrow> (\<And>x. announces (f x)) \<Longrightarrow> announces (jbind m f)"
  by (fastforce simp: announces_def keeps_def jbind_def split: prod.splits sum.splits)

lemma announces_read [announcing]: "(\<And>x. announces (f x)) \<Longrightarrow> announces (jbind (jread g) f)"
  by (rule announces_bind) (rule keeping)

lemma sends_announces: "sends n \<Longrightarrow> announces n"
  by (fastforce simp: announces_def sends_def framed_def)

lemma announces_if [announcing]: "(b \<Longrightarrow> announces m) \<Longrightarrow> (\<not> b \<Longrightarrow> announces n) \<Longrightarrow> announces (if b then m else n)"
  by simp

text \<open>A branch that ends quietly, and one that changes the mode.\<close>

lemma announces_quiet [announcing]: "(\<And>D H k. keeps (framed D H k) m) \<Longrightarrow> announces (jseq m (jret False))"
  by (rule announces_seq [OF _ announces_basic(1)])

lemma announces_change [announcing]: "sends n \<Longrightarrow> announces (jseq (set_state m) n)"
  by (rule sends_announces) (rule sends_seq [OF unsent_set_state])

lemma sends_keep_scene: "sends keep_scene"
  unfolding keep_scene_def by (intro announcing frame)

lemma unsent_choose [announcing]: "keeps (unsent D H) (control_choose fw)" "keeps (unsent D H) (control_back fw)"
  unfolding control_choose_def control_back_def
  by (intro keeping; intro unsent_set_state keeping frame unsent_framed framed_update; simp)+

lemma modes_announce [announcing]:
  "announces (chase_mode fw u)" "announces (server_idle_mode fw ios u)" "announces (light_selection_mode fw u)"
  "announces (control_selection_mode fw u)"
proof -
  show "announces (chase_mode fw u)" unfolding chase_mode_def
    by (intro announcing keeping frame framed_update) simp_all
  show "announces (server_idle_mode fw ios u)" unfolding server_idle_mode_def
    by (intro announcing keeping frame)
  have clear: "announces (jseq clearSelected (jseq (jbind (jread currentLightIndex) (\<lambda>i. jbind (get_light i) (\<lambda>l. on_highlight (addLight l)))) (jret False)))"
    by (rule announces_seq, rule frame, rule announces_quiet, intro keeping frame)
  have "keeps (unsent D H) (jbind (redrumHighlight fw) (\<lambda>_. jseq clearSelected (jseq (revertScene fw) (set_state IDLE_MODE))))" for D H
    by (rule keeps_bind, rule unsent_framed, rule frame, rule keeps_seq, rule unsent_framed, rule frame, rule keeps_seq, rule unsent_framed, rule frame,
        rule unsent_set_state)
  then have cancel: "announces (jseq (jbind (redrumHighlight fw) (\<lambda>_. jseq clearSelected (jseq (revertScene fw) (set_state IDLE_MODE)))) (jret True))"
    by (rule sends_announces [OF sends_seq [OF _ announces_basic(3)]])
  show "announces (light_selection_mode fw u)" unfolding light_selection_mode_def
    by (intro clear cancel announces_if announces_quiet announces_change announcing keeping frame)
  show "announces (control_selection_mode fw u)" unfolding control_selection_mode_def
    by (intro announces_if announces_quiet sends_announces announcing keeping frame)
qed

lemma lights_modes_announce [announcing]:
  "announces (color_wheel_mode fw table c)" "announces (dmx_mode fw u)" "announces (preset_mode fw u)"
  "announces (gyro_mode fw dv col c)"
proof -
  show "announces (color_wheel_mode fw table c)" unfolding color_wheel_mode_def
    by (cases "joystickData c") (auto intro!: sends_announces [OF sends_keep_scene] announcing keeping frame)
  have left: "announces (jseq (set_channel a) (jseq (jwhen b (jbind first_channels f)) (jret False)))" if "\<And>n. f n = set_channel (n - 1)" for a b f
    unfolding that by (rule announces_seq, rule frame, rule announces_quiet, intro keeping frame)
  have right: "announces (jseq (set_channel a) (jbind first_channels (\<lambda>n. jseq (jwhen (a \<ge> n) (set_channel 0)) (jret False))))" for a
    by (rule announces_seq, rule frame, rule announces_bind, rule frame, rule announces_quiet, intro keeping frame)
  show "announces (dmx_mode fw u)" unfolding dmx_mode_def
    by (intro announces_read announces_if left right sends_announces [OF sends_keep_scene] announcing keeping frame HOL.refl)
  show "announces (preset_mode fw u)" unfolding preset_mode_def
    by (intro sends_announces [OF sends_keep_scene] announcing keeping frame)
  show "announces (gyro_mode fw dv col c)" unfolding gyro_mode_def
    by (intro announcing keeping frame)
qed

lemma machine_announces: "announces (state_machine fw w c)"
  unfolding state_machine_def Let_def party_mode_def scary_mode_def by (intro announcing)

subsection \<open>The heartbeat\<close>

definition heartbeat_up :: "'r server \<Rightarrow> bool" where
  "heartbeat_up s \<longleftrightarrow> hb_running (heartbeat_thr s) \<and> (\<exists>b. hb_data (heartbeat_thr s) = Some (ID @ [POLL_PACKET_ID, b]))"

lemma send_state_result:
  assumes "heartbeat_up s"
  shows "\<exists>t. jbind (jread currentState) (\<lambda>m. jseq (update (setCurrentState m)) (sendHeartbeat ok)) s =
      (if ok then Inr () else Inl System_exit, t) \<and>
    currentState t = currentState s \<and> heartbeat_up t \<and> datagrams t = datagrams s @ (if ok then [heartbeat (currentState s)] else [])"
  using assms by (auto simp: heartbeat_up_def java update_def setCurrentState_def sendHeartbeat_def Let_def ID_def heartbeat_def)

lemma run_command_announces:
  assumes "run_command fw w c s = (Inr (), t)" "heartbeat_up s"
  shows "heartbeat_up t" "datagrams t = datagrams s @ [heartbeat (currentState t)] \<or> datagrams t = datagrams s \<and> currentState t = currentState s"
proof -
  let ?m = "if packetType c = DATA_PACKET_ID then
      if userActionData c = KONAMI_COMPLETE then jseq (set_state PARTY_MODE) (or_due True (state_machine fw w c)) else state_machine fw w c
      else jret False"
  let ?D = "datagrams s" and ?H = "heartbeat_thr s"
  have "sends (jseq (set_state PARTY_MODE) (or_due True (state_machine fw w c)))"
  proof (rule sends_seq [OF unsent_set_state])
    show "sends (or_due True (state_machine fw w c))"
      using machine_announces [of fw w c]
      by (fastforce simp: sends_def announces_def or_due_def java framed_def split: prod.splits sum.splits)
  qed
  then have "announces ?m" by (intro announces_if sends_announces [of "jseq (set_state PARTY_MODE) n" for n] machine_announces announces_basic)
  moreover have "framed ?D ?H (currentState s) s" by (simp add: framed_def unsent_def)
  moreover obtain b u where m: "?m s = (Inr b, u)"
    and rest: "jwhen b (jbind (jread currentState) (\<lambda>m. jseq (update (setCurrentState m)) (sendHeartbeat (net_ok w)))) u = (Inr (), t)"
    using assms(1) unfolding run_command_def by (cases "?m s", cases "fst (?m s)") (simp_all add: jbind_def)
  ultimately have u: "unsent ?D ?H u" "b \<or> currentState u = currentState s" unfolding announces_def by blast+
  have up: "heartbeat_up u" using u(1) assms(2) by (simp add: heartbeat_up_def unsent_def)
  have "heartbeat_up t \<and> (datagrams t = ?D @ [heartbeat (currentState t)] \<or> datagrams t = ?D \<and> currentState t = currentState s)"
  proof (cases b)
    case True
    with rest u(1) send_state_result [OF up, of "net_ok w"] show ?thesis
      by (auto simp: jwhen_def unsent_def split: if_splits)
  next
    case False
    with rest u up show ?thesis by (auto simp: jwhen_def jret_def unsent_def)
  qed
  then show "heartbeat_up t" "datagrams t = ?D @ [heartbeat (currentState t)] \<or> datagrams t = ?D \<and> currentState t = currentState s"
    by blast+
qed

lemma udp_heartbeat_mode:
  "\<exists>cs v. udp_recieve True (heartbeat m) addr u = Inr (cs, v) \<and> MODE (modes v) = m \<and> DEST_IP v = Some addr"
  using udp_recieve_heartbeat [of m addr u] by (simp add: heartbeat_state_def)

subsection \<open>Property\<close>

text \<open>
  C4: A change of the mode reaches the controller. Whatever state the server is in, if it runs
  a datagram without an exception then it sends at most one heartbeat; it sends one when the mode
  has changed; and the heartbeat it sends puts every controller that receives it into the server's
  new mode and connects it.
\<close>

theorem server_announces_mode:
  assumes "run_packet fw w buf s = (Inr (), t)" "heartbeat_up s"
  shows "heartbeat_up t \<and>
    (datagrams t = datagrams s \<and> currentState t = currentState s \<or>
     (\<exists>h. datagrams t = datagrams s @ [h] \<and>
        (\<forall>addr u. \<exists>cs v. udp_recieve True h addr u = Inr (cs, v) \<and> MODE (modes v) = currentState t \<and> DEST_IP v = Some addr)))"
proof -
  consider c where "run_command fw w c s = (Inr (), t)" | "t = s"
    using assms(1) by (auto simp: run_packet_def java split: sum.splits bool.splits prod.splits)
  then show ?thesis
  proof cases
    case 1
    from run_command_announces [OF this assms(2)] udp_heartbeat_mode show ?thesis by blast
  qed (use assms(2) in simp)
qed

text \<open>The small rig's server with its heartbeat running, and a datagram with a user action.\<close>

definition demo_server :: "ece453 driver server" where
  "demo_server =
     (let s = ServerAppThread (dmx demo_rig) (profiles demo_rig) (sceneManager demo_rig) in
      s\<lparr>heartbeat_thr := heartbeat_data (heartbeat_begin (heartbeat_thr s))\<rparr>)"

definition action_packet :: "u8 \<Rightarrow> u8 list" where
  "action_packet u = ID @ [DATA_PACKET_ID, 0, USER_ACTION_DATA, u] @ replicate 1012 0"

definition calm_surroundings :: surroundings where
  "calm_surroundings = \<lparr>wheel = (\<lambda>_ _. WHITE), rnd = (\<lambda>_. WHITE), scene_io = None, net_ok = True\<rparr>"

lemma demo_server_up: "heartbeat_up demo_server"
  by (simp add: heartbeat_up_def demo_server_def Let_def ServerAppThread_def HeartBeatThread_def heartbeat_begin_def heartbeat_data_def)

definition action_command :: "u8 \<Rightarrow> wirelessCommand" where
  "action_command u = new_command\<lparr>packetType := DATA_PACKET_ID, dataType := USER_ACTION_DATA, userActionData := u, parsed := True\<rparr>"

lemma parse_action: "parse (action_packet u) new_command = Inr (True, action_command u)"
proof -
  have "id_loop (action_packet u) 0 = Inr True"
    using id_loop_prefix [of "action_packet u"] by (simp add: action_packet_def)
  then show ?thesis
    by (simp add: parse_def verifyPacket_def action_command_def new_command_def parse_data_def action_packet_def read_byte_def nth_append ID_def Let_def)
qed

lemma run_action: "run_packet fw w (action_packet u) = run_command fw w (action_command u)"
  by (rule ext) (simp add: run_packet_def parse_action)

lemma action_command_fields [simp]:
  "packetType (action_command u) = DATA_PACKET_ID" "dataType (action_command u) = USER_ACTION_DATA" "userActionData (action_command u) = u"
  by (simp_all add: action_command_def)

theorem server_announces_mode_witness:
  "\<exists>t h. run_packet (sysfs_file 0 [0, 0]) calm_surroundings (action_packet REV_KONAMI_COMPLETE) demo_server = (Inr (), t) \<and>
     currentState t = SCARY_MODE \<and> datagrams t = [h] \<and>
     (\<forall>addr u. \<exists>cs v. udp_recieve True h addr u = Inr (cs, v) \<and> MODE (modes v) = SCARY_MODE \<and> DEST_IP v = Some addr)"
proof -
  obtain t where t: "run_packet (sysfs_file 0 [0, 0]) calm_surroundings (action_packet REV_KONAMI_COMPLETE) demo_server = (Inr (), t)"
    "currentState t = SCARY_MODE"
    by (simp add: run_action run_command_def state_machine_def server_idle_mode_def java set_state_def update_def
        jwhen_def setCurrentState_def sendHeartbeat_def Let_def calm_surroundings_def demo_server_def ServerAppThread_def HeartBeatThread_def
        heartbeat_begin_def heartbeat_data_def)
  moreover have "datagrams demo_server = []" "currentState demo_server = IDLE_MODE"
    by (simp_all add: demo_server_def Let_def ServerAppThread_def)
  ultimately show ?thesis using server_announces_mode [OF t(1) demo_server_up] by simp
qed

end
