(* ===== verification/Server_System.thy ===== *)
theory Server_System
  imports Server_Commands Server_Announce
begin

text \<open>
  The server with its threads, as a transition system: \<open>UDPServerThread\<close> puts the datagrams
  it receives into the queue, the server takes them out and runs them, the heartbeat beats, and the
  thread of the current mode takes turns, in any order. A step is a whole command or a whole
  turn. The buffer of the receiving thread is reused, so behind a short datagram lies the end of an
  earlier one.
\<close>

record 'r system =
  srv :: "'r server"
  receiveData :: "u8 list"
  commandQ :: "u8 list list"
  crashed :: "java_exception option"
  listening :: bool

text \<open>One round of \<open>UDPServerThread.run\<close>: the command gets a copy of the whole buffer.\<close>

definition udp_receive :: "u8 list \<Rightarrow> 'r system \<Rightarrow> 'r system" where
  "udp_receive d s =
     (let buf = take 1024 d @ drop (length d) (receiveData s) in s\<lparr>receiveData := buf, commandQ := commandQ s @ [buf]\<rparr>)"

text \<open>Its \<open>redrum\<close>; no further datagram is received.\<close>

definition udp_redrum :: "'r system \<Rightarrow> 'r system" where
  "udp_redrum s = s\<lparr>listening := False\<rparr>"

text \<open>A turn of a thread that has begun and whose flag is set; one that throws is over.\<close>

definition thread_turn :: "('r server \<Rightarrow> 't started option) \<Rightarrow> ('t started option \<Rightarrow> 'r server \<Rightarrow> 'r server) \<Rightarrow>
    (('t, 'r) turn, unit) java \<Rightarrow> 'r server \<Rightarrow> 'r server option" where
  "thread_turn get put m s =
     (case get s of
        None \<Rightarrow> None
      | Some h \<Rightarrow>
          if alive h \<and> begun h \<and> running h then
            (case thread_round (\<lambda>_. m) (h, rig s) of (h, r) \<Rightarrow> Some (put (Some h) (s\<lparr>rig := r\<rparr>)))
          else None)"

text \<open>The threads that were started reach their \<open>run\<close>.\<close>

definition begin_threads :: "'r server \<Rightarrow> 'r server" where
  "begin_threads s =
     s\<lparr>chase := map_option (begin_thread (can_chase (rig s))) (chase s), highlight := map_option (begin_thread True) (highlight s),
       presetVisual := map_option (begin_thread True) (presetVisual s), rainbowVisual := map_option (begin_thread True) (rainbowVisual s),
       dmxVisual := map_option (begin_thread True) (dmxVisual s)\<rparr>"

datatype event =
  Receive "u8 list" | Serve surroundings | Beat bool | Begin
| Highlight_turn nat | Preset_turn nat bool | Rainbow_turn | Dmx_turn nat | Chase_turn

definition failure :: "java_exception + 'a \<Rightarrow> java_exception option" where
  "failure r = (case r of Inl e \<Rightarrow> Some e | Inr _ \<Rightarrow> None)"

inductive sys_step :: "'r file_write \<Rightarrow> event \<Rightarrow> 'r system \<Rightarrow> 'r system \<Rightarrow> bool" for fw where
  receive: "listening s \<Longrightarrow> sys_step fw (Receive d) s (udp_receive d s)"
| serve: "\<lbrakk>crashed s = None; commandQ s = b # q; run_packet fw w b (srv s) = (r, t)\<rbrakk> \<Longrightarrow>
    sys_step fw (Serve w) s (s\<lparr>srv := t, commandQ := q, crashed := failure r\<rparr>)"
| beat: "\<lbrakk>crashed s = None; sendHeartbeat ok (srv s) = (r, t)\<rbrakk> \<Longrightarrow> sys_step fw (Beat ok) s (s\<lparr>srv := t, crashed := failure r\<rparr>)"
| begun: "sys_step fw Begin s (s\<lparr>srv := begin_threads (srv s)\<rparr>)"
| highlight: "thread_turn highlight (\<lambda>h s. s\<lparr>highlight := h\<rparr>) (highlight_turn fw n) (srv s) = Some t \<Longrightarrow>
    sys_step fw (Highlight_turn n) s (s\<lparr>srv := t\<rparr>)"
| preset: "thread_turn presetVisual (\<lambda>h s. s\<lparr>presetVisual := h\<rparr>) (preset_turn fw n b) (srv s) = Some t \<Longrightarrow>
    sys_step fw (Preset_turn n b) s (s\<lparr>srv := t\<rparr>)"
| rainbow: "thread_turn rainbowVisual (\<lambda>h s. s\<lparr>rainbowVisual := h\<rparr>) (rainbow_turn fw) (srv s) = Some t \<Longrightarrow>
    sys_step fw Rainbow_turn s (s\<lparr>srv := t\<rparr>)"
| dmx: "thread_turn dmxVisual (\<lambda>h s. s\<lparr>dmxVisual := h\<rparr>) (dmx_turn fw n) (srv s) = Some t \<Longrightarrow>
    sys_step fw (Dmx_turn n) s (s\<lparr>srv := t\<rparr>)"
| chase: "thread_turn chase (\<lambda>h s. s\<lparr>chase := h\<rparr>) (chase_turn fw) (srv s) = Some t \<Longrightarrow>
    sys_step fw Chase_turn s (s\<lparr>srv := t\<rparr>)"

text \<open>
  The runs the invariant is about. Four things are kept out, each of which can end, hang or leak
  something: a command that is served before the threads that were started have reached their loops;
  a stick position outside the square in the colour wheel; the code for the party while a thread
  runs; and errors of the scene file and of the network. \<open>Server_Faults\<close> shows what the
  first three do. Nothing else is asked of the datagrams that are received, nor of the order
  of the steps.
\<close>

definition packet_ok :: "u8 \<Rightarrow> u8 list \<Rightarrow> bool" where
  "packet_ok m b = (case parse b new_command of Inr (True, c) \<Rightarrow> command_ok m c | _ \<Rightarrow> True)"

fun fit :: "event \<Rightarrow> 'r system \<Rightarrow> bool" where
  "fit (Serve w) s \<longleftrightarrow> calm w \<and> all_begun (srv s) \<and> (case commandQ s of [] \<Rightarrow> True | b # q \<Rightarrow> packet_ok (currentState (srv s)) b)"
| "fit (Beat ok) s \<longleftrightarrow> ok"
| "fit e s \<longleftrightarrow> True"

inductive reach :: "'r file_write \<Rightarrow> 'r system \<Rightarrow> 'r system \<Rightarrow> bool" for fw s\<^sub>0 where
  start: "reach fw s\<^sub>0 s\<^sub>0"
| step: "\<lbrakk>reach fw s\<^sub>0 s; sys_step fw e s t; fit e s\<rbrakk> \<Longrightarrow> reach fw s\<^sub>0 t"

inductive_cases serve_elim: "sys_step fw (Serve w) s t"

definition sys_inv :: "('r \<Rightarrow> u8 list) \<Rightarrow> ('r \<Rightarrow> bool) \<Rightarrow> 'r system \<Rightarrow> bool" where
  "sys_inv channels ready s \<longleftrightarrow> server_inv channels ready (srv s) \<and> crashed s = None \<and> length (receiveData s) = 1024 \<and>
     (\<forall>b \<in> set (commandQ s). length b = 1024)"

subsection \<open>The steps\<close>

text \<open>A whole buffer can be parsed, or not, but never runs over its end.\<close>

lemma parse_buffer: "length b = 1024 \<Longrightarrow> \<exists>ok c. parse b new_command = Inr (ok, c)"
proof -
  assume len: "length b = 1024"
  have byte: "read_byte b i = Inr (b ! i)" if "i < 1024" for i using that len by (simp add: read_byte_def)
  have "id_loop b 0 = Inr (take 8 b = ID)" by (rule id_loop_prefix) (simp add: len)
  then show ?thesis
    by (auto simp: parse_def verifyPacket_def parse_data_def read_java_int_def byte new_command_def Let_def)
qed

lemma udp_receive_inv: "sys_inv channels ready s \<Longrightarrow> sys_inv channels ready (udp_receive d s)"
  by (auto simp: sys_inv_def udp_receive_def Let_def)

lemma begin_thread_simps [simp]:
  "body (begin_thread goes h) = body h" "begun (begin_thread goes h)" "live h \<Longrightarrow> goes \<Longrightarrow> live (begin_thread goes h)"
  "begun h \<longrightarrow> running h \<Longrightarrow> running (begin_thread goes h)"
  by (auto simp: begin_thread_def live_def)

lemma begin_threads_inv: "server_inv channels ready s \<Longrightarrow> server_inv channels ready (begin_threads s)" "all_begun (begin_threads s)"
proof -
  show "all_begun (begin_threads s)" by (simp add: all_begun_def begin_threads_def option.pred_map comp_def option.pred_True)
  have "ctl_inv (sceneManager (rig s)) ps (begin_threads s)" if "ctl_inv (sceneManager (rig s)) ps s" for ps
    using that by (auto simp: inv_defs begin_threads_def can_chase_def)
  then show "server_inv channels ready (begin_threads s)" if "server_inv channels ready s"
    using that by (simp add: server_inv_def begin_threads_def)
qed

text \<open>
  A turn of a thread: \<open>ok\<close> is what the invariant says of the thread, and the turn keeps it and the
  rig, whether it returns or, where it \<open>may\<close>, throws.
\<close>

lemma thread_turn_inv:
  assumes "server_inv channels ready s" "thread_turn get put m s = Some t"
    and "\<And>h r m ps. get s = Some h \<Longrightarrow> good channels ready m ps r \<Longrightarrow> ctl_inv m ps s \<Longrightarrow> scenes_ok m \<Longrightarrow> ok m ps (body h)"
    and "\<And>m' ps h r. ok m' ps h \<Longrightarrow> scenes_ok m' \<Longrightarrow> good channels ready m' ps r \<Longrightarrow>
      good channels ready m' ps (rg (snd (m \<lparr>th = h, rg = r\<rparr>))) \<and> ok m' ps (th (snd (m \<lparr>th = h, rg = r\<rparr>))) \<and> (may \<or> \<not> isl (fst (m \<lparr>th = h, rg = r\<rparr>)))"
    and "\<And>m ps h b a. get s = Some h \<Longrightarrow> ctl_inv m ps s \<Longrightarrow> ok m ps b \<Longrightarrow> running h \<Longrightarrow> may \<or> a \<Longrightarrow>
      ctl_inv m ps (put (Some (h\<lparr>body := b, interrupted := False, alive := a\<rparr>)) s)"
    and put: "\<And>h r. put h (s\<lparr>rig := r\<rparr>) = (put h s)\<lparr>rig := r\<rparr>"
  shows "server_inv channels ready t"
proof -
  let ?m = "sceneManager (rig s)" and ?ps = "map plan (profiles (rig s))"
  obtain h where h: "get s = Some h" "running h" using assms(2) by (auto simp: thread_turn_def split: option.splits if_splits)
  let ?o = "m \<lparr>th = body h, rg = rig s\<rparr>"
  have t: "t = put (Some (h\<lparr>body := th (snd ?o), interrupted := False, alive := \<not> isl (fst ?o)\<rparr>)) (s\<lparr>rig := rg (snd ?o)\<rparr>)"
    using assms(2) h by (simp add: thread_turn_def thread_round_def split: if_splits prod.splits)
  have g: "good channels ready ?m ?ps (rig s)" "ctl_inv ?m ?ps s" "scenes_ok ?m"
    using assms(1) by (simp_all add: server_inv_def good_def rig_ok_def)
  note ok = assms(3) [OF h(1) g]
  note turn = assms(4) [OF ok g(3,1)]
  have "ctl_inv ?m ?ps (put (Some (h\<lparr>body := th (snd ?o), interrupted := False, alive := \<not> isl (fst ?o)\<rparr>)) s)"
    using turn h(2) by (intro assms(5) [OF h(1) g(2)]) simp_all
  with turn show ?thesis unfolding t put by (simp add: server_inv_def good_def)
qed

context dmx_channels
begin

lemma highlight_step_inv:
  assumes "server_inv channels ready s" "thread_turn highlight (\<lambda>h s. s\<lparr>highlight := h\<rparr>) (highlight_turn fw n) s = Some t"
  shows "server_inv channels ready t"
proof (rule thread_turn_inv [OF assms, where ok = "\<lambda>m ps h. selection_inv ps h (currentLightIndex s)" and may = False])
  fix m' ps r and h :: highlight_thread
  assume "selection_inv ps h (currentLightIndex s)" and g: "good channels ready m' ps r"
  then obtain L where L: "hl_core ps L h" "semaphore h" "nat (currentLightIndex s) \<in> set L" "\<forall>j < length ps. isSelected (ps ! j) \<longrightarrow> j \<in> set L"
    by (auto simp: selection_inv_def)
  have "hl_st channels ready m' ps L True \<lparr>th = h, rg = r\<rparr>" using L(1,2) g by (simp add: hl_st_def)
  from succeedsD [OF highlight_turn_good this, of n] L(3,4)
  show "good channels ready m' ps (rg (snd (highlight_turn fw n \<lparr>th = h, rg = r\<rparr>))) \<and>
      selection_inv ps (th (snd (highlight_turn fw n \<lparr>th = h, rg = r\<rparr>))) (currentLightIndex s) \<and> (False \<or> \<not> isl (fst (highlight_turn fw n \<lparr>th = h, rg = r\<rparr>)))"
    by (auto simp: hl_st_def selection_inv_def)
qed (auto simp: inv_defs live_def split: if_splits)

lemma preset_step_inv:
  assumes "server_inv channels ready s" "thread_turn presetVisual (\<lambda>h s. s\<lparr>presetVisual := h\<rparr>) (preset_turn fw n b) s = Some t"
  shows "server_inv channels ready t"
proof (rule thread_turn_inv [OF assms, where ok = "\<lambda>m. preset_ok" and may = False])
  fix m' ps r and h :: preset_thread
  assume "preset_ok ps h" "good channels ready m' ps r"
  then show "good channels ready m' ps (rg (snd (preset_turn fw n b \<lparr>th = h, rg = r\<rparr>))) \<and> preset_ok ps (th (snd (preset_turn fw n b \<lparr>th = h, rg = r\<rparr>))) \<and>
      (False \<or> \<not> isl (fst (preset_turn fw n b \<lparr>th = h, rg = r\<rparr>)))"
    using succeedsD [OF preset_turn_good [of ps h m' n b], of "\<lparr>th = h, rg = r\<rparr>"] by (auto simp: th_at_def)
qed (auto simp: inv_defs live_def split: if_splits)

lemma rainbow_step_inv:
  assumes "server_inv channels ready s" "thread_turn rainbowVisual (\<lambda>h s. s\<lparr>rainbowVisual := h\<rparr>) (rainbow_turn fw) s = Some t"
  shows "server_inv channels ready t"
proof (rule thread_turn_inv [OF assms, where ok = "\<lambda>m. rainbow_ok" and may = False])
  fix m' ps r and h :: rainbow_thread
  assume "rainbow_ok ps h" "good channels ready m' ps r"
  then show "good channels ready m' ps (rg (snd (rainbow_turn fw \<lparr>th = h, rg = r\<rparr>))) \<and> rainbow_ok ps (th (snd (rainbow_turn fw \<lparr>th = h, rg = r\<rparr>))) \<and>
      (False \<or> \<not> isl (fst (rainbow_turn fw \<lparr>th = h, rg = r\<rparr>)))"
    using succeedsD [OF rainbow_turn_good [of ps h m'], of "\<lparr>th = h, rg = r\<rparr>"] by (auto simp: th_at_def)
qed (auto simp: inv_defs live_def split: if_splits)

lemma chase_step_inv:
  assumes "server_inv channels ready s" "thread_turn chase (\<lambda>h s. s\<lparr>chase := h\<rparr>) (chase_turn fw) s = Some t"
  shows "server_inv channels ready t"
proof (rule thread_turn_inv [OF assms, where ok = "\<lambda>m ps. chase_ok m" and may = False])
  fix m' ps r and h :: chase_thread
  assume "chase_ok m' h" "scenes_ok m'" "good channels ready m' ps r"
  then show "good channels ready m' ps (rg (snd (chase_turn fw \<lparr>th = h, rg = r\<rparr>))) \<and> chase_ok m' (th (snd (chase_turn fw \<lparr>th = h, rg = r\<rparr>))) \<and>
      (False \<or> \<not> isl (fst (chase_turn fw \<lparr>th = h, rg = r\<rparr>)))"
    using succeedsD [OF chase_turn_good [of m' h ps], of "\<lparr>th = h, rg = r\<rparr>"] by (auto simp: th_at_def)
qed (auto simp: inv_defs live_def split: if_splits)

text \<open>The visual of the channels may throw; what it leaves is as good as before.\<close>

lemma dmx_step_inv:
  assumes "server_inv channels ready s" "thread_turn dmxVisual (\<lambda>h s. s\<lparr>dmxVisual := h\<rparr>) (dmx_turn fw n) s = Some t"
  shows "server_inv channels ready t"
proof (rule thread_turn_inv [OF assms, where ok = "\<lambda>m ps h. lights_in ps (d_lights h)" and may = True])
  fix m' ps r and h :: dmx_thread
  assume "lights_in ps (d_lights h)" "good channels ready m' ps r"
  then show "good channels ready m' ps (rg (snd (dmx_turn fw n \<lparr>th = h, rg = r\<rparr>))) \<and> lights_in ps (d_lights (th (snd (dmx_turn fw n \<lparr>th = h, rg = r\<rparr>)))) \<and>
      (True \<or> \<not> isl (fst (dmx_turn fw n \<lparr>th = h, rg = r\<rparr>)))"
    using keepsD [OF dmx_turn_keeps [of ps "d_lights h" m' n], of "\<lparr>th = h, rg = r\<rparr>"] by auto
qed (auto simp: inv_defs live_def split: if_splits)

end

context dmx_channels
begin

lemma serve_good:
  assumes "sys_inv channels ready s" "commandQ s = b # q" "calm w" "all_begun (srv s)" "packet_ok (currentState (srv s)) b"
  shows "\<exists>t. run_packet fw w b (srv s) = (Inr (), t) \<and> server_inv channels ready t"
proof -
  have "length b = 1024" and inv: "server_inv channels ready (srv s)" using assms(1,2) by (auto simp: sys_inv_def)
  from parse_buffer [OF this(1)] obtain ok c where c: "parse b new_command = Inr (ok, c)" by blast
  show ?thesis
  proof (cases ok)
    case True
    with c assms(5) have "command_ok (currentState (srv s)) c" by (simp add: packet_ok_def)
    with inv assms(4) have "server_inv channels ready (srv s) \<and> all_begun (srv s) \<and> command_ok (currentState (srv s)) c" by blast
    from succeedsD [OF run_command_good [OF assms(3)] this] c True show ?thesis by (auto simp: run_packet_def)
  next
    case False
    with c inv show ?thesis by (simp add: run_packet_def jret_def)
  qed
qed

lemma beat_good:
  assumes "server_inv channels ready s"
  shows "\<exists>t. sendHeartbeat True s = (Inr (), t) \<and> server_inv channels ready t"
proof -
  obtain b where b: "hb_running (heartbeat_thr s)" "hb_data (heartbeat_thr s) = Some (ID @ [POLL_PACKET_ID, b])"
    using assms by (auto simp: server_inv_def ctl_inv_def)
  then show ?thesis
    using assms by (auto simp: sendHeartbeat_def Let_def ID_def server_inv_def ctl_inv_def mode_inv_def handles_def)
qed

lemma sys_step_inv:
  assumes "sys_step fw e s t" "fit e s" "sys_inv channels ready s"
  shows "sys_inv channels ready t"
  using assms
proof cases
  case (receive d)
  then show ?thesis using udp_receive_inv [OF assms(3)] by simp
next
  case (serve b q w r u)
  then have "calm w" "all_begun (srv s)" "packet_ok (currentState (srv s)) b" using assms(2) by simp_all
  from serve_good [OF assms(3) serve(4) this] serve assms(3) show ?thesis by (auto simp: sys_inv_def failure_def)
next
  case (beat io r u)
  then have io and inv: "server_inv channels ready (srv s)" using assms(2,3) by (simp_all add: sys_inv_def)
  from beat_good [OF inv] beat this(1) assms(3) show ?thesis by (auto simp: sys_inv_def failure_def)
next
  case begun
  then show ?thesis using assms(3) begin_threads_inv(1) by (auto simp: sys_inv_def)
next
  case (highlight n u)
  then show ?thesis using assms(3) highlight_step_inv [of "srv s" n u] by (auto simp: sys_inv_def)
next
  case (preset n b u)
  then show ?thesis using assms(3) preset_step_inv [of "srv s" n b u] by (auto simp: sys_inv_def)
next
  case (rainbow u)
  then show ?thesis using assms(3) rainbow_step_inv [of "srv s" u] by (auto simp: sys_inv_def)
next
  case (dmx n u)
  then show ?thesis using assms(3) dmx_step_inv [of "srv s" n u] by (auto simp: sys_inv_def)
next
  case (chase u)
  then show ?thesis using assms(3) chase_step_inv [of "srv s" u] by (auto simp: sys_inv_def)
qed

lemma reach_inv: "reach fw s\<^sub>0 s \<Longrightarrow> sys_inv channels ready s\<^sub>0 \<Longrightarrow> sys_inv channels ready s"
  by (induction rule: reach.induct) (auto intro: sys_step_inv)

end

subsection \<open>The start\<close>

definition boot :: "'r server \<Rightarrow> 'r system" where
  "boot s = \<lparr>srv = s\<lparr>heartbeat_thr := heartbeat_data (heartbeat_begin (heartbeat_thr s))\<rparr>, receiveData = replicate 1024 0,
     commandQ = [], crashed = None, listening = True\<rparr>"

text \<open>
  The thread of the mode, and no other: the chase, the highlight, or the visual of the control that is
  chosen; it has not ended and nobody has reset its flag. Only the visual of the channels may have
  ended by itself.
\<close>

definition thread_of_mode :: "'r server \<Rightarrow> bool" where
  "thread_of_mode s \<longleftrightarrow> leaked s = [] \<and>
     (let st = currentState s; k = currentControlIndex s in
      if st = CHASE_MODE then \<exists>t. handles s = (Some t, None, None, None, None) \<and> live t
      else if st = LIGHT_SELECTION_MODE then \<exists>t. handles s = (None, Some t, None, None, None) \<and> live t
      else if st = CONTROL_SELECTION_MODE then
        k = 1 \<and> (\<exists>t. handles s = (None, None, Some t, None, None) \<and> live t) \<or>
        k = 0 \<and> (\<exists>t. handles s = (None, None, None, Some t, None) \<and> live t) \<or>
        k = -1 \<and> (\<exists>t. handles s = (None, None, None, None, Some t) \<and> (begun t \<longrightarrow> running t))
      else handles s = (None, None, None, None, None))"

lemma inv_threads: "server_inv channels ready s \<Longrightarrow> thread_of_mode s"
  by (auto simp: server_inv_def inv_defs thread_of_mode_def)

lemma parse_lines_keeps: "parse_lines ls m = (r, m') \<Longrightarrow> currentScene m' = currentScene m \<and> currentIndex m' = currentIndex m"
proof (induction ls arbitrary: m)
  case (Cons l ls)
  then show ?case
    by (cases "parse_fields (java_split (CHR '','') l)") (auto simp: java addScene_def jseq_def jmodify_def)
qed (simp add: jret_def)

lemma SceneManager_keeps: "SceneManager v file = (r, m) \<Longrightarrow> currentScene m = v \<and> currentIndex m = -1"
  by (auto simp: SceneManager_def Let_def split: option.splits dest: parse_lines_keeps)

text \<open>What the start leaves: the driver and the lights as they were given, and the scenes of the file.\<close>

lemma server_run_result:
  assumes "server_run None file d fs = (Inr (), s)"
  shows "\<exists>m. s = (ServerAppThread d fs m)\<lparr>serverRunning := True\<rparr> \<and> currentScene m = getDmx d \<and> currentIndex m = -1"
proof -
  obtain r m where m: "SceneManager (getDmx d) file = (r, m)" by (cases "SceneManager (getDmx d) file")
  obtain x f where f: "write_scenes None (scenes m) [] = (x, f)" by (cases "write_scenes None (scenes m) []")
  have r: "r = Inr ()" using assms m by (cases r) (simp_all add: server_run_def)
  have "exit_io (with_scenes (updateSceneFile None)) (ServerAppThread d fs m) =
      (case x of Inl e \<Rightarrow> (Inl (if e = IO_exception then System_exit else e), ServerAppThread d fs (m\<lparr>scene_file := f\<rparr>))
       | Inr y \<Rightarrow> (Inr y, ServerAppThread d fs (m\<lparr>scene_file := f\<rparr>)))"
    by (simp add: exit_io_def with_scenes_def in_rig_def jon_def updateSceneFile_def f ServerAppThread_def split: sum.split)
  with assms have "s = (ServerAppThread d fs (m\<lparr>scene_file := f\<rparr>))\<lparr>serverRunning := True\<rparr>"
    by (cases x) (simp_all add: server_run_def m r jseq_def jbind_def update_def jmodify_def)
  with SceneManager_keeps [OF m] show ?thesis by auto
qed

lemma boot_inv:
  assumes "server_run None file d fs = (Inr (), s)" "mirrored channels ready d" "fs \<noteq> []" "\<forall>f \<in> set fs. lit_ready f \<and> \<not> isSelected f"
    "\<forall>v \<in> set (scenes (sceneManager (rig s))). scene_bytes v"
  shows "sys_inv channels ready (boot s)"
proof -
  obtain m where m: "s = (ServerAppThread d fs m)\<lparr>serverRunning := True\<rparr>" "currentScene m = getDmx d" "currentIndex m = -1"
    using server_run_result [OF assms(1)] by blast
  have "scenes_ok m" using assms(2,5) m
    by (simp add: scenes_ok_def scenes_inv_def mirrored_def getDmx_def scene_bytes_def ServerAppThread_def)
  with assms(2-4) show ?thesis
    by (simp add: m(1) sys_inv_def boot_def server_inv_def rig_ok_def ServerAppThread_def inv_defs HeartBeatThread_def
        heartbeat_begin_def heartbeat_data_def PRESETS_def plan_def)
qed

subsection \<open>Property\<close>

text \<open>
  C2: The server runs safely while its weak spots are left alone. From a start on a working board
  with lights that can be shown and scenes of bytes, in every run of \<open>reach\<close>: datagrams of any content and in any
  number, served, beaten and shown in any order, where the scene
  file and the network work, a command is served only when the threads that were started have
  begun, the stick stays within the square while the colour wheel is on, the code for the
  party does not arrive while a thread runs, and a command, and a round of a thread, is one step:
  their register writes do not interleave, which \<open>Dmx_Race\<close> is about. After every step the server has not ended with an exception;
  exactly the thread of the mode exists, alive and with its flag set once it has begun, except that
  the visual of the channels may have ended by itself, and no thread has been leaked; the shadow of
  the driver is what the board's memory of channels holds; the chase delay, the indices and the scenes stay in their ranges.
\<close>

theorem server_runs_safely:
  fixes garbage p q ps
  defines "fw \<equiv> sysfs_file garbage (p # q # ps)"
  assumes "server_run None file d fs = (Inr (), s\<^sub>0)" "board_mirrored d" "fs \<noteq> []" "\<forall>f \<in> set fs. lit_ready f \<and> \<not> isSelected f"
    "\<forall>v \<in> set (scenes (sceneManager (rig s\<^sub>0))). scene_bytes v" "reach fw (boot s\<^sub>0) s"
  shows "crashed s = None \<and> thread_of_mode (srv s) \<and> board_mirrored (dmx (rig (srv s))) \<and>
    MIN_CHASE_DELAY \<le> chaseSceneDelay (srv s) \<and> chaseSceneDelay (srv s) \<le> MAX_CHASE_DELAY \<and>
    0 \<le> currentLightIndex (srv s) \<and> currentLightIndex (srv s) < int (length (profiles (rig (srv s)))) \<and>
    scenes_ok (sceneManager (rig (srv s)))"
proof -
  have "sys_inv (\<lambda>s. DMX_data (hw s)) board_ready (boot s\<^sub>0)"
    using assms(3-6) by (intro boot_inv [OF assms(2)]) (simp_all add: board_mirrored_def)
  from board_dmx.reach_inv [OF assms(7) [unfolded fw_def] this]
  have "sys_inv (\<lambda>s. DMX_data (hw s)) board_ready s" .
  then have "server_inv (\<lambda>s. DMX_data (hw s)) board_ready (srv s)" "crashed s = None" by (simp_all add: sys_inv_def)
  with inv_threads [OF this(1)] show ?thesis
    by (simp add: server_inv_def ctl_inv_def rig_ok_def board_mirrored_def)
qed

text \<open>The small rig's server after its start.\<close>

definition demo_start :: "ece453 driver server" where
  "demo_start = (ServerAppThread fresh_dmx [fx demo_light]
     \<lparr>scenes = [], currentScene = getDmx fresh_dmx, currentIndex = -1, scene_file = Some []\<rparr>)\<lparr>serverRunning := True\<rparr>"

lemma demo_start_run: "server_run None None fresh_dmx [fx demo_light] = (Inr (), demo_start)"
  by (simp add: server_run_def SceneManager_def demo_start_def ServerAppThread_def exit_io_def with_scenes_def in_rig_def jon_def
      updateSceneFile_def jseq_def jbind_def update_def jmodify_def)

lemma demo_start_good:
  "board_mirrored fresh_dmx" "[fx demo_light] \<noteq> []" "\<forall>f \<in> set [fx demo_light]. lit_ready f \<and> \<not> isSelected f"
  "\<forall>v \<in> set (scenes (sceneManager (rig demo_start))). scene_bytes v"
  using demo_rig_good
  by (simp_all add: rig_good_def rig_ok_def demo_rig_def board_mirrored_def demo_start_def ServerAppThread_def demo_light_def)

lemma calm_demo: "calm calm_surroundings"
  by (simp add: calm_def calm_surroundings_def byte_ok_def)

theorem server_runs_safely_witness:
  "\<exists>s. reach (sysfs_file 0 [0, 0]) (boot demo_start) s \<and> commandQ s = [] \<and> currentState (srv s) = SCARY_MODE \<and>
     handles (srv s) = (None, None, None, None, None) \<and> crashed s = None"
proof -
  let ?fw = "sysfs_file 0 [0, 0]" and ?d = "action_packet REV_KONAMI_COMPLETE"
  let ?s = "udp_receive ?d (boot demo_start)"
  have queue: "commandQ ?s = [?d]" by (simp add: Let_def udp_receive_def boot_def action_packet_def ID_def)
  have 1: "reach ?fw (boot demo_start) ?s" by (rule reach.step [OF reach.start sys_step.receive]) (simp_all add: boot_def)
  obtain t where t: "run_packet ?fw calm_surroundings ?d (srv ?s) = (Inr (), t)" "currentState t = SCARY_MODE"
    by (simp add: run_action run_command_def state_machine_def server_idle_mode_def java set_state_def update_def jwhen_def setCurrentState_def
        sendHeartbeat_def Let_def calm_surroundings_def udp_receive_def boot_def demo_start_def ServerAppThread_def HeartBeatThread_def
        heartbeat_begin_def heartbeat_data_def)
  have "all_begun (srv ?s)" by (simp add: Let_def all_begun_def udp_receive_def boot_def demo_start_def ServerAppThread_def)
  moreover have "packet_ok m ?d" for m by (simp add: packet_ok_def parse_action command_ok_def stick_ok_def)
  ultimately have "fit (Serve calm_surroundings) ?s" using calm_demo queue by simp
  moreover have "crashed ?s = None" by (simp add: Let_def udp_receive_def boot_def)
  ultimately have 2: "reach ?fw (boot demo_start) (?s\<lparr>srv := t, commandQ := [], crashed := failure (Inr ())\<rparr>)"
    using reach.step [OF 1 sys_step.serve [OF _ queue t(1)]] by simp
  from server_runs_safely [OF demo_start_run demo_start_good this] 2 t(2) show ?thesis
    by (intro exI [of _ "?s\<lparr>srv := t, commandQ := [], crashed := failure (Inr ())\<rparr>"]) (simp add: thread_of_mode_def Let_def)
qed

end
