(* ===== verification/Server_Cancel.thy ===== *)
theory Server_Cancel
  imports Server_System
begin

text \<open>
  A selection of lights that is cancelled leaves no trace. Entering it saves the values of all
  channels as the current scene; nothing changes that scene until the user keeps something; and cancelling
  writes it back. The first and the last step are computed; between them every handler and
  every turn of a thread leaves the scenes alone, which is shown construct by construct.
\<close>

definition kept :: "scene_manager \<Rightarrow> 'r server \<Rightarrow> bool" where
  "kept m s \<longleftrightarrow> sceneManager (rig s) = m"

definition turn_kept :: "scene_manager \<Rightarrow> ('t, 'r) turn \<Rightarrow> bool" where
  "turn_kept m t \<longleftrightarrow> sceneManager (rg t) = m"

named_theorems scenes_kept "handlers and turns that leave the scenes alone"

subsection \<open>Turns\<close>

lemma rig_kept [scenes_kept]:
  "keeps (\<lambda>r. sceneManager r = m) (on_light i n)" "keeps (\<lambda>r. sceneManager r = m) (on_dmx d)"
  unfolding on_light_def on_dmx_def by (rule keeps_on; simp)+

lemma on_rig_kept [scenes_kept]: "keeps (\<lambda>r. sceneManager r = m) n \<Longrightarrow> keeps (turn_kept m) (on_rig n)"
  unfolding on_rig_def by (rule keeps_on) (simp add: turn_kept_def keeps_def)

lemma on_thread_kept [scenes_kept]: "keeps (turn_kept m) (on_thread f)"
  unfolding on_thread_def by (rule keeps_modify) (simp add: turn_kept_def)

lemma semaphore_kept [scenes_kept]: "keeps (turn_kept m) acquire" "keeps (turn_kept m) release"
  unfolding acquire_def release_def by (intro keeping scenes_kept)+

lemma default_color_kept [scenes_kept]: "keeps (\<lambda>r. sceneManager r = m) (default_color fw i)"
  unfolding default_color_def by (intro keeping scenes_kept)

lemma show_color_kept [scenes_kept]: "keeps (\<lambda>r. sceneManager r = m) (show_color fw c i)"
  unfolding show_color_def by (intro keeping scenes_kept)

lemma highlight_kept [scenes_kept]:
  "keeps (turn_kept m) (highlight_light fw i)" "keeps (turn_kept m) (addLight i)" "keeps (turn_kept m) update_default_color"
  "keeps (turn_kept m) (removeLight fw i)"
  unfolding highlight_light_def addLight_def update_default_color_def removeLight_def Let_def by (intro keeping scenes_kept)+

lemma remove_all_kept [scenes_kept]: "keeps (turn_kept m) (remove_all n fw)"
  by (induction n) (auto intro!: keeping scenes_kept)

lemma turns_kept:
  "keeps (turn_kept m) (highlight_turn fw n)" "keeps (turn_kept m) (preset_turn fw n b)" "keeps (turn_kept m) (rainbow_turn fw)"
  "keeps (turn_kept m) (dmx_turn fw n)" "keeps (turn_kept m) (chase_turn fw)" "keeps (turn_kept m) (highlight_redrum fw)"
  unfolding highlight_turn_def preset_turn_def rainbow_turn_def dmx_turn_def dmx_light_def chase_turn_def highlight_redrum_def
  by (intro keeping scenes_kept)+

subsection \<open>Handlers\<close>

lemma kept_update: "(\<And>s. sceneManager (rig (f s)) = sceneManager (rig s)) \<Longrightarrow> keeps (kept m) (update f)"
  unfolding update_def by (rule keeps_modify) (simp add: kept_def)

lemma kept_rig [scenes_kept]: "keeps (\<lambda>r. sceneManager r = m) n \<Longrightarrow> keeps (kept m) (in_rig n)"
  unfolding in_rig_def by (rule keeps_on) (simp add: kept_def keeps_def)

lemma kept_highlight [scenes_kept]:
  fixes n :: "((highlight_thread, 'r) turn, 'x) java"
  assumes "keeps (turn_kept m) n"
  shows "keeps (kept m) (on_highlight n)"
  unfolding keeps_def
proof (intro allI impI)
  fix s :: "'r server"
  assume s: "kept m s"
  show "kept m (snd (on_highlight n s))"
  proof (cases "highlight s")
    case (Some h)
    obtain r t where t: "n \<lparr>th = body h, rg = rig s\<rparr> = (r, t)" by fastforce
    from keepsD [OF assms, of "\<lparr>th = body h, rg = rig s\<rparr>"] t s
    show ?thesis by (simp add: on_highlight_def Some kept_def turn_kept_def)
  qed (use s in \<open>simp add: on_highlight_def\<close>)
qed

lemma kept_get [scenes_kept]: "keeps (kept m) (get_light i)" "keeps (kept m) (is_selected l)" "keeps (kept m) first_channels"
  by (auto simp: get_light_def is_selected_def first_channels_def keeping split: option.split intro!: keeping)

lemma kept_fields [scenes_kept]:
  "keeps (kept m) (setSelected l b)" "keeps (kept m) (set_state k)" "keeps (kept m) (set_control i)" "keeps (kept m) (set_channel j)"
  "keeps (kept m) startPresetVisual" "keeps (kept m) startRainbow" "keeps (kept m) startDMXVisual" "keeps (kept m) startChase"
  unfolding setSelected_def set_state_def set_control_def set_channel_def startPresetVisual_def startRainbow_def startDMXVisual_def startChase_def
  by (rule kept_update; simp)+

text \<open>A thread that is waited for may take any number of rounds.\<close>

lemma rounds_kept [scenes_kept]:
  "keeps (turn_kept m) (highlight_round fw h)" "keeps (turn_kept m) (preset_round fw p)" "keeps (turn_kept m) (rainbow_round fw r)"
  "keeps (turn_kept m) (dmx_round fw d)" "keeps (turn_kept m) (chase_round fw c)"
  unfolding highlight_round_def preset_round_def rainbow_round_def dmx_round_def chase_round_def by (rule turns_kept)+

lemma kept_join [scenes_kept]:
  fixes round :: "'t started \<Rightarrow> (('t, 'r) turn, unit) java"
  assumes "\<And>h. keeps (turn_kept m) (round h)"
  shows "keeps (kept m) (join goes round get)"
  unfolding keeps_def
proof (intro allI impI)
  fix s :: "'r server"
  assume s: "kept m s"
  have "sceneManager (snd (thread_next goes round k)) = m" if "sceneManager (snd k) = m" for k
    using keepsD [OF assms [of "fst k"], of "\<lparr>th = body (fst k), rg = snd k\<rparr>"] that
    by (auto simp: thread_next_def thread_round_def turn_kept_def split: prod.split)
  then have "sceneManager (snd u) = m" if "while_option (\<lambda>(h, r). alive h) (thread_next goes round) (h, rig s) = Some u" for h u
    by (rule while_option_rule [OF _ that]) (use s in \<open>simp_all add: kept_def\<close>)
  then show "kept m (snd (join goes round get s))"
    using s by (fastforce simp: join_def kept_def split: option.split prod.split)
qed

lemma kept_stop [scenes_kept]:
  "keeps (kept m) (stop presetVisual (\<lambda>h s. s\<lparr>presetVisual := h\<rparr>))" "keeps (kept m) (stop rainbowVisual (\<lambda>h s. s\<lparr>rainbowVisual := h\<rparr>))"
  "keeps (kept m) (stop dmxVisual (\<lambda>h s. s\<lparr>dmxVisual := h\<rparr>))" "keeps (kept m) (stop chase (\<lambda>h s. s\<lparr>chase := h\<rparr>))"
  by (auto simp: keeps_def stop_def kept_def split: option.split)

lemma kept_for_selected [scenes_kept]: "(\<And>i. keeps (kept m) (f i)) \<Longrightarrow> keeps (kept m) (for_selected f)"
  unfolding for_selected_def by (auto intro!: keeping split: option.split)

lemma kept_calls [scenes_kept]:
  "keeps (kept m) clearSelected" "keeps (kept m) startHighlight" "keeps (kept m) (redrumHighlight fw)"
  "keeps (kept m) (redrumPresetVisual fw)" "keeps (kept m) (redrumRainbow fw)" "keeps (kept m) (redrumDMXVisual fw)"
  "keeps (kept m) (redrumChase fw)" "keeps (kept m) (setSceneDelay d)" "keeps (kept m) (dmx_all fw v)"
  unfolding clearSelected_def startHighlight_def redrumHighlight_def redrumPresetVisual_def redrumRainbow_def redrumDMXVisual_def
    redrumChase_def setSceneDelay_def dmx_all_def
  by (auto intro!: keeping scenes_kept turns_kept kept_update split: option.split)

lemma kept_steps [scenes_kept]:
  "keeps (kept m) (revertScene fw)" "keeps (kept m) (step_light fw)" "keeps (kept m) (choose_lights fw)" "keeps (kept m) (control_left fw)"
  "keeps (kept m) (control_right fw)" "keeps (kept m) (control_choose fw)" "keeps (kept m) (control_back fw)"
  "keeps (kept m) (change_channel fw d)" "keeps (kept m) (show_preset fw j)" "keeps (kept m) (show_all fw v col)" "keeps (kept m) (getColor table x y)"
  unfolding revertScene_def step_light_def choose_lights_def control_left_def control_right_def control_choose_def control_back_def
    change_channel_def show_preset_def show_all_def getColor_def Let_def
  by (auto intro!: keeping scenes_kept turns_kept kept_update)

text \<open>The commands that may change the scenes: those of the idle mode, and the first button where it keeps what is shown.\<close>

definition decides :: "u8 \<Rightarrow> wirelessCommand \<Rightarrow> bool" where
  "decides k c \<longleftrightarrow> k = IDLE_MODE \<or> (k = COLOR_WHEEL_MODE \<or> k = DMX_MODE \<or> k = PRESET_MODE) \<and> userActionData c = B1"

lemma kept_modes:
  "keeps (kept m) (chase_mode fw u)" "keeps (kept m) (light_selection_mode fw u)" "keeps (kept m) (control_selection_mode fw u)"
  "keeps (kept m) (gyro_mode fw dv col c)"
  "userActionData c \<noteq> B1 \<Longrightarrow> keeps (kept m) (color_wheel_mode fw table c)"
  "u \<noteq> B1 \<Longrightarrow> keeps (kept m) (dmx_mode fw u)" "u \<noteq> B1 \<Longrightarrow> keeps (kept m) (preset_mode fw u)"
proof -
  show "keeps (kept m) (chase_mode fw u)" "keeps (kept m) (light_selection_mode fw u)" "keeps (kept m) (control_selection_mode fw u)"
    "keeps (kept m) (gyro_mode fw dv col c)"
    unfolding chase_mode_def light_selection_mode_def control_selection_mode_def gyro_mode_def
    by (intro keeping scenes_kept kept_update turns_kept; simp)+
  show "userActionData c \<noteq> B1 \<Longrightarrow> keeps (kept m) (color_wheel_mode fw table c)"
    unfolding color_wheel_mode_def by (cases "joystickData c") (auto intro!: keeping scenes_kept)
  show "u \<noteq> B1 \<Longrightarrow> keeps (kept m) (dmx_mode fw u)" "u \<noteq> B1 \<Longrightarrow> keeps (kept m) (preset_mode fw u)"
    unfolding dmx_mode_def preset_mode_def by (auto intro!: keeping scenes_kept)
qed

lemma machine_kept:
  assumes "\<not> decides (currentState s) c"
  shows "sceneManager (rig (snd (state_machine fw w c s))) = sceneManager (rig s)"
proof -
  define k where "k = currentState s"
  have k: "k \<noteq> IDLE_MODE" "k = COLOR_WHEEL_MODE \<or> k = DMX_MODE \<or> k = PRESET_MODE \<Longrightarrow> userActionData c \<noteq> B1"
    using assms by (auto simp: decides_def k_def)
  let ?user = "\<lambda>h. if dataType c \<noteq> USER_ACTION_DATA then jret True else h (userActionData c)"
  let ?m = "if k = CHASE_MODE then ?user (chase_mode fw)
     else if k = IDLE_MODE then ?user (server_idle_mode fw (scene_io w))
     else if k = LIGHT_SELECTION_MODE then ?user (light_selection_mode fw)
     else if k = CONTROL_SELECTION_MODE then ?user (control_selection_mode fw)
     else if k = COLOR_WHEEL_MODE then color_wheel_mode fw (wheel w) c
     else if k = DMX_MODE then ?user (dmx_mode fw)
     else if k = PRESET_MODE then preset_mode fw (userActionData c)
     else if k = PARTY_MODE then party_mode fw (rnd w) c
     else if k = SCARY_MODE then scary_mode fw c
     else jret False"
  have "keeps (kept (sceneManager (rig s))) ?m"
    unfolding party_mode_def scary_mode_def using k by (intro keeps_if keeps_simple kept_modes) auto
  from keepsD [OF this, of s] show ?thesis by (simp add: state_machine_def jbind_def jread_def kept_def flip: k_def)
qed

lemma send_kept: "keeps (kept m) (jbind (jread currentState) (\<lambda>k. jseq (update (setCurrentState k)) (sendHeartbeat io)))"
proof (intro keeping kept_update)
  show "keeps (kept m) (sendHeartbeat io)"
    by (auto simp: keeps_def kept_def sendHeartbeat_def Let_def split: option.split)
qed (simp add: setCurrentState_def)

lemma command_kept:
  assumes "\<not> decides (currentState s) c"
  shows "sceneManager (rig (snd (run_command fw w c s))) = sceneManager (rig s)"
proof -
  let ?M = "kept (sceneManager (rig s))"
  let ?n = "if packetType c = DATA_PACKET_ID then
      if userActionData c = KONAMI_COMPLETE then jseq (set_state PARTY_MODE) (or_due True (state_machine fw w c)) else state_machine fw w c
      else jret False"
  have party: "snd (or_due True (state_machine fw w c) t) = snd (state_machine fw w c t)" for t
    by (simp add: or_due_def jbind_def jret_def split: prod.split sum.split)
  have "\<not> decides PARTY_MODE c" by (simp add: decides_def)
  then have "?M (snd (?n s))"
    using machine_kept [of "s\<lparr>currentState := PARTY_MODE\<rparr>" c fw w] machine_kept [OF assms, of fw w] party
    by (simp add: kept_def jseq_def jbind_def set_state_def update_def jmodify_def jret_def)
  then have bind: "?M (snd (jbind ?n f s))" if "\<And>x. keeps ?M (f x)" for f
    using keepsD [OF that] by (cases "?n s") (simp add: jbind_def split: sum.split)
  have "?M (snd (run_command fw w c s))" unfolding run_command_def
    by (rule bind) (intro keeping send_kept)
  then show ?thesis by (simp add: kept_def)
qed

subsection \<open>Until the user decides\<close>

definition undecided_packet :: "u8 \<Rightarrow> u8 list \<Rightarrow> bool" where
  "undecided_packet k b = (case parse b new_command of Inr (True, c) \<Rightarrow> \<not> decides k c | _ \<Rightarrow> True)"

inductive undecided :: "'r file_write \<Rightarrow> 'r system \<Rightarrow> 'r system \<Rightarrow> bool" for fw s\<^sub>0 where
  start: "undecided fw s\<^sub>0 s\<^sub>0"
| step: "\<lbrakk>undecided fw s\<^sub>0 s; sys_step fw e s t; fit e s;
    \<And>w b q. e = Serve w \<Longrightarrow> commandQ s = b # q \<Longrightarrow> undecided_packet (currentState (srv s)) b\<rbrakk> \<Longrightarrow> undecided fw s\<^sub>0 t"

lemma thread_turn_kept:
  assumes "thread_turn get put n s = Some t" "keeps (turn_kept (sceneManager (rig s))) n"
    "\<And>h s. rig (put h s) = rig s"
  shows "sceneManager (rig t) = sceneManager (rig s)"
proof -
  obtain h where h: "get s = Some h" using assms(1) by (auto simp: thread_turn_def split: option.splits)
  obtain r u where u: "n \<lparr>th = body h, rg = rig s\<rparr> = (r, u)" by fastforce
  from keepsD [OF assms(2), of "\<lparr>th = body h, rg = rig s\<rparr>"] u assms(1,3) h show ?thesis
    by (auto simp: thread_turn_def thread_round_def turn_kept_def split: if_splits)
qed

lemma sys_step_kept:
  assumes "sys_step fw e s t" "\<And>w b q. e = Serve w \<Longrightarrow> commandQ s = b # q \<Longrightarrow> undecided_packet (currentState (srv s)) b"
  shows "sceneManager (rig (srv t)) = sceneManager (rig (srv s))"
  using assms(1)
proof cases
  case (receive d)
  then show ?thesis by (simp add: udp_receive_def Let_def)
next
  case (serve b q w r u)
  then have "undecided_packet (currentState (srv s)) b" using assms(2) by blast
  then have "sceneManager (rig (snd (run_packet fw w b (srv s)))) = sceneManager (rig (srv s))"
    using command_kept [of "srv s"] by (auto simp: run_packet_def undecided_packet_def jret_def jthrow_def split: sum.split prod.split bool.split)
  with serve show ?thesis by simp
next
  case (beat io r u)
  have "keeps (kept m) (sendHeartbeat io)" for m :: scene_manager
    by (auto simp: keeps_def kept_def sendHeartbeat_def Let_def split: option.split)
  from keepsD [OF this, of "sceneManager (rig (srv s))" "srv s"] beat show ?thesis by (simp add: kept_def)
next
  case begun
  then show ?thesis by (simp add: begin_threads_def)
next
  case (highlight n u)
  from thread_turn_kept [OF highlight(3) turns_kept(1)] highlight(2) show ?thesis by simp
next
  case (preset n b u)
  from thread_turn_kept [OF preset(3) turns_kept(2)] preset(2) show ?thesis by simp
next
  case (rainbow u)
  from thread_turn_kept [OF rainbow(3) turns_kept(3)] rainbow(2) show ?thesis by simp
next
  case (dmx n u)
  from thread_turn_kept [OF dmx(3) turns_kept(4)] dmx(2) show ?thesis by simp
next
  case (chase u)
  from thread_turn_kept [OF chase(3) turns_kept(5)] chase(2) show ?thesis by simp
qed

lemma undecided_kept: "undecided fw s\<^sub>0 s \<Longrightarrow> sceneManager (rig (srv s)) = sceneManager (rig (srv s\<^sub>0))"
  by (induction rule: undecided.induct) (use sys_step_kept in \<open>fastforce+\<close>)

lemma undecided_reach: "undecided fw s\<^sub>0 s \<Longrightarrow> reach fw r s\<^sub>0 \<Longrightarrow> reach fw r s"
  by (induction rule: undecided.induct) (auto intro: reach.step)

subsection \<open>Entering and cancelling\<close>

definition user_packet :: "u8 \<Rightarrow> u8 list \<Rightarrow> bool" where
  "user_packet u b \<longleftrightarrow>
     (case parse b new_command of
        Inr (True, c) \<Rightarrow> packetType c = DATA_PACKET_ID \<and> dataType c = USER_ACTION_DATA \<and> userActionData c = u
      | _ \<Rightarrow> False)"

lemma user_packet_command:
  assumes "user_packet u b"
  obtains c where "packetType c = DATA_PACKET_ID" "dataType c = USER_ACTION_DATA" "userActionData c = u"
    "run_packet fw w b s = run_command fw w c s"
  using assms that by (auto simp: user_packet_def run_packet_def split: sum.splits bool.splits prod.splits)

text \<open>A user action in a mode, followed by the heartbeat if one is due.\<close>

lemma jbind_read: "jbind (jread g) f s = f (g s) s"
  by (simp add: jbind_def jread_def)

lemma run_user_command:
  assumes "packetType c = DATA_PACKET_ID" "userActionData c \<noteq> KONAMI_COMPLETE" "state_machine fw w c s = (r, u)"
  shows "run_command fw w c s = (case r of Inl e \<Rightarrow> (Inl e, u)
    | Inr b \<Rightarrow> jwhen b (jbind (jread currentState) (\<lambda>k. jseq (update (setCurrentState k)) (sendHeartbeat (net_ok w)))) u)"
  unfolding run_command_def using assms by (cases r) (simp_all add: jbind_def)

lemma send_rig: "rig (snd (jbind (jread currentState) (\<lambda>k. jseq (update (setCurrentState k)) (sendHeartbeat io)) s)) = rig s"
  "currentState (snd (jbind (jread currentState) (\<lambda>k. jseq (update (setCurrentState k)) (sendHeartbeat io)) s)) = currentState s"
  by (auto simp: java update_def setCurrentState_def sendHeartbeat_def Let_def split: option.split)

lemma enter_saves:
  assumes "user_packet B1 b" "currentState s = IDLE_MODE" "run_packet fw w b s = (Inr (), t)"
  shows "currentScene (sceneManager (rig t)) = dmxShadow (dmx (rig s))" "currentState t = LIGHT_SELECTION_MODE"
proof -
  obtain c where c: "packetType c = DATA_PACKET_ID" "dataType c = USER_ACTION_DATA" "userActionData c = B1"
    "run_packet fw w b s = run_command fw w c s" by (rule user_packet_command [OF assms(1)]) blast
  let ?m = "setCurrentScene (dmxShadow (dmx (rig s))) (sceneManager (rig s))"
  let ?s = "s\<lparr>currentState := LIGHT_SELECTION_MODE, rig := (rig s)\<lparr>sceneManager := ?m\<rparr>\<rparr>"
  let ?H = "jbind (jread currentState) (\<lambda>k. jseq (update (setCurrentState k)) (sendHeartbeat (net_ok w)))"
  obtain r u where u: "startHighlight ?s = (r, u)" by fastforce
  have "kept ?m u" using keepsD [OF kept_calls(2), of ?m ?s] u by (simp add: kept_def)
  moreover have "framed (datagrams s) (heartbeat_thr s) LIGHT_SELECTION_MODE u"
    using keepsD [OF framed_calls(2), of "datagrams s" "heartbeat_thr s" LIGHT_SELECTION_MODE ?s] u by (simp add: framed_def unsent_def)
  moreover have "t = snd (?H u)"
  proof -
    have idle: "server_idle_mode fw (scene_io w) B1 s = (case r of Inl e \<Rightarrow> (Inl e, u) | Inr x \<Rightarrow> (Inr True, u))"
      using u by (cases r) (simp_all add: server_idle_mode_def jseq_def jbind_def jread_def set_state_def update_def jmodify_def
          save_current_def on_scenes_def getDmx_def jret_def)
    then have "state_machine fw w c s = (case r of Inl e \<Rightarrow> (Inl e, u) | Inr x \<Rightarrow> (Inr True, u))"
      using assms(2) c(2,3) by (simp add: state_machine_def jbind_read)
    then have "run_command fw w c s = (case r of Inl e \<Rightarrow> (Inl e, u) | Inr x \<Rightarrow> ?H u)"
      using run_user_command [of c fw w s] c(1,3) by (cases r) (simp_all add: jwhen_def)
    with assms(3) c(4) show ?thesis by (cases r) simp_all
  qed
  ultimately show "currentScene (sceneManager (rig t)) = dmxShadow (dmx (rig s))" "currentState t = LIGHT_SELECTION_MODE"
    using send_rig [of "net_ok w" u] by (simp_all add: kept_def framed_def setCurrentScene_def)
qed

text \<open>What the driver believes of the channels.\<close>

definition shown_channels :: "'r server \<Rightarrow> int list" where
  "shown_channels s = tl (dmxShadow (dmx (rig s)))"

lemma succeeds_frame:
  "succeeds P n Q \<Longrightarrow> (\<And>s. f (snd (n s)) = f s) \<Longrightarrow> succeeds (\<lambda>s. P s \<and> f s = v) n (\<lambda>x s. Q x s \<and> f s = v)"
  unfolding succeeds_def by (metis snd_conv)

lemma sync_shows: "shown_channels (snd (in_rig (on_light i syncLight) s)) = shown_channels s"
  by (simp add: shown_channels_def in_rig_def on_light_def jon_def syncLight_def Let_def split: prod.split)

lemma set_state_shows: "shown_channels (snd (set_state k s)) = shown_channels s"
  by (simp add: shown_channels_def set_state_def update_def jmodify_def)

context dmx_channels
begin

lemma dmx_all_shows:
  assumes "scene_bytes v"
  shows "succeeds (sat channels ready m ps u) (dmx_all fw v) (\<lambda>_ s. sat channels ready m ps u s \<and> shown_channels s = tl v)"
  unfolding dmx_all_def in_rig_def
proof (rule succeeds_on)
  fix s assume "sat channels ready m ps u s"
  then obtain r where r: "s = u\<lparr>rig := r\<rparr>" "good channels ready m ps r" by (auto simp: sat_def)
  from succeedsD [OF on_dmx_all [OF assms] r(2)]
  show "\<exists>x t. on_dmx (setDMX_all fw v) (rig s) = (Inr x, t) \<and> sat channels ready m ps u (s\<lparr>rig := t\<rparr>) \<and> shown_channels (s\<lparr>rig := t\<rparr>) = tl v"
    by (auto simp: r(1) shown_channels_def)
qed

lemma revertScene_shows:
  assumes "scenes_ok m" "pred_option (lights_in ps) (selectedLights u)"
  shows "succeeds (sat channels ready m ps u) (revertScene fw) (\<lambda>_ s. sat channels ready m ps u s \<and> shown_channels s = tl (currentScene m))"
  unfolding revertScene_def
proof (rule succeeds_seq [OF succeeds_try(1) [OF sat_scene_read]])
  show "succeeds (sat channels ready m ps u) (dmx_all fw (currentScene m)) (\<lambda>_ s. sat channels ready m ps u s \<and> shown_channels s = tl (currentScene m))"
    using assms(1) by (intro dmx_all_shows) (simp add: scenes_ok_def)
  let ?Q = "\<lambda>s. sat channels ready m ps u s \<and> shown_channels s = tl (currentScene m)"
  have "i < length ps" if "i \<in> set (lights_of (selectedLights u))" for i
    using assms(2) that by (cases "selectedLights u") (auto simp: lights_of_def lights_in_def)
  then have "succeeds ?Q (jfor (lights_of (selectedLights u)) (\<lambda>i. in_rig (on_light i syncLight))) (\<lambda>_. ?Q)"
    by (intro succeeds_for succeeds_frame sat_rig on_light_sync sync_shows)
  then show "succeeds ?Q (jbind (jread selectedLights) (\<lambda>lights. jfor (lights_of lights) (\<lambda>i. in_rig (on_light i syncLight)))) (\<lambda>_. ?Q)"
    by (intro succeeds_bind_read [where a = "selectedLights u"]) (auto simp: sat_def)
qed

lemma cancel_shows:
  assumes "ctl_inv m ps s" "scenes_ok m" "currentState s = LIGHT_SELECTION_MODE" "all_begun s"
  shows "succeeds (sat channels ready m ps s) (jbind (redrumHighlight fw) (\<lambda>_. jseq clearSelected (jseq (revertScene fw) (set_state IDLE_MODE))))
    (\<lambda>_ t. currentState t = IDLE_MODE \<and> shown_channels t = tl (currentScene m))"
proof -
  obtain t L where h: "handles s = (None, Some t, None, None, None)" "hl_core ps L (body t)" "semaphore (body t)"
    "nat (currentLightIndex s) \<in> set L" "\<forall>j < length ps. isSelected (ps ! j) \<longrightarrow> j \<in> set L" by (rule selecting [OF assms(1,3)])
  let ?u = "s\<lparr>highlight := None\<rparr>" and ?shown = "\<lambda>t. shown_channels t = tl (currentScene m)"
  have alive: "alive t \<longrightarrow> begun t" using assms(4) h(1) by (simp add: all_begun_def handles_def)
  have lights: "pred_option (lights_in (unselected ps)) (selectedLights ?u)"
    using chosen_lights [OF assms(1)] same_lights_inv(1) [OF same_unselected] by (auto elim!: option.pred_mono_strong)
  have last: "succeeds (\<lambda>t. sat channels ready m (unselected ps) ?u t \<and> ?shown t) (set_state IDLE_MODE) (\<lambda>_ t. currentState t = IDLE_MODE \<and> ?shown t)"
    by (auto simp: succeeds_def set_state_def update_def jmodify_def shown_channels_def)
  have "succeeds (\<lambda>s'. x = L \<and> sat channels ready m ps ?u s') (jseq clearSelected (jseq (revertScene fw) (set_state IDLE_MODE)))
      (\<lambda>_ t. currentState t = IDLE_MODE \<and> ?shown t)" for x
    by (intro succeeds_fact succeeds_seq [OF sat_clearSelected succeeds_seq [OF revertScene_shows [OF assms(2) lights] last]])
  note rest = this
  have "succeeds (hsat channels ready m ps s t L)
      (jbind (redrumHighlight fw) (\<lambda>_. jseq clearSelected (jseq (revertScene fw) (set_state IDLE_MODE))))
      (\<lambda>_ t. currentState t = IDLE_MODE \<and> ?shown t)"
    by (rule succeeds_bind [OF hsat_redrum [OF alive] rest])
  then show ?thesis using h(1-3) by (intro sat_to_hsat [of s t ps L]) (simp_all add: handles_def)
qed

lemma cancel_result:
  assumes "server_inv channels ready s" "all_begun s" "currentState s = LIGHT_SELECTION_MODE" "user_packet B2 b" "run_packet fw w b s = (Inr (), t)"
  shows "currentState t = IDLE_MODE" "shown_channels t = tl (currentScene (sceneManager (rig s)))"
proof -
  obtain c where c: "packetType c = DATA_PACKET_ID" "dataType c = USER_ACTION_DATA" "userActionData c = B2"
    "run_packet fw w b s = run_command fw w c s" by (rule user_packet_command [OF assms(4)]) blast
  let ?m = "sceneManager (rig s)" and ?ps = "map plan (profiles (rig s))"
  let ?H = "jbind (jread currentState) (\<lambda>k. jseq (update (setCurrentState k)) (sendHeartbeat (net_ok w)))"
  have g: "good channels ready ?m ?ps (rig s)" "ctl_inv ?m ?ps s" "scenes_ok ?m"
    using assms(1) by (simp_all add: server_inv_def good_def rig_ok_def)
  have "sat channels ready ?m ?ps s s" using g(1) by (simp add: sat_def) (metis server.surjective server.update_convs(1))
  from succeedsD [OF cancel_shows [OF g(2,3) assms(3,2)] this] obtain u where
    u: "jbind (redrumHighlight fw) (\<lambda>_. jseq clearSelected (jseq (revertScene fw) (set_state IDLE_MODE))) s = (Inr (), u)"
      "currentState u = IDLE_MODE" "shown_channels u = tl (currentScene ?m)" by auto
  have "light_selection_mode fw B2 s = (Inr True, u)"
    using u(1) by (simp add: light_selection_mode_def jseq_def jbind_def jret_def split: prod.splits sum.splits)
  then have "state_machine fw w c s = (Inr True, u)" using assms(3) c(2,3) by (simp add: state_machine_def jbind_read)
  from run_user_command [OF c(1) _ this] c(3) have "run_command fw w c s = ?H u" by (simp add: jwhen_def)
  with c(4) have "run_packet fw w b s = ?H u" by simp
  with assms(5) have "t = snd (?H u)" by (metis snd_conv)
  with u send_rig [of "net_ok w" u] show "currentState t = IDLE_MODE" "shown_channels t = tl (currentScene ?m)"
    by (simp_all add: shown_channels_def)
qed

end

subsection \<open>Property\<close>

text \<open>The memory of the board's 512 channels.\<close>

definition board_channels :: "ece453 driver system \<Rightarrow> u8 list" where
  "board_channels s = tl (DMX_data (hw (regs (dmx (rig (srv s))))))"

lemma board_shown: "board_mirrored (dmx (rig (srv s))) \<Longrightarrow> board_channels s = map word_of_int (shown_channels (srv s))"
  by (simp add: board_mirrored_def mirrored_def board_channels_def shown_channels_def map_tl)

text \<open>
  C5: A cancelled selection leaves no trace. From the first button in the idle mode to the second
  button in the light selection, however many steps and commands lie between, with visuals shown,
  lights stepped through and colours tried, as long as the user keeps nothing: back in the idle mode
  the board's memory of all 512 channels is what it was before.
\<close>

theorem cancelled_selection_leaves_no_trace:
  fixes garbage p q ps
  defines "fw \<equiv> sysfs_file garbage (p # q # ps)"
  assumes "server_run None file d fs = (Inr (), s\<^sub>0)" "board_mirrored d" "fs \<noteq> []" "\<forall>f \<in> set fs. lit_ready f \<and> \<not> isSelected f"
    "\<forall>v \<in> set (scenes (sceneManager (rig s\<^sub>0))). scene_bytes v" "reach fw (boot s\<^sub>0) s\<^sub>1"
    and enter: "currentState (srv s\<^sub>1) = IDLE_MODE" "commandQ s\<^sub>1 = b # r" "user_packet B1 b" "fit (Serve w) s\<^sub>1" "sys_step fw (Serve w) s\<^sub>1 s\<^sub>2"
    and between: "undecided fw s\<^sub>2 s\<^sub>3"
    and cancel: "currentState (srv s\<^sub>3) = LIGHT_SELECTION_MODE" "commandQ s\<^sub>3 = b' # r'" "user_packet B2 b'" "fit (Serve w') s\<^sub>3"
      "sys_step fw (Serve w') s\<^sub>3 s\<^sub>4"
  shows "currentState (srv s\<^sub>4) = IDLE_MODE \<and> board_channels s\<^sub>4 = board_channels s\<^sub>1"
proof -
  have "sys_inv (\<lambda>s. DMX_data (hw s)) board_ready (boot s\<^sub>0)"
    using assms(3-6) by (intro boot_inv [OF assms(2)]) (simp_all add: board_mirrored_def)
  note inv = board_dmx.reach_inv [OF _ this, of garbage p q ps, folded fw_def]
  have 2: "reach fw (boot s\<^sub>0) s\<^sub>2" by (rule reach.step [OF assms(7) enter(5,4)])
  have 3: "reach fw (boot s\<^sub>0) s\<^sub>3" by (rule undecided_reach [OF between 2])
  have 4: "reach fw (boot s\<^sub>0) s\<^sub>4" by (rule reach.step [OF 3 cancel(5,4)])
  have mirrored: "board_mirrored (dmx (rig (srv s)))" if "reach fw (boot s\<^sub>0) s" for s
    using inv [OF that] by (simp add: sys_inv_def server_inv_def rig_ok_def board_mirrored_def)
  have run: "run_packet fw w b (srv s) = (Inr (), srv t)"
    if "reach fw (boot s\<^sub>0) s" "fit (Serve w) s" "commandQ s = b # r" "sys_step fw (Serve w) s t" for s t w b r
  proof -
    have "\<exists>t. run_packet fw w b (srv s) = (Inr (), t)"
      using board_dmx.serve_good [OF inv [OF that(1)] that(3), of w garbage p q ps] that(2,3) by (auto simp: fw_def)
    with that(3,4) show ?thesis by (auto elim!: serve_elim)
  qed
  note saved = enter_saves [OF enter(3,1) run [OF assms(7) enter(4,2,5)]]
  have "server_inv (\<lambda>s. DMX_data (hw s)) board_ready (srv s\<^sub>3)" "all_begun (srv s\<^sub>3)" using inv [OF 3] cancel(4) by (simp_all add: sys_inv_def)
  note restored = board_dmx.cancel_result [OF this cancel(1,3) run [OF 3 cancel(4,2,5), unfolded fw_def]]
  have "shown_channels (srv s\<^sub>4) = shown_channels (srv s\<^sub>1)"
    using restored(2) saved(1) undecided_kept [OF between] by (simp add: shown_channels_def)
  with restored(1) show ?thesis using board_shown [OF mirrored [OF 4]] board_shown [OF mirrored [OF assms(7)]] by simp
qed

text \<open>The small rig: the two buttons wait in the queue, and the highlight begins between them.\<close>

definition demo_waiting :: "ece453 driver system" where
  "demo_waiting = udp_receive (action_packet B2) (udp_receive (action_packet B1) (boot demo_start))"

lemma demo_waiting_facts:
  "commandQ demo_waiting = [action_packet B1, action_packet B2]" "crashed demo_waiting = None"
  "currentState (srv demo_waiting) = IDLE_MODE" "all_begun (srv demo_waiting)"
  by (simp_all add: demo_waiting_def udp_receive_def Let_def boot_def action_packet_def ID_def demo_start_def ServerAppThread_def all_begun_def)

lemma demo_waiting_reach: "reach fw (boot demo_start) demo_waiting"
  unfolding demo_waiting_def
  by (intro reach.step [OF reach.step [OF reach.start sys_step.receive] sys_step.receive]) (simp_all add: udp_receive_def Let_def boot_def)

lemma user_action_packet: "user_packet u (action_packet u)" "u \<noteq> KONAMI_COMPLETE \<Longrightarrow> packet_ok m (action_packet u)"
  by (simp_all add: user_packet_def packet_ok_def parse_action command_ok_def stick_ok_def)

theorem cancelled_selection_leaves_no_trace_witness:
  "\<exists>s\<^sub>2 s\<^sub>3 s\<^sub>4. sys_step (sysfs_file 0 [0, 0]) (Serve calm_surroundings) demo_waiting s\<^sub>2 \<and> currentState (srv s\<^sub>2) = LIGHT_SELECTION_MODE \<and>
     undecided (sysfs_file 0 [0, 0]) s\<^sub>2 s\<^sub>3 \<and> sys_step (sysfs_file 0 [0, 0]) (Serve calm_surroundings) s\<^sub>3 s\<^sub>4 \<and>
     currentState (srv s\<^sub>4) = IDLE_MODE \<and> board_channels s\<^sub>4 = board_channels demo_waiting"
proof -
  let ?fw = "sysfs_file 0 [0, 0]" and ?w = calm_surroundings and ?C = "\<lambda>s. DMX_data (hw s)"
  have boot: "sys_inv ?C board_ready (boot demo_start)"
    using demo_start_good by (intro boot_inv [OF demo_start_run]) (simp_all add: board_mirrored_def)
  note inv = board_dmx.reach_inv [OF _ this, of 0 0 0 "[]"]
  have fit1: "fit (Serve ?w) demo_waiting"
    using calm_demo user_action_packet(2) [of B1] by (simp add: demo_waiting_facts)
  obtain t where t: "run_packet ?fw ?w (action_packet B1) (srv demo_waiting) = (Inr (), t)"
    using board_dmx.serve_good [OF inv [OF demo_waiting_reach] demo_waiting_facts(1), of ?w 0 0 0 "[]"] fit1
    by (auto simp: demo_waiting_facts)
  let ?s2 = "demo_waiting\<lparr>srv := t, commandQ := [action_packet B2], crashed := failure (Inr ())\<rparr>"
  let ?s3 = "?s2\<lparr>srv := begin_threads t\<rparr>"
  have step1: "sys_step ?fw (Serve ?w) demo_waiting ?s2"
    by (rule sys_step.serve [OF demo_waiting_facts(2,1) t])
  note light = enter_saves(2) [OF user_action_packet(1) demo_waiting_facts(3) t]
  have "sys_step ?fw Begin ?s2 ?s3" using sys_step.begun [of ?fw ?s2] by simp
  then have between: "undecided ?fw ?s2 ?s3" by (rule undecided.step [OF undecided.start]) simp_all
  have 3: "reach ?fw (boot demo_start) ?s3"
    by (rule undecided_reach [OF between reach.step [OF demo_waiting_reach step1 fit1]])
  have state: "currentState (srv ?s3) = LIGHT_SELECTION_MODE" using light by (simp add: begin_threads_def)
  have fit3: "fit (Serve ?w) ?s3"
    using calm_demo user_action_packet(2) [of B2] begin_threads_inv(2) by simp
  have q3: "commandQ ?s3 = [action_packet B2]" "crashed ?s3 = None" by (simp_all add: failure_def)
  obtain u where u: "run_packet ?fw ?w (action_packet B2) (srv ?s3) = (Inr (), u)"
    using board_dmx.serve_good [OF inv [OF 3] q3(1), of ?w 0 0 0 "[]"] fit3 by auto
  have step3: "sys_step ?fw (Serve ?w) ?s3 (?s3\<lparr>srv := u, commandQ := [], crashed := failure (Inr ())\<rparr>)"
    by (rule sys_step.serve [OF q3(2,1) u])
  note result = cancelled_selection_leaves_no_trace [OF demo_start_run demo_start_good demo_waiting_reach demo_waiting_facts(3,1)
      user_action_packet(1) fit1 step1 between state q3(1) user_action_packet(1) fit3 step3]
  show ?thesis using step1 light between step3 result
    by (intro exI [of _ ?s2] exI [of _ ?s3] exI [of _ "?s3\<lparr>srv := u, commandQ := [], crashed := failure (Inr ())\<rparr>"] conjI) (assumption | simp)+
qed

end
