(* ===== verification/Server_Faults.thy ===== *)
theory Server_Faults
  imports Server_Cancel
begin

text \<open>
  What the assumptions of the safe runs keep out: a code for the party while a thread runs, a
  stick position outside the wheel's square, and a command that ends a thread before it has begun.
  Each is a run of the server on a datagram.
\<close>

subsection \<open>The party code while a thread runs\<close>

lemma party_quiet:
  assumes "packetType c = DATA_PACKET_ID" "dataType c = USER_ACTION_DATA" "userActionData c = KONAMI_COMPLETE" "heartbeat_up s" "net_ok w"
  shows "\<exists>t. run_command fw w c s = (Inr (), t) \<and> currentState t = PARTY_MODE \<and> handles t = handles s \<and> leaked t = leaked s \<and>
    rig t = rig s \<and> currentLightIndex t = currentLightIndex s"
  using assms
  by (auto simp: run_command_def state_machine_def party_mode_def gyro_mode_def or_due_def java set_state_def update_def jwhen_def
      setCurrentState_def sendHeartbeat_def Let_def heartbeat_up_def handles_def)

lemma party_left:
  assumes "packetType c = DATA_PACKET_ID" "dataType c = USER_ACTION_DATA" "userActionData c = PS2_LONG" "heartbeat_up s" "net_ok w"
    "currentState s = PARTY_MODE"
  shows "\<exists>t. run_command fw w c s = (Inr (), t) \<and> currentState t = IDLE_MODE \<and> handles t = handles s \<and> leaked t = leaked s \<and>
    rig t = rig s \<and> currentLightIndex t = currentLightIndex s"
  using assms
  by (auto simp: run_command_def state_machine_def party_mode_def gyro_mode_def java set_state_def update_def jwhen_def
      setCurrentState_def sendHeartbeat_def Let_def heartbeat_up_def handles_def)

lemma startHighlight_leaks:
  assumes "0 \<le> currentLightIndex s" "currentLightIndex s < int (length (profiles (rig s)))"
  shows "\<exists>t. startHighlight s = (Inr (), t) \<and> leaked t = leak Leaked_highlight (highlight s) @ leaked s \<and> currentState t = currentState s \<and>
    heartbeat_thr t = heartbeat_thr s"
  using assms
  by (auto simp: startHighlight_def update_def java get_light_def on_highlight_def addLight_def acquire_def release_def on_thread_def jwhen_def
      HighlightThread_def start_def)

lemma select_again:
  assumes "packetType c = DATA_PACKET_ID" "dataType c = USER_ACTION_DATA" "userActionData c = B1" "heartbeat_up s" "net_ok w"
    "currentState s = IDLE_MODE" "0 \<le> currentLightIndex s" "currentLightIndex s < int (length (profiles (rig s)))"
  shows "\<exists>t. run_command fw w c s = (Inr (), t) \<and> currentState t = LIGHT_SELECTION_MODE \<and>
    leaked t = leak Leaked_highlight (highlight s) @ leaked s"
proof -
  let ?s = "s\<lparr>currentState := LIGHT_SELECTION_MODE, rig := (rig s)\<lparr>sceneManager := setCurrentScene (dmxShadow (dmx (rig s))) (sceneManager (rig s))\<rparr>\<rparr>"
  obtain u where u: "startHighlight ?s = (Inr (), u)" "leaked u = leak Leaked_highlight (highlight s) @ leaked s"
    "currentState u = LIGHT_SELECTION_MODE" "heartbeat_thr u = heartbeat_thr s"
    using startHighlight_leaks [of ?s] assms(7,8) by auto
  have "server_idle_mode fw (scene_io w) B1 s = (Inr True, u)"
    using u(1) by (simp add: server_idle_mode_def jseq_def jbind_def jread_def set_state_def update_def jmodify_def save_current_def
        on_scenes_def getDmx_def jret_def)
  then have "state_machine fw w c s = (Inr True, u)" using assms(2,3,6) by (simp add: state_machine_def jbind_read)
  from run_user_command [OF assms(1) _ this] assms(3,4,5) u show ?thesis
    by (auto simp: java jwhen_def update_def setCurrentState_def sendHeartbeat_def Let_def heartbeat_up_def)
qed

text \<open>
  C31: The party code leaks a live thread. The code is looked at before the mode, so in the light
  selection it starts the party while the highlight runs on. When the user leaves the party and
  selects lights again, the server overwrites its reference to the old highlight, which nothing
  can end any more, although no call has failed.
\<close>

theorem konami_leaks_highlight:
  assumes "server_inv channels ready s" "currentState s = LIGHT_SELECTION_MODE" "net_ok w"
    "user_packet KONAMI_COMPLETE b" "user_packet PS2_LONG b'" "user_packet B1 b''"
  shows "\<exists>h t u v. highlight s = Some h \<and> live h \<and>
    run_packet fw w b s = (Inr (), t) \<and> currentState t = PARTY_MODE \<and> highlight t = Some h \<and>
    run_packet fw w b' t = (Inr (), u) \<and> currentState u = IDLE_MODE \<and> highlight u = Some h \<and>
    run_packet fw w b'' u = (Inr (), v) \<and> currentState v = LIGHT_SELECTION_MODE \<and> leaked v = [Leaked_highlight h]"
proof -
  have inv: "ctl_inv (sceneManager (rig s)) (map plan (profiles (rig s))) s" using assms(1) by (simp add: server_inv_def)
  obtain h where h: "handles s = (None, Some h, None, None, None)" "live h" using inv assms(2) by (auto simp: inv_defs)
  have s: "leaked s = []" "0 \<le> currentLightIndex s" "currentLightIndex s < int (length (profiles (rig s)))" "heartbeat_up s"
    using inv by (simp_all add: ctl_inv_def heartbeat_up_def)
  obtain c where c: "packetType c = DATA_PACKET_ID" "dataType c = USER_ACTION_DATA" "userActionData c = KONAMI_COMPLETE"
    "run_packet fw w b s = run_command fw w c s" by (rule user_packet_command [OF assms(4)]) blast
  obtain t where t: "run_packet fw w b s = (Inr (), t)" "currentState t = PARTY_MODE" "handles t = handles s" "leaked t = leaked s"
    "rig t = rig s" "currentLightIndex t = currentLightIndex s" using party_quiet [OF c(1-3) s(4) assms(3), of fw] c(4) by auto
  have up: "heartbeat_up t" using run_command_announces(1) [OF _ s(4)] t(1) c(4) by simp
  obtain c' where c': "packetType c' = DATA_PACKET_ID" "dataType c' = USER_ACTION_DATA" "userActionData c' = PS2_LONG"
    "run_packet fw w b' t = run_command fw w c' t" by (rule user_packet_command [OF assms(5)]) blast
  obtain u where u: "run_packet fw w b' t = (Inr (), u)" "currentState u = IDLE_MODE" "handles u = handles t" "leaked u = leaked t"
    "rig u = rig t" "currentLightIndex u = currentLightIndex t" using party_left [OF c'(1-3) up assms(3) t(2), of fw] c'(4) by auto
  have up': "heartbeat_up u" using run_command_announces(1) [OF _ up] u(1) c'(4) by simp
  obtain c'' where c'': "packetType c'' = DATA_PACKET_ID" "dataType c'' = USER_ACTION_DATA" "userActionData c'' = B1"
    "run_packet fw w b'' u = run_command fw w c'' u" by (rule user_packet_command [OF assms(6)]) blast
  have "0 \<le> currentLightIndex u" "currentLightIndex u < int (length (profiles (rig u)))" using s t u by simp_all
  from select_again [OF c''(1-3) up' assms(3) u(2) this, of fw] c''(4) obtain v where
    v: "run_packet fw w b'' u = (Inr (), v)" "currentState v = LIGHT_SELECTION_MODE" "leaked v = leak Leaked_highlight (highlight u) @ leaked u"
    by auto
  have "highlight s = Some h" "highlight t = Some h" "highlight u = Some h" using h t(3) u(3) by (simp_all add: handles_def)
  with t u v s(1) h(2) show ?thesis by (auto simp: leak_def)
qed

theorem konami_leaks_highlight_witness:
  "\<exists>s t u v h. run_packet (sysfs_file 0 [0, 0]) calm_surroundings (action_packet KONAMI_COMPLETE) s = (Inr (), t) \<and>
     run_packet (sysfs_file 0 [0, 0]) calm_surroundings (action_packet PS2_LONG) t = (Inr (), u) \<and>
     run_packet (sysfs_file 0 [0, 0]) calm_surroundings (action_packet B1) u = (Inr (), v) \<and> leaked v = [Leaked_highlight h]"
proof -
  let ?fw = "sysfs_file 0 [0, 0]" and ?w = calm_surroundings
  have boot: "sys_inv (\<lambda>s. DMX_data (hw s)) board_ready (boot demo_start)"
    using demo_start_good by (intro boot_inv [OF demo_start_run]) (simp_all add: board_mirrored_def)
  have "packet_ok (currentState (srv demo_waiting)) (action_packet B1)" by (rule user_action_packet) simp
  from board_dmx.serve_good [OF board_dmx.reach_inv [OF demo_waiting_reach boot] demo_waiting_facts(1) calm_demo demo_waiting_facts(4) this, of 0 0 0 "[]"]
  obtain s where s: "run_packet ?fw ?w (action_packet B1) (srv demo_waiting) = (Inr (), s)"
    "server_inv (\<lambda>s. DMX_data (hw s)) board_ready s" by blast
  have "net_ok ?w" by (simp add: calm_surroundings_def)
  from konami_leaks_highlight [OF s(2) enter_saves(2) [OF user_action_packet(1) demo_waiting_facts(3) s(1)] this
      user_action_packet(1) user_action_packet(1) user_action_packet(1), of ?fw]
  show ?thesis by blast
qed

subsection \<open>A stick position outside the wheel\<close>

lemma getColor_out:
  assumes "\<not> (stick_in_range x \<and> stick_in_range y)"
  shows "\<exists>e. e \<noteq> IO_exception \<and> getColor table x y s = (Inl e, s)"
proof -
  have neg: "c_div z 4 < 0" if "z \<le> -4" for z :: int
  proof -
    have "1 \<le> (- z) div 4" using that by simp
    then show ?thesis using that by (simp add: c_div_neg)
  qed
  have "4096 \<le> x \<or> 4096 \<le> y \<or> c_div x 4 < 0 \<or> c_div y 4 < 0"
    using assms neg [of x] neg [of y] unfolding stick_in_range_def by linarith
  then show ?thesis by (auto simp: getColor_def java Let_def)
qed

lemma stick_out:
  assumes "\<not> (stick_in_range x \<and> stick_in_range y)" "packetType c = DATA_PACKET_ID" "dataType c = JOYSTICK_DATA" "joystickData c = Some (x, y)"
    "userActionData c \<noteq> KONAMI_COMPLETE" "currentState s = COLOR_WHEEL_MODE" "selectedLights s = Some (i # L)"
  shows "\<exists>e. run_command fw w c s = (Inl e, s)"
proof -
  obtain e where e: "e \<noteq> IO_exception" "getColor (wheel w) x y s = (Inl e, s)" using getColor_out [OF assms(1)] by blast
  then have "for_selected (\<lambda>i. try_io (jbind (getColor (wheel w) x y) (\<lambda>col. in_rig (on_light i (setColor fw col))))) s = (Inl e, s)"
    using assms(7) by (simp add: for_selected_def jread_def jseq_def jbind_def try_io_def)
  then have "state_machine fw w c s = (Inl e, s)"
    using assms(3-6) by (simp add: state_machine_def jread_def color_wheel_mode_def jseq_def jbind_def)
  from run_user_command [OF assms(2,5) this] show ?thesis by simp
qed

lemma parse_stick:
  assumes "controller_packet d" "data_type d = JOYSTICK_DATA"
  shows "\<exists>c. parse (data_bytes d @ rest) new_command = Inr (True, c) \<and> packetType c = DATA_PACKET_ID \<and> dataType c = JOYSTICK_DATA \<and>
    joystickData c = Some (sint (joystick_0 d), sint (joystick_1 d)) \<and> userActionData c = 0"
  using parse_controller_packet [OF assms(1)] parse_data_controller_packet [OF assms(1)] assms(2)
  by (simp add: Let_def new_command_def)

text \<open>
  C28: One packet ends the server. In the colour wheel the server on its board survives a stick packet
  exactly when both coordinates lie between -3 and 4095; any other value, which every sender on
  the network can put into a packet, is an exception that nothing catches, and the server's thread is
  over with its state as it was.
\<close>

theorem stick_out_of_range_ends_server:
  fixes garbage p q ps
  defines "fw \<equiv> sysfs_file garbage (p # q # ps)"
  assumes "controller_packet d" "data_type d = JOYSTICK_DATA" "server_inv (\<lambda>s. DMX_data (hw s)) board_ready s" "all_begun s"
    "currentState s = COLOR_WHEEL_MODE" "calm w"
  shows "(\<exists>t. run_packet fw w (data_bytes d @ rest) s = (Inr (), t)) \<longleftrightarrow>
    stick_in_range (sint (joystick_0 d)) \<and> stick_in_range (sint (joystick_1 d))"
proof -
  obtain c where c: "parse (data_bytes d @ rest) new_command = Inr (True, c)" "packetType c = DATA_PACKET_ID" "dataType c = JOYSTICK_DATA"
    "joystickData c = Some (sint (joystick_0 d), sint (joystick_1 d))" "userActionData c = 0" using parse_stick [OF assms(2,3)] by blast
  have run: "run_packet fw w (data_bytes d @ rest) s = run_command fw w c s" by (simp add: run_packet_def c(1))
  have "selectedLights s \<noteq> None" "pred_option (\<lambda>L. chosen_ok (map plan (profiles (rig s))) L (canChangeDMX s)) (selectedLights s)"
    using assms(4,6) by (auto simp: server_inv_def inv_defs)
  then obtain i L where L: "selectedLights s = Some (i # L)" by (auto simp: chosen_ok_def neq_Nil_conv)
  show ?thesis
  proof
    assume "stick_in_range (sint (joystick_0 d)) \<and> stick_in_range (sint (joystick_1 d))"
    then have "server_inv (\<lambda>s. DMX_data (hw s)) board_ready s \<and> all_begun s \<and> command_ok (currentState s) c"
      using assms(4,5) c by (simp add: command_ok_def stick_ok_def)
    from succeedsD [OF board_dmx.run_command_good [OF assms(7)] this, of garbage p q ps] run
    show "\<exists>t. run_packet fw w (data_bytes d @ rest) s = (Inr (), t)" by (auto simp: fw_def)
  next
    assume "\<exists>t. run_packet fw w (data_bytes d @ rest) s = (Inr (), t)"
    then obtain t where t: "run_command fw w c s = (Inr (), t)" unfolding run by blast
    show "stick_in_range (sint (joystick_0 d)) \<and> stick_in_range (sint (joystick_1 d))"
    proof (rule ccontr)
      assume out: "\<not> (stick_in_range (sint (joystick_0 d)) \<and> stick_in_range (sint (joystick_1 d)))"
      have "userActionData c \<noteq> KONAMI_COMPLETE" using c(5) by simp
      from stick_out [OF out c(2-4) this assms(6) L, of fw w] t show False by simp
    qed
  qed
qed

text \<open>The small rig's server with its one light chosen for the wheel, and a stick packet one past the end.\<close>

definition demo_wheel :: "ece453 driver server" where
  "demo_wheel = (srv (boot demo_start))\<lparr>currentState := COLOR_WHEEL_MODE, selectedLights := Some [0]\<rparr>"

definition stick_packet :: "u32 \<Rightarrow> u32 \<Rightarrow> dataPacket" where
  "stick_packet x y = \<lparr>data_header = \<lparr>hdr_id = ID, packet_type = DATA_PACKET_ID, hdr_mode = COLOR_WHEEL_MODE\<rparr>,
     data_type = JOYSTICK_DATA, user_action = 0, joystick_0 = x, joystick_1 = y, gyro = 0\<rparr>"

lemma demo_wheel_inv: "server_inv (\<lambda>s. DMX_data (hw s)) board_ready demo_wheel"
proof -
  have boot: "sys_inv (\<lambda>s. DMX_data (hw s)) board_ready (boot demo_start)"
    using demo_start_good by (intro boot_inv [OF demo_start_run]) (simp_all add: board_mirrored_def)
  have plan: "map plan (profiles (rig demo_start)) = [plan (fx demo_light)]"
    by (simp add: demo_start_def ServerAppThread_def)
  show ?thesis
    using boot unfolding sys_inv_def server_inv_def demo_wheel_def
    by (simp add: boot_def plan inv_defs chosen_ok_def lights_in_def demo_start_def ServerAppThread_def)
qed

theorem stick_out_of_range_ends_server_witness:
  "\<nexists>t. run_packet (sysfs_file 0 [0, 0]) calm_surroundings (data_bytes (stick_packet 4096 0) @ []) demo_wheel = (Inr (), t)"
proof -
  have "all_begun demo_wheel" "currentState demo_wheel = COLOR_WHEEL_MODE"
    by (simp_all add: demo_wheel_def all_begun_def boot_def demo_start_def ServerAppThread_def)
  moreover have "controller_packet (stick_packet 4096 0)" "data_type (stick_packet 4096 0) = JOYSTICK_DATA"
    by (simp_all add: controller_packet_def stick_packet_def)
  ultimately have "(\<exists>t. run_packet (sysfs_file 0 [0, 0]) calm_surroundings (data_bytes (stick_packet 4096 0) @ []) demo_wheel = (Inr (), t)) \<longleftrightarrow>
      stick_in_range (sint (joystick_0 (stick_packet 4096 0))) \<and> stick_in_range (sint (joystick_1 (stick_packet 4096 0)))"
    using calm_demo demo_wheel_inv by (intro stick_out_of_range_ends_server)
  then show ?thesis by (simp add: stick_packet_def stick_in_range_def)
qed

subsection \<open>A thread that is ended before it begins\<close>

text \<open>
  Waiting for a thread that has not begun, and whose rounds return for ever: \<open>run\<close> sets the flag that was
  just reset, and from then on nobody resets it.
\<close>

lemma join_waits:
  fixes round :: "'t started \<Rightarrow> (('t, 'r) turn, unit) java"
  assumes "get s = Some h" "alive h" "\<not> begun h" "goes (rig s)" "ok (body h) (rig s)"
    and "\<And>k. succeeds (\<lambda>u. th u = body k \<and> ok (th u) (rg u)) (round k) (\<lambda>_ u. ok (th u) (rg u))"
  shows "join goes round get s = (Inl Blocked, s)"
proof -
  let ?P = "\<lambda>(k, r). alive k \<and> (if begun k then running k else goes r) \<and> ok (body k) r"
  let ?W = "while_option (\<lambda>(k, r). alive k) (thread_next goes round) (h, rig s)"
  have "?P (thread_next goes round k)" if "?P k" for k
  proof (cases k)
    case (Pair h r)
    show ?thesis
    proof (cases "begun h")
      case True
      have "ok (body h) r" "running h" using that Pair True by auto
      with succeedsD [OF assms(6) [of h], of "\<lparr>th = body h, rg = r\<rparr>"] Pair True show ?thesis
        by (auto simp: thread_next_def thread_round_def)
    qed (use that Pair in \<open>simp add: thread_next_def begin_thread_def\<close>)
  qed
  then have "?P u" if "?W = Some u" for u by (rule while_option_rule [OF _ that]) (use assms in simp_all)
  moreover have "\<not> (\<lambda>(k, r). alive k) u" if "?W = Some u" for u using while_option_stop [OF that] .
  ultimately have "?W = None" by (cases ?W) fastforce+
  with assms(1) show ?thesis by (simp add: join_def)
qed

lemma jseq_throws:
  "m s = (Inl e, t) \<Longrightarrow> jseq m n s = (Inl e, t)" "k s = (Inr (), u) \<Longrightarrow> m u = (Inl e, t) \<Longrightarrow> jseq k m s = (Inl e, t)"
  by (simp_all add: jseq_def jbind_def)

text \<open>The reset of the flag, and then the wait.\<close>

lemma stop_waits:
  assumes "get s = Some h" "alive h" "\<not> begun h" "goes (rig s)" "ok (body h) (rig s)" "\<And>x u. get (put x u) = x" "\<And>x u. rig (put x u) = rig u"
    "\<And>k. succeeds (\<lambda>u. th u = body k \<and> ok (th u) (rg u)) (round k) (\<lambda>_ u. ok (th u) (rg u))"
  shows "\<exists>t. jseq (stop get put) (jseq (join goes round get) n) s = (Inl Blocked, t)"
proof -
  let ?t = "put (Some (h\<lparr>running := False, interrupted := True\<rparr>)) s"
  have "stop get put s = (Inr (), ?t)" using assms(1) by (simp add: stop_def)
  moreover have "join goes round get ?t = (Inl Blocked, ?t)"
    by (rule join_waits [where get = get and ok = ok, OF assms(6) _ _ _ _ assms(8)]) (use assms(2-5) in \<open>simp_all add: assms(7)\<close>)
  ultimately have "jseq (stop get put) (jseq (join goes round get) n) s = (Inl Blocked, ?t)" by (simp add: jseq_def jbind_def)
  then show ?thesis by blast
qed

text \<open>A server whose control has a thread that is started and has not begun; the visual of the channels with at most five lights.\<close>

definition unbegun :: "fixture list \<Rightarrow> 'r server \<Rightarrow> bool" where
  "unbegun ps s \<longleftrightarrow>
     (if currentControlIndex s = 1 then \<exists>h. presetVisual s = Some h \<and> alive h \<and> \<not> begun h \<and> preset_ok ps (body h)
      else if currentControlIndex s = 0 then \<exists>h. rainbowVisual s = Some h \<and> alive h \<and> \<not> begun h \<and> rainbow_ok ps (body h)
      else currentControlIndex s = -1 \<and> (\<exists>L. dmxVisual s = Some (start True (DMXVisualThread L)) \<and> L \<noteq> [] \<and> length L \<le> 5 \<and> lights_in ps L))"

text \<open>A turn that keeps what it needs, as a round of the wait.\<close>

lemma turn_waits:
  assumes "ok t \<Longrightarrow> succeeds (th_at channels ready m ps t) n (\<lambda>_ s. good channels ready m ps (rg s) \<and> ok (th s))"
  shows "succeeds (\<lambda>u. th u = t \<and> good channels ready m ps (rg u) \<and> ok (th u)) n (\<lambda>_ u. good channels ready m ps (rg u) \<and> ok (th u))"
  using assms unfolding succeeds_def th_at_def by blast

context dmx_channels
begin

lemma preset_waits:
  assumes "good channels ready m ps (rig s)" "presetVisual s = Some h" "alive h" "\<not> begun h" "preset_ok ps (body h)"
  shows "\<exists>t. redrumPresetVisual fw s = (Inl Blocked, t)"
  unfolding redrumPresetVisual_def
proof (rule stop_waits [where get = presetVisual and ok = "\<lambda>t r. good channels ready m ps r \<and> preset_ok ps t", OF assms(2-4)])
  show "succeeds (\<lambda>u. th u = body k \<and> good channels ready m ps (rg u) \<and> preset_ok ps (th u)) (preset_round fw k)
      (\<lambda>_ u. good channels ready m ps (rg u) \<and> preset_ok ps (th u))" for k
    unfolding preset_round_def
    by (rule turn_waits [OF preset_turn_good])
qed (use assms in \<open>simp_all add: always_def\<close>)

lemma rainbow_waits:
  assumes "good channels ready m ps (rig s)" "rainbowVisual s = Some h" "alive h" "\<not> begun h" "rainbow_ok ps (body h)"
  shows "\<exists>t. redrumRainbow fw s = (Inl Blocked, t)"
  unfolding redrumRainbow_def
proof (rule stop_waits [where get = rainbowVisual and ok = "\<lambda>t r. good channels ready m ps r \<and> rainbow_ok ps t", OF assms(2-4)])
  show "succeeds (\<lambda>u. th u = body k \<and> good channels ready m ps (rg u) \<and> rainbow_ok ps (th u)) (rainbow_round fw k)
      (\<lambda>_ u. good channels ready m ps (rg u) \<and> rainbow_ok ps (th u))" for k
    unfolding rainbow_round_def
    by (rule turn_waits [OF rainbow_turn_good])
qed (use assms in \<open>simp_all add: always_def\<close>)

lemma dmx_waits:
  assumes "good channels ready m ps (rig s)" "dmxVisual s = Some (start True (DMXVisualThread L))" "L \<noteq> []" "length L \<le> 5" "lights_in ps L"
  shows "\<exists>t. redrumDMXVisual fw s = (Inl Blocked, t)"
  unfolding redrumDMXVisual_def
proof (rule stop_waits [where get = dmxVisual and ok = "\<lambda>t r. good channels ready m ps r \<and> d_lights t = L \<and> dmx_fit (int (length L)) (d_direction t) (d_dimmer t)", OF assms(2)])
  let ?n = "int (length L)"
  have n: "1 \<le> ?n" "?n \<le> 5" using assms(3,4) by (cases L; simp)+
  show "succeeds (\<lambda>u. th u = body k \<and> good channels ready m ps (rg u) \<and> d_lights (th u) = L \<and> dmx_fit ?n (d_direction (th u)) (d_dimmer (th u)))
      (dmx_round fw k) (\<lambda>_ u. good channels ready m ps (rg u) \<and> d_lights (th u) = L \<and> dmx_fit ?n (d_direction (th u)) (d_dimmer (th u)))" for k
    unfolding succeeds_def
  proof (intro allI impI)
    fix u :: "(dmx_thread, 'r) turn"
    assume u: "th u = body k \<and> good channels ready m ps (rg u) \<and> d_lights (th u) = L \<and> dmx_fit ?n (d_direction (th u)) (d_dimmer (th u))"
    then have k: "d_lights (body k) = L" and fit: "dmx_fit ?n (d_direction (body k)) (d_dimmer (body k))" by auto
    then have d: "d_direction (body k) = 5 \<or> d_direction (body k) = -5" "byte_ok (d_dimmer (body k))" by (simp_all add: dmx_fit_def)
    note step = dmx_fit_step [OF n fit]
    have "th_at channels ready m ps (body k) u" using u by (simp add: th_at_def)
    from succeedsD [OF dmx_turn_good [OF _ d(2,1)] this] step assms(5) k
    show "\<exists>x t. dmx_round fw k u = (Inr x, t) \<and> good channels ready m ps (rg t) \<and> d_lights (th t) = L \<and>
        dmx_fit ?n (d_direction (th t)) (d_dimmer (th t))"
      by (auto simp: dmx_round_def th_at_def)
  qed
qed (use assms in \<open>simp_all add: always_def start_def DMXVisualThread_def dmx_fit_def byte_ok_def\<close>)

lemma redrum_waits:
  assumes "good channels ready m ps (rig s)" "unbegun ps s"
  defines "k \<equiv> currentControlIndex s"
  shows "k = -1 \<and> (\<exists>t. redrumDMXVisual fw s = (Inl Blocked, t)) \<or> k = 0 \<and> (\<exists>t. redrumRainbow fw s = (Inl Blocked, t)) \<or>
    k = 1 \<and> (\<exists>t. redrumPresetVisual fw s = (Inl Blocked, t))"
  using assms preset_waits [OF assms(1)] rainbow_waits [OF assms(1)] dmx_waits [OF assms(1)]
  by (auto simp: unbegun_def split: if_splits)

lemma control_waits:
  assumes "good channels ready m ps (rig s)" "unbegun ps s"
  shows "\<exists>t. control_left fw s = (Inl Blocked, t)" "\<exists>t. control_right fw s = (Inl Blocked, t)" "\<exists>t. control_choose fw s = (Inl Blocked, t)"
    "\<exists>t. control_back fw s = (Inl Blocked, t)"
proof -
  show "\<exists>t. control_left fw s = (Inl Blocked, t)" "\<exists>t. control_right fw s = (Inl Blocked, t)" "\<exists>t. control_choose fw s = (Inl Blocked, t)"
    using redrum_waits [OF assms] by (auto simp: control_left_def control_right_def control_choose_def jbind_read jseq_throws(1))
  let ?s = "s\<lparr>currentState := LIGHT_SELECTION_MODE\<rparr>"
  let ?n = "jbind (jread currentControlIndex) (\<lambda>k. if k = -1 then redrumDMXVisual fw else if k = 0 then redrumRainbow fw
      else if k = 1 then redrumPresetVisual fw else jret ())"
  have "good channels ready m ps (rig ?s)" "unbegun ps ?s" using assms by (simp_all add: unbegun_def)
  from redrum_waits [OF this] obtain t where "?n ?s = (Inl Blocked, t)" by (auto simp: jbind_read)
  moreover have "set_state LIGHT_SELECTION_MODE s = (Inr (), ?s)" by (simp add: set_state_def update_def jmodify_def)
  ultimately have "control_back fw s = (Inl Blocked, t)"
    unfolding control_back_def by (intro jseq_throws(2) [OF _ jseq_throws(1)])
  then show "\<exists>t. control_back fw s = (Inl Blocked, t)" by blast
qed

lemma control_selection_waits:
  assumes "good channels ready m ps (rig s)" "unbegun ps s" "u = LEFT \<or> u = RIGHT \<or> u = B1 \<or> u = B2"
  shows "\<exists>t. control_selection_mode fw u s = (Inl Blocked, t)"
proof -
  obtain t1 t2 t3 t4 where "control_left fw s = (Inl Blocked, t1)" "control_right fw s = (Inl Blocked, t2)"
    "control_choose fw s = (Inl Blocked, t3)" "control_back fw s = (Inl Blocked, t4)" using control_waits [OF assms(1,2)] by metis
  then show ?thesis using assms(3) by (elim disjE) (simp_all add: control_selection_mode_def jseq_throws(1))
qed

end

text \<open>The thread of the chosen control is started and has not begun; the visual of the channels is as it was started, on at most five lights.\<close>

definition control_unbegun :: "'r server \<Rightarrow> bool" where
  "control_unbegun s \<longleftrightarrow>
     (if currentControlIndex s = 1 then \<exists>h. presetVisual s = Some h \<and> \<not> begun h
      else if currentControlIndex s = 0 then \<exists>h. rainbowVisual s = Some h \<and> \<not> begun h
      else \<exists>L. selectedLights s = Some L \<and> length L \<le> 5 \<and> dmxVisual s = Some (start True (DMXVisualThread L)))"

lemma control_unbegun_inv:
  assumes "ctl_inv m ps s" "currentState s = CONTROL_SELECTION_MODE" "control_unbegun s"
  shows "unbegun ps s"
proof -
  have "mode_inv m ps s" using assms(1) by (simp add: ctl_inv_def)
  then show ?thesis using assms(2,3) chosen_in(1,2) [OF assms(1)]
    by (auto simp: unbegun_def control_unbegun_def mode_inv_def handles_def live_def intro!: exI [of _ "the (selectedLights s)"])
qed

text \<open>
  C29: A quick press hangs the server. The keys that leave a control reset the flag of the thread that shows it
  and wait for its end. If the thread has been started but has not begun, it sets its flag again
  when it begins, goes round for ever, and the server never returns from the wait. Once the
  threads have begun, the same key in the same state is served.
\<close>

theorem quick_press_hangs_server:
  fixes garbage p q ps
  defines "fw \<equiv> sysfs_file garbage (p # q # ps)"
  assumes "server_inv (\<lambda>s. DMX_data (hw s)) board_ready s" "currentState s = CONTROL_SELECTION_MODE" "control_unbegun s" "calm w"
    "user_packet u b" "u = LEFT \<or> u = RIGHT \<or> u = B1 \<or> u = B2"
  shows "fst (run_packet fw w b s) = Inl Blocked \<and> (\<exists>t. run_packet fw w b (begin_threads s) = (Inr (), t))"
proof -
  let ?m = "sceneManager (rig s)" and ?ps = "map plan (profiles (rig s))" and ?s = "begin_threads s"
  have g: "good (\<lambda>s. DMX_data (hw s)) board_ready ?m ?ps (rig s)" "ctl_inv ?m ?ps s" using assms(2) by (simp_all add: server_inv_def good_def)
  obtain c where c: "packetType c = DATA_PACKET_ID" "dataType c = USER_ACTION_DATA" "userActionData c = u"
    and run: "\<And>s. run_packet fw w b s = run_command fw w c s" using assms(6) by (auto simp: user_packet_def run_packet_def split: sum.splits bool.splits prod.splits)
  have u: "u \<noteq> KONAMI_COMPLETE" using assms(7) by auto
  from board_dmx.control_selection_waits [OF g(1) control_unbegun_inv [OF g(2) assms(3,4)] assms(7)]
  obtain t where "control_selection_mode fw u s = (Inl Blocked, t)" unfolding fw_def by blast
  then have "state_machine fw w c s = (Inl Blocked, t)" using assms(3) c(2,3) by (simp add: state_machine_def jbind_read)
  from run_user_command [OF c(1) _ this] u c(3) have "fst (run_packet fw w b s) = Inl Blocked" by (simp add: run)
  moreover have "server_inv (\<lambda>s. DMX_data (hw s)) board_ready ?s \<and> all_begun ?s \<and> command_ok (currentState ?s) c"
    using begin_threads_inv(1) [OF assms(2)] begin_threads_inv(2) [of s] assms(3) c u
    by (simp add: command_ok_def stick_ok_def begin_threads_def)
  from succeedsD [OF board_dmx.run_command_good [OF assms(5)] this, of garbage p q ps]
  have "\<exists>t. run_packet fw w b ?s = (Inr (), t)" by (auto simp: run [unfolded fw_def] fw_def)
  ultimately show ?thesis by blast
qed

text \<open>The small rig's server as it enters the choice of a control.\<close>

definition demo_control :: "ece453 driver server" where
  "demo_control = demo_wheel\<lparr>currentState := CONTROL_SELECTION_MODE, currentControlIndex := 1,
     presetVisual := Some (start True (PresetVisualThread [0]))\<rparr>"

lemma demo_control_inv: "server_inv (\<lambda>s. DMX_data (hw s)) board_ready demo_control"
  using demo_wheel_inv
  by (simp add: server_inv_def demo_control_def inv_defs)
    (simp add: demo_wheel_def boot_def demo_start_def ServerAppThread_def start_def live_def preset_ok_def PresetVisualThread_def lights_in_def PRESETS_def)

theorem quick_press_hangs_server_witness:
  "fst (run_packet (sysfs_file 0 [0, 0]) calm_surroundings (action_packet B2) demo_control) = Inl Blocked \<and>
   (\<exists>t. run_packet (sysfs_file 0 [0, 0]) calm_surroundings (action_packet B2) (begin_threads demo_control) = (Inr (), t))"
  by (rule quick_press_hangs_server [OF demo_control_inv _ _ calm_demo user_action_packet(1)])
    (simp_all add: control_unbegun_def demo_control_def start_def)

end
