(* ===== verification/Server_Wheel.thy ===== *)
theory Server_Wheel
  imports Server_Faults Ps2_Controller Complex_Main
begin

text \<open>
  The colour wheel, \<open>lighting/XYConverter.java\<close>, and what a stick packet shows. The table is computed
  with \<open>float\<close> in the code and over the reals here: the pocket of white is the same, since
  rounding is monotone and 32 is exact, and the components differ by at most the rounding.
\<close>

abbreviation (input) RADIUS :: int where "RADIUS \<equiv> 512"
abbreviation (input) WHITE_RADIUS :: int where "WHITE_RADIUS \<equiv> 32"

subsection \<open>The colour of hue, saturation and brightness\<close>

text \<open>\<open>Math.atan2\<close> and \<open>Color.getHSBColor\<close> of the Java library.\<close>

definition atan2 :: "real \<Rightarrow> real \<Rightarrow> real" where
  "atan2 y x =
     (if x > 0 then arctan (y / x)
      else if x < 0 then (if y \<ge> 0 then arctan (y / x) + pi else arctan (y / x) - pi)
      else if y > 0 then pi / 2 else if y < 0 then - (pi / 2) else 0)"

definition level :: "real \<Rightarrow> int" where
  "level v = \<lfloor>v * 255 + 1 / 2\<rfloor>"

definition getHSBColor :: "real \<Rightarrow> real \<Rightarrow> real \<Rightarrow> color" where
  "getHSBColor hue saturation brightness =
     (let v = level brightness in
      if saturation = 0 then (v, v, v)
      else
        let h = frac hue * 6; f = frac h;
            p = level (brightness * (1 - saturation));
            q = level (brightness * (1 - saturation * f));
            t = level (brightness * (1 - saturation * (1 - f)))
        in if \<lfloor>h\<rfloor> = 0 then (v, t, p) else if \<lfloor>h\<rfloor> = 1 then (q, v, p) else if \<lfloor>h\<rfloor> = 2 then (p, v, t)
           else if \<lfloor>h\<rfloor> = 3 then (p, q, v) else if \<lfloor>h\<rfloor> = 4 then (t, p, v) else (v, p, q))"

subsection \<open>The table\<close>

text \<open>The distance from the centre and the entry at one pair of indices.\<close>

definition distance :: "int \<Rightarrow> int \<Rightarrow> real" where
  "distance x y = sqrt (of_int (x * x + y * y))"

definition XYConverter :: "int \<Rightarrow> int \<Rightarrow> color" where
  "XYConverter adjustedX adjustedY =
     (let x = adjustedX - RADIUS; y = adjustedY - RADIUS;
          angle = atan2 (of_int x) (of_int y) * (180 / pi)
      in if distance x y < of_int WHITE_RADIUS then WHITE
         else getHSBColor (angle / 360) (min (distance x y / of_int RADIUS) 1) 1)"

text \<open>The least and the greatest component of a colour.\<close>

fun least :: "color \<Rightarrow> int" where "least (r, g, b) = min r (min g b)"
fun greatest :: "color \<Rightarrow> int" where "greatest (r, g, b) = max r (max g b)"

lemma level_mono: "v \<le> w \<Longrightarrow> level v \<le> level w"
  unfolding level_def by (rule floor_mono) simp

lemma level_le: "v \<le> 1 \<Longrightarrow> level v \<le> 255"
  using level_mono [of v 1] by (simp add: level_def)

lemma level_ends [simp]: "level 1 = 255" "level 0 = 0"
  by (simp_all add: level_def floor_eq_iff)

lemma hsb_range:
  assumes "0 \<le> s" "s \<le> 1"
  shows "greatest (getHSBColor hue s 1) = 255" "least (getHSBColor hue s 1) = level (1 - s)"
proof -
  let ?f = "frac (frac hue * 6)"
  have f: "0 \<le> ?f" "?f \<le> 1" using frac_lt_1 [of "frac hue * 6"] by simp_all
  have "s * ?f \<le> s" "s * (1 - ?f) \<le> s" "0 \<le> s * ?f" "0 \<le> s * (1 - ?f)"
    using assms f by (simp_all add: mult_left_le)
  then have "level (1 - s) \<le> level (1 - s * ?f)" "level (1 - s) \<le> level (1 - s * (1 - ?f))"
    "level (1 - s * ?f) \<le> 255" "level (1 - s * (1 - ?f)) \<le> 255" "level (1 - s) \<le> 255"
    using assms by (auto intro!: level_mono level_le)
  then show "greatest (getHSBColor hue s 1) = 255" "least (getHSBColor hue s 1) = level (1 - s)"
    by (simp_all add: getHSBColor_def Let_def max_def min_def)
qed

text \<open>How much white is in the colour at a distance from the centre.\<close>

definition whiteness :: "real \<Rightarrow> int" where
  "whiteness away = (if away < of_int WHITE_RADIUS then 255 else level (1 - min (away / of_int RADIUS) 1))"

lemma distance_nonneg [simp]: "0 \<le> distance x y"
  unfolding distance_def by (rule real_sqrt_ge_zero) (simp only: of_int_0_le_iff, simp)

lemma XYConverter_range:
  "greatest (XYConverter i j) = 255" "least (XYConverter i j) = whiteness (distance (i - RADIUS) (j - RADIUS))"
  by (simp_all add: XYConverter_def Let_def whiteness_def hsb_range)

lemma component_typed: "0 \<le> least c \<Longrightarrow> greatest c \<le> 255 \<Longrightarrow> op_typed (Set_color c)"
  by (cases c) (auto simp: byte_ok_def)

lemma XYConverter_typed: "op_typed (Set_color (XYConverter i j))"
proof (rule component_typed)
  have "level 0 \<le> level (1 - min (distance (i - RADIUS) (j - RADIUS) / of_int RADIUS) 1)" by (rule level_mono) simp
  then show "0 \<le> least (XYConverter i j)" by (simp add: XYConverter_range whiteness_def)
  show "greatest (XYConverter i j) \<le> 255" by (simp add: XYConverter_range)
qed

text \<open>Where the wheel is white.\<close>

lemma near_centre: "distance x y < of_int WHITE_RADIUS \<longleftrightarrow> x * x + y * y < WHITE_RADIUS * WHITE_RADIUS"
proof -
  have "distance x y < of_int WHITE_RADIUS \<longleftrightarrow> of_int (x * x + y * y) < (of_int WHITE_RADIUS :: real)\<^sup>2"
    unfolding distance_def by (metis of_int_0_le_iff real_less_lsqrt real_sqrt_abs2 real_sqrt_less_iff abs_of_nonneg power2_eq_square zero_le_numeral of_int_numeral real_sqrt_abs)
  also have "(of_int WHITE_RADIUS :: real)\<^sup>2 = of_int (WHITE_RADIUS * WHITE_RADIUS)" by simp
  finally show ?thesis by (simp only: of_int_less_iff)
qed

lemma XYConverter_white: "XYConverter i j = WHITE \<longleftrightarrow> distance (i - RADIUS) (j - RADIUS) < of_int WHITE_RADIUS"
proof (cases "distance (i - RADIUS) (j - RADIUS) < of_int WHITE_RADIUS")
  case False
  let ?d = "distance (i - RADIUS) (j - RADIUS)"
  have "level (1 - min (?d / of_int RADIUS) 1) \<le> level (15 / 16)" using False by (intro level_mono) simp
  moreover have "level (15 / 16) = 239" by (simp add: level_def floor_eq_iff)
  ultimately have "least (XYConverter i j) < 255" using False by (simp add: XYConverter_range whiteness_def)
  then show ?thesis using False by auto
qed (simp add: XYConverter_def Let_def)

subsection \<open>A stick packet on the board\<close>

text \<open>What the colour writes into the shadow, with the channels of one light.\<close>

definition paint :: "fixture \<Rightarrow> color \<Rightarrow> int list \<Rightarrow> int list" where
  "paint f c shadow = (case color_spec f c of Inl e \<Rightarrow> shadow | Inr cvs \<Rightarrow> puts (nat (fx_address f)) cvs shadow)"

lemma paint_plan: "paint (plan f) = paint f"
proof -
  have "color_spec (plan f) = color_spec f" "fx_address (plan f) = fx_address f"
    by (simp_all add: plan_def color_spec_def rgb_offsets_def fun_eq_iff)
  then show ?thesis unfolding paint_def by metis
qed

lemma getColor_in:
  assumes "stick_in_range x" "stick_in_range y"
  shows "getColor table x y s = (Inr (table (c_div x 4) (c_div y 4)), s)"
proof -
  have "0 \<le> c_div z 4" if "stick_in_range z" for z
    using that by (cases "0 \<le> z") (auto simp: stick_in_range_def c_div_nonneg c_div_neg)
  then show ?thesis using assms by (simp add: getColor_def java Let_def stick_in_range_def not_le)
qed

context dmx_channels
begin

lemma on_light_paint:
  assumes "good channels ready m ps r" "i < length ps" "op_typed (Set_color c)"
  shows "\<exists>r'. on_light i (setColor fw c) r = (Inr (), r') \<and> good channels ready m ps r' \<and>
    dmxShadow (dmx r') = paint (ps ! i) c (dmxShadow (dmx r))"
proof -
  let ?l = "\<lparr>fx = profiles r ! i, drv = dmx r\<rparr>"
  note l = good_light [OF assms(1,2)]
  obtain cvs where cvs: "color_spec (profiles r ! i) c = Inr cvs" using spec_color [OF l(2), of c] by auto
  with setColor_spec [OF l(1) assms(3)] obtain d where d: "setColor fw c ?l = (Inr (), lit_put cvs d ?l)"
    by (auto simp: performs_def)
  obtain r' where r': "on_light i (setColor fw c) r = (Inr (), r')" "good channels ready m ps r'"
    using succeedsD [OF on_light_color [OF assms(2,3)] assms(1)] by auto
  have "dmxShadow (dmx r') = paint (profiles r ! i) c (dmxShadow (dmx r))"
    using r'(1) d cvs by (auto simp: on_light_def jon_def lit_put_def paint_def)
  with r' l(3) paint_plan [of "profiles r ! i"] show ?thesis by auto
qed

lemma paint_lights:
  assumes "stick_in_range x" "stick_in_range y" "op_typed (Set_color (table (c_div x 4) (c_div y 4)))" "lights_in ps L"
    "good channels ready m ps r"
  shows "\<exists>r'. jfor L (\<lambda>i. try_io (jbind (getColor table x y) (\<lambda>col. in_rig (on_light i (setColor fw col))))) (u\<lparr>rig := r\<rparr>) =
      (Inr (), u\<lparr>rig := r'\<rparr>) \<and> good channels ready m ps r' \<and>
    dmxShadow (dmx r') = fold (\<lambda>i. paint (ps ! i) (table (c_div x 4) (c_div y 4))) L (dmxShadow (dmx r))"
  using assms(4,5)
proof (induction L arbitrary: r)
  case Nil
  then show ?case by (auto simp: java)
next
  case (Cons i L)
  have "i < length ps" "lights_in ps L" using Cons.prems(1) by (simp_all add: lights_in_def)
  from on_light_paint [OF Cons.prems(2) this(1) assms(3)] obtain r1 where
    r1: "on_light i (setColor fw (table (c_div x 4) (c_div y 4))) r = (Inr (), r1)" "good channels ready m ps r1"
      "dmxShadow (dmx r1) = paint (ps ! i) (table (c_div x 4) (c_div y 4)) (dmxShadow (dmx r))" by blast
  from Cons.IH [OF \<open>lights_in ps L\<close> r1(2)] r1(1,3) show ?case
    by (auto simp: jseq_def jbind_def try_io_def getColor_in [OF assms(1,2)] in_rig_def jon_def)
qed

lemma stick_paints:
  assumes "server_inv channels ready s" "currentState s = COLOR_WHEEL_MODE" "selectedLights s = Some L"
    "packetType c = DATA_PACKET_ID" "dataType c = JOYSTICK_DATA" "joystickData c = Some (x, y)" "userActionData c \<noteq> KONAMI_COMPLETE"
    "stick_in_range x" "stick_in_range y" "op_typed (Set_color (wheel w (c_div x 4) (c_div y 4)))"
  shows "\<exists>r. run_command fw w c s = (Inr (), s\<lparr>rig := r\<rparr>) \<and>
    good channels ready (sceneManager (rig s)) (map plan (profiles (rig s))) r \<and>
    dmxShadow (dmx r) = fold (\<lambda>i. paint (profiles (rig s) ! i) (wheel w (c_div x 4) (c_div y 4))) L (dmxShadow (dmx (rig s)))"
proof -
  let ?ps = "map plan (profiles (rig s))" and ?m = "sceneManager (rig s)" and ?c = "wheel w (c_div x 4) (c_div y 4)"
  have g: "good channels ready ?m ?ps (rig s)" "lights_in ?ps L"
    using assms(1,3) chosen_lights [of ?m ?ps s] by (simp_all add: server_inv_def good_def)
  from paint_lights [where table = "wheel w", OF assms(8-10) g(2,1), of s] obtain r where
    r: "jfor L (\<lambda>i. try_io (jbind (getColor (wheel w) x y) (\<lambda>col. in_rig (on_light i (setColor fw col))))) s = (Inr (), s\<lparr>rig := r\<rparr>)"
      "good channels ready ?m ?ps r" "dmxShadow (dmx r) = fold (\<lambda>i. paint (?ps ! i) ?c) L (dmxShadow (dmx (rig s)))" by auto
  have "state_machine fw w c s = (Inr False, s\<lparr>rig := r\<rparr>)"
    using assms(2,3,5,6) r(1) by (simp add: state_machine_def color_wheel_mode_def for_selected_def java)
  from run_user_command [OF assms(4,7) this] have "run_command fw w c s = (Inr (), s\<lparr>rig := r\<rparr>)" by (simp add: jwhen_def jret_def)
  moreover have "fold (\<lambda>i. paint (?ps ! i) ?c) L v = fold (\<lambda>i. paint (profiles (rig s) ! i) ?c) L v" for v
    using g(2) by (intro List.fold_cong) (simp_all add: lights_in_def paint_plan)
  ultimately show ?thesis using r(2,3) by auto
qed

end

lemma stick_packet_painted:
  fixes garbage p q ps
  defines "fw \<equiv> sysfs_file garbage (p # q # ps)"
  assumes "controller_packet d" "data_type d = JOYSTICK_DATA"
    "stick_in_range (sint (joystick_0 d))" "stick_in_range (sint (joystick_1 d))"
    "server_inv (\<lambda>s. DMX_data (hw s)) board_ready s" "currentState s = COLOR_WHEEL_MODE" "selectedLights s = Some L" "wheel w = XYConverter"
    and c: "c = XYConverter (c_div (sint (joystick_0 d)) 4) (c_div (sint (joystick_1 d)) 4)"
  shows "\<exists>r. run_packet fw w (data_bytes d @ rest) s = (Inr (), s\<lparr>rig := r\<rparr>) \<and> sceneManager r = sceneManager (rig s) \<and>
    dmxShadow (dmx r) = fold (\<lambda>i. paint (profiles (rig s) ! i) c) L (dmxShadow (dmx (rig s))) \<and>
    board_mirrored (dmx r)"
proof -
  obtain k where k: "parse (data_bytes d @ rest) new_command = Inr (True, k)" "packetType k = DATA_PACKET_ID" "dataType k = JOYSTICK_DATA"
    "joystickData k = Some (sint (joystick_0 d), sint (joystick_1 d))" "userActionData k = 0" using parse_stick [OF assms(2,3)] by blast
  have "op_typed (Set_color (wheel w (c_div (sint (joystick_0 d)) 4) (c_div (sint (joystick_1 d)) 4)))"
    unfolding assms(9) by (rule XYConverter_typed)
  from board_dmx.stick_paints [OF assms(6,7,8) k(2-4) _ assms(4,5) this, of garbage p q ps] k(5) obtain r where
    r: "run_command fw w k s = (Inr (), s\<lparr>rig := r\<rparr>)"
      "good (\<lambda>s. DMX_data (hw s)) board_ready (sceneManager (rig s)) (map plan (profiles (rig s))) r"
      "dmxShadow (dmx r) = fold (\<lambda>i. paint (profiles (rig s) ! i) c) L (dmxShadow (dmx (rig s)))"
    by (auto simp: fw_def c assms(9))
  have "run_packet fw w (data_bytes d @ rest) s = (Inr (), s\<lparr>rig := r\<rparr>)" using r(1) k(1) by (simp add: run_packet_def)
  with r(2,3) show ?thesis by (auto simp: good_def rig_ok_def board_mirrored_def)
qed

subsection \<open>Properties\<close>

text \<open>
  C32: The colours of the wheel. Every entry of the table is a colour of bytes at full brightness, whose
  least component is set by the distance from the centre alone: white exactly inside the
  pocket, then fading to the rim. The position that the controller's firmware takes for its stick
  at rest lies outside the pocket, so there the wheel is not white.
\<close>

theorem wheel_colours:
  "op_typed (Set_color (XYConverter i j)) \<and> greatest (XYConverter i j) = 255 \<and>
   least (XYConverter i j) = whiteness (distance (i - RADIUS) (j - RADIUS)) \<and>
   (XYConverter i j = WHITE \<longleftrightarrow> (i - RADIUS) * (i - RADIUS) + (j - RADIUS) * (j - RADIUS) < WHITE_RADIUS * WHITE_RADIUS) \<and>
   least (XYConverter (c_div \<lfloor>X_CENTER\<rfloor> 4) (c_div \<lfloor>Y_CENTER\<rfloor> 4)) = 214"
proof -
  have "c_div \<lfloor>X_CENTER\<rfloor> 4 = 480" "c_div \<lfloor>Y_CENTER\<rfloor> 4 = 437" by (simp_all add: c_div_nonneg)
  moreover have "815 / 10 \<le> distance (-32) (-75)" "distance (-32) (-75) \<le> 816 / 10"
    unfolding distance_def by (intro real_le_rsqrt real_le_lsqrt; simp add: power2_eq_square)+
  then have "whiteness (distance (-32) (-75)) = 214"
    by (simp add: whiteness_def level_def floor_eq_iff min_def)
  ultimately show ?thesis
    by (simp add: XYConverter_range XYConverter_typed XYConverter_white near_centre [simplified] del: op_typed.simps)
qed

text \<open>
  C12: A stick packet paints the lights. In the colour wheel a packet in range is served, whatever
  lies behind it in the buffer; it writes the colour of its position into red, green and blue of the
  selected lights, in their order, and into nothing else; the board's memory follows, and
  everything of the server but the rig is as it was.
\<close>

theorem stick_paints_board:
  fixes garbage p q ps
  defines "fw \<equiv> sysfs_file garbage (p # q # ps)"
  assumes "controller_packet d" "data_type d = JOYSTICK_DATA"
    "stick_in_range (sint (joystick_0 d))" "stick_in_range (sint (joystick_1 d))"
    "server_inv (\<lambda>s. DMX_data (hw s)) board_ready s" "currentState s = COLOR_WHEEL_MODE" "selectedLights s = Some L" "wheel w = XYConverter"
    and c: "c = XYConverter (c_div (sint (joystick_0 d)) 4) (c_div (sint (joystick_1 d)) 4)"
  shows "\<exists>r. run_packet fw w (data_bytes d @ rest) s = (Inr (), s\<lparr>rig := r\<rparr>) \<and> sceneManager r = sceneManager (rig s) \<and>
    dmxShadow (dmx r) = fold (\<lambda>i. paint (profiles (rig s) ! i) c) L (dmxShadow (dmx (rig s))) \<and>
    tl (DMX_data (hw (regs (dmx r)))) = map word_of_int (tl (dmxShadow (dmx r)))"
  using stick_packet_painted [OF assms(2-9) c, of garbage p q ps rest]
  by (auto simp: fw_def board_mirrored_def mirrored_def map_tl)

text \<open>The small rig, with the stick in the middle.\<close>

theorem stick_paints_board_witness:
  "\<exists>r. run_packet (sysfs_file 0 [0, 0]) (calm_surroundings\<lparr>wheel := XYConverter\<rparr>) (data_bytes (stick_packet 2048 2048) @ []) demo_wheel =
      (Inr (), demo_wheel\<lparr>rig := r\<rparr>) \<and>
     tl (DMX_data (hw (regs (dmx r)))) = map word_of_int (tl ((replicate 513 0)[6 := 255, 7 := 255, 8 := 255]))"
proof -
  have white: "XYConverter (c_div 2048 4) (c_div 2048 4) = (255, 255, 255)"
    by (simp add: XYConverter_def distance_def c_div_nonneg)
  have "controller_packet (stick_packet 2048 2048)" "data_type (stick_packet 2048 2048) = JOYSTICK_DATA"
    "stick_in_range (sint (joystick_0 (stick_packet 2048 2048)))" "stick_in_range (sint (joystick_1 (stick_packet 2048 2048)))"
    by (simp_all add: controller_packet_def stick_packet_def stick_in_range_def)
  note packet = this
  have "currentState demo_wheel = COLOR_WHEEL_MODE" "selectedLights demo_wheel = Some [0]" by (simp_all add: demo_wheel_def)
  from stick_paints_board [OF packet demo_wheel_inv this, of "calm_surroundings\<lparr>wheel := XYConverter\<rparr>" _ 0 0 0 "[]" "[]", OF _ HOL.refl]
  show ?thesis
    by (auto simp: stick_packet_def white demo_wheel_def boot_def demo_start_def ServerAppThread_def fresh_dmx_def demo_light_def
        paint_def color_spec_def rgb_offsets_def puts_def)
qed

end
