(* ===== verification/Spec2Isabelle.thy ===== *)
theory Spec2Isabelle
  imports Main_System Board_Programs Dmx_Transmitter Uart_Install Dmx_Race Server_Wheel
begin

text \<open>
  Chuck Light is a wireless controller for stage lights. A hand-held controller reads a
  stick, buttons and a motion sensor and reports to a base station over UDP; the base station
  writes channel values into a register block on an FPGA, and a transmitter sends them on a
  DMX512 line. This development models the controller's firmware (\<open>firmware/main\<close>), its
  serial driver (\<open>firmware/main/drivers/uart.c\<close>), and of the base station the server
  (\<open>chuck_server\<close>), the programs (\<open>apps\<close>), the kernel module (\<open>kernel\<close>) and the
  hardware (\<open>dmx_module\<close>).

  \<^bold>\<open>How the parts interact.\<close> In the firmware a timer interrupt sets a flag; the main loop
  polls stick and buttons when it is set, feeds what it sees to the recogniser of the hidden
  codes, lets the current mode act, and reports what is left to the peer. The network callback
  runs between any two steps and can set mode and peer. On the base station the server
  queues the datagrams, runs one command after the other in a state machine of nine modes, and
  tells the controller its mode with heartbeats; threads of its own animate the lights. It writes,
  like the test programs, text to files under \<open>/sys/kernel/ece453\<close>; the driver turns it into bus
  writes; the register block copies bytes into the channel memory; the transmitter reads that
  memory while it sends.

  \<^bold>\<open>Theories of the controller.\<close>
  \<^item> \<open>Chuck_Prelude\<close>: integer types, the result type, running a step function over inputs, and
    the interfaces \<open>input_machine\<close>, \<open>press_counter\<close>, \<open>debounce\<close> and \<open>tick_timer\<close>, which state
    once what all the counters of the firmware have in common.
  \<^item> \<open>Firmware_Defs\<close>: the constants of \<open>lib/*.h\<close>. \<open>Esp_Calls\<close>: the calls into ESP-IDF,
    FreeRTOS and lwIP as recorded values. \<open>Modes\<close>: \<open>get_mode\<close> and \<open>set_mode\<close> of \<open>main.c\<close>.
  \<^item> \<open>Konami\<close> (\<open>konami.c\<close>): \<open>check_konami\<close> implements a matcher with two tables; a code completes
    exactly when it was entered, and is forgotten after its timeout.
  \<^item> \<open>Button_Controllers\<close>, \<open>Ps2_Controller\<close>, \<open>Led_Controller\<close>, \<open>Motion_Controllers\<close>,
    \<open>Timer_Controller\<close>, \<open>Connection_Controller\<close> (the C files of these names): one record for the
    static variables, one definition for each function; debouncing and auto-repeat, the Morse
    animation, the moving average and its range, the alarm, waiting for the network.
  \<^item> \<open>Packets\<close> (\<open>lib/udp_controller.h\<close>): packed structures and their bytes, as interpretations of
    \<open>wire_format\<close>. \<open>Udp_Controller\<close> (\<open>udp_controller.c\<close>): sending and receiving.
    \<open>Base_Station\<close> (\<open>WirelessCommand.java\<close>, \<open>HeartBeatThread.java\<close>): what is sent is parsed.
  \<^item> \<open>Main_Loop\<close> (\<open>main.c\<close>): one definition for each part of the loop. \<open>Main_System\<close>: the loop,
    the interrupt, the callback and restarts as a step relation; the invariant of every
    reachable state, what is reported, and how often.

  \<^bold>\<open>Theories of the serial driver\<close>, all from \<open>uart.c\<close>.
  \<^item> \<open>Uart_State\<close>: registers with their fields, FIFOs, \<open>uart_obj_t\<close>, semaphores as \<open>bool option\<close>
    (\<open>None\<close> is a null handle), recorded calls.
  \<^item> \<open>Uart_Config\<close>: the configuration functions; \<open>uart_setting\<close> is the law of a setter and its
    getter, with four interpretations.
  \<^item> \<open>Uart_Isr\<close>: the interrupt handler. \<open>stream_ok\<close> is the grammar of the transmit ring buffer and
    \<open>pending\<close> the bytes it owes; the transmit loop moves these bytes. The handler returns, except
    from its \<open>continue\<close> branches.
  \<^item> \<open>Uart_Receive\<close>: reading and flushing refine a byte stream, \<open>received\<close>.
  \<^item> \<open>Uart_Transmit\<close>: writing through the ring buffer, and without one, where the writer waits
    for the handler. \<open>Uart_Install\<close>: creating and deleting the driver establish and give back
    what the other functions rely on.

  \<^bold>\<open>Theories of the base station's programs and hardware.\<close>
  \<^item> \<open>Hex_Text\<close>: the number formats of \<open>sprintf\<close>, \<open>sscanf\<close> and \<open>strtoul\<close> that carry registers as text.
  \<^item> \<open>Ece453_Device\<close> (\<open>ece453.sv\<close>, write port of \<open>dmx512.sv\<close>): one clock edge at a time; \<open>mmio\<close> is
    the interface of its storage registers.
  \<^item> \<open>Ece453_Driver\<close> (\<open>ece453_driver.c\<close>, \<open>apps/drivers/ece453.c\<close>): sysfs files, interrupt handler,
    probe and remove, and the user library, over any device with \<open>mmio\<close>.
  \<^item> \<open>Ece453_Apps\<close>, \<open>Board_Programs\<close>: touch controller, LED programs, DMX test, board tests, over
    the interfaces \<open>output_register\<close> and \<open>gpio_board\<close>, which library, driver and hardware satisfy.
  \<^item> \<open>Dmx_Transmitter\<close> (\<open>dmx512.sv\<close>): the waveform on the line is the memory, packet by packet.
    The properties below join it to the DMX test program, and to the stick of the controller.

  \<^bold>\<open>Theories of the base station's server\<close>, from \<open>chuck_server/src/chuck\<close>.
  \<^item> \<open>Java_Prelude\<close>: a method as a function from the state of its objects to a result or an
    exception and the new state; \<open>succeeds\<close> and \<open>keeps\<close>, the rules that carry the proofs.
  \<^item> \<open>Dmx_Driver\<close> (\<open>dmx/DefaultDMX.java\<close>): the shadow and the packed register writes.
    \<open>dmx_channels\<close> is what it relies on, kernel driver and register block provide it, and what the
    driver believes is what the board's memory holds. \<open>Dmx_Race\<close>: not so when two threads write at once.
  \<^item> \<open>Scenes\<close> (\<open>SceneManager.java\<close>): the ring of scenes and their file. \<open>Fixtures\<close>
    (\<open>FixtureProfile.java\<close>, \<open>FixtureManager.java\<close>): lights with named channels; each operation
    against a specification of what it writes and when it throws; the saved set of lights.
  \<^item> \<open>Visuals\<close> (\<open>HighlightThread\<close>, \<open>PresetVisualThread\<close>, \<open>RainbowThread\<close>, \<open>DMXVisualThread\<close>,
    \<open>ChaseThread\<close>): one definition for each turn of a thread, on the rig it shares with the server;
    the highlight gives every light back as it found it.
  \<^item> \<open>Server_App\<close> (\<open>ServerAppThread.java\<close>, \<open>HeartBeatThread.java\<close>, \<open>XYConverter.getColor\<close>): one
    definition for each mode, for starting and ending the threads, and for a whole command. A thread
    has the flag \<open>running\<close> of the source; \<open>join\<close> runs the thread that is waited for until it is over,
    and blocks if that never happens.
  \<^item> \<open>Server_Modes\<close>, \<open>Server_Commands\<close>: the invariant, and that every mode keeps it and throws
    nothing. \<open>Server_Announce\<close>: a change of the mode is announced by one heartbeat.
  \<^item> \<open>Server_System\<close> (with \<open>UDPServerThread.java\<close>): server, receiver, heartbeat and threads as a step
    relation; no state that is reached within the limits named below has crashed, and exactly the
    thread of the mode runs in it. \<open>Server_Cancel\<close>: a selection that is cancelled leaves no
    trace on the board. \<open>Server_Faults\<close>: the runs that the assumptions keep out, and what goes wrong in
    them. \<open>Server_Wheel\<close> (\<open>XYConverter.java\<close>): the colours of the wheel and what a stick packet shows.

  \<^bold>\<open>Fuel and bounds.\<close> Loops that end are functions with a termination proof or recurse on their
  input. Loops that wait for something outside take the list of what happens there and are
  \<open>None\<close> when it is used up. Waiting for the end of a thread of the server is \<open>while_option\<close>, and
  \<open>None\<close> is a wait without end. The remaining loops have fuel, and a theorem says how much is
  enough: 32 turns of the interrupt handler for what is pending and 33 for each interference;
  one round for each byte asked for in a read and for each byte held in a flush; one round
  for each byte written, and two stretches of hardware activity. The theorem on breaks shows
  that no fuel is enough there.

  \<^bold>\<open>Not modelled.\<close> Vendor libraries (ESP-IDF, FreeRTOS, lwIP, the Linux kernel, the display
  library) are recorded calls and parameters. The ring buffer of the serial driver is a list;
  whether it has room and how it cuts its content into items are parameters, and a writer that
  waits for room is not interleaved with the handler that makes it. Messages for the log and
  \<open>printConnectionInfo\<close>, which only logs, are left out. The glyph tables of
  \<open>apps/drivers/fonts.c\<close> have no behaviour; \<open>serial_controller.c\<close> and \<open>data_controller.c\<close> are empty.
  Of the server a command and a turn of a thread are steps of their own; two threads in the middle of
  their register writes at the same time are looked at in \<open>Dmx_Race\<close> only. Threads that nothing
  refers to any more take no turns. The invariant of the server is about runs in which started threads reach their
  loops before the next command is served, stick positions are in range in the colour wheel, no party
  code comes while a thread runs, and files and network work; \<open>Server_Faults\<close> says why. While the server
  waits for a thread, only that thread runs. The colour table is computed over
  the reals; with the single precision of the source 15 of its 1048576 entries differ, by one in
  their middle component, and none in the least or the greatest or in being white. The random
  colours of the party are an argument. The console dialogue \<open>UserCLI\<close>, the
  test windows and the stand-in \<open>DMXDummy\<close> are user interface. The boot loader and the generated
  hardware description under \<open>SoC\<close> are vendored.
\<close>

subsection \<open>From the command line to the line\<close>

text \<open>The memory of the register block in the cycles that follow a state, with the given levels on the input pins.\<close>

definition memory_over :: "u32 list \<Rightarrow> ece453 \<Rightarrow> u8 list list" where
  "memory_over ps r = map (\<lambda>k. DMX_data (fold idle (take k ps) r)) [0..<length ps]"

text \<open>
  C8: A channel set from the command line is sent on the line. Two cycles after \<open>dmx_test\<close> has
  written channel and value through the library, the sysfs files, the driver and the
  register block, the transmitter's next packet carries in the frame of that channel the
  low byte of the value, and in every other frame what it carried before.
\<close>

theorem dmx_test_reaches_line:
  assumes "settled (hw s)" and "1 \<le> a" and "a \<le> 512" and "length (DMX_data (hw s)) = 513"
    and "dmx_state d = D_IDLE" and "timer d = 0" and "length ps = PACKET"
    and "r = fold idle [p, q] (hw (dmx_test (lib_put garbage) a v s))"
  shows "line_out (memory_over ps r) d = packet_levels ((DMX_data (hw s))[nat a := word_of_int v]) \<and>
    take 2211 (drop (8103 + 2211 * nat a) (line_out (memory_over ps r) d)) = byte_levels (word_of_int v)"
proof -
  define mem where "mem = (DMX_data (hw s))[nat a := word_of_int v]"
  have "DMX_data (fold idle (take k ps) r) = mem" for k
    using dmx_test_sets_channel [OF assms(1), of a "p # q # take k ps" garbage v] assms(2,3,8)
    by (simp add: int32_def mem_def)
  then have "memory_over ps r = replicate PACKET mem"
    unfolding memory_over_def assms(7) by (simp only: map_replicate_const length_upt diff_zero)
  then have "line_out (memory_over ps r) d = packet_levels mem"
    using packet_phase [OF assms(5,6)] by simp
  moreover have "mem ! nat a = word_of_int v" "nat a < 513" using assms(2,3,4) by (simp_all add: mem_def)
  ultimately show ?thesis using packet_channel [of "nat a" mem] by (simp add: mem_def)
qed

theorem dmx_test_reaches_line_witness:
  "line_out (memory_over (replicate PACKET 0) (fold idle [0, 0] (hw (dmx_test (lib_put 0) 5 255 \<lparr>hw = ece453_reset 0, pid = 0\<rparr>))))
      dmx512_reset = packet_levels ((replicate 513 0)[5 := 255])"
proof -
  have h: "settled (hw \<lparr>hw = ece453_reset 0, pid = 0\<rparr>)" "(1 :: int) \<le> 5" "(5 :: int) \<le> 512"
      "length (DMX_data (hw \<lparr>hw = ece453_reset 0, pid = 0\<rparr>)) = 513" "dmx_state dmx512_reset = D_IDLE" "timer dmx512_reset = 0"
      "length (replicate PACKET (0 :: u32)) = PACKET"
    by (simp_all only: length_replicate) (simp_all add: settled_def ece453_reset_def dmx512_reset_def)
  have m: "DMX_data (hw \<lparr>hw = ece453_reset 0, pid = 0\<rparr>) = replicate 513 0" "nat 5 = 5" "(word_of_int 255 :: u8) = 255"
    by (simp_all add: ece453_reset_def)
  show ?thesis
    using dmx_test_reaches_line [OF h HOL.refl, of 0 0 0 255, THEN conjunct1] unfolding m .
qed

subsection \<open>From the stick to the line\<close>

lemma settled_memory: "settled r \<Longrightarrow> memory_over ps r = replicate (length ps) (DMX_data r)"
  by (simp add: memory_over_def idle_settled map_replicate_const)

text \<open>
  C3: The stick of the controller colours the lights. In the colour wheel, when the refresh is due, the
  firmware sends one datagram with its sample; whatever is left in the buffer behind it, the
  server serves it, and the transmitter's next packet carries on every channel what was shown before,
  with the colour of the stick's position in red, green and blue of the selected lights. Every
  sample of the 12 bit converter is in range.
\<close>

theorem stick_reaches_line:
  fixes garbage p q ps
  defines "fw \<equiv> sysfs_file garbage (p # q # ps)"
  assumes controller: "udp_inv (udp m)" "DEST_IP (udp m) = Some ip" "xy_tick m > XY_REFRESH_RATE" "refresh_alloc inp"
      "xy_sample inp = (x, y)" "0 \<le> x" "x < 4096" "0 \<le> y" "y < 4096"
    and server: "server_inv (\<lambda>s. DMX_data (hw s)) board_ready s" "currentState s = COLOR_WHEEL_MODE" "selectedLights s = Some L"
      "wheel w = XYConverter"
    and line: "dmx_state d = D_IDLE" "timer d = 0" "length pins = PACKET"
    and shadow: "shadow = fold (\<lambda>i. paint (profiles (rig s) ! i) (XYConverter (x div 4) (y div 4))) L (dmxShadow (dmx (rig s)))"
  shows "\<exists>cs m' b r z. send_stick inp m = Inr (cs, m') \<and> sent cs = [b] \<and>
    run_packet fw w (b @ rest) s = (Inr (), s\<lparr>rig := r\<rparr>) \<and>
    line_out (memory_over pins (hw (regs (dmx r)))) d = packet_levels (z # map word_of_int (tl shadow))"
proof -
  let ?d = "(DATA_PACKET (udp m))\<lparr>data_header := (data_header (DATA_PACKET (udp m)))\<lparr>hdr_mode := MODE (modes (udp m))\<rparr>,
    data_type := JOYSTICK_DATA\<rparr>"
  let ?e = "?d\<lparr>joystick_0 := word_of_int x, joystick_1 := word_of_int y\<rparr>"
  have "fill_data JOYSTICK_DATA 0 (Some [word_of_int x, word_of_int y]) ?d = Inr ?e" by (simp add: fill_data_def read_int_def)
  note packet = send_data_packet_sends [OF controller(1,2) this]
  obtain cs where cs: "send_data_packet True JOYSTICK_DATA 0 (Some [word_of_int x, word_of_int y]) (udp m) = Inr (cs, (udp m)\<lparr>DATA_PACKET := ?e\<rparr>)"
    "sent cs = [data_bytes ?e]" using packet(1) by blast
  have sends: "\<exists>m'. send_stick inp m = Inr (cs, m')"
    using controller(3-5) cs(1) by (simp add: send_stick_def send_def read_xy_def Let_def)
  have "sint (word_of_int x :: u32) = x" "sint (word_of_int y :: u32) = y"
    using controller(6-9) by (simp_all add: int32_def)
  then have at: "sint (joystick_0 ?e) = x" "sint (joystick_1 ?e) = y" by simp_all
  have range: "stick_in_range (sint (joystick_0 ?e))" "stick_in_range (sint (joystick_1 ?e))"
    using controller(6-9) unfolding at by (simp_all add: stick_in_range_def)
  from stick_packet_painted [OF packet(2,4) range server HOL.refl, of garbage p q ps rest] obtain r where
    r: "run_packet fw w (data_bytes ?e @ rest) s = (Inr (), s\<lparr>rig := r\<rparr>)" "dmxShadow (dmx r) = shadow"
      "board_mirrored (dmx r)"
    unfolding at using controller(6-9) by (auto simp: fw_def shadow c_div_nonneg)
  let ?h = "hw (regs (dmx r))"
  have h: "settled ?h" "length (DMX_data ?h) = 513" "tl (DMX_data ?h) = map word_of_int (tl shadow)"
    using r(2,3) by (simp_all add: board_mirrored_def mirrored_def board_ready_def map_tl)
  have "DMX_data ?h = hd (DMX_data ?h) # map word_of_int (tl shadow)"
    using h(2,3) by (metis length_0_conv list.collapse zero_neq_numeral)
  moreover have "line_out (memory_over pins ?h) d = packet_levels (DMX_data ?h)"
    using packet_phase [OF line(1,2)] by (simp only: settled_memory [OF h(1)] line(3))
  ultimately have "line_out (memory_over pins ?h) d = packet_levels (hd (DMX_data ?h) # map word_of_int (tl shadow))" by simp
  with sends cs(2) r(1) show ?thesis by blast
qed

text \<open>A controller that has heard from the station and the small rig, with the stick in the middle: white on the one light.\<close>

theorem stick_reaches_line_witness:
  "\<exists>cs m' b r z. send_stick (example_input\<lparr>xy_sample := (2048, 2048)\<rparr>)
       (booted\<lparr>udp := heartbeat_state COLOR_WHEEL_MODE 0x0A000001 (udp booted), xy_tick := 31\<rparr>) = Inr (cs, m') \<and> sent cs = [b] \<and>
     run_packet (sysfs_file 0 [0, 0]) (calm_surroundings\<lparr>wheel := XYConverter\<rparr>) (b @ replicate 1000 7) demo_wheel =
       (Inr (), demo_wheel\<lparr>rig := r\<rparr>) \<and>
     line_out (memory_over (replicate PACKET 0) (hw (regs (dmx r)))) dmx512_reset =
       packet_levels (z # map word_of_int (tl ((replicate 513 0)[6 := 255, 7 := 255, 8 := 255])))"
proof -
  let ?m = "booted\<lparr>udp := heartbeat_state COLOR_WHEEL_MODE 0x0A000001 (udp booted), xy_tick := 31\<rparr>"
  let ?i = "example_input\<lparr>xy_sample := (2048, 2048)\<rparr>"
  have "main_inv (booted\<lparr>udp := heartbeat_state COLOR_WHEEL_MODE 0x0A000001 (udp booted)\<rparr>)"
    using reachable_inv [OF reachable.step [OF booted_reachable heartbeat_step [of _ _ _ COLOR_WHEEL_MODE "0x0A000001"]]] by simp
  then have m: "udp_inv (udp ?m)" by (simp add: main_inv_def)
  have h: "DEST_IP (udp ?m) = Some 0x0A000001" "xy_tick ?m > XY_REFRESH_RATE" "refresh_alloc ?i" "xy_sample ?i = (2048, 2048)"
      "(0 :: int) \<le> 2048" "(2048 :: int) < 4096" "(0 :: int) \<le> 2048" "(2048 :: int) < 4096"
    by (simp_all add: heartbeat_state_def example_input_def)
  have s: "currentState demo_wheel = COLOR_WHEEL_MODE" "selectedLights demo_wheel = Some [0]"
      "wheel (calm_surroundings\<lparr>wheel := XYConverter\<rparr>) = XYConverter" by (simp_all add: demo_wheel_def)
  have l: "dmx_state dmx512_reset = D_IDLE" "timer dmx512_reset = 0" "length (replicate PACKET (0 :: u32)) = PACKET"
    by (simp_all only: length_replicate) (simp_all add: dmx512_reset_def)
  have "XYConverter (2048 div 4) (2048 div 4) = (255, 255, 255)" by (simp add: XYConverter_def distance_def)
  then have shadow: "(replicate 513 0)[6 := 255, 7 := 255, 8 := 255] =
      fold (\<lambda>i. paint (profiles (rig demo_wheel) ! i) (XYConverter (2048 div 4) (2048 div 4))) [0] (dmxShadow (dmx (rig demo_wheel)))"
    by (simp add: demo_wheel_def boot_def demo_start_def ServerAppThread_def fresh_dmx_def demo_light_def
        paint_def color_spec_def rgb_offsets_def puts_def)
  show ?thesis by (rule stick_reaches_line [OF m h demo_wheel_inv s l shadow])
qed

end
